(* ===== verification/Scn_Prelude.thy ===== *)
theory Scn_Prelude
  imports Main "HOL-Library.Word" "HOL-Library.Char_ord" "HOL-Library.List_Lexorder"
begin

text \<open>
  Prelude of the SwabianCoin development: the machine types of src/src/scn/Common/Common.h, the
  result type that carries aborts and undefined behaviour as values, and the generic lemmas on
  words and lists that the component theories share.
\<close>

section \<open>Machine types\<close>

type_synonym byte = "8 word"
type_synonym u8 = "8 word"
type_synonym u16 = "16 word"
type_synonym u32 = "32 word"
type_synonym i32 = "32 word"
type_synonym u64 = "64 word"
type_synonym i64 = "64 word"
type_synonym u512 = "512 word"

text \<open>The typedefs of Common.h, lines 28 to 42.\<close>

type_synonym hash_t = "256 word"
type_synonym private_key_t = string
type_synonym signature_t = string
type_synonym epoch_t = u64
type_synonym block_uid_t = u64
type_synonym blockchain_time_t = u64
type_synonym peer_id_t = string

section \<open>Results\<close>

text \<open>
  What can stop a call of the C++ program: a failed \<open>assert\<close> (in builds without
  \<open>NDEBUG\<close>), a dereferenced null \<open>shared_ptr\<close>, a \<open>static_pointer_cast\<close> to the
  wrong block class, an index outside a container, an exception that nobody catches, an integer divided by
  zero, a variable read that nothing was stored in, a floating point number converted to an integer type
  that does not hold it.
\<close>

datatype scn_error = AssertFailed | NullDeref | BadCast | OutOfRange | Uncaught | DivByZero | Uninitialized | BadConversion

type_synonym 'a res = "scn_error + 'a"

definition bind_res :: "'a res \<Rightarrow> ('a \<Rightarrow> 'b res) \<Rightarrow> 'b res" where
  "bind_res x f = (case x of Inl e \<Rightarrow> Inl e | Inr a \<Rightarrow> f a)"

text \<open>\<open>assert(c)\<close> with the build's \<open>NDEBUG\<close>: the statement after it, or the abort.\<close>

definition assert_res :: "bool \<Rightarrow> bool \<Rightarrow> 'a res \<Rightarrow> 'a res" where
  "assert_res ndebug c k = (if ndebug \<or> c then k else Inl AssertFailed)"

named_theorems res_simps \<open>unfolding of the result monad\<close>
named_theorems codec \<open>reader after writer equations of the archive format\<close>
named_theorems wf_intros \<open>well-formedness of the model's containers\<close>

lemma bind_res_simps [simp]:
  "bind_res (Inr a) f = f a"
  "bind_res (Inl e) f = Inl e"
  by (simp_all add: bind_res_def)

lemma bind_res_eq_Inr [res_simps]:
  "bind_res x f = Inr b \<longleftrightarrow> (\<exists>a. x = Inr a \<and> f a = Inr b)"
  by (cases x) auto

lemma bind_res_assoc: "bind_res (bind_res x f) g = bind_res x (\<lambda>a. bind_res (f a) g)"
  by (cases x) auto

lemma assert_res_simps [simp]:
  "assert_res True c k = k"
  "assert_res n True k = k"
  "assert_res False False k = Inl AssertFailed"
  by (simp_all add: assert_res_def)

lemma assert_res_eq_Inr [res_simps]:
  "assert_res n c k = Inr b \<longleftrightarrow> (n \<or> c) \<and> k = Inr b"
  by (auto simp: assert_res_def)

section \<open>Bytes of a word\<close>

text \<open>The low \<open>n\<close> bytes of a word, least significant first, and back.\<close>

primrec bytes_le :: "nat \<Rightarrow> 'a::len word \<Rightarrow> byte list" where
  "bytes_le 0 w = []"
| "bytes_le (Suc n) w = ucast w # bytes_le n (drop_bit 8 w)"

primrec word_le :: "byte list \<Rightarrow> 'a::len word" where
  "word_le [] = 0"
| "word_le (b # bs) = or (ucast b) (push_bit 8 (word_le bs))"

lemma length_bytes_le [simp]: "length (bytes_le n w) = n"
  by (induction n arbitrary: w) auto

lemma word_le_bytes_le: "word_le (bytes_le n (w :: 'a::len word)) = take_bit (8 * n) w"
proof (induction n arbitrary: w)
  case (Suc n)
  show ?case
    by (rule bit_eqI) (auto simp: Suc.IH bit_simps)
qed simp

lemma word_le_bytes_le_full:
  "LENGTH('a) \<le> 8 * n \<Longrightarrow> word_le (bytes_le n (w :: 'a::len word)) = w"
  by (simp add: word_le_bytes_le take_bit_word_eq_self)

lemma nth_bytes_le:
  "i < n \<Longrightarrow> bytes_le n w ! i = ucast (drop_bit (8 * i) w)"
proof (induction n arbitrary: i w)
  case (Suc n)
  then show ?case by (cases i) (simp_all add: add.commute)
qed simp

lemma bit_word_le:
  "bit (word_le bs :: 'a::len word) k \<longleftrightarrow>
     k < LENGTH('a) \<and> k < 8 * length bs \<and> bit (bs ! (k div 8)) (k mod 8)"
proof (induction bs arbitrary: k)
  case (Cons b bs)
  show ?case
  proof (cases "k < 8")
    case True
    then show ?thesis by (auto simp: bit_simps)
  next
    case False
    then have "k div 8 = Suc ((k - 8) div 8)" "k mod 8 = (k - 8) mod 8"
      by (simp_all add: le_div_geq le_mod_geq)
    with False show ?thesis
      by (auto simp: bit_simps Cons.IH dest: bit_imp_le_length)
  qed
qed simp

lemma bytes_le_word_le:
  assumes "8 * length bs \<le> LENGTH('a)"
  shows "bytes_le (length bs) (word_le bs :: 'a::len word) = bs"
proof (rule nth_equalityI)
  fix i assume "i < length (bytes_le (length bs) (word_le bs :: 'a word))"
  then have i: "i < length bs" by simp
  show "bytes_le (length bs) (word_le bs :: 'a word) ! i = bs ! i"
  proof (rule bit_eqI)
    fix j assume "possible_bit TYPE(byte) j"
    then have j: "j < 8" by simp
    then have "8 * i + j < 8 * length bs" "(8 * i + j) div 8 = i" "(8 * i + j) mod 8 = j"
      using i by simp_all
    then show "bit (bytes_le (length bs) (word_le bs :: 'a word) ! i) j = bit (bs ! i) j"
      using i j assms by (simp add: nth_bytes_le bit_simps bit_word_le)
  qed
qed simp

lemma bytes_le_inj:
  "LENGTH('a) \<le> 8 * n \<Longrightarrow> bytes_le n (v :: 'a::len word) = bytes_le n w \<Longrightarrow> v = w"
  by (metis word_le_bytes_le_full)

section \<open>Words and natural numbers\<close>

lemma unat_of_nat_small: "n < 2 ^ LENGTH('a) \<Longrightarrow> unat (of_nat n :: 'a::len word) = n"
  by (simp add: unat_of_nat take_bit_nat_eq_self)

lemma unat_add_small: "unat (u :: u64) + j < 2 ^ 64 \<Longrightarrow> unat (u + of_nat j) = unat u + j"
  by (simp add: unat_word_ariths unat_of_nat_small)

lemma of_nat_div_word:
  assumes "a < 2 ^ LENGTH('a)" "b < 2 ^ LENGTH('a)"
  shows "(of_nat a :: 'a::len word) div of_nat b = of_nat (a div b)"
proof -
  have "a div b < 2 ^ LENGTH('a)"
    using assms(1) by (meson div_le_dividend order_le_less_trans)
  with assms show ?thesis
    by (simp add: word_unat_eq_iff unat_div_distrib unat_of_nat take_bit_nat_eq_self)
qed

lemma unat_ucast_u32 [simp]: "unat (ucast (x :: u32) :: u64) = unat x"
proof -
  have "unat x < 2 ^ 64" by (rule order_less_le_trans [OF unsigned_less]) simp
  then show ?thesis by (simp add: unsigned_ucast_eq take_bit_nat_eq_self)
qed

lemma unat_plus_1: "x \<noteq> - 1 \<Longrightarrow> unat (x + 1) = Suc (unat x)" for x :: "'a::len word"
  by (metis add.commute add_eq_0_iff unatSuc)

lemma word_less_plus_1: "x \<noteq> - 1 \<Longrightarrow> x < x + 1" for x :: "'a::len word"
  by (simp add: word_less_nat_alt unat_plus_1)

lemma word_less_plus_1_iff: "x \<noteq> - 1 \<Longrightarrow> y < x + 1 \<longleftrightarrow> y \<le> x" for x y :: "'a::len word"
  by (simp add: word_less_nat_alt word_le_nat_alt unat_plus_1 less_Suc_eq_le)

lemma word_less_not_max: "x < y \<Longrightarrow> x \<noteq> - 1" for x y :: "'a::len word"
  using word_order.extremum_strict by blast

section \<open>Decimal numbers\<close>

text \<open>\<open>std::to_string\<close> of an unsigned number.\<close>

fun dec_of_nat :: "nat \<Rightarrow> string" where
  "dec_of_nat n = (if n < 10 then [char_of (48 + n)] else dec_of_nat (n div 10) @ [char_of (48 + n mod 10)])"

declare dec_of_nat.simps [simp del]

end
