(* ===== verification/Hash_Helper.thy ===== *)
theory Hash_Helper
  imports Scn_Prelude
begin

text \<open>
  The namespace \<open>hash_helper\<close> of src/src/scn/Common/Common.cpp: a 256-bit hash as upper-case
  hexadecimal text and as the 32 bytes, most significant first, that SHA-256 produces.
\<close>

section \<open>Text form\<close>

definition hex_digit :: "nat \<Rightarrow> char" where
  "hex_digit d = ''0123456789ABCDEF'' ! (d mod 16)"

text \<open>Positional notation without leading zeros; zero is one digit.\<close>

fun hex_of_nat :: "nat \<Rightarrow> string" where
  "hex_of_nat n = (if n < 16 then [hex_digit n] else hex_of_nat (n div 16) @ [hex_digit (n mod 16)])"

declare hex_of_nat.simps [simp del]

definition hash_toString :: "hash_t \<Rightarrow> string" where
  "hash_toString h = hex_of_nat (unat h)"

section \<open>Byte form\<close>

text \<open>The loop of \<open>toArray\<close>: at step \<open>i\<close> the lowest byte goes to position \<open>32 - 1 - i\<close>.\<close>

function toArray_loop :: "nat \<Rightarrow> hash_t \<Rightarrow> byte list \<Rightarrow> byte list" where
  "toArray_loop i temp array =
     (if i < 32 then toArray_loop (Suc i) (drop_bit 8 temp) (array[32 - 1 - i := ucast temp])
      else array)"
  by pat_completeness auto
termination
  by (relation "measure (\<lambda>(i, _). 32 - i)") auto

declare toArray_loop.simps [simp del]

definition toArray :: "hash_t \<Rightarrow> byte list \<Rightarrow> byte list" where
  "toArray h array = toArray_loop 0 h array"

text \<open>The loop of \<open>fromArray\<close> over the 32 bytes.\<close>

definition fromArray :: "byte list \<Rightarrow> hash_t" where
  "fromArray array = foldl (\<lambda>ret b. or (push_bit 8 ret) (ucast b)) 0 (take 32 array)"

section \<open>The two forms are inverse\<close>

lemma length_toArray_loop [simp]: "length (toArray_loop i t a) = length a"
  by (induction i t a rule: toArray_loop.induct) (subst toArray_loop.simps, simp)

lemma nth_toArray_loop:
  "length a = 32 \<Longrightarrow> j < 32 \<Longrightarrow> i \<le> 32 \<Longrightarrow>
   toArray_loop i t a ! j =
     (if j < 32 - i then ucast (drop_bit (8 * (31 - i - j)) t) else a ! j)"
proof (induction i t a rule: toArray_loop.induct)
  case (1 i t a)
  show ?case
  proof (cases "i < 32")
    case True
    have IH: "toArray_loop (Suc i) (drop_bit 8 t) (a[31 - i := ucast t]) ! j =
        (if j < 32 - Suc i then ucast (drop_bit (8 * (31 - Suc i - j)) (drop_bit 8 t))
         else a[31 - i := ucast t] ! j)"
      using 1 True by simp
    consider "j < 32 - Suc i" | "j = 31 - i" | "31 - i < j" by linarith
    then show ?thesis
    proof cases
      case 1
      then have "Suc (31 - Suc i - j) = 31 - i - j" using True by linarith
      then have "8 * (31 - Suc i - j) + 8 = 8 * (31 - i - j)" by simp
      moreover have "j < 32 - i" using 1 by linarith
      ultimately show ?thesis
        using 1 True IH by (subst toArray_loop.simps) (simp add: add.commute)
    next
      case 2
      moreover have "31 - i < 32 - i" using True by linarith
      ultimately show ?thesis
        using True IH "1.prems" by (subst toArray_loop.simps) simp
    next
      case 3
      moreover have "\<not> j < 32 - i" using 3 by linarith
      ultimately show ?thesis
        using True IH "1.prems" by (subst toArray_loop.simps) simp
    qed
  next
    case False
    with "1.prems" show ?thesis by (subst toArray_loop.simps) simp
  qed
qed

lemma toArray_eq: "length a = 32 \<Longrightarrow> toArray h a = rev (bytes_le 32 h)"
  by (rule nth_equalityI)
    (simp_all add: toArray_def nth_toArray_loop rev_nth nth_bytes_le)

lemma foldl_horner_word_le:
  "foldl (\<lambda>ret b. or (push_bit 8 ret) (ucast b)) (w :: 'a::len word) bs =
     or (push_bit (8 * length bs) w) (word_le (rev bs))"
proof (induction bs arbitrary: w)
  case (Cons b bs)
  have app: "word_le (xs @ [b]) = or (word_le xs) (push_bit (8 * length xs) (ucast b :: 'a word))"
    for xs
    by (induction xs) (simp_all add: push_bit_or or.assoc add.commute)
  have "foldl (\<lambda>ret b. or (push_bit 8 ret) (ucast b)) w (b # bs) =
      or (push_bit (8 * length bs) (or (push_bit 8 w) (ucast b))) (word_le (rev bs))"
    by (simp add: Cons.IH)
  also have "\<dots> = or (push_bit (8 * length (b # bs)) w) (word_le (rev (b # bs)))"
    by (simp add: app push_bit_or or.assoc or.left_commute or.commute add.commute)
  finally show ?case .
qed simp

lemma fromArray_eq: "length a = 32 \<Longrightarrow> fromArray a = word_le (rev a)"
  by (simp add: fromArray_def foldl_horner_word_le)

lemma fromArray_toArray: "length a = 32 \<Longrightarrow> fromArray (toArray h a) = h"
  by (simp add: toArray_eq fromArray_eq word_le_bytes_le_full)

lemma toArray_fromArray: "length a = 32 \<Longrightarrow> length b = 32 \<Longrightarrow> toArray (fromArray b) a = b"
  using bytes_le_word_le [of "rev b", where 'a = 256]
  by (simp add: toArray_eq fromArray_eq)

section \<open>Injectivity of the text form\<close>

fun nat_of_hex :: "nat \<Rightarrow> string \<Rightarrow> nat" where
  "nat_of_hex acc [] = acc"
| "nat_of_hex acc (c # cs) =
     nat_of_hex (16 * acc + (if c \<le> CHR ''9'' then of_char c - 48 else of_char c - 55)) cs"

lemma nat_of_hex_append: "nat_of_hex acc (xs @ ys) = nat_of_hex (nat_of_hex acc xs) ys"
  by (induction xs arbitrary: acc) auto

lemma hex_digit_value:
  "d < 16 \<Longrightarrow>
   (if hex_digit d \<le> CHR ''9'' then of_char (hex_digit d) - 48 else of_char (hex_digit d) - 55) = d"
proof -
  have "\<forall>d \<in> set [0..<16].
     (if hex_digit d \<le> CHR ''9'' then of_char (hex_digit d) - 48 else of_char (hex_digit d) - 55) = d"
    by (simp add: hex_digit_def upt_rec less_eq_char_def)
  then show "d < 16 \<Longrightarrow> ?thesis" by simp
qed

lemma nat_of_hex_of_nat: "nat_of_hex 0 (hex_of_nat n) = n"
proof (induction n rule: hex_of_nat.induct)
  case (1 n)
  show ?case
  proof (cases "n < 16")
    case True
    then show ?thesis using hex_digit_value [of n] by (subst hex_of_nat.simps) simp
  next
    case False
    then show ?thesis
      using "1.IH" hex_digit_value [of "n mod 16"]
      by (subst hex_of_nat.simps) (simp add: nat_of_hex_append)
  qed
qed

lemma hash_toString_inj: "hash_toString g = hash_toString h \<Longrightarrow> g = h"
  unfolding hash_toString_def
  by (metis nat_of_hex_of_nat word_eq_iff_unsigned)

section \<open>Property\<close>

text \<open>
  The byte form of a hash loses nothing: writing a hash to 32 bytes and reading it back gives
  the hash, reading 32 bytes and writing them gives the bytes, and different hashes have different
  hexadecimal texts.
\<close>

theorem hash_forms_roundtrip:
  assumes "length a = 32" "length b = 32"
  shows "fromArray (toArray h a) = h \<and> toArray (fromArray b) a = b \<and>
    (hash_toString g = hash_toString h \<longleftrightarrow> g = h)"
  using assms hash_toString_inj [of g h] by (auto simp: fromArray_toArray toArray_fromArray)

theorem hash_forms_roundtrip_witness:
  "fromArray (toArray 258 (replicate 32 0)) = 258 \<and> hash_toString 3 \<noteq> hash_toString 258"
  using hash_forms_roundtrip [of "replicate 32 0" "replicate 32 0" 258 3] by simp

end
