(* ===== verification/Bloom_Filter.thy ===== *)
theory Bloom_Filter
  imports Scn_Prelude
begin

unbundle bit_operations_syntax

text \<open>
  The Bloom filter of src/src/scn/Common/BloomFilter.cpp and .h (two bits per hash, taken from the
  lowest and the next 32 bits), which the active-peer estimation merges between peers.
\<close>

section \<open>Bit operations\<close>

definition bloom_idx :: "u32 \<Rightarrow> u32 \<Rightarrow> u32" where
  "bloom_idx idx len = idx mod (len * 8)"

definition bit_at :: "byte list \<Rightarrow> u32 \<Rightarrow> bool" where
  "bit_at bits idx = ((bits ! unat (idx div 8)) AND (push_bit (unat (idx AND 7)) 1) \<noteq> 0)"

definition hasBits :: "hash_t \<Rightarrow> byte list \<Rightarrow> u32 \<Rightarrow> bool" where
  "hasBits hash bits len =
     (let idx1 = bloom_idx (ucast hash) len;
          idx2 = bloom_idx (ucast (drop_bit 32 hash)) len
      in bit_at bits idx1 \<and> bit_at bits idx2)"

definition set_bit_at :: "u32 \<Rightarrow> byte list \<Rightarrow> byte list" where
  "set_bit_at idx bits =
     (let i = unat (idx div 8) in bits[i := (bits ! i) OR (push_bit (unat (idx AND 7)) 1)])"

definition setBits :: "hash_t \<Rightarrow> byte list \<Rightarrow> u32 \<Rightarrow> byte list" where
  "setBits hash bits len =
     (let idx1 = bloom_idx (ucast hash) len;
          idx2 = bloom_idx (ucast (drop_bit 32 hash)) len
      in set_bit_at idx2 (set_bit_at idx1 bits))"

definition bitcount_table :: "u32 list" where
  "bitcount_table = [4, 3, 3, 2, 3, 2, 2, 1, 3, 2, 2, 1, 2, 1, 1, 0]"

definition countZeroBits :: "byte list \<Rightarrow> nat \<Rightarrow> u32" where
  "countZeroBits bits len =
     foldl (\<lambda>ret b. ret + bitcount_table ! unat (b AND 0xF)
                        + bitcount_table ! unat (drop_bit 4 b AND 0xF)) 0 (take len bits)"

section \<open>The class, with M_BYTE bytes\<close>

definition bloom_clear :: "nat \<Rightarrow> byte list" where
  "bloom_clear M = replicate M 0"

definition findHash :: "nat \<Rightarrow> hash_t \<Rightarrow> byte list \<Rightarrow> bool" where
  "findHash M hash f = hasBits hash f (of_nat M)"

definition insertHash :: "nat \<Rightarrow> hash_t \<Rightarrow> byte list \<Rightarrow> byte list" where
  "insertHash M hash f = setBits hash f (of_nat M)"

definition bloom_merge :: "byte list \<Rightarrow> byte list \<Rightarrow> byte list" where
  "bloom_merge f g = map2 (\<lambda>a b. a OR b) f g"

definition bloom_wf :: "nat \<Rightarrow> byte list \<Rightarrow> bool" where
  "bloom_wf M f = (length f = M \<and> 0 < M \<and> M * 8 < 2 ^ 32)"

section \<open>Bits of the filter\<close>

lemma unat_and_7: "unat (x AND 7 :: u32) = unat x mod 8"
proof -
  have "x AND 7 = take_bit 3 x"
    by (simp add: take_bit_eq_mask mask_eq_exp_minus_1)
  then show ?thesis by (simp add: unsigned_take_bit_eq take_bit_eq_mod unat_mod_distrib)
qed

lemma bit_at_eq: "bit_at bits idx = bit (bits ! (unat idx div 8)) (unat idx mod 8)"
  by (simp add: bit_at_def and_exp_eq_0_iff_not_bit unat_and_7 unat_div_distrib)

lemma unat_bloom_idx:
  assumes "0 < M" "M * 8 < 2 ^ 32"
  shows "unat (bloom_idx x (of_nat M)) < M * 8"
proof -
  have "unat (of_nat M * 8 :: u32) = M * 8"
    using assms by (simp add: unat_word_ariths unat_of_nat mod_mult_left_eq)
  then show ?thesis
    using assms by (simp add: bloom_idx_def unat_mod_distrib)
qed

lemma length_set_bit_at [simp]: "length (set_bit_at i f) = length f"
  by (simp add: set_bit_at_def Let_def)

lemma length_insertHash [simp]: "length (insertHash M h f) = length f"
  by (simp add: insertHash_def setBits_def Let_def)

lemma bit_set_bit_at:
  assumes "unat i div 8 < length f"
  shows "bit_at (set_bit_at i f) j \<longleftrightarrow> bit_at f j \<or> unat i = unat j"
proof -
  have "unat i = unat j \<longleftrightarrow> unat i div 8 = unat j div 8 \<and> unat i mod 8 = unat j mod 8"
    by (metis div_mult_mod_eq)
  moreover have "unat i mod 8 < LENGTH(8)" by simp
  ultimately show ?thesis
    using assms
    by (auto simp: bit_at_eq set_bit_at_def Let_def unat_and_7 unat_div_distrib nth_list_update bit_simps)
qed

lemma bloom_idx_in_range:
  "bloom_wf M f \<Longrightarrow> unat (bloom_idx x (of_nat M)) div 8 < length f"
  using unat_bloom_idx [of M x] by (auto simp: bloom_wf_def)

section \<open>No false negatives\<close>

lemma findHash_insertHash:
  assumes "bloom_wf M f"
  shows "findHash M g (insertHash M h f) \<longleftrightarrow>
    (\<forall>x \<in> {ucast g, ucast (drop_bit 32 g)}.
       bit_at f (bloom_idx x (of_nat M)) \<or>
       unat (bloom_idx x (of_nat M)) \<in>
         {unat (bloom_idx (ucast h) (of_nat M)), unat (bloom_idx (ucast (drop_bit 32 h)) (of_nat M))})"
  using bloom_idx_in_range [OF assms]
  by (auto simp: findHash_def insertHash_def hasBits_def setBits_def Let_def bit_set_bit_at)

lemma insertHash_found: "bloom_wf M f \<Longrightarrow> findHash M h (insertHash M h f)"
  by (simp add: findHash_insertHash)

lemma insertHash_mono: "bloom_wf M f \<Longrightarrow> findHash M g f \<Longrightarrow> findHash M g (insertHash M h f)"
  by (auto simp: findHash_insertHash) (auto simp: findHash_def hasBits_def Let_def)

lemma bloom_wf_insert: "bloom_wf M f \<Longrightarrow> bloom_wf M (insertHash M h f)"
  by (simp add: bloom_wf_def)

lemma bloom_wf_merge: "bloom_wf M f \<Longrightarrow> bloom_wf M g \<Longrightarrow> bloom_wf M (bloom_merge f g)"
  by (simp add: bloom_wf_def bloom_merge_def)

lemma bit_at_merge:
  "bloom_wf M f \<Longrightarrow> bloom_wf M g \<Longrightarrow> unat i div 8 < M \<Longrightarrow>
   bit_at (bloom_merge f g) i \<longleftrightarrow> bit_at f i \<or> bit_at g i"
  by (simp add: bit_at_eq bloom_merge_def bloom_wf_def bit_simps)

lemma findHash_merge:
  assumes "bloom_wf M f" "bloom_wf M g" "findHash M h f \<or> findHash M h g"
  shows "findHash M h (bloom_merge f g)"
proof -
  have "unat (bloom_idx x (of_nat M)) div 8 < M" for x
    using bloom_idx_in_range [OF assms(1)] assms(1) by (simp add: bloom_wf_def)
  then show ?thesis
    using assms(3) by (auto simp: findHash_def hasBits_def Let_def bit_at_merge [OF assms(1,2)])
qed

lemma findHash_clear: "0 < M \<Longrightarrow> M * 8 < 2 ^ 32 \<Longrightarrow> \<not> findHash M h (bloom_clear M)"
  using bloom_idx_in_range [of M "bloom_clear M" "ucast h"]
  by (simp add: findHash_def hasBits_def Let_def bit_at_eq bloom_clear_def bloom_wf_def)

lemma findHash_fold_insert:
  "bloom_wf M f \<Longrightarrow> h \<in> set hs \<Longrightarrow> findHash M h (fold (insertHash M) hs f)"
proof (induction hs arbitrary: f)
  case (Cons a hs)
  have keep: "bloom_wf M e \<Longrightarrow> findHash M h e \<Longrightarrow> findHash M h (fold (insertHash M) gs e)" for gs e
    by (induction gs arbitrary: e) (auto intro: bloom_wf_insert insertHash_mono)
  show ?case
  proof (cases "h = a")
    case True
    with Cons.prems show ?thesis
      using keep [of "insertHash M a f" hs] by (simp add: bloom_wf_insert insertHash_found)
  next
    case False
    with Cons show ?thesis by (simp add: bloom_wf_insert)
  qed
qed simp

section \<open>Counting\<close>

lemma bitcount_nibble:
  "v < 16 \<Longrightarrow> bitcount_table ! v = of_nat (length (filter (\<lambda>i. \<not> bit v i) [0..<4]))"
proof -
  have "\<forall>v \<in> set [0..<16]. bitcount_table ! v = of_nat (length (filter (\<lambda>i. \<not> bit v i) [0..<4]))"
    by (simp add: bitcount_table_def upt_rec bit_nat_def)
  then show "v < 16 \<Longrightarrow> ?thesis" by simp
qed

definition zero_bits :: "byte \<Rightarrow> nat" where
  "zero_bits b = length (filter (\<lambda>i. \<not> bit b i) [0..<8])"

lemma and_F: "unat (b AND 0xF :: byte) < 16 \<and> (\<forall>i < 4. bit (unat (b AND 0xF)) i = bit b i)"
proof -
  have "b AND 0xF = take_bit 4 b"
    by (simp add: take_bit_eq_mask mask_eq_exp_minus_1)
  then show ?thesis
    by (simp add: unsigned_take_bit_eq bit_simps take_bit_nat_less_exp [of 4, simplified])
qed

lemma bitcount_byte:
  "bitcount_table ! unat (b AND 0xF) + bitcount_table ! unat (drop_bit 4 b AND 0xF) =
     of_nat (zero_bits b)"
proof -
  have nib: "bitcount_table ! unat (c AND 0xF) = of_nat (length (filter (\<lambda>i. \<not> bit c i) [0..<4]))"
    for c :: byte
  proof -
    have "filter (\<lambda>i. \<not> bit (unat (c AND 0xF)) i) [0..<4] = filter (\<lambda>i. \<not> bit c i) [0..<4]"
      using and_F [of c] by (intro filter_cong) auto
    then show ?thesis
      using and_F [of c] bitcount_nibble [of "unat (c AND 0xF)"] by simp
  qed
  have "[0..<8] = [0..<4] @ map (\<lambda>i. 4 + i) [0..<4]"
    by (simp add: upt_rec)
  then have "zero_bits b = length (filter (\<lambda>i. \<not> bit b i) [0..<4]) +
      length (filter (\<lambda>i. \<not> bit (drop_bit 4 b) i) [0..<4])"
    by (simp add: zero_bits_def filter_map comp_def bit_drop_bit_eq)
  then show ?thesis by (simp add: nib)
qed

lemma countZeroBits_eq:
  "countZeroBits bits len = of_nat (sum_list (map zero_bits (take len bits)))"
proof -
  have "foldl (\<lambda>ret b. ret + bitcount_table ! unat (b AND 0xF)
          + bitcount_table ! unat (drop_bit 4 b AND 0xF)) a bs =
        a + of_nat (sum_list (map zero_bits bs))" for a bs
    by (induction bs arbitrary: a) (simp_all add: add.assoc bitcount_byte flip: add.assoc)
  then show ?thesis by (simp add: countZeroBits_def)
qed

section \<open>Properties\<close>

text \<open>
  C25: the filter has no false negatives. A hash that was inserted is found, however many others are
  inserted before and after it and whichever filter of the same size is merged in; a cleared filter
  finds nothing.
\<close>

theorem bloom_no_false_negatives:
  assumes "bloom_wf M f" "bloom_wf M g" "h \<in> set hs"
  shows "findHash M h (bloom_merge (fold (insertHash M) hs f) g) \<and>
    findHash M h (bloom_merge g (fold (insertHash M) hs f)) \<and> \<not> findHash M h (bloom_clear M)"
proof -
  have wf: "bloom_wf M (fold (insertHash M) hs f)"
    using assms(1) by (induction hs arbitrary: f) (simp_all add: bloom_wf_insert)
  have "findHash M h (fold (insertHash M) hs f)" using assms by (simp add: findHash_fold_insert)
  then show ?thesis
    using findHash_merge [OF wf assms(2)] findHash_merge [OF assms(2) wf] findHash_clear [of M h] assms(1)
    by (auto simp: bloom_wf_def)
qed

theorem bloom_no_false_negatives_witness:
  "findHash 16 5 (bloom_merge (fold (insertHash 16) [7, 5, 9] (bloom_clear 16)) (bloom_clear 16))"
  using bloom_no_false_negatives [of 16 "bloom_clear 16" "bloom_clear 16" 5 "[7, 5, 9]"]
  by (simp add: bloom_wf_def bloom_clear_def)

text \<open>
  \<open>countZeroBits\<close>, which looks nibbles up in a table, counts the zero bits of the first
  \<open>len\<close> bytes.
\<close>

theorem countZeroBits_exact:
  "countZeroBits bits len = of_nat (\<Sum>b \<leftarrow> take len bits. length (filter (\<lambda>i. \<not> bit b i) [0..<8]))"
  by (simp add: countZeroBits_eq zero_bits_def [abs_def])

end
