(* ===== verification/Std_Map.thy ===== *)
theory Std_Map
  imports Scn_Prelude
begin

text \<open>
  \<open>std::map\<close> as the code uses it: an association list in strictly ascending key order, which is
  the order a range-based \<open>for\<close> visits, with \<open>find\<close>, \<open>operator[]\<close>, \<open>emplace\<close>,
  \<open>erase\<close> and \<open>erase(std::prev(end()))\<close>. The laws a client may rely on are the locale
  \<open>ordered_map\<close>; the list implementation interprets it.
\<close>

type_synonym ('k, 'v) std_map = "('k \<times> 'v) list"

section \<open>Operations\<close>

definition map_wf :: "('k::linorder, 'v) std_map \<Rightarrow> bool" where
  "map_wf m = sorted_wrt (<) (map fst m)"

definition map_find :: "('k::linorder, 'v) std_map \<Rightarrow> 'k \<Rightarrow> 'v option" where
  "map_find m k = map_of m k"

text \<open>\<open>m[k] = v\<close>\<close>

fun map_put :: "'k::linorder \<Rightarrow> 'v \<Rightarrow> ('k, 'v) std_map \<Rightarrow> ('k, 'v) std_map" where
  "map_put k v [] = [(k, v)]"
| "map_put k v ((a, b) # m) =
     (if k < a then (k, v) # (a, b) # m
      else if k = a then (k, v) # m
      else (a, b) # map_put k v m)"

text \<open>\<open>m.emplace(k, v)\<close> and \<open>m.emplace_hint(_, k, v)\<close>: an existing entry stays.\<close>

definition map_emplace :: "'k::linorder \<Rightarrow> 'v \<Rightarrow> ('k, 'v) std_map \<Rightarrow> ('k, 'v) std_map" where
  "map_emplace k v m = (case map_find m k of None \<Rightarrow> map_put k v m | Some _ \<Rightarrow> m)"

text \<open>\<open>m[k]\<close> read as a value: a missing key is first inserted with the default \<open>d\<close>.\<close>

definition map_index :: "'k::linorder \<Rightarrow> 'v \<Rightarrow> ('k, 'v) std_map \<Rightarrow> 'v \<times> ('k, 'v) std_map" where
  "map_index k d m = (case map_find m k of Some v \<Rightarrow> (v, m) | None \<Rightarrow> (d, map_put k d m))"

text \<open>\<open>m[k] op= x\<close>: read with the default, then assign.\<close>

definition map_modify ::
    "'k::linorder \<Rightarrow> 'v \<Rightarrow> ('v \<Rightarrow> 'v) \<Rightarrow> ('k, 'v) std_map \<Rightarrow> ('k, 'v) std_map" where
  "map_modify k d f m = (case map_index k d m of (v, m') \<Rightarrow> map_put k (f v) m')"

fun map_erase :: "'k::linorder \<Rightarrow> ('k, 'v) std_map \<Rightarrow> ('k, 'v) std_map" where
  "map_erase k [] = []"
| "map_erase k ((a, b) # m) = (if k = a then m else (a, b) # map_erase k m)"

definition map_erase_last :: "('k::linorder, 'v) std_map \<Rightarrow> ('k, 'v) std_map" where
  "map_erase_last m = butlast m"

definition map_lookup0 :: "'v \<Rightarrow> ('k::linorder, 'v) std_map \<Rightarrow> 'k \<Rightarrow> 'v" where
  "map_lookup0 d m k = (case map_find m k of Some v \<Rightarrow> v | None \<Rightarrow> d)"

section \<open>The interface\<close>

locale ordered_map =
  fixes empty :: 'm
    and find :: "'m \<Rightarrow> 'k \<Rightarrow> 'v option"
    and put :: "'k \<Rightarrow> 'v \<Rightarrow> 'm \<Rightarrow> 'm"
    and emplace :: "'k \<Rightarrow> 'v \<Rightarrow> 'm \<Rightarrow> 'm"
    and erase :: "'k \<Rightarrow> 'm \<Rightarrow> 'm"
    and invar :: "'m \<Rightarrow> bool"
  assumes find_empty: "find empty k = None"
    and find_put: "invar m \<Longrightarrow> find (put k v m) x = (if x = k then Some v else find m x)"
    and emplace_eq: "emplace k v m = (case find m k of None \<Rightarrow> put k v m | Some _ \<Rightarrow> m)"
    and find_erase: "invar m \<Longrightarrow> find (erase k m) x = (if x = k then None else find m x)"
    and invar_empty: "invar empty"
    and invar_put: "invar m \<Longrightarrow> invar (put k v m)"
    and invar_erase: "invar m \<Longrightarrow> invar (erase k m)"
begin

lemma invar_emplace: "invar m \<Longrightarrow> invar (emplace k v m)"
  by (auto simp: emplace_eq invar_put split: option.split)

lemma find_emplace:
  "invar m \<Longrightarrow> find (emplace k v m) x =
     (if x = k \<and> find m k = None then Some v else find m x)"
  by (auto simp: emplace_eq find_put split: option.split)

lemma invar_fold_emplace:
  "invar m \<Longrightarrow> invar (fold (\<lambda>(k, v). emplace k v) kvs m)"
  by (induction kvs arbitrary: m) (auto simp: invar_emplace)

lemma find_fold_emplace:
  "invar m \<Longrightarrow> find (fold (\<lambda>(k, v). emplace k v) kvs m) x =
     (case find m x of Some v \<Rightarrow> Some v | None \<Rightarrow> map_of kvs x)"
proof (induction kvs arbitrary: m)
  case (Cons kv kvs)
  obtain k v where "kv = (k, v)" by fastforce
  with Cons show ?case
    by (auto simp: invar_emplace find_emplace split: option.split)
qed (auto split: option.split)

lemma erase_put_find: "invar m \<Longrightarrow> find (erase k (put k v m)) k = None"
  by (simp add: find_erase invar_put)

end

section \<open>The list implementation\<close>

lemma map_wf_Nil [simp, wf_intros]: "map_wf []"
  by (simp add: map_wf_def)

lemma map_wf_Cons [simp]:
  "map_wf ((a, b) # m) \<longleftrightarrow> (\<forall>k \<in> fst ` set m. a < k) \<and> map_wf m"
  by (auto simp: map_wf_def)

lemma map_wf_distinct: "map_wf m \<Longrightarrow> distinct (map fst m)"
  by (simp add: map_wf_def strict_sorted_iff)

lemma map_find_simps [simp]:
  "map_find [] k = None"
  "map_find ((a, b) # m) k = (if k = a then Some b else map_find m k)"
  by (simp_all add: map_find_def)

lemma map_find_eq_None: "map_find m k = None \<longleftrightarrow> k \<notin> fst ` set m"
  by (simp add: map_find_def map_of_eq_None_iff)

lemma map_find_in_set: "map_find m k = Some v \<Longrightarrow> (k, v) \<in> set m"
  by (simp add: map_find_def map_of_SomeD)

lemma map_find_eq_Some: "map_wf m \<Longrightarrow> map_find m k = Some v \<longleftrightarrow> (k, v) \<in> set m"
  by (simp add: map_find_def map_of_eq_Some_iff map_wf_distinct)

lemma map_keys_put: "fst ` set (map_put k v m) = insert k (fst ` set m)"
  by (induction m rule: map_put.induct) auto

lemma map_wf_put [wf_intros]: "map_wf m \<Longrightarrow> map_wf (map_put k v m)"
  by (induction k v m rule: map_put.induct) (auto simp: map_keys_put)

lemma map_find_put: "map_find (map_put k v m) x = (if x = k then Some v else map_find m x)"
  by (induction k v m rule: map_put.induct) auto

lemma map_keys_erase: "map_wf m \<Longrightarrow> fst ` set (map_erase k m) = fst ` set m - {k}"
  by (induction k m rule: map_erase.induct) auto

lemma set_map_erase: "set (map_erase k m) \<subseteq> set m"
  by (induction k m rule: map_erase.induct) auto

lemma map_wf_erase [wf_intros]: "map_wf m \<Longrightarrow> map_wf (map_erase k m)"
  by (induction k m rule: map_erase.induct) (auto simp: map_keys_erase)

lemma map_find_erase:
  "map_wf m \<Longrightarrow> map_find (map_erase k m) x = (if x = k then None else map_find m x)"
  by (induction k m rule: map_erase.induct) (force simp: map_find_eq_None)+

interpretation smap: ordered_map
  "[]" "map_find :: ('k::linorder, 'v) std_map \<Rightarrow> _" map_put map_emplace map_erase map_wf
  by unfold_locales
    (simp_all add: map_find_put map_find_erase map_wf_put map_wf_erase map_emplace_def)

lemmas map_wf_emplace [wf_intros] = smap.invar_emplace

section \<open>Derived operations\<close>

lemma map_index_fst: "fst (map_index k d m) = map_lookup0 d m k"
  by (simp add: map_index_def map_lookup0_def split: option.split)

lemma map_modify_eq:
  "map_modify k d f m = map_put k (f (map_lookup0 d m k)) m"
proof -
  have "map_put k x (map_put k y m) = map_put k x m" for x y
    by (induction k y m rule: map_put.induct) auto
  then show ?thesis
    by (simp add: map_modify_def map_index_def map_lookup0_def split: option.split)
qed

lemma map_wf_index [wf_intros]: "map_wf m \<Longrightarrow> map_wf (snd (map_index k d m))"
  by (auto simp: map_index_def intro: wf_intros split: option.split)

lemma map_wf_modify [wf_intros]: "map_wf m \<Longrightarrow> map_wf (map_modify k d f m)"
  by (simp add: map_modify_eq map_wf_put)

lemma map_wf_erase_last [wf_intros]: "map_wf m \<Longrightarrow> map_wf (map_erase_last m)"
  unfolding map_wf_def map_erase_last_def
  by (metis append_butlast_last_id butlast.simps(1) map_append sorted_wrt_append)

lemma map_find_modify:
  "map_find (map_modify k d f m) x =
     (if x = k then Some (f (map_lookup0 d m k)) else map_find m x)"
  by (simp add: map_modify_eq map_find_put)

lemma map_lookup0_modify:
  "map_lookup0 d (map_modify k d f m) x =
     (if x = k then f (map_lookup0 d m k) else map_lookup0 d m x)"
  by (simp add: map_lookup0_def map_find_modify)

lemma map_lookup0_put: "map_lookup0 d (map_put k v m) x = (if x = k then v else map_lookup0 d m x)"
  by (simp add: map_lookup0_def map_find_put)

lemma map_lookup0_Nil [simp]: "map_lookup0 d [] k = d"
  by (simp add: map_lookup0_def)

lemma map_keys_modify: "fst ` set (map_modify k d f m) = insert k (fst ` set m)"
  by (simp add: map_modify_eq map_keys_put)

lemma length_map_put:
  "map_wf m \<Longrightarrow> length (map_put k v m) = (if map_find m k = None then Suc (length m) else length m)"
proof (induction k v m rule: map_put.induct)
  case (2 k v a b m)
  then show ?case by (auto simp: map_find_eq_None)
qed simp

lemma set_map_put_subset: "set (map_put k v m) \<subseteq> insert (k, v) (set m)"
  by (induction k v m rule: map_put.induct) auto

lemma set_map_erase_last: "set (map_erase_last m) \<subseteq> set m"
  by (auto simp: map_erase_last_def dest: in_set_butlastD)

lemma length_map_erase_last [simp]: "length (map_erase_last m) = length m - 1"
  by (simp add: map_erase_last_def)

text \<open>
  A loop that adds a summand to one entry moves the total by that summand: wallets and diffs are
  maps into words, an abelian group, so this holds with the wrap-around included.
\<close>

lemma sum_map_put:
  fixes m :: "('k::linorder, 'v::ab_group_add) std_map"
  shows "map_wf m \<Longrightarrow>
    sum_list (map snd (map_put k v m)) = sum_list (map snd m) - map_lookup0 0 m k + v"
proof (induction k v m rule: map_put.induct)
  case (2 k v a b m)
  then show ?case
    by (auto simp: map_lookup0_def map_find_eq_None algebra_simps split: option.split)
      (use map_find_in_set in force)
qed simp

lemma sum_map_modify:
  fixes m :: "('k::linorder, 'v::ab_group_add) std_map"
  shows "map_wf m \<Longrightarrow>
    sum_list (map snd (map_modify k 0 f m)) =
      sum_list (map snd m) - map_lookup0 0 m k + f (map_lookup0 0 m k)"
  by (simp add: map_modify_eq sum_map_put)

text \<open>A read with \<open>operator[]\<close> changes no value and no total, only the set of keys.\<close>

lemma map_lookup0_index: "map_lookup0 d (snd (map_index k d m)) x = map_lookup0 d m x"
  by (auto simp: map_index_def map_lookup0_def map_find_put split: option.split)

lemma map_keys_index: "fst ` set (snd (map_index k d m)) = insert k (fst ` set m)"
  using map_find_eq_None [of m k] by (auto simp: map_index_def map_keys_put split: option.split)

lemma sum_map_index:
  fixes m :: "('k::linorder, 'v::ab_group_add) std_map"
  shows "map_wf m \<Longrightarrow> sum_list (map snd (snd (map_index k 0 m))) = sum_list (map snd m)"
  by (auto simp: map_index_def sum_map_put map_lookup0_def split: option.split)

text \<open>Reading a serialized map back: ascending entries are emplaced one after the other.\<close>

lemma map_put_greatest:
  "map_wf m \<Longrightarrow> \<forall>x \<in> fst ` set m. x < k \<Longrightarrow> map_put k v m = m @ [(k, v)]"
  by (induction k v m rule: map_put.induct) (auto dest: less_asym)

lemma fold_emplace_sorted:
  "map_wf (m @ kvs) \<Longrightarrow> fold (\<lambda>(k, v). map_emplace k v) kvs m = m @ kvs"
proof (induction kvs arbitrary: m)
  case (Cons kv kvs)
  obtain k v where kv: "kv = (k, v)" by fastforce
  from Cons.prems have lt: "\<forall>x \<in> fst ` set m. x < k" and wf: "map_wf m"
    by (auto simp: kv map_wf_def sorted_wrt_append)
  then have "map_find m k = None"
    by (auto simp: map_find_eq_None)
  with lt wf have "map_emplace k v m = m @ [(k, v)]"
    by (simp add: map_emplace_def map_put_greatest)
  then show ?case
    using Cons.IH [of "m @ [(k, v)]"] Cons.prems kv by simp
qed simp

section \<open>Union\<close>

text \<open>Adding the entries of another container under the keys that are still free.\<close>

definition map_union :: "('k::linorder, 'v) std_map \<Rightarrow> ('k, 'v) std_map \<Rightarrow> ('k, 'v) std_map" where
  "map_union a b = fold (\<lambda>(k, v) m. if map_find m k = None then map_put k v m else m) b a"

lemma map_union_Cons:
  "map_union a ((k, v) # b) = map_union (if map_find a k = None then map_put k v a else a) b"
  by (simp add: map_union_def)

lemma map_wf_union [wf_intros]: "map_wf a \<Longrightarrow> map_wf (map_union a b)"
  by (induction b arbitrary: a) (auto simp: map_union_def wf_intros)

lemma set_map_union: "set (map_union a b) \<subseteq> set a \<union> set b"
proof (induction b arbitrary: a)
  case (Cons kv b)
  obtain k v where kv: "kv = (k, v)" by (cases kv)
  show ?case
    using Cons.IH [of a] Cons.IH [of "map_put k v a"] set_map_put_subset [of k v a] by (auto simp: kv map_union_Cons)
qed (simp add: map_union_def)

lemma length_map_union: "map_wf a \<Longrightarrow> length (map_union a b) \<le> length a + length b"
proof (induction b arbitrary: a)
  case (Cons kv b)
  obtain k v where kv: "kv = (k, v)" by (cases kv)
  show ?case
    using Cons.IH [OF Cons.prems] Cons.IH [of "map_put k v a"] length_map_put [OF Cons.prems, of k v] Cons.prems
    by (auto simp: kv map_union_Cons wf_intros split: if_splits)
qed (simp add: map_union_def)

lemma map_find_union: "map_find (map_union a b) k = (case map_find a k of None \<Rightarrow> map_find b k | Some v \<Rightarrow> Some v)"
proof (induction b arbitrary: a)
  case (Cons kv b)
  obtain x v where kv: "kv = (x, v)" by (cases kv)
  show ?case
    by (auto simp: kv map_union_Cons Cons.IH map_find_put split: option.splits)
qed (simp add: map_union_def split: option.split)

lemma map_ext:
  assumes "map_wf a" "map_wf b" "\<And>k. map_find a k = map_find b k"
  shows "a = b"
proof -
  have "(k, v) \<in> set a \<longleftrightarrow> (k, v) \<in> set b" for k v
    using assms(3) [of k] map_find_eq_Some [OF assms(1), of k v] map_find_eq_Some [OF assms(2), of k v] by simp
  then have s: "set a = set b" by auto
  have "sorted (map fst m)" if "map_wf m" for m :: "('a, 'b) std_map"
    using that by (induction m) (auto dest!: bspec intro: less_imp_le)
  then show ?thesis
    using s assms(1,2) map_wf_distinct [of a] map_wf_distinct [of b]
    by (intro map_sorted_distinct_set_unique [of fst a b]) (auto simp: distinct_map)
qed

lemma map_union_commute:
  assumes "map_wf a" "map_wf b" "\<And>k v w. map_find a k = Some v \<Longrightarrow> map_find b k = Some w \<Longrightarrow> v = w"
  shows "map_union a b = map_union b a"
proof (rule map_ext)
  fix k show "map_find (map_union a b) k = map_find (map_union b a) k"
    using assms(3) [of k] by (auto simp: map_find_union split: option.splits)
qed (simp_all add: map_wf_union assms(1,2))
end
