(* ===== verification/Cereal_Archive.thy ===== *)
theory Cereal_Archive
  imports Std_Map Hash_Helper "HOL-Library.Monad_Syntax"
begin

text \<open>
  The portable binary archive of src/dep/cereal-1.3.0/include/cereal, as far as the program uses
  it, and the serialization of hashes of src/src/scn/Common/Serialization/Hash.h. A writer turns a
  value into bytes; a reader takes bytes and returns the value with the rest, \<open>None\<close> where the
  archive throws. \<open>le\<close> says whether the host is little endian; \<open>conv\<close> is the input archive's
  \<open>itsConvertEndianness\<close>. The contract between the two is the locale \<open>codec\<close>.
\<close>

type_synonym 'a reader = "byte list \<Rightarrow> ('a \<times> byte list) option"
type_synonym 'a writer = "bool \<Rightarrow> 'a \<Rightarrow> byte list"
type_synonym 'a loader = "bool \<Rightarrow> bool \<Rightarrow> 'a reader"

section \<open>Archives\<close>

definition le_flag :: "bool \<Rightarrow> byte" where
  "le_flag le = (if le then 1 else 0)"

text \<open>\<open>portable_binary_detail::swap_bytes\<close> on every element of \<open>ds\<close> bytes.\<close>

function swap_bytes :: "nat \<Rightarrow> byte list \<Rightarrow> byte list" where
  "swap_bytes ds bs =
     (if ds = 0 \<or> bs = [] then bs else rev (take ds bs) @ swap_bytes ds (drop ds bs))"
  by pat_completeness auto
termination
  by (relation "measure (\<lambda>(ds, bs). length bs)") auto

declare swap_bytes.simps [simp del]

text \<open>
  The output archive is built with the default options, the host's own endianness, so its
  \<open>itsConvertEndianness\<close> is the exclusive or of equal values.
\<close>

definition saveBinary :: "bool \<Rightarrow> nat \<Rightarrow> byte list \<Rightarrow> byte list" where
  "saveBinary le ds bs = (if le \<noteq> le then swap_bytes ds bs else bs)"

definition loadBinary :: "bool \<Rightarrow> nat \<Rightarrow> nat \<Rightarrow> byte list reader" where
  "loadBinary conv ds sz bs =
     (if length bs < sz then None
      else Some ((if conv then swap_bytes ds (take sz bs) else take sz bs), drop sz bs))"

definition out_archive :: "bool \<Rightarrow> byte list" where
  "out_archive le = saveBinary le 1 [le_flag le]"

definition in_archive :: "bool \<Rightarrow> bool reader" where
  "in_archive le bs =
     (case loadBinary False 1 1 bs of
        Some ([f], bs') \<Rightarrow> Some (xor (le_flag le) f \<noteq> 0, bs')
      | _ \<Rightarrow> None)"

section \<open>Arithmetic types\<close>

definition mem_bytes :: "bool \<Rightarrow> 'a::len word \<Rightarrow> byte list" where
  "mem_bytes le w =
     (let bs = bytes_le (LENGTH('a) div 8) w in if le then bs else rev bs)"

definition of_mem :: "bool \<Rightarrow> byte list \<Rightarrow> 'a::len word" where
  "of_mem le bs = word_le (if le then bs else rev bs)"

definition save_int :: "'a::len word writer" where
  "save_int le w = saveBinary le (LENGTH('a) div 8) (mem_bytes le w)"

definition load_int :: "'a::len word loader" where
  "load_int le conv bs =
     do { (raw, bs) \<leftarrow> loadBinary conv (LENGTH('a) div 8) (LENGTH('a) div 8) bs;
          Some (of_mem le raw, bs) }"

definition save_bool :: "bool writer" where
  "save_bool le b = save_int le (if b then 1 else 0 :: byte)"

definition load_bool :: "bool loader" where
  "load_bool le conv bs = do { (b, bs) \<leftarrow> load_int le conv bs; Some ((b :: byte) \<noteq> 0, bs) }"

section \<open>Containers\<close>

definition save_size :: "nat writer" where
  "save_size le n = save_int le (of_nat n :: u64)"

definition load_size :: "nat loader" where
  "load_size le conv bs = do { (n, bs) \<leftarrow> load_int le conv bs; Some (unat (n :: u64), bs) }"

text \<open>Strings: the number of characters, then the characters as binary data of size 1.\<close>

definition byte_of_char :: "char \<Rightarrow> byte" where
  "byte_of_char c = of_nat (of_char c)"

definition char_of_byte :: "byte \<Rightarrow> char" where
  "char_of_byte b = char_of (unat b)"

definition string_bytes :: "string \<Rightarrow> byte list" where
  "string_bytes s = map byte_of_char s"

definition bytes_string :: "byte list \<Rightarrow> string" where
  "bytes_string bs = map char_of_byte bs"

definition save_string :: "string writer" where
  "save_string le s = save_size le (length s) @ saveBinary le 1 (string_bytes s)"

definition load_string :: "string loader" where
  "load_string le conv bs =
     do { (n, bs) \<leftarrow> load_size le conv bs;
          (raw, bs) \<leftarrow> loadBinary conv 1 n bs;
          Some (bytes_string raw, bs) }"

text \<open>\<open>std::array<uint8_t, N>\<close>: binary data, no size.\<close>

definition save_array :: "byte list writer" where
  "save_array le a = saveBinary le 1 a"

definition load_array :: "nat \<Rightarrow> byte list loader" where
  "load_array n le conv bs = loadBinary conv 1 n bs"

text \<open>Vectors and maps of class types: the size, then the elements in order.\<close>

primrec load_seq :: "'a loader \<Rightarrow> bool \<Rightarrow> bool \<Rightarrow> nat \<Rightarrow> 'a list reader" where
  "load_seq ld le conv 0 bs = Some ([], bs)"
| "load_seq ld le conv (Suc n) bs =
     do { (x, bs) \<leftarrow> ld le conv bs; (xs, bs) \<leftarrow> load_seq ld le conv n bs; Some (x # xs, bs) }"

definition save_vector :: "'a writer \<Rightarrow> 'a list writer" where
  "save_vector sv le xs = save_size le (length xs) @ concat (map (sv le) xs)"

definition load_vector :: "'a loader \<Rightarrow> 'a list loader" where
  "load_vector ld le conv bs =
     do { (n, bs) \<leftarrow> load_size le conv bs; load_seq ld le conv n bs }"

definition save_pair :: "'a writer \<Rightarrow> 'b writer \<Rightarrow> ('a \<times> 'b) writer" where
  "save_pair sk sv le kv = sk le (fst kv) @ sv le (snd kv)"

definition load_pair :: "'a loader \<Rightarrow> 'b loader \<Rightarrow> ('a \<times> 'b) loader" where
  "load_pair lk lv le conv bs =
     do { (k, bs) \<leftarrow> lk le conv bs; (v, bs) \<leftarrow> lv le conv bs; Some ((k, v), bs) }"

definition save_map :: "'k::linorder writer \<Rightarrow> 'v writer \<Rightarrow> ('k, 'v) std_map writer" where
  "save_map sk sv le m = save_size le (length m) @ concat (map (save_pair sk sv le) m)"

definition load_map :: "'k::linorder loader \<Rightarrow> 'v loader \<Rightarrow> ('k, 'v) std_map loader" where
  "load_map lk lv le conv bs =
     do { (n, bs) \<leftarrow> load_size le conv bs;
          (kvs, bs) \<leftarrow> load_seq (load_pair lk lv) le conv n bs;
          Some (fold (\<lambda>(k, v). map_emplace k v) kvs [], bs) }"

section \<open>Hashes\<close>

text \<open>Four 64-bit words, the most significant first.\<close>

definition save_hash :: "hash_t writer" where
  "save_hash le m = concat (map (\<lambda>i. save_int le (ucast (drop_bit (i * 64) m) :: u64)) [3, 2, 1, 0])"

definition load_hash :: "hash_t loader" where
  "load_hash le conv bs =
     do { (ws, bs) \<leftarrow> load_seq load_int le conv 4 bs;
          Some (foldl (\<lambda>m b. push_bit 64 m + ucast (b :: u64)) 0 ws, bs) }"

section \<open>The contract of a serialized type\<close>

text \<open>
  \<open>endian_conv le w\<close>: the conversion flag an input archive on a host \<open>le\<close> computes from an
  archive that a host \<open>w\<close> wrote.
\<close>

definition endian_conv :: "bool \<Rightarrow> bool \<Rightarrow> bool" where
  "endian_conv le w = (le \<noteq> w)"

locale codec =
  fixes save :: "'a writer" and load :: "'a loader" and ok :: "'a \<Rightarrow> bool"
  assumes roundtrip: "ok x \<Longrightarrow> load le (endian_conv le w) (save w x @ rest) = Some (x, rest)"
begin

lemma load_seq_save:
  "list_all ok xs \<Longrightarrow>
   load_seq load le (endian_conv le w) (length xs) (concat (map (save w) xs) @ rest) = Some (xs, rest)"
  by (induction xs) (simp_all add: roundtrip)

lemma save_inj:
  assumes "ok x" "ok y" "save w x @ r = save w y @ s"
  shows "x = y \<and> r = s"
proof -
  have "Some (x, r) = Some (y, s)"
    using assms by (metis roundtrip)
  then show ?thesis by simp
qed

end

section \<open>Codecs\<close>

lemma swap_bytes_one [simp]: "swap_bytes (Suc 0) bs = bs"
proof (induction bs)
  case (Cons b bs)
  then show ?case by (subst swap_bytes.simps) simp
qed (simp add: swap_bytes.simps)

lemma swap_bytes_Nil [simp]: "swap_bytes n [] = []"
  by (subst swap_bytes.simps) simp

lemma swap_bytes_whole: "length bs = n \<Longrightarrow> swap_bytes n bs = rev bs"
  by (subst swap_bytes.simps) auto

lemma length_mem_bytes [simp]:
  "length (mem_bytes le (w :: 'a::len word)) = LENGTH('a) div 8"
  by (simp add: mem_bytes_def Let_def)

lemma length_save_int [simp]: "length (save_int le (w :: 'a::len word)) = LENGTH('a) div 8"
  by (simp add: save_int_def saveBinary_def)

lemma of_mem_mem_bytes:
  "8 dvd LENGTH('a::len) \<Longrightarrow>
   of_mem le (if endian_conv le w then rev (mem_bytes w x) else mem_bytes w x) = (x :: 'a word)"
  by (auto simp: of_mem_def mem_bytes_def endian_conv_def Let_def word_le_bytes_le_full)

lemma load_int_save:
  assumes "8 dvd LENGTH('a::len)"
  shows "load_int le (endian_conv le w) (save_int w (x :: 'a word) @ rest) = Some (x, rest)"
  using of_mem_mem_bytes [OF assms, of le w x]
  by (simp add: load_int_def save_int_def saveBinary_def loadBinary_def swap_bytes_whole
      split: if_splits)

interpretation byte_codec: codec "save_int :: byte writer" load_int "\<lambda>_. True"
  by unfold_locales (simp add: load_int_save)

interpretation u16_codec: codec "save_int :: u16 writer" load_int "\<lambda>_. True"
  by unfold_locales (simp add: load_int_save)

interpretation u32_codec: codec "save_int :: u32 writer" load_int "\<lambda>_. True"
  by unfold_locales (simp add: load_int_save)

interpretation u64_codec: codec "save_int :: u64 writer" load_int "\<lambda>_. True"
  by unfold_locales (simp add: load_int_save)

interpretation bool_codec: codec save_bool load_bool "\<lambda>_. True"
  by unfold_locales (simp add: save_bool_def load_bool_def byte_codec.roundtrip)

interpretation size_codec: codec save_size load_size "\<lambda>n. n < 2 ^ 64"
  by unfold_locales
    (simp add: save_size_def load_size_def u64_codec.roundtrip unat_of_nat take_bit_nat_eq_self)

lemma char_of_byte_of_char [simp]: "char_of_byte (byte_of_char c) = c"
  by (simp add: char_of_byte_def byte_of_char_def unat_of_nat)

lemma bytes_string_string_bytes [simp]: "bytes_string (string_bytes s) = s"
  by (simp add: bytes_string_def string_bytes_def comp_def)

lemma length_string_bytes [simp]: "length (string_bytes s) = length s"
  by (simp add: string_bytes_def)

interpretation string_codec: codec save_string load_string "\<lambda>s. length s < 2 ^ 64"
  by unfold_locales
    (simp add: save_string_def load_string_def size_codec.roundtrip saveBinary_def loadBinary_def)

lemma load_array_save: "load_array (length a) le (endian_conv le w) (save_array w a @ rest) = Some (a, rest)"
  by (simp add: load_array_def save_array_def saveBinary_def loadBinary_def)

lemma push_add_or: "push_bit 64 m + ucast (b :: u64) = or (push_bit 64 m) (ucast b)"
  for m :: hash_t
  by (rule disjunctive_add) (auto simp: bit_simps dest: bit_imp_le_length)

lemma hash_from_words:
  "foldl (\<lambda>m b. push_bit 64 m + ucast (b :: u64)) 0
     (map (\<lambda>i. ucast (drop_bit (i * 64) m)) [3, 2, 1, 0]) = (m :: hash_t)"
proof (rule bit_eqI)
  fix n :: nat
  consider "n < 64" | "64 \<le> n" "n < 128" | "128 \<le> n" "n < 192" | "192 \<le> n" by linarith
  then show "bit (foldl (\<lambda>m b. push_bit 64 m + ucast (b :: u64)) 0
      (map (\<lambda>i. ucast (drop_bit (i * 64) m)) [3, 2, 1, 0]) :: hash_t) n = bit m n"
    by cases (auto simp: push_add_or bit_simps dest: bit_imp_le_length)
qed

interpretation hash_codec: codec save_hash load_hash "\<lambda>_. True"
proof
  fix x :: hash_t and le w rest
  define ws where "ws = map (\<lambda>i. ucast (drop_bit (i * 64) x) :: u64) [3, 2, 1, 0]"
  have len: "length ws = 4" by (simp add: ws_def)
  have "save_hash w x = concat (map (save_int w) ws)"
    by (simp add: save_hash_def ws_def)
  moreover have "load_seq load_int le (endian_conv le w) (length ws)
      (concat (map (save_int w) ws) @ rest) = Some (ws, rest)"
    by (rule u64_codec.load_seq_save) (simp add: list_all_iff)
  moreover have "foldl (\<lambda>m b. push_bit 64 m + ucast (b :: u64)) 0 ws = x"
    unfolding ws_def by (rule hash_from_words)
  ultimately show "load_hash le (endian_conv le w) (save_hash w x @ rest) = Some (x, rest)"
    by (simp add: load_hash_def len)
qed

section \<open>Codecs of containers\<close>

context codec
begin

lemma codec_vector:
  "codec (save_vector save) (load_vector load) (\<lambda>xs. length xs < 2 ^ 64 \<and> list_all ok xs)"
  by unfold_locales
    (simp add: save_vector_def load_vector_def size_codec.roundtrip load_seq_save)

end

locale map_codec = k: codec skey lkey okk + v: codec sval lval okv
  for skey :: "'k::linorder writer" and lkey okk
    and sval :: "'v writer" and lval okv
begin

sublocale kv: codec "save_pair skey sval" "load_pair lkey lval" "\<lambda>x. okk (fst x) \<and> okv (snd x)"
  by unfold_locales
    (simp add: save_pair_def load_pair_def k.roundtrip v.roundtrip)

sublocale m: codec "save_map skey sval" "load_map lkey lval"
    "\<lambda>m. map_wf m \<and> length m < 2 ^ 64 \<and> list_all (\<lambda>x. okk (fst x) \<and> okv (snd x)) m"
  by unfold_locales
    (simp add: save_map_def load_map_def size_codec.roundtrip kv.load_seq_save fold_emplace_sorted)

end

text \<open>A map that the loader produced is in key order, whatever the bytes were.\<close>

lemma load_map_wf: "load_map lk lv le conv bs = Some (m, rest) \<Longrightarrow> map_wf m"
  by (auto simp: load_map_def bind_eq_Some_conv intro: smap.invar_fold_emplace)

lemmas [codec] =
  byte_codec.roundtrip u16_codec.roundtrip u32_codec.roundtrip u64_codec.roundtrip
  bool_codec.roundtrip string_codec.roundtrip hash_codec.roundtrip size_codec.roundtrip

section \<open>Whole archives\<close>

text \<open>What an input archive on a host \<open>le\<close> sees of an archive that a host \<open>w\<close> wrote.\<close>

lemma in_archive_out [codec]:
  "in_archive le (out_archive w @ rest) = Some (endian_conv le w, rest)"
  by (simp add: in_archive_def out_archive_def saveBinary_def loadBinary_def le_flag_def endian_conv_def)

lemma in_archive_Nil [simp]: "in_archive le [] = None"
  by (simp add: in_archive_def loadBinary_def)

end
