(* ===== verification/Public_Key_PEM.thy ===== *)
theory Public_Key_PEM
  imports Scn_Prelude
begin

text \<open>
  The class \<open>PublicKeyPEM\<close> of src/src/scn/Common/PublicKeyPEM.cpp and .h: a public key is the
  text between the PEM markers with blanks removed, compared and ordered by that text. Keys are
  the indices of the wallet map, so the order is an instance of the library's \<open>linorder\<close>.
\<close>

section \<open>std::string operations\<close>

definition starts_with :: "string \<Rightarrow> string \<Rightarrow> bool" where
  "starts_with s p = (take (length p) s = p)"

text \<open>\<open>s.find(p)\<close>: the first position where \<open>p\<close> occurs, \<open>npos\<close> as \<open>None\<close>.\<close>

fun str_find :: "string \<Rightarrow> string \<Rightarrow> nat option" where
  "str_find p [] = (if p = [] then Some 0 else None)"
| "str_find p (c # s) =
     (if starts_with (c # s) p then Some 0 else map_option Suc (str_find p s))"

definition str_substr :: "string \<Rightarrow> nat \<Rightarrow> nat \<Rightarrow> string" where
  "str_substr s pos n = take n (drop pos s)"

text \<open>\<open>s.erase(std::remove(s.begin(), s.end(), c), s.end())\<close>\<close>

definition str_remove :: "char \<Rightarrow> string \<Rightarrow> string" where
  "str_remove c s = filter (\<lambda>x. x \<noteq> c) s"

section \<open>The class\<close>

datatype public_key_t = PublicKeyPEM (short_string: string)

definition pem_prefix :: string where
  "pem_prefix = ''-----BEGIN PUBLIC KEY-----'' @ [CHR 0x0A]"

definition pem_postfix :: string where
  "pem_postfix = [CHR 0x0A] @ ''-----END PUBLIC KEY-----''"

definition initFromString :: "string \<Rightarrow> public_key_t" where
  "initFromString s =
     (case (str_find pem_prefix s, str_find pem_postfix s) of
        (Some i, Some end_index) \<Rightarrow>
          (let start_index = i + length pem_prefix
           in if start_index > end_index then PublicKeyPEM ''''
              else PublicKeyPEM
                (str_remove (CHR 0x0D) (str_remove (CHR 0x0A) (str_remove (CHR 0x09) (str_remove (CHR '' '')
                  (str_substr s start_index (end_index - start_index + 1)))))))
      | _ \<Rightarrow> PublicKeyPEM '''')"

definition getAsFullString :: "public_key_t \<Rightarrow> string" where
  "getAsFullString k = pem_prefix @ short_string k @ pem_postfix"

definition getAsShortString :: "public_key_t \<Rightarrow> string" where
  "getAsShortString k = short_string k"

definition key_isEmpty :: "public_key_t \<Rightarrow> bool" where
  "key_isEmpty k = (length (short_string k) = 0)"

definition default_key :: public_key_t where
  "default_key = PublicKeyPEM ''''"

text \<open>The comparison operators compare the short strings, byte by byte.\<close>

definition key_equal :: "public_key_t \<Rightarrow> public_key_t \<Rightarrow> bool" where
  "key_equal a b = (getAsShortString a = getAsShortString b)"

definition key_less :: "public_key_t \<Rightarrow> public_key_t \<Rightarrow> bool" where
  "key_less a b = (getAsShortString a < getAsShortString b)"

definition key_less_eq :: "public_key_t \<Rightarrow> public_key_t \<Rightarrow> bool" where
  "key_less_eq a b = (getAsShortString a \<le> getAsShortString b)"

lemma key_equal_iff: "key_equal a b \<longleftrightarrow> a = b"
  by (cases a; cases b) (simp add: key_equal_def getAsShortString_def)

instantiation public_key_t :: linorder
begin

definition less_eq_public_key_t :: "public_key_t \<Rightarrow> public_key_t \<Rightarrow> bool" where
  "less_eq_public_key_t a b = key_less_eq a b"

definition less_public_key_t :: "public_key_t \<Rightarrow> public_key_t \<Rightarrow> bool" where
  "less_public_key_t a b = key_less a b"

instance
proof
  fix x y z :: public_key_t
  show "(x < y) = (x \<le> y \<and> \<not> y \<le> x)"
    by (auto simp: less_eq_public_key_t_def key_less_eq_def less_public_key_t_def key_less_def)
  show "x \<le> x" by (simp add: less_eq_public_key_t_def key_less_eq_def)
  show "x \<le> y \<Longrightarrow> y \<le> z \<Longrightarrow> x \<le> z"
    by (auto simp: less_eq_public_key_t_def key_less_eq_def)
  show "x \<le> y \<Longrightarrow> y \<le> x \<Longrightarrow> x = y"
    by (cases x; cases y) (simp add: less_eq_public_key_t_def key_less_eq_def getAsShortString_def)
  show "x \<le> y \<or> y \<le> x" by (auto simp: less_eq_public_key_t_def key_less_eq_def)
qed

end

section \<open>Search lemmas\<close>

lemma starts_with_append [simp]: "starts_with (p @ s) p"
  by (simp add: starts_with_def)

lemma str_find_Some_starts:
  "str_find p s = Some i \<Longrightarrow> starts_with (drop i s) p \<and> (\<forall>j < i. \<not> starts_with (drop j s) p)"
proof (induction s arbitrary: i)
  case (Cons c s)
  then show ?case
    by (cases i) (auto split: if_splits simp: less_Suc_eq_0_disj)
qed (simp add: starts_with_def split: if_splits)

lemma str_find_eq_Some:
  "starts_with (drop i s) p \<Longrightarrow> i \<le> length s \<Longrightarrow> \<forall>j < i. \<not> starts_with (drop j s) p \<Longrightarrow>
   str_find p s = Some i"
proof (induction s arbitrary: i)
  case (Cons c s)
  show ?case
  proof (cases i)
    case 0
    with Cons.prems show ?thesis by simp
  next
    case (Suc k)
    have "str_find p s = Some k"
      using Cons.prems Suc by (intro Cons.IH) auto
    moreover have "\<not> starts_with (c # s) p"
      using Cons.prems(3) Suc by force
    ultimately show ?thesis using Suc by simp
  qed
qed (auto simp: starts_with_def)

section \<open>Normal form of a key\<close>

definition no_blanks :: "string \<Rightarrow> bool" where
  "no_blanks s = list_all (\<lambda>c. c \<noteq> CHR '' '' \<and> c \<noteq> CHR 0x09 \<and> c \<noteq> CHR 0x0A \<and> c \<noteq> CHR 0x0D) s"

lemma initFromString_no_blanks: "no_blanks (short_string (initFromString s))"
  by (auto simp: initFromString_def no_blanks_def str_remove_def Let_def list_all_iff split: option.split)

text \<open>The closing marker of the full text of a blank-free key is found where it was appended.\<close>

lemma starts_with_nth: "starts_with s p \<Longrightarrow> i < length p \<Longrightarrow> i < length s \<and> s ! i = p ! i"
  unfolding starts_with_def
  by (metis length_take min_less_iff_conj nth_take)

lemma no_blanks_nth: "no_blanks s \<Longrightarrow> i < length s \<Longrightarrow> s ! i \<noteq> CHR '' '' \<and> s ! i \<noteq> CHR 0x0A"
  by (auto simp: no_blanks_def list_all_length)

lemma postfix_at_end_only:
  assumes nb: "no_blanks s" and j: "j < length pem_prefix + length s"
  shows "\<not> starts_with (drop j (pem_prefix @ s @ pem_postfix)) pem_postfix"
proof
  let ?f = "pem_prefix @ s @ pem_postfix"
  assume sw: "starts_with (drop j ?f) pem_postfix"
  have lens: "length pem_prefix = 27" "length pem_postfix = 25"
    by (simp_all add: pem_prefix_def pem_postfix_def)
  have at: "i < 25 \<Longrightarrow> ?f ! (j + i) = pem_postfix ! i" for i
    using starts_with_nth [OF sw, of i] lens j nth_drop [of j ?f i] by (simp del: drop_append)
  have nl: "?f ! j = CHR 0x0A" using at [of 0] by (simp add: pem_postfix_def)
  have "j = 26"
  proof (rule ccontr)
    assume "j \<noteq> 26"
    then consider "j < 26" | "27 \<le> j" by linarith
    then show False
    proof cases
      case 1
      then have "pem_prefix ! j \<noteq> CHR 0x0A"
      proof -
        have "\<forall>i \<in> set [0..<26]. pem_prefix ! i \<noteq> CHR 0x0A"
          by (simp add: pem_prefix_def upt_rec)
        with 1 show ?thesis by simp
      qed
      with nl 1 lens show False by (simp add: nth_append)
    next
      case 2
      then have "j - 27 < length s" using j lens by linarith
      with 2 nl j lens no_blanks_nth [OF nb, of "j - 27"] show False
        by (simp add: nth_append)
    qed
  qed
  have "?f ! 35 = CHR '' ''" using at [of 9] \<open>j = 26\<close> by (simp add: pem_postfix_def)
  then have s8: "(s @ pem_postfix) ! 8 = CHR '' ''" using lens by (simp add: nth_append)
  have "length s \<le> 8"
  proof (rule ccontr)
    assume "\<not> length s \<le> 8"
    with s8 no_blanks_nth [OF nb, of 8] show False by (simp add: nth_append)
  qed
  with s8 have p: "pem_postfix ! (8 - length s) = CHR '' ''" by (simp add: nth_append)
  have "\<forall>i \<in> set [0..<9]. pem_postfix ! i \<noteq> CHR '' ''"
    by (simp add: pem_postfix_def upt_rec)
  with p show False by simp
qed

lemma initFromString_full:
  assumes "no_blanks s"
  shows "initFromString (pem_prefix @ s @ pem_postfix) = PublicKeyPEM s"
proof -
  let ?f = "pem_prefix @ s @ pem_postfix"
  have pre: "str_find pem_prefix ?f = Some 0"
    by (rule str_find_eq_Some) simp_all
  have post: "str_find pem_postfix ?f = Some (length pem_prefix + length s)"
    using postfix_at_end_only [OF assms] by (intro str_find_eq_Some) (simp_all add: starts_with_def)
  have "str_substr ?f (length pem_prefix) (length s + 1) = s @ [CHR 0x0A]"
    by (simp add: str_substr_def pem_postfix_def)
  moreover have "filter (\<lambda>x. x \<noteq> CHR 0x0D \<and> x \<noteq> CHR 0x0A \<and> x \<noteq> CHR 0x09 \<and> x \<noteq> CHR '' '') s = s"
    using assms by (auto simp: no_blanks_def list_all_iff intro: filter_True)
  ultimately show ?thesis
    by (simp add: initFromString_def pre post str_remove_def Let_def conj_ac)
qed

section \<open>Property\<close>

text \<open>
  A key that was parsed from any text survives being written in PEM form and parsed again, and
  its text has no blanks, so keys that are equal as texts are the same index of the wallet map.
\<close>

theorem initFromString_roundtrip:
  "initFromString (getAsFullString (initFromString s)) = initFromString s \<and>
   no_blanks (getAsShortString (initFromString s))"
  by (simp add: getAsFullString_def getAsShortString_def initFromString_full initFromString_no_blanks)

end
