(* ===== verification/Block_Definitions.thy ===== *)
theory Block_Definitions
  imports Cereal_Archive Public_Key_PEM
begin

text \<open>
  The block structures of src/src/scn/Blockchain/BlockDefinitions.h: the records, their default
  constructors, their \<open>ser\<close> functions as a writer and a reader, and the codec of each. A
  \<open>BlockType\<close> is kept as its underlying byte, since a received header may hold any value.
\<close>

section \<open>Block types\<close>

abbreviation CollectionBlock_type :: u8 where "CollectionBlock_type \<equiv> 1"
abbreviation BaselineBlock_type :: u8 where "BaselineBlock_type \<equiv> 2"
abbreviation TransactionSubBlock_type :: u8 where "TransactionSubBlock_type \<equiv> 3"
abbreviation CreationSubBlock_type :: u8 where "CreationSubBlock_type \<equiv> 4"

section \<open>Structures\<close>

record GenericHeader =
  block_hash :: hash_t
  previous_block_hash :: hash_t
  block_type :: u8

record BlockHeader =
  generic_header :: GenericHeader
  block_uid :: block_uid_t

record BaseBlock =
  header :: BlockHeader

record SubBlockHeader =
  sub_generic_header :: GenericHeader

record MiningState =
  epoch :: epoch_t
  highest_hash_of_last_epoch :: hash_t
  highest_hash_of_current_epoch :: hash_t
  num_minings_in_epoch :: i32

record BaselineBlock = BaseBlock +
  mining_state :: MiningState
  data_value_hashes :: "hash_t list list"
  wallets :: "(public_key_t, u64) std_map"

record TransactionSubBlock =
  tx_header :: SubBlockHeader
  fraction :: u64
  pre_owner :: public_key_t
  post_owner :: public_key_t
  tx_signature :: signature_t

record CreationSubBlock =
  cr_header :: SubBlockHeader
  data_value :: string
  creator :: public_key_t
  cr_signature :: signature_t

record CollectionBlock = BaseBlock +
  transactions :: "(hash_t, TransactionSubBlock) std_map"
  creations :: "(hash_t, CreationSubBlock) std_map"

definition fraction_per_coin :: u32 where "fraction_per_coin = 1000000"
definition max_data_value_length :: u32 where "max_data_value_length = 1024"
definition max_num_creations :: u32 where "max_num_creations = 1000"
definition max_num_transactions :: u32 where "max_num_transactions = 10000"

text \<open>A \<open>shared_ptr<BaseBlock>\<close> points to one of the two block classes.\<close>

datatype block = Baseline BaselineBlock | Collection CollectionBlock

fun base_header :: "block \<Rightarrow> BlockHeader" where
  "base_header (Baseline b) = header b"
| "base_header (Collection c) = header c"

section \<open>Default constructors\<close>

definition new_GenericHeader :: GenericHeader where
  "new_GenericHeader = \<lparr>block_hash = 0, previous_block_hash = 0, block_type = 0\<rparr>"

definition new_BlockHeader :: BlockHeader where
  "new_BlockHeader = \<lparr>generic_header = new_GenericHeader, block_uid = 0\<rparr>"

definition new_MiningState :: MiningState where
  "new_MiningState = \<lparr>epoch = 0, highest_hash_of_last_epoch = 0,
     highest_hash_of_current_epoch = 0, num_minings_in_epoch = 0\<rparr>"

definition new_BaselineBlock :: BaselineBlock where
  "new_BaselineBlock =
     \<lparr>header = new_BlockHeader\<lparr>generic_header := new_GenericHeader\<lparr>block_type := BaselineBlock_type\<rparr>\<rparr>,
      mining_state = new_MiningState, data_value_hashes = [], wallets = []\<rparr>"

definition new_TransactionSubBlock :: TransactionSubBlock where
  "new_TransactionSubBlock =
     \<lparr>tx_header = \<lparr>sub_generic_header = new_GenericHeader\<lparr>block_type := TransactionSubBlock_type\<rparr>\<rparr>,
      fraction = 0, pre_owner = default_key, post_owner = default_key, tx_signature = ''''\<rparr>"

definition new_CreationSubBlock :: CreationSubBlock where
  "new_CreationSubBlock =
     \<lparr>cr_header = \<lparr>sub_generic_header = new_GenericHeader\<lparr>block_type := CreationSubBlock_type\<rparr>\<rparr>,
      data_value = '''', creator = default_key, cr_signature = ''''\<rparr>"

definition new_CollectionBlock :: CollectionBlock where
  "new_CollectionBlock =
     \<lparr>header = new_BlockHeader\<lparr>generic_header := new_GenericHeader\<lparr>block_type := CollectionBlock_type\<rparr>\<rparr>,
      transactions = [], creations = []\<rparr>"

section \<open>Paths into the headers\<close>

abbreviation hash_of :: "'a BaseBlock_scheme \<Rightarrow> hash_t" where
  "hash_of b \<equiv> block_hash (generic_header (header b))"

abbreviation prev_of :: "'a BaseBlock_scheme \<Rightarrow> hash_t" where
  "prev_of b \<equiv> previous_block_hash (generic_header (header b))"

abbreviation type_of :: "'a BaseBlock_scheme \<Rightarrow> u8" where
  "type_of b \<equiv> block_type (generic_header (header b))"

abbreviation uid_of :: "'a BaseBlock_scheme \<Rightarrow> block_uid_t" where
  "uid_of b \<equiv> block_uid (header b)"

definition set_hash :: "hash_t \<Rightarrow> 'a BaseBlock_scheme \<Rightarrow> 'a BaseBlock_scheme" where
  "set_hash h b = b\<lparr>header := (header b)\<lparr>generic_header := (generic_header (header b))\<lparr>block_hash := h\<rparr>\<rparr>\<rparr>"

definition set_prev :: "hash_t \<Rightarrow> 'a BaseBlock_scheme \<Rightarrow> 'a BaseBlock_scheme" where
  "set_prev h b =
     b\<lparr>header := (header b)\<lparr>generic_header := (generic_header (header b))\<lparr>previous_block_hash := h\<rparr>\<rparr>\<rparr>"

definition set_uid :: "block_uid_t \<Rightarrow> 'a BaseBlock_scheme \<Rightarrow> 'a BaseBlock_scheme" where
  "set_uid u b = b\<lparr>header := (header b)\<lparr>block_uid := u\<rparr>\<rparr>"

abbreviation tx_hash :: "TransactionSubBlock \<Rightarrow> hash_t" where
  "tx_hash t \<equiv> block_hash (sub_generic_header (tx_header t))"

abbreviation tx_prev :: "TransactionSubBlock \<Rightarrow> hash_t" where
  "tx_prev t \<equiv> previous_block_hash (sub_generic_header (tx_header t))"

abbreviation cr_hash :: "CreationSubBlock \<Rightarrow> hash_t" where
  "cr_hash c \<equiv> block_hash (sub_generic_header (cr_header c))"

abbreviation cr_prev :: "CreationSubBlock \<Rightarrow> hash_t" where
  "cr_prev c \<equiv> previous_block_hash (sub_generic_header (cr_header c))"

definition set_tx_hash :: "hash_t \<Rightarrow> TransactionSubBlock \<Rightarrow> TransactionSubBlock" where
  "set_tx_hash h t = t\<lparr>tx_header := (tx_header t)\<lparr>sub_generic_header :=
     (sub_generic_header (tx_header t))\<lparr>block_hash := h\<rparr>\<rparr>\<rparr>"

definition set_tx_prev :: "hash_t \<Rightarrow> TransactionSubBlock \<Rightarrow> TransactionSubBlock" where
  "set_tx_prev h t = t\<lparr>tx_header := (tx_header t)\<lparr>sub_generic_header :=
     (sub_generic_header (tx_header t))\<lparr>previous_block_hash := h\<rparr>\<rparr>\<rparr>"

definition set_cr_hash :: "hash_t \<Rightarrow> CreationSubBlock \<Rightarrow> CreationSubBlock" where
  "set_cr_hash h c = c\<lparr>cr_header := (cr_header c)\<lparr>sub_generic_header :=
     (sub_generic_header (cr_header c))\<lparr>block_hash := h\<rparr>\<rparr>\<rparr>"

definition set_cr_prev :: "hash_t \<Rightarrow> CreationSubBlock \<Rightarrow> CreationSubBlock" where
  "set_cr_prev h c = c\<lparr>cr_header := (cr_header c)\<lparr>sub_generic_header :=
     (sub_generic_header (cr_header c))\<lparr>previous_block_hash := h\<rparr>\<rparr>\<rparr>"

lemma set_hash_simps [simp]:
  "hash_of (set_hash h b) = h"
  "prev_of (set_hash h b) = prev_of b"
  "type_of (set_hash h b) = type_of b"
  "uid_of (set_hash h b) = uid_of b"
  "set_hash g (set_hash h b) = set_hash g b"
  by (simp_all add: set_hash_def)

lemma set_hash_idle: "hash_of b = h \<Longrightarrow> set_hash h b = b"
  by (auto simp: set_hash_def)

lemma set_hash_baseline [simp]:
  "mining_state (set_hash h b) = mining_state b"
  "data_value_hashes (set_hash h b) = data_value_hashes b"
  "wallets (set_hash h b) = wallets b"
  by (simp_all add: set_hash_def)

lemma set_hash_collection [simp]:
  "transactions (set_hash h c) = transactions c"
  "creations (set_hash h c) = creations c"
  by (simp_all add: set_hash_def)

lemma set_prev_uid_simps [simp]:
  "hash_of (set_prev h b) = hash_of b" "prev_of (set_prev h b) = h"
  "type_of (set_prev h b) = type_of b" "uid_of (set_prev h b) = uid_of b"
  "hash_of (set_uid u b) = hash_of b" "prev_of (set_uid u b) = prev_of b"
  "type_of (set_uid u b) = type_of b" "uid_of (set_uid u b) = u"
  by (simp_all add: set_prev_def set_uid_def)

lemma set_prev_uid_content [simp]:
  "mining_state (set_prev h b) = mining_state b" "mining_state (set_uid u b) = mining_state b"
  "data_value_hashes (set_prev h b) = data_value_hashes b"
  "data_value_hashes (set_uid u b) = data_value_hashes b"
  "wallets (set_prev h b) = wallets b" "wallets (set_uid u b) = wallets b"
  "transactions (set_prev h c) = transactions c" "transactions (set_uid u c) = transactions c"
  "creations (set_prev h c) = creations c" "creations (set_uid u c) = creations c"
  by (simp_all add: set_prev_def set_uid_def)

lemma set_sub_hash_simps [simp]:
  "tx_hash (set_tx_hash h t) = h" "tx_prev (set_tx_hash h t) = tx_prev t"
  "block_type (sub_generic_header (tx_header (set_tx_hash h t))) =
     block_type (sub_generic_header (tx_header t))"
  "fraction (set_tx_hash h t) = fraction t" "pre_owner (set_tx_hash h t) = pre_owner t"
  "post_owner (set_tx_hash h t) = post_owner t" "tx_signature (set_tx_hash h t) = tx_signature t"
  "set_tx_hash g (set_tx_hash h t) = set_tx_hash g t"
  "cr_hash (set_cr_hash h c) = h" "cr_prev (set_cr_hash h c) = cr_prev c"
  "block_type (sub_generic_header (cr_header (set_cr_hash h c))) =
     block_type (sub_generic_header (cr_header c))"
  "data_value (set_cr_hash h c) = data_value c" "creator (set_cr_hash h c) = creator c"
  "cr_signature (set_cr_hash h c) = cr_signature c"
  "set_cr_hash g (set_cr_hash h c) = set_cr_hash g c"
  by (simp_all add: set_tx_hash_def set_cr_hash_def)

section \<open>Serialization\<close>

definition save_GenericHeader :: "GenericHeader writer" where
  "save_GenericHeader le h =
     save_hash le (block_hash h) @ save_hash le (previous_block_hash h) @ save_int le (block_type h)"

definition load_GenericHeader :: "GenericHeader loader" where
  "load_GenericHeader le conv bs =
     do { (h, bs) \<leftarrow> load_hash le conv bs;
          (p, bs) \<leftarrow> load_hash le conv bs;
          (t, bs) \<leftarrow> load_int le conv bs;
          Some (\<lparr>block_hash = h, previous_block_hash = p, block_type = t\<rparr>, bs) }"

definition save_BlockHeader :: "BlockHeader writer" where
  "save_BlockHeader le h = save_GenericHeader le (generic_header h) @ save_int le (block_uid h)"

definition load_BlockHeader :: "BlockHeader loader" where
  "load_BlockHeader le conv bs =
     do { (g, bs) \<leftarrow> load_GenericHeader le conv bs;
          (u, bs) \<leftarrow> load_int le conv bs;
          Some (\<lparr>generic_header = g, block_uid = u\<rparr>, bs) }"

definition save_SubBlockHeader :: "SubBlockHeader writer" where
  "save_SubBlockHeader le h = save_GenericHeader le (sub_generic_header h)"

definition load_SubBlockHeader :: "SubBlockHeader loader" where
  "load_SubBlockHeader le conv bs =
     do { (g, bs) \<leftarrow> load_GenericHeader le conv bs; Some (\<lparr>sub_generic_header = g\<rparr>, bs) }"

definition save_MiningState :: "MiningState writer" where
  "save_MiningState le m =
     save_int le (epoch m) @ save_hash le (highest_hash_of_last_epoch m) @
     save_hash le (highest_hash_of_current_epoch m) @ save_int le (num_minings_in_epoch m)"

definition load_MiningState :: "MiningState loader" where
  "load_MiningState le conv bs =
     do { (e, bs) \<leftarrow> load_int le conv bs;
          (hl, bs) \<leftarrow> load_hash le conv bs;
          (hc, bs) \<leftarrow> load_hash le conv bs;
          (n, bs) \<leftarrow> load_int le conv bs;
          Some (\<lparr>epoch = e, highest_hash_of_last_epoch = hl,
                 highest_hash_of_current_epoch = hc, num_minings_in_epoch = n\<rparr>, bs) }"

definition save_key :: "public_key_t writer" where
  "save_key le k = save_string le (short_string k)"

definition load_key :: "public_key_t loader" where
  "load_key le conv bs = do { (s, bs) \<leftarrow> load_string le conv bs; Some (PublicKeyPEM s, bs) }"

definition save_BaselineBlock :: "BaselineBlock writer" where
  "save_BaselineBlock le b =
     save_BlockHeader le (header b) @ save_MiningState le (mining_state b) @
     save_vector (save_vector save_hash) le (data_value_hashes b) @
     save_map save_key save_int le (wallets b)"

definition load_BaselineBlock :: "BaselineBlock loader" where
  "load_BaselineBlock le conv bs =
     do { (h, bs) \<leftarrow> load_BlockHeader le conv bs;
          (m, bs) \<leftarrow> load_MiningState le conv bs;
          (d, bs) \<leftarrow> load_vector (load_vector load_hash) le conv bs;
          (w, bs) \<leftarrow> load_map load_key load_int le conv bs;
          Some (\<lparr>header = h, mining_state = m, data_value_hashes = d, wallets = w\<rparr>, bs) }"

definition save_TransactionSubBlock :: "TransactionSubBlock writer" where
  "save_TransactionSubBlock le t =
     save_SubBlockHeader le (tx_header t) @ save_int le (fraction t) @
     save_key le (pre_owner t) @ save_key le (post_owner t) @ save_string le (tx_signature t)"

definition load_TransactionSubBlock :: "TransactionSubBlock loader" where
  "load_TransactionSubBlock le conv bs =
     do { (h, bs) \<leftarrow> load_SubBlockHeader le conv bs;
          (f, bs) \<leftarrow> load_int le conv bs;
          (a, bs) \<leftarrow> load_key le conv bs;
          (b, bs) \<leftarrow> load_key le conv bs;
          (s, bs) \<leftarrow> load_string le conv bs;
          Some (\<lparr>tx_header = h, fraction = f, pre_owner = a, post_owner = b, tx_signature = s\<rparr>, bs) }"

definition save_CreationSubBlock :: "CreationSubBlock writer" where
  "save_CreationSubBlock le c =
     save_SubBlockHeader le (cr_header c) @ save_string le (data_value c) @
     save_key le (creator c) @ save_string le (cr_signature c)"

definition load_CreationSubBlock :: "CreationSubBlock loader" where
  "load_CreationSubBlock le conv bs =
     do { (h, bs) \<leftarrow> load_SubBlockHeader le conv bs;
          (d, bs) \<leftarrow> load_string le conv bs;
          (a, bs) \<leftarrow> load_key le conv bs;
          (s, bs) \<leftarrow> load_string le conv bs;
          Some (\<lparr>cr_header = h, data_value = d, creator = a, cr_signature = s\<rparr>, bs) }"

definition save_CollectionBlock :: "CollectionBlock writer" where
  "save_CollectionBlock le c =
     save_BlockHeader le (header c) @
     save_map save_hash save_TransactionSubBlock le (transactions c) @
     save_map save_hash save_CreationSubBlock le (creations c)"

definition load_CollectionBlock :: "CollectionBlock loader" where
  "load_CollectionBlock le conv bs =
     do { (h, bs) \<leftarrow> load_BlockHeader le conv bs;
          (t, bs) \<leftarrow> load_map load_hash load_TransactionSubBlock le conv bs;
          (c, bs) \<leftarrow> load_map load_hash load_CreationSubBlock le conv bs;
          Some (\<lparr>header = h, transactions = t, creations = c\<rparr>, bs) }"

section \<open>Codecs\<close>

text \<open>Containers of fewer than \<open>2 ^ 64\<close> elements, maps in key order: what a C++ object always satisfies.\<close>

definition fits :: "'a list \<Rightarrow> bool" where
  "fits xs = (length xs < 2 ^ 64)"

definition key_ok :: "public_key_t \<Rightarrow> bool" where
  "key_ok k = fits (short_string k)"

definition tx_ok :: "TransactionSubBlock \<Rightarrow> bool" where
  "tx_ok t = (key_ok (pre_owner t) \<and> key_ok (post_owner t) \<and> fits (tx_signature t))"

definition cr_ok :: "CreationSubBlock \<Rightarrow> bool" where
  "cr_ok c = (fits (data_value c) \<and> key_ok (creator c) \<and> fits (cr_signature c))"

definition baseline_ok :: "BaselineBlock \<Rightarrow> bool" where
  "baseline_ok b =
     (fits (data_value_hashes b) \<and> list_all fits (data_value_hashes b) \<and>
      map_wf (wallets b) \<and> fits (wallets b) \<and> list_all (\<lambda>kv. key_ok (fst kv)) (wallets b))"

definition collection_ok :: "CollectionBlock \<Rightarrow> bool" where
  "collection_ok c =
     (map_wf (transactions c) \<and> fits (transactions c) \<and> list_all (\<lambda>kv. tx_ok (snd kv)) (transactions c) \<and>
      map_wf (creations c) \<and> fits (creations c) \<and> list_all (\<lambda>kv. cr_ok (snd kv)) (creations c))"

interpretation GenericHeader_codec: codec save_GenericHeader load_GenericHeader "\<lambda>_. True"
  by unfold_locales (simp add: save_GenericHeader_def load_GenericHeader_def codec)

interpretation BlockHeader_codec: codec save_BlockHeader load_BlockHeader "\<lambda>_. True"
  by unfold_locales
    (simp add: save_BlockHeader_def load_BlockHeader_def GenericHeader_codec.roundtrip codec)

interpretation SubBlockHeader_codec: codec save_SubBlockHeader load_SubBlockHeader "\<lambda>_. True"
  by unfold_locales
    (simp add: save_SubBlockHeader_def load_SubBlockHeader_def GenericHeader_codec.roundtrip)

interpretation MiningState_codec: codec save_MiningState load_MiningState "\<lambda>_. True"
  by unfold_locales (simp add: save_MiningState_def load_MiningState_def codec)

interpretation key_codec: codec save_key load_key key_ok
  by unfold_locales (simp add: save_key_def load_key_def key_ok_def fits_def codec)

interpretation hashes_codec: codec "save_vector save_hash" "load_vector load_hash"
    "\<lambda>xs. length xs < 2 ^ 64 \<and> list_all (\<lambda>_. True) xs"
  by (rule hash_codec.codec_vector)

interpretation hash_table_codec: codec "save_vector (save_vector save_hash)"
    "load_vector (load_vector load_hash)"
    "\<lambda>xs. length xs < 2 ^ 64 \<and> list_all (\<lambda>ys. length ys < 2 ^ 64 \<and> list_all (\<lambda>_. True) ys) xs"
  by (rule hashes_codec.codec_vector)

interpretation wallets_codec: map_codec save_key load_key key_ok
    "save_int :: u64 writer" load_int "\<lambda>_. True"
  by unfold_locales

interpretation tx_codec: codec save_TransactionSubBlock load_TransactionSubBlock tx_ok
  by unfold_locales
    (simp add: save_TransactionSubBlock_def load_TransactionSubBlock_def tx_ok_def fits_def
      SubBlockHeader_codec.roundtrip key_codec.roundtrip codec)

interpretation cr_codec: codec save_CreationSubBlock load_CreationSubBlock cr_ok
  by unfold_locales
    (simp add: save_CreationSubBlock_def load_CreationSubBlock_def cr_ok_def fits_def
      SubBlockHeader_codec.roundtrip key_codec.roundtrip codec)

interpretation txs_codec: map_codec save_hash load_hash "\<lambda>_. True"
    save_TransactionSubBlock load_TransactionSubBlock tx_ok
  by unfold_locales

interpretation crs_codec: map_codec save_hash load_hash "\<lambda>_. True"
    save_CreationSubBlock load_CreationSubBlock cr_ok
  by unfold_locales

interpretation BaselineBlock_codec: codec save_BaselineBlock load_BaselineBlock baseline_ok
proof
  fix b :: BaselineBlock and le w rest
  assume ok: "baseline_ok b"
  have "load_vector (load_vector load_hash) le (endian_conv le w)
      (save_vector (save_vector save_hash) w (data_value_hashes b) @ r) = Some (data_value_hashes b, r)" for r
    using ok by (intro hash_table_codec.roundtrip) (auto simp: baseline_ok_def fits_def list_all_iff)
  moreover have "load_map load_key load_int le (endian_conv le w)
      (save_map save_key save_int w (wallets b) @ r) = Some (wallets b, r)" for r
    using ok by (intro wallets_codec.m.roundtrip) (auto simp: baseline_ok_def fits_def)
  ultimately show "load_BaselineBlock le (endian_conv le w) (save_BaselineBlock w b @ rest) = Some (b, rest)"
    by (simp add: save_BaselineBlock_def load_BaselineBlock_def BlockHeader_codec.roundtrip
        MiningState_codec.roundtrip)
qed

interpretation CollectionBlock_codec: codec save_CollectionBlock load_CollectionBlock collection_ok
proof
  fix c :: CollectionBlock and le w rest
  assume ok: "collection_ok c"
  have "load_map load_hash load_TransactionSubBlock le (endian_conv le w)
      (save_map save_hash save_TransactionSubBlock w (transactions c) @ r) = Some (transactions c, r)" for r
    using ok by (intro txs_codec.m.roundtrip) (auto simp: collection_ok_def fits_def)
  moreover have "load_map load_hash load_CreationSubBlock le (endian_conv le w)
      (save_map save_hash save_CreationSubBlock w (creations c) @ r) = Some (creations c, r)" for r
    using ok by (intro crs_codec.m.roundtrip) (auto simp: collection_ok_def fits_def)
  ultimately show "load_CollectionBlock le (endian_conv le w) (save_CollectionBlock w c @ rest) = Some (c, rest)"
    by (simp add: save_CollectionBlock_def load_CollectionBlock_def BlockHeader_codec.roundtrip)
qed

text \<open>A block read from bytes has maps in key order, whatever the bytes were.\<close>

lemma load_CollectionBlock_wf:
  "load_CollectionBlock le conv bs = Some (c, rest) \<Longrightarrow> map_wf (transactions c) \<and> map_wf (creations c)"
  by (auto simp: load_CollectionBlock_def bind_eq_Some_conv dest: load_map_wf)

lemma load_BaselineBlock_wf:
  "load_BaselineBlock le conv bs = Some (b, rest) \<Longrightarrow> map_wf (wallets b)"
  by (auto simp: load_BaselineBlock_def bind_eq_Some_conv dest: load_map_wf)

section \<open>Property\<close>

text \<open>
  The archive of a block determines the block, on hosts of any endianness. What one host wrote
  (of an object whose maps are in order), another reads back as the same block, leaving exactly the
  bytes that follow; in particular two blocks with the same bytes, hence the same hash input, are
  equal.
\<close>

theorem block_archive_roundtrip:
  assumes "baseline_ok b" "collection_ok c"
  shows "Option.bind (in_archive le (out_archive w @ save_BaselineBlock w b @ rest))
      (\<lambda>(conv, bs). load_BaselineBlock le conv bs) = Some (b, rest) \<and>
    Option.bind (in_archive le (out_archive w @ save_CollectionBlock w c @ rest))
      (\<lambda>(conv, bs). load_CollectionBlock le conv bs) = Some (c, rest)"
  using assms BaselineBlock_codec.roundtrip CollectionBlock_codec.roundtrip by (simp add: codec)

theorem block_archive_roundtrip_witness:
  "Option.bind (in_archive True (out_archive False @ save_BaselineBlock False new_BaselineBlock @ [7]))
     (\<lambda>(conv, bs). load_BaselineBlock True conv bs) = Some (new_BaselineBlock, [7])"
  using block_archive_roundtrip [of new_BaselineBlock new_CollectionBlock True False "[7]"]
  by (simp add: baseline_ok_def collection_ok_def fits_def new_BaselineBlock_def new_CollectionBlock_def)

end
