(* ===== verification/Crypto_Helper.thy ===== *)
theory Crypto_Helper
  imports Block_Definitions
begin

text \<open>
  src/src/scn/CryptoHelper/CryptoHelper.cpp and .h, HashStreamBuf.cpp and .h. OpenSSL and the
  base64 iterators of boost are not part of the repository: they are fields of the record
  \<open>env\<close>, beside the build's \<open>NDEBUG\<close> and the host's endianness, and every definition that
  uses them takes the record. What they promise is stated as hypotheses (\<open>sha_stream\<close>).
\<close>

section \<open>The environment\<close>

record 'ctx env =
  NDEBUG :: bool
  host_le :: bool
  SHA256_Init :: 'ctx
  SHA256_Update :: "'ctx \<Rightarrow> byte list \<Rightarrow> 'ctx"
  SHA256_Final :: "'ctx \<Rightarrow> byte list"
  PEM_read_EC_PUBKEY :: "string \<Rightarrow> bool"
  PEM_read_ECPrivateKey :: "string \<Rightarrow> bool"
  EVP_DigestVerify :: "string \<Rightarrow> byte list \<Rightarrow> byte list \<Rightarrow> bool"
  EVP_DigestSign :: "string \<Rightarrow> byte list \<Rightarrow> byte list option"
  base64_from_binary :: "byte list \<Rightarrow> string"
  binary_from_base64 :: "string \<Rightarrow> byte list option"

text \<open>
  The streaming law of \<open>SHA256_Update\<close>: feeding two pieces is feeding their concatenation, and
  the digest has 32 bytes.
\<close>

definition sha_stream :: "'ctx env \<Rightarrow> bool" where
  "sha_stream E \<longleftrightarrow>
     (\<forall>c a b. SHA256_Update E (SHA256_Update E c a) b = SHA256_Update E c (a @ b)) \<and>
     (\<forall>c. SHA256_Update E c [] = c) \<and>
     (\<forall>c. length (SHA256_Final E c) = 32)"

section \<open>calcHash\<close>

text \<open>The source takes the length as \<open>uint32_t\<close>, that is, data of less than \<open>2 ^ 32\<close> bytes.\<close>

definition calcHash_bytes :: "'ctx env \<Rightarrow> byte list \<Rightarrow> hash_t" where
  "calcHash_bytes E data = fromArray (SHA256_Final E (SHA256_Update E (SHA256_Init E) data))"

definition calcHash :: "'ctx env \<Rightarrow> string \<Rightarrow> hash_t" where
  "calcHash E data = calcHash_bytes E (string_bytes data)"

text \<open>The overload on a \<open>stringstream\<close> reads the stream in pieces of 512 KiB.\<close>

function calcHash_loop :: "'ctx env \<Rightarrow> 'ctx \<Rightarrow> byte list \<Rightarrow> 'ctx" where
  "calcHash_loop E c data =
     (let piece = take (512 * 1024) data; c' = SHA256_Update E c piece
      in if length data < 512 * 1024 then c' else calcHash_loop E c' (drop (512 * 1024) data))"
  by pat_completeness auto
termination
  by (relation "measure (\<lambda>(E, c, data). length data)") auto

declare calcHash_loop.simps [simp del]

definition calcHash_stream :: "'ctx env \<Rightarrow> byte list \<Rightarrow> hash_t" where
  "calcHash_stream E data = fromArray (SHA256_Final E (calcHash_loop E (SHA256_Init E) data))"

text \<open>The incremental \<open>CryptoHelper::Hash\<close> of the miner.\<close>

definition Hash_new :: "'ctx env \<Rightarrow> 'ctx" where
  "Hash_new E = SHA256_Init E"

definition Hash_update :: "'ctx env \<Rightarrow> 'ctx \<Rightarrow> string \<Rightarrow> 'ctx" where
  "Hash_update E c data = SHA256_Update E c (string_bytes data)"

definition Hash_finalize :: "'ctx env \<Rightarrow> 'ctx \<Rightarrow> hash_t" where
  "Hash_finalize E c = fromArray (SHA256_Final E c)"

section \<open>HashStreamBuf\<close>

text \<open>
  \<open>hs_area\<close> are the bytes between \<open>pbase\<close> and \<open>pptr\<close>, \<open>hs_size\<close> the size of the put area
  (the vector has one more element, where \<open>overflow\<close> stores its character).
\<close>

record 'ctx HashStreamBuf =
  hs_area :: "byte list"
  hs_size :: nat
  hs_sha :: 'ctx

definition HashStreamBuf_new :: "'ctx env \<Rightarrow> nat \<Rightarrow> 'ctx HashStreamBuf" where
  "HashStreamBuf_new E buffer_size = \<lparr>hs_area = [], hs_size = buffer_size, hs_sha = SHA256_Init E\<rparr>"

definition flushBuffer :: "'ctx env \<Rightarrow> 'ctx HashStreamBuf \<Rightarrow> bool \<times> 'ctx HashStreamBuf" where
  "flushBuffer E s =
     (let num = length (hs_area s)
      in (num \<noteq> 0, s\<lparr>hs_sha := SHA256_Update E (hs_sha s) (hs_area s), hs_area := []\<rparr>))"

text \<open>\<open>None\<close> is \<open>traits_type::eof()\<close>, as an argument and as the result.\<close>

definition hs_overflow :: "'ctx env \<Rightarrow> byte option \<Rightarrow> 'ctx HashStreamBuf \<Rightarrow> byte option \<times> 'ctx HashStreamBuf" where
  "hs_overflow E c s =
     (case c of
        None \<Rightarrow> (None, s)
      | Some b \<Rightarrow>
          (case flushBuffer E (s\<lparr>hs_area := hs_area s @ [b]\<rparr>) of
             (flushed, s') \<Rightarrow> (if flushed then Some b else None, s')))"

definition hs_sync :: "'ctx env \<Rightarrow> 'ctx HashStreamBuf \<Rightarrow> int \<times> 'ctx HashStreamBuf" where
  "hs_sync E s = (case flushBuffer E s of (flushed, s') \<Rightarrow> (if flushed then 0 else -1, s'))"

definition digestHash :: "'ctx env \<Rightarrow> 'ctx HashStreamBuf \<Rightarrow> hash_t \<times> 'ctx HashStreamBuf" where
  "digestHash E s =
     (case flushBuffer E s of
        (_, s') \<Rightarrow> (fromArray (SHA256_Final E (hs_sha s')), s'\<lparr>hs_sha := SHA256_Init E\<rparr>))"

text \<open>\<open>std::streambuf::sputc\<close> and \<open>sputn\<close>: store while there is room, else \<open>overflow\<close>.\<close>

definition sputc :: "'ctx env \<Rightarrow> byte \<Rightarrow> 'ctx HashStreamBuf \<Rightarrow> 'ctx HashStreamBuf" where
  "sputc E b s =
     (if length (hs_area s) < hs_size s then s\<lparr>hs_area := hs_area s @ [b]\<rparr>
      else snd (hs_overflow E (Some b) s))"

definition sputn :: "'ctx env \<Rightarrow> byte list \<Rightarrow> 'ctx HashStreamBuf \<Rightarrow> 'ctx HashStreamBuf" where
  "sputn E bs s = fold (sputc E) bs s"

definition stream_digest :: "'ctx env \<Rightarrow> byte list \<Rightarrow> hash_t" where
  "stream_digest E bs = fst (digestHash E (sputn E bs (HashStreamBuf_new E 8192)))"

section \<open>Hashes of blocks\<close>

text \<open>
  The templates over \<open>BLOCK\<close> take the serialization of the block class and the access to
  \<open>header.generic_header.block_hash\<close>.
\<close>

definition fillHash ::
    "'ctx env \<Rightarrow> 'b writer \<Rightarrow> ('b \<Rightarrow> hash_t) \<Rightarrow> (hash_t \<Rightarrow> 'b \<Rightarrow> 'b) \<Rightarrow> 'b \<Rightarrow> 'b res" where
  "fillHash E save get put block =
     assert_res (NDEBUG E) (get block = 0)
       (Inr (put (stream_digest E (out_archive (host_le E) @ save (host_le E) block)) block))"

definition verifyHash ::
    "'ctx env \<Rightarrow> 'b writer \<Rightarrow> ('b \<Rightarrow> hash_t) \<Rightarrow> (hash_t \<Rightarrow> 'b \<Rightarrow> 'b) \<Rightarrow> 'b \<Rightarrow> bool" where
  "verifyHash E save get put block =
     (let block_copy = put 0 block
      in get block = stream_digest E (out_archive (host_le E) @ save (host_le E) block_copy))"

abbreviation fillHash_baseline :: "'ctx env \<Rightarrow> BaselineBlock \<Rightarrow> BaselineBlock res" where
  "fillHash_baseline E \<equiv> fillHash E save_BaselineBlock hash_of set_hash"

abbreviation fillHash_collection :: "'ctx env \<Rightarrow> CollectionBlock \<Rightarrow> CollectionBlock res" where
  "fillHash_collection E \<equiv> fillHash E save_CollectionBlock hash_of set_hash"

abbreviation fillHash_tx :: "'ctx env \<Rightarrow> TransactionSubBlock \<Rightarrow> TransactionSubBlock res" where
  "fillHash_tx E \<equiv> fillHash E save_TransactionSubBlock tx_hash set_tx_hash"

abbreviation fillHash_cr :: "'ctx env \<Rightarrow> CreationSubBlock \<Rightarrow> CreationSubBlock res" where
  "fillHash_cr E \<equiv> fillHash E save_CreationSubBlock cr_hash set_cr_hash"

abbreviation verifyHash_baseline :: "'ctx env \<Rightarrow> BaselineBlock \<Rightarrow> bool" where
  "verifyHash_baseline E \<equiv> verifyHash E save_BaselineBlock hash_of set_hash"

abbreviation verifyHash_collection :: "'ctx env \<Rightarrow> CollectionBlock \<Rightarrow> bool" where
  "verifyHash_collection E \<equiv> verifyHash E save_CollectionBlock hash_of set_hash"

abbreviation verifyHash_tx :: "'ctx env \<Rightarrow> TransactionSubBlock \<Rightarrow> bool" where
  "verifyHash_tx E \<equiv> verifyHash E save_TransactionSubBlock tx_hash set_tx_hash"

abbreviation verifyHash_cr :: "'ctx env \<Rightarrow> CreationSubBlock \<Rightarrow> bool" where
  "verifyHash_cr E \<equiv> verifyHash E save_CreationSubBlock cr_hash set_cr_hash"

section \<open>Keys\<close>

definition isPublicKeyValid :: "'ctx env \<Rightarrow> public_key_t \<Rightarrow> bool" where
  "isPublicKeyValid E k = PEM_read_EC_PUBKEY E (getAsFullString k)"

definition isPrivateKeyValid :: "'ctx env \<Rightarrow> private_key_t \<Rightarrow> bool" where
  "isPrivateKeyValid E k = PEM_read_ECPrivateKey E k"

section \<open>Signatures\<close>

text \<open>
  \<open>val[len-1]\<close> with \<open>len = 0\<close> and \<open>val[len-2]\<close> with \<open>len = 1\<close> index before the string.
\<close>

definition calcDecodeLength :: "string \<Rightarrow> u64 res" where
  "calcDecodeLength val =
     (let len = length val;
          out = (of_nat len * 3) div 4
      in if len = 0 then Inl OutOfRange
         else if val ! (len - 1) = CHR ''='' then
           (if len = 1 then Inl OutOfRange
            else if val ! (len - 2) = CHR ''='' then Inr (out - 2)
            else Inr (out - 1))
         else Inr out)"

definition decode64 :: "'ctx env \<Rightarrow> string \<Rightarrow> byte list res" where
  "decode64 E val =
     bind_res (calcDecodeLength val) (\<lambda>signature_raw_size.
       Inr (case binary_from_base64 E val of
              None \<Rightarrow> []
            | Some raw \<Rightarrow> take (unat signature_raw_size) raw))"

definition encode64 :: "'ctx env \<Rightarrow> byte list \<Rightarrow> string" where
  "encode64 E val = base64_from_binary E val @ replicate ((3 - length val mod 3) mod 3) (CHR ''='')"

definition calcSignature :: "'ctx env \<Rightarrow> private_key_t \<Rightarrow> byte list \<Rightarrow> signature_t" where
  "calcSignature E priv data =
     (case EVP_DigestSign E priv data of None \<Rightarrow> '''' | Some enc_msg \<Rightarrow> encode64 E enc_msg)"

definition verifySignature_data :: "'ctx env \<Rightarrow> byte list \<Rightarrow> signature_t \<Rightarrow> public_key_t \<Rightarrow> bool res" where
  "verifySignature_data E data signature key =
     bind_res (decode64 E signature) (\<lambda>signature_raw.
       if \<not> PEM_read_EC_PUBKEY E (getAsFullString key) then Inr False
       else Inr (EVP_DigestVerify E (getAsFullString key) data signature_raw))"

definition fillSignature ::
    "'ctx env \<Rightarrow> private_key_t \<Rightarrow> 'b writer \<Rightarrow> ('b \<Rightarrow> hash_t) \<Rightarrow> ('b \<Rightarrow> signature_t) \<Rightarrow>
     (signature_t \<Rightarrow> 'b \<Rightarrow> 'b) \<Rightarrow> 'b \<Rightarrow> 'b res" where
  "fillSignature E priv save get sig_get sig_put block =
     assert_res (NDEBUG E) (get block = 0)
       (assert_res (NDEBUG E) (sig_get block = '''')
         (Inr (sig_put (calcSignature E priv (out_archive (host_le E) @ save (host_le E) block)) block)))"

definition verifySignature ::
    "'ctx env \<Rightarrow> 'b writer \<Rightarrow> (hash_t \<Rightarrow> 'b \<Rightarrow> 'b) \<Rightarrow> ('b \<Rightarrow> signature_t) \<Rightarrow>
     (signature_t \<Rightarrow> 'b \<Rightarrow> 'b) \<Rightarrow> 'b \<Rightarrow> public_key_t \<Rightarrow> bool res" where
  "verifySignature E save put sig_get sig_put block key =
     (let block_copy = sig_put '''' (put 0 block)
      in verifySignature_data E (out_archive (host_le E) @ save (host_le E) block_copy) (sig_get block) key)"

abbreviation set_tx_sig :: "signature_t \<Rightarrow> TransactionSubBlock \<Rightarrow> TransactionSubBlock" where
  "set_tx_sig s t \<equiv> t\<lparr>tx_signature := s\<rparr>"

abbreviation set_cr_sig :: "signature_t \<Rightarrow> CreationSubBlock \<Rightarrow> CreationSubBlock" where
  "set_cr_sig s c \<equiv> c\<lparr>cr_signature := s\<rparr>"

abbreviation fillSignature_tx where
  "fillSignature_tx E priv \<equiv>
     fillSignature E priv save_TransactionSubBlock tx_hash tx_signature set_tx_sig"

abbreviation fillSignature_cr where
  "fillSignature_cr E priv \<equiv>
     fillSignature E priv save_CreationSubBlock cr_hash cr_signature set_cr_sig"

abbreviation verifySignature_tx where
  "verifySignature_tx E \<equiv>
     verifySignature E save_TransactionSubBlock set_tx_hash tx_signature set_tx_sig"

abbreviation verifySignature_cr where
  "verifySignature_cr E \<equiv>
     verifySignature E save_CreationSubBlock set_cr_hash cr_signature set_cr_sig"

section \<open>Stream buffer and one-shot hash agree\<close>

lemma sha_streamD:
  assumes "sha_stream E"
  shows "SHA256_Update E (SHA256_Update E c a) b = SHA256_Update E c (a @ b)"
    and "SHA256_Update E c [] = c"
    and "length (SHA256_Final E c) = 32"
  using assms by (simp_all add: sha_stream_def)

text \<open>The invariant of the buffer: it never holds more than the put area, and nothing is lost.\<close>

definition hs_inv :: "'ctx env \<Rightarrow> byte list \<Rightarrow> 'ctx HashStreamBuf \<Rightarrow> bool" where
  "hs_inv E bs s \<longleftrightarrow> length (hs_area s) \<le> hs_size s \<and>
     SHA256_Update E (hs_sha s) (hs_area s) = SHA256_Update E (SHA256_Init E) bs"

lemma hs_inv_sputc:
  assumes E: "sha_stream E" and inv: "hs_inv E bs s"
  shows "hs_inv E (bs @ [b]) (sputc E b s)"
  using inv
  by (auto simp: hs_inv_def sputc_def hs_overflow_def flushBuffer_def Let_def sha_streamD(2) [OF E]
      simp flip: sha_streamD(1) [OF E])

lemma hs_inv_sputn:
  assumes E: "sha_stream E"
  shows "hs_inv E as s \<Longrightarrow> hs_inv E (as @ bs) (sputn E bs s)"
proof (induction bs arbitrary: as s)
  case (Cons b bs)
  from Cons.IH [OF hs_inv_sputc [OF E Cons.prems, of b]] show ?case
    by (simp add: sputn_def)
qed (simp add: sputn_def)

lemma digest_sputn:
  assumes E: "sha_stream E"
  shows "fst (digestHash E (sputn E bs (HashStreamBuf_new E n))) = calcHash_bytes E bs"
proof -
  have "hs_inv E [] (HashStreamBuf_new E n)"
    by (simp add: hs_inv_def HashStreamBuf_new_def)
  from hs_inv_sputn [OF E this, of bs] show ?thesis
    by (simp add: hs_inv_def digestHash_def flushBuffer_def Let_def calcHash_bytes_def)
qed

lemma calcHash_loop_eq:
  assumes E: "sha_stream E"
  shows "calcHash_loop E c data = SHA256_Update E c data"
proof (induction "length data" arbitrary: c data rule: less_induct)
  case less
  show ?case
  proof (cases "length data < 512 * 1024")
    case True
    then show ?thesis by (subst calcHash_loop.simps) simp
  next
    case False
    let ?n = "512 * 1024 :: nat"
    have "calcHash_loop E (SHA256_Update E c (take ?n data)) (drop ?n data) =
        SHA256_Update E (SHA256_Update E c (take ?n data)) (drop ?n data)"
      using False by (intro less) auto
    also have "\<dots> = SHA256_Update E c data"
      by (simp add: sha_streamD(1) [OF E])
    finally show ?thesis using False by (subst calcHash_loop.simps) (simp add: Let_def)
  qed
qed

lemma stream_digest_eq: "sha_stream E \<Longrightarrow> stream_digest E bs = calcHash_bytes E bs"
  by (simp add: stream_digest_def digest_sputn)

lemma calcHash_stream_eq: "sha_stream E \<Longrightarrow> calcHash_stream E bs = calcHash_bytes E bs"
  by (simp add: calcHash_stream_def calcHash_bytes_def calcHash_loop_eq)

lemma Hash_object_eq:
  "sha_stream E \<Longrightarrow>
   Hash_finalize E (Hash_update E (Hash_update E (Hash_new E) s) t) = calcHash E (s @ t)"
  by (simp add: Hash_finalize_def Hash_update_def Hash_new_def calcHash_def calcHash_bytes_def
      string_bytes_def sha_streamD(1))

section \<open>The contract of a hashed block class\<close>

locale hashed_block =
  fixes save :: "'b writer" and get :: "'b \<Rightarrow> hash_t" and put :: "hash_t \<Rightarrow> 'b \<Rightarrow> 'b"
  assumes get_put: "get (put h b) = h"
    and put_put: "put g (put h b) = put g b"
    and put_get: "get b = h \<Longrightarrow> put h b = b"
begin

lemma verify_fill:
  "get b = 0 \<Longrightarrow> fillHash E save get put b = Inr b' \<Longrightarrow> verifyHash E save get put b'"
  by (auto simp: fillHash_def verifyHash_def Let_def res_simps get_put put_put put_get)

lemma fill_total: "get b = 0 \<Longrightarrow> \<exists>h. fillHash E save get put b = Inr (put h b)"
  by (auto simp: fillHash_def)

lemma fill_aborts: "\<not> NDEBUG E \<Longrightarrow> get b \<noteq> 0 \<Longrightarrow> fillHash E save get put b = Inl AssertFailed"
  by (simp add: fillHash_def)

lemma verify_eq_fill:
  "verifyHash E save get put b \<longleftrightarrow> fillHash E save get put (put 0 b) = Inr b"
proof -
  have "put h b = b \<longleftrightarrow> get b = h" for h by (metis get_put put_get)
  then show ?thesis by (auto simp: verifyHash_def fillHash_def Let_def get_put put_put)
qed

end

interpretation baseline_hash: hashed_block save_BaselineBlock hash_of set_hash
  by unfold_locales (auto simp: set_hash_def)

interpretation collection_hash: hashed_block save_CollectionBlock hash_of set_hash
  by unfold_locales (auto simp: set_hash_def)

interpretation tx_hashed: hashed_block save_TransactionSubBlock tx_hash set_tx_hash
  by unfold_locales (auto simp: set_tx_hash_def)

interpretation cr_hashed: hashed_block save_CreationSubBlock cr_hash set_cr_hash
  by unfold_locales (auto simp: set_cr_hash_def)

section \<open>Base64 framing and signatures\<close>

text \<open>
  What boost's iterators promise: six bits per character, none of them the padding character, and
  decoding the padded text starts with the encoded bytes.
\<close>

definition base64_ok :: "'ctx env \<Rightarrow> bool" where
  "base64_ok E \<longleftrightarrow>
     (\<forall>raw. length (base64_from_binary E raw) = (length raw * 4 + 2) div 3 \<and>
            CHR ''='' \<notin> set (base64_from_binary E raw) \<and>
            (\<exists>junk. binary_from_base64 E (encode64 E raw) = Some (raw @ junk)))"

lemma base64_length_arith:
  fixes n :: nat
  shows "(n * 4 + 2) div 3 + (3 - n mod 3) mod 3 = 4 * ((n + 2) div 3)"
    and "3 * ((n + 2) div 3) - (3 - n mod 3) mod 3 = n"
    and "(3 - n mod 3) mod 3 \<le> 2"
proof -
  obtain q r where n: "n = 3 * q + r" and r: "r < 3"
    by (metis div_mult_mod_eq mod_less_divisor mult.commute zero_less_numeral)
  have d: "(3 * q + r) mod 3 = r" using r by simp
  have r': "r = 0 \<or> r = 1 \<or> r = 2" using r by arith
  have f: "((3 * q + r) * 4 + 2) div 3 = 4 * q + (r * 4 + 2) div 3"
    using div_mult_self2 [of 3 "r * 4 + 2" "4 * q"] by (simp add: algebra_simps)
  have g: "(3 * q + r + 2) div 3 = q + (r + 2) div 3"
    using div_mult_self2 [of 3 "r + 2" q] by (simp add: algebra_simps)
  show "(n * 4 + 2) div 3 + (3 - n mod 3) mod 3 = 4 * ((n + 2) div 3)"
    unfolding n d f g using r' by auto
  show "3 * ((n + 2) div 3) - (3 - n mod 3) mod 3 = n"
    unfolding n d f g using r' by auto
qed simp

lemma padding_last:
  assumes "CHR ''='' \<notin> set t"
  shows "t @ replicate p (CHR ''='') \<noteq> [] \<Longrightarrow>
    ((t @ replicate p (CHR ''='')) ! (length t + p - 1) = CHR ''='') = (0 < p)"
    and "2 \<le> length t + p \<Longrightarrow>
    ((t @ replicate p (CHR ''='')) ! (length t + p - 2) = CHR ''='') = (1 < p)"
proof -
  have t: "i < length t \<Longrightarrow> t ! i \<noteq> CHR ''=''" for i
    using assms by (metis nth_mem)
  show "t @ replicate p (CHR ''='') \<noteq> [] \<Longrightarrow>
    ((t @ replicate p (CHR ''='')) ! (length t + p - 1) = CHR ''='') = (0 < p)"
    using t [of "length t - 1"] by (cases p) (simp_all add: nth_append del: replicate_Suc)
  show "2 \<le> length t + p \<Longrightarrow>
    ((t @ replicate p (CHR ''='')) ! (length t + p - 2) = CHR ''='') = (1 < p)"
    using t [of "length t + p - 2"] by (cases "1 < p") (auto simp: nth_append)
qed

lemma calcDecodeLength_encode64:
  assumes E: "base64_ok E" and raw: "raw \<noteq> []" and len: "length raw < 2 ^ 60"
  shows "calcDecodeLength (encode64 E raw) = Inr (of_nat (length raw))"
proof -
  let ?t = "base64_from_binary E raw" and ?p = "(3 - length raw mod 3) mod 3"
  have t: "length ?t = (length raw * 4 + 2) div 3" "CHR ''='' \<notin> set ?t"
    using E by (simp_all add: base64_ok_def)
  have total: "length ?t + ?p = 4 * ((length raw + 2) div 3)"
    using base64_length_arith(1) [of "length raw"] t(1) by simp
  have ge: "1 \<le> (length raw + 2) div 3" using raw by (cases raw) auto
  have out: "(of_nat (length (encode64 E raw)) * 3 :: u64) div 4 = of_nat (3 * ((length raw + 2) div 3))"
  proof -
    have "(of_nat (12 * ((length raw + 2) div 3)) :: u64) div of_nat 4 =
        of_nat (12 * ((length raw + 2) div 3) div 4)"
      using len by (intro of_nat_div_word) auto
    moreover have "12 * ((length raw + 2) div 3) div 4 = 3 * ((length raw + 2) div 3)" by simp
    moreover have "length (encode64 E raw) = 4 * ((length raw + 2) div 3)"
      using total by (simp add: encode64_def)
    ultimately show ?thesis by simp
  qed
  have sub: "of_nat (3 * ((length raw + 2) div 3)) - of_nat ?p = (of_nat (length raw) :: u64)"
  proof -
    have "?p \<le> 3 * ((length raw + 2) div 3)"
      using base64_length_arith(3) [of "length raw"] ge by linarith
    from of_nat_diff [OF this, where 'a = u64] show ?thesis
      using base64_length_arith(2) [of "length raw"] by simp
  qed
  have ne: "encode64 E raw \<noteq> []" "length (encode64 E raw) \<noteq> 1" "2 \<le> length ?t + ?p"
    using total ge by (auto simp: encode64_def)
  have last: "(encode64 E raw ! (length (encode64 E raw) - 1) = CHR ''='') = (0 < ?p)"
    "(encode64 E raw ! (length (encode64 E raw) - 2) = CHR ''='') = (1 < ?p)"
    using padding_last [OF t(2), of ?p] ne by (simp_all add: encode64_def)
  consider "?p = 0" | "?p = 1" | "?p = 2" by linarith
  then show ?thesis
    using sub
    by cases (simp_all add: calcDecodeLength_def Let_def out last [unfolded One_nat_def]
        ne [unfolded One_nat_def])
qed

lemma decode64_encode64:
  assumes E: "base64_ok E" and raw: "raw \<noteq> []" "length raw < 2 ^ 60"
  shows "decode64 E (encode64 E raw) = Inr raw"
proof -
  obtain junk where "binary_from_base64 E (encode64 E raw) = Some (raw @ junk)"
    using E by (auto simp: base64_ok_def)
  moreover have "unat (of_nat (length raw) :: u64) = length raw"
    using raw(2) by (intro unat_of_nat_small) simp
  ultimately show ?thesis
    using calcDecodeLength_encode64 [OF E raw] by (simp add: decode64_def)
qed

text \<open>The network can send a sub block without a signature: decoding it indexes before the string.\<close>

lemma decode64_empty: "decode64 E '''' = Inl OutOfRange"
  by (simp add: decode64_def calcDecodeLength_def Let_def)

lemma verifySignature_data_key:
  "verifySignature_data E data s k = Inr True \<Longrightarrow> isPublicKeyValid E k"
  by (auto simp: verifySignature_data_def isPublicKeyValid_def res_simps split: if_splits)

text \<open>
  What the key pair promises: the private key signs, and the public key, readable by OpenSSL,
  accepts what was signed.
\<close>

definition key_pair_ok :: "'ctx env \<Rightarrow> private_key_t \<Rightarrow> public_key_t \<Rightarrow> bool" where
  "key_pair_ok E priv pub \<longleftrightarrow>
     isPublicKeyValid E pub \<and>
     (\<forall>data. \<exists>raw. EVP_DigestSign E priv data = Some raw \<and> raw \<noteq> [] \<and> length raw < 2 ^ 60 \<and>
             EVP_DigestVerify E (getAsFullString pub) data raw)"

lemma verifySignature_data_calc:
  assumes E: "base64_ok E" and kp: "key_pair_ok E priv pub"
  shows "verifySignature_data E data (calcSignature E priv data) pub = Inr True"
proof -
  obtain raw where raw: "EVP_DigestSign E priv data = Some raw" "raw \<noteq> []" "length raw < 2 ^ 60"
    and ver: "EVP_DigestVerify E (getAsFullString pub) data raw"
    using kp by (auto simp: key_pair_ok_def)
  have "PEM_read_EC_PUBKEY E (getAsFullString pub)"
    using kp by (simp add: key_pair_ok_def isPublicKeyValid_def)
  then show ?thesis
    using ver by (simp add: verifySignature_data_def calcSignature_def raw(1) decode64_encode64 [OF E raw(2,3)])
qed

text \<open>A sub block that was signed and then hashed passes the signature check.\<close>

locale signed_block = hashed_block save get put
  for save :: "'b writer" and get put +
  fixes sig_get :: "'b \<Rightarrow> signature_t" and sig_put :: "signature_t \<Rightarrow> 'b \<Rightarrow> 'b"
  assumes sig_get_put: "sig_get (sig_put s b) = s"
    and sig_put_put: "sig_put s (sig_put t b) = sig_put s b"
    and sig_put_get: "sig_get b = s \<Longrightarrow> sig_put s b = b"
    and sig_put_comm: "sig_put s (put h b) = put h (sig_put s b)"
    and sig_get_hash: "sig_get (put h b) = sig_get b"
begin

lemma verify_filled_signature:
  assumes E: "base64_ok E" and kp: "key_pair_ok E priv pub"
    and fresh: "get b = 0" "sig_get b = ''''"
    and signed: "fillSignature E priv save get sig_get sig_put b = Inr b'"
    and hashed: "fillHash E save get put b' = Inr b''"
  shows "verifySignature E save put sig_get sig_put b'' pub = Inr True"
proof -
  let ?data = "out_archive (host_le E) @ save (host_le E) b"
  have b': "b' = sig_put (calcSignature E priv ?data) b"
    using signed by (simp add: fillSignature_def res_simps)
  obtain h where b'': "b'' = put h b'"
    using hashed by (auto simp: fillHash_def res_simps)
  have "sig_put '''' (put 0 b'') = b"
    by (simp add: b'' b' put_put sig_put_comm sig_put_put sig_put_get fresh put_get)
  moreover have "sig_get b'' = calcSignature E priv ?data"
    by (simp add: b'' b' sig_get_hash sig_get_put)
  ultimately show ?thesis
    by (simp add: verifySignature_def Let_def verifySignature_data_calc [OF E kp])
qed

end

interpretation tx_signed: signed_block save_TransactionSubBlock tx_hash set_tx_hash tx_signature set_tx_sig
  by unfold_locales (auto simp: set_tx_hash_def)

interpretation cr_signed: signed_block save_CreationSubBlock cr_hash set_cr_hash cr_signature set_cr_sig
  by unfold_locales (auto simp: set_cr_hash_def)

end
