(* ===== verification/Sample_Environment.thy ===== *)
theory Sample_Environment
  imports Crypto_Helper
begin

text \<open>
  A concrete environment that satisfies what the development assumes of OpenSSL and of boost's
  base64 iterators: the length in the place of SHA-256, signatures that are an additive
  checksum, and the base64 code itself. The witnesses of the properties use it.
\<close>

section \<open>Base64\<close>

definition base64_alphabet :: string where
  "base64_alphabet = ''ABCDEFGHIJKLMNOPQRSTUVWXYZabcdefghijklmnopqrstuvwxyz0123456789+/''"

definition base64_digit :: "nat \<Rightarrow> char" where
  "base64_digit n = base64_alphabet ! n"

fun index_of :: "char \<Rightarrow> string \<Rightarrow> nat" where
  "index_of c [] = 0"
| "index_of c (d # ds) = (if c = d then 0 else Suc (index_of c ds))"

text \<open>Characters outside the alphabet, the padding among them, count as zero.\<close>

definition base64_value :: "char \<Rightarrow> nat" where
  "base64_value c = index_of c base64_alphabet mod 64"

fun base64_encode :: "byte list \<Rightarrow> string" where
  "base64_encode (a # b # c # r) =
     [base64_digit (unat a div 4), base64_digit (unat a mod 4 * 16 + unat b div 16),
      base64_digit (unat b mod 16 * 4 + unat c div 64), base64_digit (unat c mod 64)] @ base64_encode r"
| "base64_encode [a, b] =
     [base64_digit (unat a div 4), base64_digit (unat a mod 4 * 16 + unat b div 16),
      base64_digit (unat b mod 16 * 4)]"
| "base64_encode [a] = [base64_digit (unat a div 4), base64_digit (unat a mod 4 * 16)]"
| "base64_encode [] = []"

fun base64_decode :: "string \<Rightarrow> byte list" where
  "base64_decode (w # x # y # z # r) =
     [of_nat (base64_value w * 4 + base64_value x div 16),
      of_nat (base64_value x mod 16 * 16 + base64_value y div 4),
      of_nat (base64_value y mod 4 * 64 + base64_value z)] @ base64_decode r"
| "base64_decode _ = []"

lemma base64_digit_facts:
  assumes "n < 64"
  shows "base64_value (base64_digit n) = n" "base64_digit n \<noteq> CHR ''=''"
proof -
  have "\<forall>n \<in> set [0..<64]. base64_value (base64_digit n) = n \<and> base64_digit n \<noteq> CHR ''=''"
    by code_simp
  with assms show "base64_value (base64_digit n) = n" "base64_digit n \<noteq> CHR ''=''" by simp_all
qed

lemma base64_value_pad: "base64_value (CHR ''='') = 0"
  by code_simp

lemma base64_pieces:
  fixes a b :: byte
  shows "unat a div 4 < 64" "unat a mod 4 * 16 + unat b div 16 < 64"
    "unat b mod 16 * 4 + unat a div 64 < 64" "unat a mod 64 < 64" "unat a mod 4 * 16 < 64" "unat a mod 16 * 4 < 64"
proof -
  have "unat a < 256" "unat b < 256"
    using unsigned_less [of a, where 'a = nat] unsigned_less [of b, where 'a = nat] by simp_all
  then have "unat a div 4 < 64" "unat b div 16 < 16" "unat a div 64 < 4" by simp_all
  moreover have "unat a mod 4 < 4" "unat b mod 16 < 16" "unat a mod 64 < 64" "unat a mod 16 < 16" by simp_all
  ultimately show "unat a div 4 < 64" "unat a mod 4 * 16 + unat b div 16 < 64"
    "unat b mod 16 * 4 + unat a div 64 < 64" "unat a mod 64 < 64" "unat a mod 4 * 16 < 64" "unat a mod 16 * 4 < 64"
    by linarith+
qed

lemma base64_join:
  fixes a b c :: byte
  shows "of_nat (unat a div 4 * 4 + (unat a mod 4 * 16 + unat b div 16) div 16) = a"
    "of_nat ((unat a mod 4 * 16 + unat b div 16) mod 16 * 16 + (unat b mod 16 * 4 + unat c div 64) div 4) = b"
    "of_nat ((unat b mod 16 * 4 + unat c div 64) mod 4 * 64 + unat c mod 64) = c"
    "of_nat (unat a div 4 * 4 + unat a mod 4 * 16 div 16) = a"
    "of_nat ((unat a mod 4 * 16 + unat b div 16) mod 16 * 16 + unat b mod 16 * 4 div 4) = b"
proof -
  have q: "unat b div 16 < 16" "unat c div 64 < 4"
    using unsigned_less [of b, where 'a = nat] unsigned_less [of c, where 'a = nat] by simp_all
  have "unat a div 4 * 4 + (unat a mod 4 * 16 + unat b div 16) div 16 = unat a"
    "(unat a mod 4 * 16 + unat b div 16) mod 16 * 16 + (unat b mod 16 * 4 + unat c div 64) div 4 = unat b"
    "(unat b mod 16 * 4 + unat c div 64) mod 4 * 64 + unat c mod 64 = unat c"
    "unat a div 4 * 4 + unat a mod 4 * 16 div 16 = unat a"
    "(unat a mod 4 * 16 + unat b div 16) mod 16 * 16 + unat b mod 16 * 4 div 4 = unat b"
    using q by simp_all
  then show "of_nat (unat a div 4 * 4 + (unat a mod 4 * 16 + unat b div 16) div 16) = a"
    "of_nat ((unat a mod 4 * 16 + unat b div 16) mod 16 * 16 + (unat b mod 16 * 4 + unat c div 64) div 4) = b"
    "of_nat ((unat b mod 16 * 4 + unat c div 64) mod 4 * 64 + unat c mod 64) = c"
    "of_nat (unat a div 4 * 4 + unat a mod 4 * 16 div 16) = a"
    "of_nat ((unat a mod 4 * 16 + unat b div 16) mod 16 * 16 + unat b mod 16 * 4 div 4) = b"
    by (simp_all only: of_nat_unat ucast_id)
qed

lemma base64_encode_length: "length (base64_encode raw) = (length raw * 4 + 2) div 3"
  by (induction raw rule: base64_encode.induct) simp_all

lemma base64_encode_no_pad: "CHR ''='' \<notin> set (base64_encode raw)"
  by (induction raw rule: base64_encode.induct)
    (simp_all add: base64_digit_facts(2) [symmetric] base64_digit_facts(2) base64_pieces)

lemma base64_decode_encode:
  "\<exists>junk. base64_decode (base64_encode raw @ replicate ((3 - length raw mod 3) mod 3) (CHR ''='')) = raw @ junk"
proof (induction raw rule: base64_encode.induct)
  case (1 a b c r)
  moreover have "length (a # b # c # r) mod 3 = length r mod 3" by simp
  ultimately show ?case
    by (auto simp only: base64_encode.simps append.simps base64_decode.simps base64_digit_facts(1) base64_pieces
        base64_join)
next
  case (2 a b)
  have "(3 - length [a, b] mod 3) mod 3 = 1" by simp
  then show ?case
    by (simp only: base64_encode.simps append.simps base64_decode.simps base64_digit_facts(1) base64_pieces
        base64_join base64_value_pad replicate_0 replicate_Suc One_nat_def list.inject simp_thms)
next
  case (3 a)
  have "(3 - length [a] mod 3) mod 3 = Suc (Suc 0)" by simp
  then show ?case
    by (simp only: base64_encode.simps append.simps base64_decode.simps base64_digit_facts(1) base64_pieces
        base64_join base64_value_pad replicate_0 replicate_Suc list.inject simp_thms)
qed simp

section \<open>The environment\<close>

definition sample_digest :: "byte list \<Rightarrow> byte list" where
  "sample_digest c = replicate 31 255 @ [of_nat (length c)]"

definition sample_env :: "bool \<Rightarrow> byte list env" where
  "sample_env ndebug =
     \<lparr>NDEBUG = ndebug, host_le = True,
      SHA256_Init = [], SHA256_Update = (\<lambda>c bs. c @ bs), SHA256_Final = sample_digest,
      PEM_read_EC_PUBKEY = (\<lambda>pem. pem \<noteq> pem_prefix @ pem_postfix),
      PEM_read_ECPrivateKey = (\<lambda>pem. pem \<noteq> ''''),
      EVP_DigestVerify = (\<lambda>pem data raw. raw = [sum_list data]),
      EVP_DigestSign = (\<lambda>priv data. Some [sum_list data]),
      base64_from_binary = base64_encode,
      binary_from_base64 = (\<lambda>s. Some (base64_decode s))\<rparr>"

lemma sample_sha_stream: "sha_stream (sample_env nd)"
  by (simp add: sha_stream_def sample_env_def sample_digest_def)

lemma sample_base64: "base64_ok (sample_env nd)"
  using base64_decode_encode
  by (simp add: base64_ok_def sample_env_def encode64_def base64_encode_length base64_encode_no_pad)

lemma sample_NDEBUG [simp]: "NDEBUG (sample_env nd) = nd"
  by (simp add: sample_env_def)

lemma sample_public_key: "isPublicKeyValid (sample_env nd) k \<longleftrightarrow> k \<noteq> PublicKeyPEM ''''"
  by (cases k) (simp add: isPublicKeyValid_def sample_env_def getAsFullString_def)

lemma sample_key_pair: "k \<noteq> PublicKeyPEM '''' \<Longrightarrow> key_pair_ok (sample_env nd) priv k"
  using sample_public_key [of nd k] by (simp add: key_pair_ok_def) (simp add: sample_env_def)

end
