(* ===== verification/Crypto_Properties.thy ===== *)
theory Crypto_Properties
  imports Sample_Environment
begin

text \<open>
  The properties of the hashing and signing layer, with witnesses in the sample environment.
\<close>

text \<open>
  C24: the three ways the program computes SHA-256 agree. What the archive writes through the 8192
  byte \<open>HashStreamBuf\<close>, whatever its length, gives the same hash as one call on all the bytes, and
  so does the overload that reads a stream in pieces of 512 KiB.
\<close>

theorem hash_streams_agree:
  assumes "sha_stream E"
  shows "stream_digest E bs = calcHash_bytes E bs \<and> calcHash_stream E bs = calcHash_bytes E bs"
  using assms by (simp add: stream_digest_eq calcHash_stream_eq)

theorem hash_streams_agree_witness:
  "stream_digest (sample_env True) [1, 2, 3] = calcHash_bytes (sample_env True) [1, 2, 3]"
  using hash_streams_agree [OF sample_sha_stream [of True], of "[1, 2, 3]"] by simp

text \<open>
  \<open>verifyHash\<close> accepts a block exactly if \<open>fillHash\<close> on the block with its hash cleared
  reproduces it, for all four block classes; so filling the hash of a fresh block always gives a
  block that verifies, and changing anything but the hash of a verified block changes what its hash
  has to be.
\<close>

theorem verifyHash_iff_fillHash:
  "(verifyHash_baseline E b \<longleftrightarrow> fillHash_baseline E (set_hash 0 b) = Inr b) \<and>
   (verifyHash_collection E c \<longleftrightarrow> fillHash_collection E (set_hash 0 c) = Inr c) \<and>
   (verifyHash_tx E t \<longleftrightarrow> fillHash_tx E (set_tx_hash 0 t) = Inr t) \<and>
   (verifyHash_cr E r \<longleftrightarrow> fillHash_cr E (set_cr_hash 0 r) = Inr r)"
  by (simp only: baseline_hash.verify_eq_fill collection_hash.verify_eq_fill tx_hashed.verify_eq_fill
      cr_hashed.verify_eq_fill)

text \<open>
  C23: a sub block that is signed with a private key and then hashed passes the signature check with
  the matching public key, through the base64 text of the signature with its padding and the
  computed decoding length.
\<close>

theorem signed_sub_blocks_verify:
  assumes "base64_ok E" "key_pair_ok E priv pub"
    and "tx_hash t = 0" "tx_signature t = ''''" "cr_hash c = 0" "cr_signature c = ''''"
    and "bind_res (fillSignature_tx E priv t) (fillHash_tx E) = Inr t'"
    and "bind_res (fillSignature_cr E priv c) (fillHash_cr E) = Inr c'"
  shows "verifySignature_tx E t' pub = Inr True \<and> verifySignature_cr E c' pub = Inr True"
  using assms tx_signed.verify_filled_signature [OF assms(1-4)] cr_signed.verify_filled_signature [OF assms(1,2,5,6)]
  by (auto simp: bind_res_eq_Inr)

theorem signed_sub_blocks_verify_witness:
  "\<exists>t c. verifySignature_tx (sample_env False) t (PublicKeyPEM ''A'') = Inr True \<and>
     verifySignature_cr (sample_env False) c (PublicKeyPEM ''A'') = Inr True"
proof -
  let ?E = "sample_env False"
  have t: "tx_hash new_TransactionSubBlock = 0" "tx_signature new_TransactionSubBlock = ''''"
    and c: "cr_hash new_CreationSubBlock = 0" "cr_signature new_CreationSubBlock = ''''"
    by (simp_all add: new_TransactionSubBlock_def new_CreationSubBlock_def new_GenericHeader_def)
  obtain t' c' where "bind_res (fillSignature_tx ?E ''K'' new_TransactionSubBlock) (fillHash_tx ?E) = Inr t'"
    "bind_res (fillSignature_cr ?E ''K'' new_CreationSubBlock) (fillHash_cr ?E) = Inr c'"
    using t c by (simp add: fillSignature_def fillHash_def)
  from signed_sub_blocks_verify [OF sample_base64 sample_key_pair t c this] show ?thesis by auto
qed

text \<open>
  A sub block with an empty signature, which any peer can send, makes the signature check
  index before the start of the string instead of rejecting the block.
\<close>

theorem empty_signature_out_of_range:
  "verifySignature_tx E (t\<lparr>tx_signature := ''''\<rparr>) k = Inl OutOfRange \<and>
   verifySignature_cr E (c\<lparr>cr_signature := ''''\<rparr>) k = Inl OutOfRange"
  by (simp add: verifySignature_def Let_def verifySignature_data_def decode64_empty)

end
