(* ===== verification/Block_Cache.thy ===== *)
theory Block_Cache
  imports Crypto_Helper
begin

text \<open>
  The class \<open>Cache\<close> of src/src/scn/Blockchain/Cache.cpp: the newest blocks in memory, the older
  ones as files \<open><uid>.blk\<close> of one folder, and a thread that moves blocks from memory to disk.
  The folder is a map from block ids to file contents. Blocks are written and read with the
  archive of the theory \<open>Cereal_Archive\<close>.
\<close>

section \<open>State\<close>

record Cache =
  next_free_block_id :: block_uid_t
  cached_blocks :: "(block_uid_t, block) std_map"
  disk :: "block_uid_t \<Rightarrow> byte list option"

definition target_cache_size :: nat where "target_cache_size = 10"

definition Cache_new :: "(block_uid_t \<Rightarrow> byte list option) \<Rightarrow> Cache" where
  "Cache_new folder = \<lparr>next_free_block_id = 1, cached_blocks = [], disk = folder\<rparr>"

section \<open>Files\<close>

text \<open>\<open>getBlockFromDisk\<close> and \<open>getExternalBlockFromDisk\<close>: \<open>None\<close> is \<open>nullptr\<close>.\<close>

definition parseBlock :: "'ctx env \<Rightarrow> byte list \<Rightarrow> block option res" where
  "parseBlock E file =
     (case do { (conv, bs) \<leftarrow> in_archive (host_le E) file;
                (t, bs) \<leftarrow> load_int (host_le E) conv bs;
                Some (conv, t :: u8, bs) } of
        None \<Rightarrow> Inr None
      | Some (conv, t, bs) \<Rightarrow>
          if t = BaselineBlock_type then
            Inr (map_option (Baseline \<circ> fst) (load_BaselineBlock (host_le E) conv bs))
          else if t = CollectionBlock_type then
            Inr (map_option (Collection \<circ> fst) (load_CollectionBlock (host_le E) conv bs))
          else assert_res (NDEBUG E) False (Inr None))"

definition getBlockFromDisk ::
    "'ctx env \<Rightarrow> (block_uid_t \<Rightarrow> byte list option) \<Rightarrow> block_uid_t \<Rightarrow> block option res" where
  "getBlockFromDisk E folder uid =
     (if uid = 0 then Inr None
      else case folder uid of None \<Rightarrow> Inr None | Some file \<Rightarrow> parseBlock E file)"

fun block_file :: "'ctx env \<Rightarrow> block \<Rightarrow> byte list" where
  "block_file E (Baseline b) =
     out_archive (host_le E) @ save_int (host_le E) (type_of b) @ save_BaselineBlock (host_le E) b"
| "block_file E (Collection c) =
     out_archive (host_le E) @ save_int (host_le E) (type_of c) @ save_CollectionBlock (host_le E) c"

definition writeBlockToDisk :: "'ctx env \<Rightarrow> block \<Rightarrow> Cache \<Rightarrow> Cache" where
  "writeBlockToDisk E b c = c\<lparr>disk := (disk c)(block_uid (base_header b) := Some (block_file E b))\<rparr>"

section \<open>Operations\<close>

definition cache_getBlock :: "'ctx env \<Rightarrow> Cache \<Rightarrow> block_uid_t \<Rightarrow> block option res" where
  "cache_getBlock E c uid =
     (case map_find (cached_blocks c) uid of
        Some b \<Rightarrow> Inr (Some b)
      | None \<Rightarrow> getBlockFromDisk E (disk c) uid)"

definition cache_addBlock :: "'ctx env \<Rightarrow> block \<Rightarrow> Cache \<Rightarrow> (block_uid_t \<times> Cache) res" where
  "cache_addBlock E b c =
     (let this_block_id = next_free_block_id c
      in assert_res (NDEBUG E) (this_block_id = block_uid (base_header b))
           (Inr (this_block_id,
                 c\<lparr>cached_blocks := map_put this_block_id b (cached_blocks c),
                   next_free_block_id := next_free_block_id c + 1\<rparr>)))"

text \<open>
  The files \<open>1.blk\<close> to \<open><root>.blk\<close> are removed, one by one. (The loop of the code does not end
  for the largest id, \<open>2 ^ 64 - 1\<close>.)
\<close>

definition remove_files ::
    "nat \<Rightarrow> (block_uid_t \<Rightarrow> byte list option) \<Rightarrow> (block_uid_t \<Rightarrow> byte list option)" where
  "remove_files root folder = fold (\<lambda>i f. f(of_nat i := None)) [1..<Suc root] folder"

definition resetCache :: "block_uid_t \<Rightarrow> Cache \<Rightarrow> Cache" where
  "resetCache root_block_uid c =
     c\<lparr>disk := remove_files (unat root_block_uid) (disk c), cached_blocks := [],
       next_free_block_id := root_block_uid\<rparr>"

section \<open>The cache thread\<close>

text \<open>
  One iteration holds \<open>mtx_cache_hd_transfer_\<close> but takes \<open>mtx_cache_access_\<close> only around the
  selection and around the erasure, so that other calls run between the three parts.
\<close>

definition ct_select :: "Cache \<Rightarrow> block option" where
  "ct_select c =
     (if length (cached_blocks c) > target_cache_size then Some (snd (hd (cached_blocks c))) else None)"

definition ct_write :: "'ctx env \<Rightarrow> block \<Rightarrow> Cache \<Rightarrow> Cache res" where
  "ct_write E b c =
     (let t = block_type (generic_header (base_header b))
      in if t = BaselineBlock_type then
           (case b of Baseline _ \<Rightarrow> Inr (writeBlockToDisk E b c) | Collection _ \<Rightarrow> Inl BadCast)
         else if t = CollectionBlock_type then
           (case b of Collection _ \<Rightarrow> Inr (writeBlockToDisk E b c) | Baseline _ \<Rightarrow> Inl BadCast)
         else assert_res (NDEBUG E) False (Inr c))"

definition ct_erase :: "block \<Rightarrow> Cache \<Rightarrow> Cache" where
  "ct_erase b c = c\<lparr>cached_blocks := map_erase (block_uid (base_header b)) (cached_blocks c)\<rparr>"

definition cacheThread_iteration :: "'ctx env \<Rightarrow> Cache \<Rightarrow> Cache res" where
  "cacheThread_iteration E c =
     (case ct_select c of
        None \<Rightarrow> Inr c
      | Some b \<Rightarrow> bind_res (ct_write E b c) (\<lambda>c'. Inr (ct_erase b c')))"

datatype ct_phase = CT_Idle | CT_Selected block | CT_Written block

inductive cache_step :: "'ctx env \<Rightarrow> Cache \<times> ct_phase \<Rightarrow> Cache \<times> ct_phase \<Rightarrow> bool" for E where
  step_select: "ct_select c = Some b \<Longrightarrow> cache_step E (c, CT_Idle) (c, CT_Selected b)"
| step_write: "ct_write E b c = Inr c' \<Longrightarrow> cache_step E (c, CT_Selected b) (c', CT_Written b)"
| step_erase: "cache_step E (c, CT_Written b) (ct_erase b c, CT_Idle)"

inductive_cases cache_step_IdleE: "cache_step E (c, CT_Idle) s"
inductive_cases cache_step_SelectedE: "cache_step E (c, CT_Selected b) s"
inductive_cases cache_step_WrittenE: "cache_step E (c, CT_Written b) s"

section \<open>Invariant\<close>

text \<open>A block as the program builds them: class and \<open>block_type\<close> agree, the containers fit.\<close>

fun block_ok :: "block \<Rightarrow> bool" where
  "block_ok (Baseline b) = (type_of b = BaselineBlock_type \<and> baseline_ok b)"
| "block_ok (Collection c) = (type_of c = CollectionBlock_type \<and> collection_ok c)"

definition cache_inv :: "Cache \<Rightarrow> bool" where
  "cache_inv c \<longleftrightarrow>
     map_wf (cached_blocks c) \<and>
     (\<forall>(k, b) \<in> set (cached_blocks c).
        k \<noteq> 0 \<and> k < next_free_block_id c \<and> block_uid (base_header b) = k \<and> block_ok b)"

definition phase_inv :: "'ctx env \<Rightarrow> Cache \<times> ct_phase \<Rightarrow> bool" where
  "phase_inv E s \<longleftrightarrow> cache_inv (fst s) \<and>
     (case snd s of
        CT_Idle \<Rightarrow> True
      | CT_Selected b \<Rightarrow> map_find (cached_blocks (fst s)) (block_uid (base_header b)) = Some b
      | CT_Written b \<Rightarrow> map_find (cached_blocks (fst s)) (block_uid (base_header b)) = Some b \<and>
          disk (fst s) (block_uid (base_header b)) = Some (block_file E b))"

section \<open>Files round trip\<close>

lemma parseBlock_block_file: "block_ok b \<Longrightarrow> parseBlock E (block_file F b) = Inr (Some b)"
proof (cases b)
  case (Baseline x)
  assume "block_ok b"
  with Baseline show ?thesis
    using BaselineBlock_codec.roundtrip [of x "host_le E" "host_le F" "[]"]
    by (simp add: parseBlock_def codec)
next
  case (Collection x)
  assume "block_ok b"
  with Collection show ?thesis
    using CollectionBlock_codec.roundtrip [of x "host_le E" "host_le F" "[]"]
    by (simp add: parseBlock_def codec)
qed

lemma remove_files_eq:
  assumes "root < 2 ^ 64"
  shows "remove_files root folder u = (if u \<noteq> 0 \<and> unat u \<le> root then None else folder u)"
proof -
  have "fold (\<lambda>i f. f(of_nat i := None)) is folder u =
      (if u \<in> of_nat ` set is then None else folder u)" for "is" :: "nat list"
    by (induction "is" arbitrary: folder) auto
  moreover have "u \<in> of_nat ` {1..<Suc root} \<longleftrightarrow> u \<noteq> 0 \<and> unat u \<le> root"
  proof
    assume "u \<in> of_nat ` {1..<Suc root}"
    then obtain i where i: "u = of_nat i" "1 \<le> i" "i \<le> root" by auto
    then have "unat u = i" using assms by (simp add: unat_of_nat_small)
    with i show "u \<noteq> 0 \<and> unat u \<le> root" by auto
  next
    assume u: "u \<noteq> 0 \<and> unat u \<le> root"
    then have "u = of_nat (unat u)" "1 \<le> unat u" by (simp_all add: unat_gt_0 Suc_leI)
    with u show "u \<in> of_nat ` {1..<Suc root}" by (intro image_eqI [of _ _ "unat u"]) auto
  qed
  ultimately show ?thesis by (simp only: remove_files_def set_upt)
qed

section \<open>Preservation\<close>

lemma cache_inv_find:
  "cache_inv c \<Longrightarrow> map_find (cached_blocks c) k = Some b \<Longrightarrow>
   k \<noteq> 0 \<and> k < next_free_block_id c \<and> block_uid (base_header b) = k \<and> block_ok b"
  by (auto simp: cache_inv_def dest: map_find_in_set)

lemma cache_inv_new: "cache_inv (Cache_new f)"
  by (simp add: cache_inv_def Cache_new_def)

lemma cache_inv_reset: "cache_inv (resetCache r c)"
  by (simp add: cache_inv_def resetCache_def)

lemma cache_addBlock_inv:
  assumes inv: "cache_inv c"
    and b: "block_ok b" "block_uid (base_header b) = next_free_block_id c"
    and room: "next_free_block_id c \<noteq> 0" "next_free_block_id c \<noteq> - 1"
  shows "\<exists>c'. cache_addBlock E b c = Inr (next_free_block_id c, c') \<and> cache_inv c' \<and>
    next_free_block_id c' = next_free_block_id c + 1"
proof -
  have lt: "next_free_block_id c < next_free_block_id c + 1"
    using room(2) by (rule word_less_plus_1)
  with inv b room show ?thesis
    by (auto simp: cache_addBlock_def cache_inv_def Let_def intro: wf_intros
        dest!: subsetD [OF set_map_put_subset] dest: less_trans)
qed

text \<open>Adding a block between the parts of an iteration keeps what the thread relies on.\<close>

lemma phase_inv_add:
  assumes inv: "phase_inv E (c, ph)"
    and b: "block_ok b" "block_uid (base_header b) = next_free_block_id c"
    and room: "next_free_block_id c \<noteq> 0" "next_free_block_id c \<noteq> - 1"
    and add: "cache_addBlock E b c = Inr (u, c')"
  shows "phase_inv E (c', ph)"
proof -
  have c: "cache_inv c" using inv by (simp add: phase_inv_def)
  from cache_addBlock_inv [OF c b room, of E] add have "cache_inv c'" by auto
  moreover have "disk c' = disk c"
    and "cached_blocks c' = map_put (next_free_block_id c) b (cached_blocks c)"
    using add by (auto simp: cache_addBlock_def Let_def res_simps)
  ultimately show ?thesis
    using inv cache_inv_find [OF c]
    by (cases ph) (fastforce simp: phase_inv_def map_find_put)+
qed

lemma ct_write_ok: "block_ok b \<Longrightarrow> ct_write E b c = Inr (writeBlockToDisk E b c)"
  by (cases b) (auto simp: ct_write_def Let_def)

lemma ct_select_cached:
  assumes "cache_inv c" "ct_select c = Some b"
  shows "map_find (cached_blocks c) (block_uid (base_header b)) = Some b"
proof -
  obtain k m where m: "cached_blocks c = (k, b) # m"
    using assms(2) by (cases "cached_blocks c") (auto simp: ct_select_def split: if_splits)
  with assms(1) show ?thesis by (auto simp: cache_inv_def)
qed

lemma cache_inv_write: "cache_inv c \<Longrightarrow> cache_inv (writeBlockToDisk E b c)"
  by (simp add: cache_inv_def writeBlockToDisk_def)

lemma cache_inv_erase: "cache_inv c \<Longrightarrow> cache_inv (ct_erase b c)"
  by (auto simp: cache_inv_def ct_erase_def intro: wf_intros dest!: subsetD [OF set_map_erase])

text \<open>
  The refinement: the thread keeps its invariant and no reader can see its steps, wherever
  between the parts of an iteration the reader runs.
\<close>

lemma cache_step_refines:
  assumes "cache_step E s t" "phase_inv E s"
  shows "phase_inv E t \<and> cache_getBlock E (fst t) u = cache_getBlock E (fst s) u"
  using assms
proof (cases rule: cache_step.cases)
  case (step_select c b)
  with assms(2) show ?thesis by (simp add: phase_inv_def ct_select_cached)
next
  case (step_write b c c')
  then have find: "map_find (cached_blocks c) (block_uid (base_header b)) = Some b" and inv: "cache_inv c"
    using assms(2) by (simp_all add: phase_inv_def)
  from cache_inv_find [OF inv find] have c': "c' = writeBlockToDisk E b c"
    using step_write ct_write_ok [of b E c] by simp
  then have "phase_inv E t"
    using step_write find cache_inv_write [OF inv, of E b]
    by (simp add: phase_inv_def writeBlockToDisk_def)
  moreover have "cache_getBlock E c' u = cache_getBlock E c u"
    using find by (auto simp: c' cache_getBlock_def getBlockFromDisk_def writeBlockToDisk_def
        split: option.split)
  ultimately show ?thesis using step_write by simp
next
  case (step_erase c b)
  then have find: "map_find (cached_blocks c) (block_uid (base_header b)) = Some b" and inv: "cache_inv c"
    and stored: "disk c (block_uid (base_header b)) = Some (block_file E b)"
    using assms(2) by (simp_all add: phase_inv_def)
  have wf: "map_wf (cached_blocks c)" using inv by (simp add: cache_inv_def)
  from cache_inv_find [OF inv find] parseBlock_block_file [of b E E] find stored
  have "cache_getBlock E (ct_erase b c) u = cache_getBlock E c u"
    by (auto simp: cache_getBlock_def getBlockFromDisk_def ct_erase_def map_find_erase [OF wf]
        split: option.split)
  with step_erase cache_inv_erase [OF inv] show ?thesis by (simp add: phase_inv_def)
qed

lemma cacheThread_iteration_steps:
  assumes "cache_inv c"
  shows "\<exists>c'. cacheThread_iteration E c = Inr c' \<and> (cache_step E)\<^sup>*\<^sup>* (c, CT_Idle) (c', CT_Idle)"
proof (cases "ct_select c")
  case None
  then show ?thesis by (simp add: cacheThread_iteration_def)
next
  case (Some b)
  have "block_ok b" using ct_select_cached [OF assms Some] cache_inv_find [OF assms] by blast
  then have w: "ct_write E b c = Inr (writeBlockToDisk E b c)" by (rule ct_write_ok)
  have "cache_step E (c, CT_Idle) (c, CT_Selected b)"
    "cache_step E (c, CT_Selected b) (writeBlockToDisk E b c, CT_Written b)"
    "cache_step E (writeBlockToDisk E b c, CT_Written b) (ct_erase b (writeBlockToDisk E b c), CT_Idle)"
    using Some w by (auto intro: cache_step.intros)
  then have "(cache_step E)\<^sup>*\<^sup>* (c, CT_Idle) (ct_erase b (writeBlockToDisk E b c), CT_Idle)"
    by (meson converse_rtranclp_into_rtranclp rtranclp.rtrancl_refl)
  with Some w show ?thesis by (simp add: cacheThread_iteration_def)
qed

lemma cache_steps_refine:
  "(cache_step E)\<^sup>*\<^sup>* s t \<Longrightarrow> phase_inv E s \<Longrightarrow>
   phase_inv E t \<and> cache_getBlock E (fst t) u = cache_getBlock E (fst s) u"
  by (induction rule: rtranclp_induct) (auto dest: cache_step_refines [where u = u])

lemma cacheThread_iteration_ok:
  assumes "cache_inv c"
  shows "\<exists>c'. cacheThread_iteration E c = Inr c' \<and> cache_inv c' \<and>
    (\<forall>u. cache_getBlock E c' u = cache_getBlock E c u)"
proof -
  obtain c' where "cacheThread_iteration E c = Inr c'"
    and steps: "(cache_step E)\<^sup>*\<^sup>* (c, CT_Idle) (c', CT_Idle)"
    using cacheThread_iteration_steps [OF assms] by blast
  moreover have "phase_inv E (c, CT_Idle)" using assms by (simp add: phase_inv_def)
  ultimately show ?thesis
    using cache_steps_refine [OF steps] by (auto simp: phase_inv_def)
qed

section \<open>The store a cache implements\<close>

text \<open>The abstract view: a partial map from ids to blocks.\<close>

lemma cache_getBlock_add:
  assumes "cache_addBlock E b c = Inr (u, c')"
  shows "cache_getBlock E c' x = (if x = u then Inr (Some b) else cache_getBlock E c x)"
proof -
  have u: "u = next_free_block_id c" and c': "disk c' = disk c"
    "cached_blocks c' = map_put u b (cached_blocks c)"
    using assms by (auto simp: cache_addBlock_def Let_def res_simps)
  show ?thesis by (simp add: cache_getBlock_def c' map_find_put split: option.split)
qed

lemma cache_getBlock_zero: "cache_inv c \<Longrightarrow> cache_getBlock E c 0 = Inr None"
  using cache_inv_find [of c 0]
  by (cases "map_find (cached_blocks c) 0") (auto simp: cache_getBlock_def getBlockFromDisk_def)

lemma cache_getBlock_reset:
  "cache_getBlock E (resetCache r c) u =
     (if u \<noteq> 0 \<and> u \<le> r then Inr None else getBlockFromDisk E (disk c) u)"
proof -
  have "unat r < 2 ^ 64" using unsigned_less [of r, where 'a = nat] by simp
  then show ?thesis
    by (simp add: cache_getBlock_def resetCache_def getBlockFromDisk_def remove_files_eq word_le_nat_alt)
qed

lemma cacheThread_next_id:
  "cacheThread_iteration E c = Inr c' \<Longrightarrow> next_free_block_id c' = next_free_block_id c"
  by (auto simp: cacheThread_iteration_def ct_write_def ct_erase_def writeBlockToDisk_def Let_def
      res_simps split: option.splits if_splits block.splits)

section \<open>The interface to the chain\<close>

text \<open>
  What the class \<open>Blockchain\<close> relies on: blocks are added under consecutive ids, stay readable, and
  work in the background is not visible. \<open>holds_blocks\<close> says that a list of blocks is readable from an id on.
\<close>

definition holds_blocks :: "(block_uid_t \<Rightarrow> block option res) \<Rightarrow> block_uid_t \<Rightarrow> block list \<Rightarrow> bool" where
  "holds_blocks get r bs \<longleftrightarrow> (\<forall>i < length bs. get (r + of_nat i) = Inr (Some (bs ! i)))"

locale block_store =
  fixes inv :: "'c \<Rightarrow> bool"
    and get :: "'c \<Rightarrow> block_uid_t \<Rightarrow> block option res"
    and add :: "block \<Rightarrow> 'c \<Rightarrow> (block_uid_t \<times> 'c) res"
    and reset :: "block_uid_t \<Rightarrow> 'c \<Rightarrow> 'c"
    and next_id :: "'c \<Rightarrow> block_uid_t"
    and ok :: "block \<Rightarrow> bool"
    and background :: "'c \<Rightarrow> 'c res"
  assumes inv_reset: "inv (reset r c)"
    and next_reset: "next_id (reset r c) = r"
    and add_ok: "inv c \<Longrightarrow> ok b \<Longrightarrow> block_uid (base_header b) = next_id c \<Longrightarrow> next_id c \<noteq> 0 \<Longrightarrow> next_id c \<noteq> - 1 \<Longrightarrow>
      \<exists>c'. add b c = Inr (next_id c, c') \<and> inv c' \<and> next_id c' = next_id c + 1"
    and get_add: "add b c = Inr (u, c') \<Longrightarrow> get c' x = (if x = u then Inr (Some b) else get c x)"
    and background_ok: "inv c \<Longrightarrow> \<exists>c'. background c = Inr c' \<and> inv c' \<and> next_id c' = next_id c \<and> (\<forall>u. get c' u = get c u)"
begin

lemma reset_add:
  assumes "block_uid (base_header b) = u" "u \<noteq> 0" "u \<noteq> - 1" "ok b"
  shows "\<exists>c'. add b (reset u c) = Inr (u, c') \<and> inv c' \<and> next_id c' = u + 1 \<and> get c' u = Inr (Some b)"
proof -
  obtain c' where a: "add b (reset u c) = Inr (u, c')" "inv c'" "next_id c' = u + 1"
    using add_ok [OF inv_reset [of u c] assms(4), unfolded next_reset, OF assms(1-3)] by blast
  then show ?thesis using get_add [OF a(1), of u] by simp
qed

lemma add_holds:
  assumes "holds_blocks (get c) r bs" "add b c = Inr (r + of_nat (length bs), c')" "length bs < 2 ^ 64"
  shows "holds_blocks (get c') r (bs @ [b])"
proof -
  have "r + of_nat i \<noteq> r + of_nat (length bs)" if "i < length bs" for i
  proof
    assume "r + of_nat i = r + of_nat (length bs)"
    then have "unat (of_nat i :: u64) = unat (of_nat (length bs) :: u64)" by simp
    then show False using that assms(3) by (simp add: unat_of_nat_small)
  qed
  then show ?thesis using assms(1) get_add [OF assms(2)] by (auto simp: holds_blocks_def nth_append less_Suc_eq)
qed

end

interpretation cache_store:
  block_store cache_inv "cache_getBlock E" "cache_addBlock E" resetCache next_free_block_id block_ok "cacheThread_iteration E" for E
proof
  show "cache_inv c \<Longrightarrow> \<exists>c'. cacheThread_iteration E c = Inr c' \<and> cache_inv c' \<and> next_free_block_id c' = next_free_block_id c \<and>
      (\<forall>u. cache_getBlock E c' u = cache_getBlock E c u)" for c
    using cacheThread_iteration_ok [of c E] cacheThread_next_id [of E c] by auto
  show "next_free_block_id (resetCache r c) = r" for r c by (simp add: resetCache_def)
qed (simp_all add: cache_inv_reset cache_getBlock_add cache_addBlock_inv)

end
