(* ===== verification/Cache_Properties.thy ===== *)
theory Cache_Properties
  imports Block_Cache Sample_Environment
begin

text \<open>
  The properties of the block cache, with witnesses on a cache of eleven blocks, one more than the
  thread leaves in memory.
\<close>

section \<open>A cache with work for its thread\<close>

definition full_cache :: Cache where
  "full_cache = \<lparr>next_free_block_id = 12,
     cached_blocks = map (\<lambda>i. (of_nat i, Baseline (set_uid (of_nat i) new_BaselineBlock))) [1..<12],
     disk = Map.empty\<rparr>"

lemma new_baseline_ok: "block_ok (Baseline (set_uid u new_BaselineBlock))"
  by (simp add: baseline_ok_def fits_def) (simp add: new_BaselineBlock_def)

lemma full_cache_inv: "cache_inv full_cache"
proof -
  have "[1..<12] = [1, 2, 3, 4, 5, 6, 7, 8, 9, 10, 11 :: nat]" by (simp add: upt_rec)
  then show ?thesis by (simp add: cache_inv_def full_cache_def new_baseline_ok [simplified])
qed

section \<open>Properties\<close>

text \<open>
  C22: a block file written on one machine is read back as the same block on another, whatever the
  endianness of the two: \<open>getBlockFromDisk\<close> inverts \<open>writeBlockToDisk\<close>.
\<close>

theorem block_files_portable:
  assumes "block_ok b" "block_uid (base_header b) \<noteq> 0"
  shows "getBlockFromDisk E (disk (writeBlockToDisk F b c)) (block_uid (base_header b)) = Inr (Some b)"
  using assms parseBlock_block_file [of b E F] by (simp add: getBlockFromDisk_def writeBlockToDisk_def)

theorem block_files_portable_witness:
  "getBlockFromDisk (sample_env True)
     (disk (writeBlockToDisk ((sample_env True)\<lparr>host_le := False\<rparr>) (Baseline (set_uid 7 new_BaselineBlock)) full_cache)) 7 =
   Inr (Some (Baseline (set_uid 7 new_BaselineBlock)))"
  using block_files_portable [OF new_baseline_ok [of 7], of "sample_env True" _ full_cache] by simp

text \<open>
  C17: the cache thread is invisible. At every point between the three parts of its iterations,
  which other calls can interleave, every id reads as the same block as before, and the invariant
  holds.
\<close>

theorem cache_thread_invisible:
  assumes "(cache_step E)\<^sup>*\<^sup>* (c, CT_Idle) (c', ph)" "cache_inv c"
  shows "cache_inv c' \<and> (\<forall>u. cache_getBlock E c' u = cache_getBlock E c u)"
proof -
  have "phase_inv E (c, CT_Idle)" using assms(2) by (simp add: phase_inv_def)
  from cache_steps_refine [OF assms(1) this] show ?thesis by (auto simp: phase_inv_def)
qed

theorem cache_thread_invisible_witness:
  "\<exists>c'. (cache_step (sample_env True))\<^sup>*\<^sup>* (full_cache, CT_Idle) (c', CT_Idle) \<and>
     map_find (cached_blocks full_cache) 1 \<noteq> None \<and> map_find (cached_blocks c') 1 = None \<and>
     cache_getBlock (sample_env True) c' 1 = cache_getBlock (sample_env True) full_cache 1"
proof -
  let ?E = "sample_env True" and ?b = "Baseline (set_uid 1 new_BaselineBlock)"
  let ?c = "ct_erase ?b (writeBlockToDisk ?E ?b full_cache)"
  have sel: "ct_select full_cache = Some ?b"
    by (simp add: ct_select_def full_cache_def target_cache_size_def upt_rec)
  have "cache_step ?E (full_cache, CT_Idle) (full_cache, CT_Selected ?b)"
    using sel by (rule step_select)
  moreover have "cache_step ?E (full_cache, CT_Selected ?b) (writeBlockToDisk ?E ?b full_cache, CT_Written ?b)"
    using ct_write_ok [OF new_baseline_ok] by (rule step_write)
  moreover have "cache_step ?E (writeBlockToDisk ?E ?b full_cache, CT_Written ?b) (?c, CT_Idle)"
    by (rule step_erase)
  ultimately have steps: "(cache_step ?E)\<^sup>*\<^sup>* (full_cache, CT_Idle) (?c, CT_Idle)"
    by (meson converse_rtranclp_into_rtranclp rtranclp.rtrancl_refl)
  have wf: "map_wf (cached_blocks full_cache)" using full_cache_inv by (simp add: cache_inv_def)
  have "map_find (cached_blocks ?c) 1 = None"
    by (simp add: ct_erase_def writeBlockToDisk_def map_find_erase [OF wf])
  moreover have "map_find (cached_blocks full_cache) 1 = Some ?b"
    using ct_select_cached [OF full_cache_inv sel] by simp
  ultimately show ?thesis
    using steps cache_thread_invisible [OF steps full_cache_inv] by (intro exI [of _ ?c]) simp
qed

text \<open>
  Adding a block, also while the cache thread is between the parts of an iteration, is an
  update of the map from ids to blocks at the next free id: the block is read back, every other id
  is unchanged, and the thread's own invariant survives.
\<close>

theorem cache_addBlock_refines:
  assumes "phase_inv E (c, ph)" "block_ok b" "block_uid (base_header b) = next_free_block_id c"
    and "next_free_block_id c \<noteq> 0" "next_free_block_id c \<noteq> - 1"
  shows "\<exists>c'. cache_addBlock E b c = Inr (next_free_block_id c, c') \<and> phase_inv E (c', ph) \<and>
    cache_getBlock E c' = (cache_getBlock E c)(next_free_block_id c := Inr (Some b))"
proof -
  have "cache_inv c" using assms(1) by (simp add: phase_inv_def)
  then obtain c' where add: "cache_addBlock E b c = Inr (next_free_block_id c, c')"
    using cache_addBlock_inv [OF _ assms(2-5), of E] by blast
  with phase_inv_add [OF assms add] cache_getBlock_add [OF add] show ?thesis by auto
qed

theorem cache_addBlock_refines_witness:
  "\<exists>c'. cache_addBlock (sample_env True) (Baseline (set_uid 12 new_BaselineBlock)) full_cache = Inr (12, c') \<and>
     cache_getBlock (sample_env True) c' 12 = Inr (Some (Baseline (set_uid 12 new_BaselineBlock)))"
proof -
  have "next_free_block_id full_cache = 12" by (simp add: full_cache_def)
  moreover have "phase_inv (sample_env True) (full_cache, CT_Idle)" by (simp add: phase_inv_def full_cache_inv)
  ultimately show ?thesis
    using cache_addBlock_refines [of "sample_env True" full_cache CT_Idle "Baseline (set_uid 12 new_BaselineBlock)"]
    by (auto simp: new_baseline_ok [simplified])
qed

end
