(* ===== verification/Hash_Area.thy ===== *)
theory Hash_Area
  imports Scn_Prelude
begin

text \<open>
  \<open>Blockchain::getHashArea\<close> of src/src/scn/Blockchain/Blockchain.cpp: the interval of SHA-256
  values that a coin of an epoch must hit. The upper bound shrinks by a fixed factor per epoch,
  computed in 512-bit integers; the lower bound is one above the next epoch's upper bound.
\<close>

section \<open>Definition\<close>

definition shrink :: "u512 \<Rightarrow> u512" where
  "shrink temp = temp * 1000000000000000 div 1001776032062287"

definition max_allowed_hash :: "epoch_t \<Rightarrow> hash_t" where
  "max_allowed_hash e = ucast ((shrink ^^ unat e) (ucast (- 1 :: hash_t)))"

definition min_allowed_hash :: "epoch_t \<Rightarrow> hash_t" where
  "min_allowed_hash e =
     min (ucast (shrink (ucast (max_allowed_hash e))) + 1) (max_allowed_hash e)"

definition getHashArea :: "epoch_t \<Rightarrow> hash_t \<times> hash_t" where
  "getHashArea e = (max_allowed_hash e, min_allowed_hash e)"

section \<open>The reference: exact division\<close>

definition shrink_nat :: "nat \<Rightarrow> nat" where
  "shrink_nat n = n * 1000000000000000 div 1001776032062287"

lemma shrink_nat_le: "shrink_nat n \<le> n"
  by (simp add: shrink_nat_def div_le_mono [of _ "n * 1001776032062287", THEN order_trans])

lemma shrink_nat_less: "0 < n \<Longrightarrow> shrink_nat n < n"
  by (simp add: shrink_nat_def less_mult_imp_div_less)

lemma shrink_nat_mono: "m \<le> n \<Longrightarrow> shrink_nat m \<le> shrink_nat n"
  by (simp add: shrink_nat_def div_le_mono)

lemma funpow_shrink_nat_le: "(shrink_nat ^^ k) n \<le> n"
  by (induction k) (auto intro: order_trans [OF shrink_nat_le])

lemma funpow_shrink_nat_antimono: "i \<le> j \<Longrightarrow> (shrink_nat ^^ j) n \<le> (shrink_nat ^^ i) n"
  by (metis funpow_shrink_nat_le funpow_add le_add_diff_inverse2 comp_apply)

text \<open>No product leaves the 512 bits, and every intermediate value fits a hash.\<close>

lemma unat_shrink:
  assumes "unat t < 2 ^ 256"
  shows "unat (shrink t) = shrink_nat (unat t)"
proof -
  have "unat t * 1000000000000000 < 2 ^ 256 * 2 ^ 50"
    using assms by (intro mult_strict_mono) auto
  then have "unat t * 1000000000000000 < 2 ^ 512"
    by (rule less_trans) simp
  then have "unat (t * 1000000000000000) = unat t * 1000000000000000"
    by (simp add: unat_word_ariths)
  then show ?thesis
    by (simp add: shrink_def shrink_nat_def unat_div_distrib)
qed

lemma unat_funpow_shrink:
  "unat t < 2 ^ 256 \<Longrightarrow> unat ((shrink ^^ k) t) = (shrink_nat ^^ k) (unat t)"
proof (induction k)
  case (Suc k)
  moreover have "(shrink_nat ^^ k) (unat t) < 2 ^ 256"
    using Suc.prems funpow_shrink_nat_le order_le_less_trans by blast
  ultimately show ?case by (simp add: unat_shrink)
qed simp

lemma unat_ucast_hash: "unat (ucast h :: u512) = unat h" for h :: hash_t
  using unsigned_less [of h, where 'a = nat] by (simp add: unsigned_ucast_eq take_bit_nat_eq_self)

lemma unat_ucast_u512: "unat t < 2 ^ 256 \<Longrightarrow> unat (ucast t :: hash_t) = unat t" for t :: u512
  by (simp add: unsigned_ucast_eq take_bit_nat_eq_self)

lemma unat_minus_1_hash: "unat (- 1 :: hash_t) = 2 ^ 256 - 1"
  by (simp add: unsigned_minus_1_eq_mask mask_eq_exp_minus_1)

lemma hash_bound: "unat h < 2 ^ 256" for h :: hash_t
  using unsigned_less [of h, where 'a = nat] by simp

lemma unat_max_allowed_hash:
  "unat (max_allowed_hash e) = (shrink_nat ^^ unat e) (2 ^ 256 - 1)"
proof -
  have m: "unat (ucast (- 1 :: hash_t) :: u512) = 2 ^ 256 - 1"
    by (simp add: unat_ucast_hash unat_minus_1_hash)
  have lt: "(shrink_nat ^^ unat e) (2 ^ 256 - 1) < 2 ^ 256"
    using funpow_shrink_nat_le [of "unat e" "2 ^ 256 - 1"] by simp
  have "unat ((shrink ^^ unat e) (ucast (- 1 :: hash_t))) = (shrink_nat ^^ unat e) (2 ^ 256 - 1)"
    using unat_funpow_shrink [of "ucast (- 1 :: hash_t)" "unat e"] m by simp
  with lt show ?thesis
    by (simp only: max_allowed_hash_def unat_ucast_u512)
qed

section \<open>Areas\<close>

lemma max_allowed_hash_epoch_0: "max_allowed_hash 0 = - 1"
  by (rule word_unat_eq_iff [THEN iffD2]) (simp only: unat_max_allowed_hash, simp add: unat_minus_1_hash)

lemma unat_next_max:
  "e \<noteq> - 1 \<Longrightarrow> unat (max_allowed_hash (e + 1)) = shrink_nat (unat (max_allowed_hash e))"
  by (simp add: unat_max_allowed_hash unat_plus_1)

lemma unat_shrink_max:
  "unat (ucast (shrink (ucast (max_allowed_hash e))) :: hash_t) = shrink_nat (unat (max_allowed_hash e))"
proof -
  have "unat (shrink (ucast (max_allowed_hash e))) = shrink_nat (unat (max_allowed_hash e))"
    using unat_shrink [of "ucast (max_allowed_hash e)"] hash_bound [of "max_allowed_hash e"]
    by (simp only: unat_ucast_hash)
  moreover have "shrink_nat (unat (max_allowed_hash e)) < 2 ^ 256"
    using shrink_nat_le hash_bound order_le_less_trans by blast
  ultimately show ?thesis by (simp only: unat_ucast_u512)
qed

lemma unat_min_allowed_hash:
  "unat (min_allowed_hash e) =
     min (shrink_nat (unat (max_allowed_hash e)) + 1) (unat (max_allowed_hash e))"
proof -
  let ?m = "max_allowed_hash e" and ?s = "ucast (shrink (ucast (max_allowed_hash e))) :: hash_t"
  have s: "unat ?s = shrink_nat (unat ?m)" by (rule unat_shrink_max)
  have "?s \<noteq> - 1"
  proof
    assume a: "?s = - 1"
    then have "unat ?s = 2 ^ 256 - 1" by (simp add: unat_minus_1_hash)
    with s have sn: "shrink_nat (unat ?m) = 2 ^ 256 - 1" by simp
    then have "0 < unat ?m" by (cases "unat ?m") (auto simp: shrink_nat_def)
    from shrink_nat_less [OF this] sn hash_bound [of ?m] show False by simp
  qed
  then have "unat (?s + 1) = shrink_nat (unat ?m) + 1" by (simp add: unat_plus_1 s)
  then show ?thesis
    by (simp add: min_allowed_hash_def min_def word_le_nat_alt)
qed

lemma area_nonempty: "min_allowed_hash e \<le> max_allowed_hash e"
  by (simp add: min_allowed_hash_def)

lemma area_adjacent:
  assumes "max_allowed_hash e \<noteq> 0" "e \<noteq> - 1"
  shows "unat (min_allowed_hash e) = unat (max_allowed_hash (e + 1)) + 1"
proof -
  have "0 < unat (max_allowed_hash e)" using assms(1) by (simp add: unat_gt_0)
  from shrink_nat_less [OF this] show ?thesis
    using assms(2) by (simp add: unat_min_allowed_hash unat_next_max)
qed

lemma area_disjoint:
  assumes lt: "e < f" and pos: "max_allowed_hash e \<noteq> 0"
  shows "max_allowed_hash f < min_allowed_hash e"
proof -
  have e: "e \<noteq> - 1" using lt by (rule word_less_not_max)
  have "unat e < unat f" using lt by (simp add: word_less_nat_alt)
  then have "unat (max_allowed_hash f) \<le> unat (max_allowed_hash (e + 1))"
    by (simp add: unat_max_allowed_hash unat_plus_1 [OF e] Suc_leI del: funpow.simps
        flip: funpow.simps) (rule funpow_shrink_nat_antimono, simp)
  with area_adjacent [OF pos e] show ?thesis by (simp add: word_less_nat_alt)
qed

section \<open>Properties\<close>

text \<open>
  C19: the bounds of an epoch's hash area are those of exact integer arithmetic: the upper bound is
  the largest hash divided \<open>e\<close> times by the factor (rounding down each time) and no product of
  the 512-bit loop wraps; the lower bound does not exceed it.
\<close>

theorem getHashArea_exact:
  "getHashArea e = (mx, mn) \<Longrightarrow>
     unat mx = ((\<lambda>n. n * 1000000000000000 div 1001776032062287) ^^ unat e) (2 ^ 256 - 1) \<and>
     unat mn = min (unat mx * 1000000000000000 div 1001776032062287 + 1) (unat mx) \<and> mn \<le> mx"
  using unat_max_allowed_hash [of e] unat_min_allowed_hash [of e] area_nonempty [of e]
  by (simp add: getHashArea_def shrink_nat_def [abs_def] fun_eq_iff)

theorem getHashArea_exact_witness:
  "unat (fst (getHashArea 1)) = (2 ^ 256 - 1) * 1000000000000000 div 1001776032062287"
  using getHashArea_exact [of 1 "fst (getHashArea 1)" "snd (getHashArea 1)"]
  by (simp add: unsigned_1)

text \<open>
  C18: the areas of different epochs do not overlap and leave no gap: the lower bound of an epoch
  is one above the upper bound of the next, as long as the upper bound has not shrunk to zero.
\<close>

theorem getHashArea_partition:
  "fst (getHashArea e) \<noteq> 0 \<Longrightarrow> e < f \<Longrightarrow>
     fst (getHashArea f) < snd (getHashArea e) \<and>
     unat (snd (getHashArea e)) = unat (fst (getHashArea (e + 1))) + 1"
  using area_disjoint [of e f] area_adjacent [of e] word_less_not_max [of e f]
  by (auto simp: getHashArea_def)

theorem getHashArea_partition_witness:
  "fst (getHashArea 5) < snd (getHashArea 0)"
proof -
  have "fst (getHashArea 0) \<noteq> 0"
    by (simp add: getHashArea_def max_allowed_hash_epoch_0)
  then show ?thesis using getHashArea_partition [of 0 5] by simp
qed

end
