(* ===== verification/Baseline_State.thy ===== *)
theory Baseline_State
  imports Crypto_Helper Hash_Area
begin

text \<open>
  The running baseline of src/src/scn/Blockchain/Blockchain.cpp: \<open>validateBlockWithoutContext\<close>,
  the self-check of a baseline block, and \<open>updateCurrentBaseline\<close>, which books one collection
  block. The invariant that the second keeps is what the first checks.
\<close>

section \<open>validateBlockWithoutContext\<close>

definition wallets_sum :: "BaselineBlock \<Rightarrow> u64" where
  "wallets_sum b = sum_list (map snd (wallets b))"

definition data_value_hashes_sum :: "BaselineBlock \<Rightarrow> u64" where
  "data_value_hashes_sum b =
     sum_list (map (\<lambda>hs. of_nat (length hs) * ucast fraction_per_coin) (data_value_hashes b))"

definition wallet_keys_valid :: "'ctx env \<Rightarrow> BaselineBlock \<Rightarrow> bool" where
  "wallet_keys_valid E b = list_all (\<lambda>w. isPublicKeyValid E (fst w)) (wallets b)"

text \<open>The loop over the epochs with its test for the last one.\<close>

fun epoch_sizes_ok :: "hash_t list list \<Rightarrow> bool" where
  "epoch_sizes_ok [] = True"
| "epoch_sizes_ok [hs] = (length hs \<le> unat max_num_creations)"
| "epoch_sizes_ok (hs # hs' # hss) = (length hs = unat max_num_creations \<and> epoch_sizes_ok (hs' # hss))"

fun no_neighbour_dup :: "hash_t list \<Rightarrow> bool" where
  "no_neighbour_dup (x # y # xs) = (x \<noteq> y \<and> no_neighbour_dup (y # xs))"
| "no_neighbour_dup _ = True"

text \<open>Only the first and the last hash of an epoch are compared with the area.\<close>

definition epoch_in_area :: "nat \<Rightarrow> hash_t list \<Rightarrow> bool" where
  "epoch_in_area e hs =
     (case getHashArea (of_nat e) of (mx, mn) \<Rightarrow>
        hs = [] \<or> \<not> (hd hs < mn \<or> hd hs > mx \<or> last hs < mn \<or> last hs > mx))"

text \<open>The counter of the loop over the epochs has 32 bits; there are fewer epochs than that.\<close>

definition hash_areas_ok :: "hash_t list list \<Rightarrow> bool" where
  "hash_areas_ok hss = list_all (\<lambda>e. epoch_in_area e (hss ! e)) [0..<length hss]"

definition highest_current_ok :: "BaselineBlock \<Rightarrow> bool" where
  "highest_current_ok b =
     (highest_hash_of_current_epoch (mining_state b) =
        (if data_value_hashes b = [] \<or> last (data_value_hashes b) = [] then 0
         else last (last (data_value_hashes b))))"

definition highest_last_ok :: "BaselineBlock \<Rightarrow> bool" where
  "highest_last_ok b =
     (highest_hash_of_last_epoch (mining_state b) =
        (if length (data_value_hashes b) \<le> 1 then 0
         else last (data_value_hashes b ! (length (data_value_hashes b) - 2))))"

definition num_minings_ok :: "BaselineBlock \<Rightarrow> bool" where
  "num_minings_ok b =
     (num_minings_in_epoch (mining_state b) =
        (if data_value_hashes b = [] then 0 else of_nat (length (last (data_value_hashes b)))))"

definition validateBlockWithoutContext :: "'ctx env \<Rightarrow> BaselineBlock \<Rightarrow> bool" where
  "validateBlockWithoutContext E b =
     (if type_of b \<noteq> BaselineBlock_type then False
      else if uid_of b = 0 then False
      else if \<not> verifyHash_baseline E b then False
      else if data_value_hashes_sum b \<noteq> wallets_sum b then False
      else if \<not> wallet_keys_valid E b then False
      else if of_nat (length (data_value_hashes b)) \<noteq> epoch (mining_state b) + 1 then False
      else if \<not> epoch_sizes_ok (data_value_hashes b) then False
      else if \<not> list_all sorted (data_value_hashes b) then False
      else if \<not> list_all no_neighbour_dup (data_value_hashes b) then False
      else if \<not> hash_areas_ok (data_value_hashes b) then False
      else if \<not> highest_current_ok b then False
      else if \<not> highest_last_ok b then False
      else num_minings_ok b)"

section \<open>updateCurrentBaseline\<close>

definition book_creation :: "CreationSubBlock \<Rightarrow> (public_key_t, u64) std_map \<Rightarrow> (public_key_t, u64) std_map" where
  "book_creation c w = map_modify (creator c) 0 (\<lambda>v. v + ucast fraction_per_coin) w"

definition book_creations :: "CreationSubBlock list \<Rightarrow> (public_key_t, u64) std_map \<Rightarrow> (public_key_t, u64) std_map" where
  "book_creations cs w = fold book_creation cs w"

definition book_transaction ::
    "TransactionSubBlock \<Rightarrow> (public_key_t, u64) std_map \<Rightarrow> (public_key_t, u64) std_map" where
  "book_transaction t w =
     map_modify (post_owner t) 0 (\<lambda>v. v + fraction t) (map_modify (pre_owner t) 0 (\<lambda>v. v - fraction t) w)"

text \<open>The transaction loop with the assertion in front of every booking.\<close>

fun book_transactions ::
    "bool \<Rightarrow> TransactionSubBlock list \<Rightarrow> (public_key_t, u64) std_map \<Rightarrow> (public_key_t, u64) std_map res" where
  "book_transactions ndebug [] w = Inr w"
| "book_transactions ndebug (t # ts) w =
     assert_res ndebug (map_lookup0 0 w (pre_owner t) \<ge> fraction t)
       (book_transactions ndebug ts (book_transaction t w))"

definition resize_epochs :: "nat \<Rightarrow> hash_t list list \<Rightarrow> hash_t list list" where
  "resize_epochs n hss = take n hss @ replicate (n - length hss) []"

text \<open>The end of the function: the mining state after \<open>n\<close> more coins, and the next epoch.\<close>

definition advance_mining_state :: "nat \<Rightarrow> BaselineBlock \<Rightarrow> BaselineBlock" where
  "advance_mining_state n b =
     (let ms = mining_state b;
          hs = data_value_hashes b ! unat (epoch ms);
          ms = ms\<lparr>highest_hash_of_current_epoch := (if hs \<noteq> [] then last hs else 0)\<rparr>;
          ms = ms\<lparr>num_minings_in_epoch := ucast (scast (num_minings_in_epoch ms) + of_nat n :: u64)\<rparr>
      in if num_minings_in_epoch ms = max_num_creations then
           (let ms = ms\<lparr>num_minings_in_epoch := 0, epoch := epoch ms + 1,
                         highest_hash_of_last_epoch := highest_hash_of_current_epoch ms,
                         highest_hash_of_current_epoch := 0\<rparr>
            in b\<lparr>mining_state := ms,
                 data_value_hashes := resize_epochs (unat (epoch ms + 1)) (data_value_hashes b)\<rparr>)
         else b\<lparr>mining_state := ms\<rparr>)"

definition updateBaseline ::
    "'ctx env \<Rightarrow> block_uid_t \<Rightarrow> CollectionBlock \<Rightarrow> BaselineBlock \<Rightarrow> BaselineBlock res" where
  "updateBaseline E newest_block_id block b =
     (let b = set_prev (hash_of block) (set_uid (newest_block_id + 1) (set_hash 0 b));
          e = unat (epoch (mining_state b));
          cs = map snd (creations block); ts = map snd (transactions block)
      in assert_res (NDEBUG E) (of_nat (length (data_value_hashes b)) = epoch (mining_state b) + 1)
           (if length (data_value_hashes b) \<le> e then Inl OutOfRange
            else
              (let hs = sort (data_value_hashes b ! e @ map (\<lambda>c. calcHash E (data_value c)) cs);
                   b = b\<lparr>data_value_hashes := (data_value_hashes b)[e := hs],
                         wallets := book_creations cs (wallets b)\<rparr>
               in bind_res (book_transactions (NDEBUG E) ts (wallets b)) (\<lambda>w.
                    Inr (advance_mining_state (length cs) (b\<lparr>wallets := w\<rparr>))))))"

section \<open>Bookings\<close>

lemma book_creations_simps [simp]:
  "book_creations [] w = w"
  "book_creations (c # cs) w = book_creations cs (book_creation c w)"
  by (simp_all add: book_creations_def)

lemma book_creation_wf [wf_intros]: "map_wf w \<Longrightarrow> map_wf (book_creation c w)"
  by (simp add: book_creation_def wf_intros)

lemma book_creations_wf [wf_intros]: "map_wf w \<Longrightarrow> map_wf (book_creations cs w)"
  by (induction cs arbitrary: w) (simp_all add: wf_intros)

lemma book_transaction_wf [wf_intros]: "map_wf w \<Longrightarrow> map_wf (book_transaction t w)"
  by (simp add: book_transaction_def wf_intros)

lemma book_transactions_wf: "book_transactions nd ts w = Inr w' \<Longrightarrow> map_wf w \<Longrightarrow> map_wf w'"
  by (induction ts arbitrary: w) (auto simp: res_simps wf_intros)

lemma book_creations_keys:
  "fst ` set (book_creations cs w) = creator ` set cs \<union> fst ` set w"
  by (induction cs arbitrary: w) (auto simp: book_creation_def map_keys_modify)

lemma book_transactions_keys:
  "book_transactions nd ts w = Inr w' \<Longrightarrow>
   fst ` set w' = pre_owner ` set ts \<union> post_owner ` set ts \<union> fst ` set w"
proof (induction ts arbitrary: w)
  case (Cons t ts)
  then have "fst ` set w' = pre_owner ` set ts \<union> post_owner ` set ts \<union> fst ` set (book_transaction t w)"
    by (auto simp only: book_transactions.simps assert_res_eq_Inr)
  then show ?case by (auto simp only: book_transaction_def map_keys_modify list.set image_insert)
qed simp

lemma book_creations_sum:
  "map_wf w \<Longrightarrow> sum_list (map snd (book_creations cs w)) =
     sum_list (map snd w) + of_nat (length cs) * ucast fraction_per_coin"
proof (induction cs arbitrary: w)
  case (Cons c cs)
  then show ?case
    using Cons.IH [of "book_creation c w"]
    by (simp add: wf_intros) (simp add: book_creation_def sum_map_modify algebra_simps)
qed simp

lemma book_transactions_sum:
  "book_transactions nd ts w = Inr w' \<Longrightarrow> map_wf w \<Longrightarrow>
   sum_list (map snd w') = sum_list (map snd w)"
proof (induction ts arbitrary: w)
  case (Cons t ts)
  then have "sum_list (map snd w') = sum_list (map snd (book_transaction t w))"
    by (auto simp: res_simps wf_intros)
  with Cons.prems(2) show ?case
    by (simp add: book_transaction_def sum_map_modify wf_intros algebra_simps)
qed simp

text \<open>What one key gains: coins it created, fractions it received and sent.\<close>

definition coins_of :: "public_key_t \<Rightarrow> CreationSubBlock list \<Rightarrow> nat" where
  "coins_of k cs = length (filter (\<lambda>c. creator c = k) cs)"

definition received :: "public_key_t \<Rightarrow> TransactionSubBlock list \<Rightarrow> u64" where
  "received k ts = sum_list (map fraction (filter (\<lambda>t. post_owner t = k) ts))"

definition sent :: "public_key_t \<Rightarrow> TransactionSubBlock list \<Rightarrow> u64" where
  "sent k ts = sum_list (map fraction (filter (\<lambda>t. pre_owner t = k) ts))"

lemma book_creations_lookup:
  "map_lookup0 0 (book_creations cs w) k =
     map_lookup0 0 w k + of_nat (coins_of k cs) * ucast fraction_per_coin"
  by (induction cs arbitrary: w)
    (auto simp: coins_of_def book_creation_def map_lookup0_modify algebra_simps)

lemma book_transaction_lookup:
  "map_lookup0 0 (book_transaction t w) k =
     map_lookup0 0 w k + (if post_owner t = k then fraction t else 0) -
       (if pre_owner t = k then fraction t else 0)"
  by (auto simp: book_transaction_def map_lookup0_modify)

lemma book_transactions_lookup:
  "book_transactions nd ts w = Inr w' \<Longrightarrow>
   map_lookup0 0 w' k = map_lookup0 0 w k + received k ts - sent k ts"
proof (induction ts arbitrary: w)
  case (Cons t ts)
  then have "map_lookup0 0 w' k = map_lookup0 0 (book_transaction t w) k + received k ts - sent k ts"
    by (auto simp: res_simps)
  then show ?case
    by (auto simp: book_transaction_lookup received_def sent_def algebra_simps)
qed (simp add: received_def sent_def)

lemma book_transactions_release: "\<exists>w'. book_transactions True ts w = Inr w'"
  by (induction ts arbitrary: w) simp_all

section \<open>The invariant of the running baseline\<close>

definition in_area :: "nat \<Rightarrow> hash_t \<Rightarrow> bool" where
  "in_area e h \<longleftrightarrow> min_allowed_hash (of_nat e) \<le> h \<and> h \<le> max_allowed_hash (of_nat e)"

definition epochs_inv :: "hash_t list list \<Rightarrow> bool" where
  "epochs_inv hss \<longleftrightarrow> hss \<noteq> [] \<and>
     (\<forall>hs \<in> set (butlast hss). length hs = unat max_num_creations) \<and>
     length (last hss) \<le> unat max_num_creations \<and>
     (\<forall>hs \<in> set hss. sorted hs \<and> distinct hs) \<and>
     (\<forall>e < length hss. \<forall>h \<in> set (hss ! e). in_area e h)"

definition baseline_inv :: "'ctx env \<Rightarrow> BaselineBlock \<Rightarrow> bool" where
  "baseline_inv E b \<longleftrightarrow>
     type_of b = BaselineBlock_type \<and> map_wf (wallets b) \<and>
     data_value_hashes_sum b = wallets_sum b \<and> wallet_keys_valid E b \<and>
     length (data_value_hashes b) = unat (epoch (mining_state b)) + 1 \<and>
     epochs_inv (data_value_hashes b) \<and>
     highest_current_ok b \<and> highest_last_ok b \<and> num_minings_ok b"

lemma epoch_sizes_ok_iff:
  "epoch_sizes_ok hss \<longleftrightarrow>
     (\<forall>hs \<in> set (butlast hss). length hs = unat max_num_creations) \<and>
     (hss \<noteq> [] \<longrightarrow> length (last hss) \<le> unat max_num_creations)"
  by (induction hss rule: epoch_sizes_ok.induct) auto

lemma no_neighbour_dup_iff: "sorted hs \<Longrightarrow> no_neighbour_dup hs \<longleftrightarrow> distinct hs"
proof (induction hs rule: no_neighbour_dup.induct)
  case (1 x y xs)
  then have "x \<in> set xs \<Longrightarrow> x = y" by force
  with 1 show ?case by auto
qed simp_all

lemma epoch_in_area_iff:
  assumes "sorted hs"
  shows "epoch_in_area e hs \<longleftrightarrow> (\<forall>h \<in> set hs. in_area e h)"
proof (cases "hs = []")
  case False
  have "hd hs \<le> h \<and> h \<le> last hs" if h: "h \<in> set hs" for h
  proof
    show "hd hs \<le> h" using assms h by (cases hs) auto
    have "sorted (butlast hs @ [last hs])" using assms False by simp
    moreover have "h \<in> set (butlast hs @ [last hs])" using h False by simp
    ultimately show "h \<le> last hs" by (auto simp only: sorted_append set_append list.set)
  qed
  moreover have "hd hs \<in> set hs" "last hs \<in> set hs" using False by simp_all
  ultimately show ?thesis
    by (auto simp: epoch_in_area_def getHashArea_def in_area_def not_less intro: order_trans)
qed (simp add: epoch_in_area_def getHashArea_def)

lemma epochs_inv_checks:
  "hss \<noteq> [] \<Longrightarrow>
   epochs_inv hss \<longleftrightarrow> epoch_sizes_ok hss \<and> list_all sorted hss \<and> list_all no_neighbour_dup hss \<and> hash_areas_ok hss"
proof -
  assume ne: "hss \<noteq> []"
  have "hash_areas_ok hss \<longleftrightarrow> (\<forall>e < length hss. \<forall>h \<in> set (hss ! e). in_area e h)"
    if "list_all sorted hss"
    using that by (auto simp: hash_areas_ok_def list_all_iff epoch_in_area_iff)
  moreover have "list_all no_neighbour_dup hss \<longleftrightarrow> (\<forall>hs \<in> set hss. distinct hs)" if "list_all sorted hss"
    using that by (auto simp: list_all_iff no_neighbour_dup_iff)
  ultimately show ?thesis
    using ne by (auto simp: epochs_inv_def epoch_sizes_ok_iff list_all_iff)
qed

text \<open>The self-check is the invariant, for a block with its hash and id filled in.\<close>

lemma validateBlockWithoutContext_iff:
  assumes "map_wf (wallets b)" "data_value_hashes b \<noteq> []" "fits (data_value_hashes b)"
  shows "validateBlockWithoutContext E b \<longleftrightarrow>
    baseline_inv E b \<and> uid_of b \<noteq> 0 \<and> verifyHash_baseline E b"
proof -
  have len: "of_nat (length (data_value_hashes b)) = epoch (mining_state b) + 1 \<longleftrightarrow>
      length (data_value_hashes b) = unat (epoch (mining_state b)) + 1" (is "?l \<longleftrightarrow> ?r")
  proof
    assume l: ?l
    then have "epoch (mining_state b) \<noteq> - 1"
    proof -
      have "unat (of_nat (length (data_value_hashes b)) :: u64) = length (data_value_hashes b)"
        using assms(3) by (simp add: fits_def unat_of_nat_small)
      with l assms(2) show ?thesis by auto
    qed
    then show ?r
      using arg_cong [OF l, of unat] assms(3) by (simp add: fits_def unat_of_nat_small unat_plus_1)
  next
    assume ?r
    then show ?l by simp
  qed
  show ?thesis
    using assms(1) epochs_inv_checks [OF assms(2)] len
    by (simp add: validateBlockWithoutContext_def baseline_inv_def)
qed

section \<open>updateCurrentBaseline keeps the invariant\<close>

lemma epochs_inv_snoc:
  "epochs_inv (hss @ [hs]) \<longleftrightarrow>
     (\<forall>xs \<in> set hss. length xs = unat max_num_creations) \<and> length hs \<le> unat max_num_creations \<and>
     (\<forall>xs \<in> set hss. sorted xs \<and> distinct xs) \<and> sorted hs \<and> distinct hs \<and>
     (\<forall>e < length hss. \<forall>h \<in> set (hss ! e). in_area e h) \<and> (\<forall>h \<in> set hs. in_area (length hss) h)"
  by (auto simp: epochs_inv_def nth_append less_Suc_eq)

lemma epochs_inv_book:
  assumes "epochs_inv (hss @ [hs])" "length hs + length new \<le> unat max_num_creations"
    and "distinct new" "set new \<inter> set hs = {}" "\<forall>h \<in> set new. in_area (length hss) h"
  shows "epochs_inv (hss @ [sort (hs @ new)])"
  using assms by (auto simp: epochs_inv_snoc)

lemma epochs_inv_next:
  assumes "epochs_inv (hss @ [hs])" "length hs = unat max_num_creations"
  shows "epochs_inv ((hss @ [hs]) @ [[]])"
  unfolding epochs_inv_snoc [of "hss @ [hs]"]
  using assms by (auto simp: epochs_inv_snoc nth_append less_Suc_eq)

lemma data_value_hashes_sum_eq:
  "data_value_hashes_sum b =
     of_nat (sum_list (map length (data_value_hashes b))) * ucast fraction_per_coin"
proof -
  have "sum_list (map (\<lambda>hs. of_nat (length hs) * c) hss) = of_nat (sum_list (map length hss)) * (c :: u64)"
    for hss :: "hash_t list list" and c
    by (induction hss) (simp_all add: algebra_simps)
  then show ?thesis by (simp add: data_value_hashes_sum_def)
qed

text \<open>What \<open>validateBlock\<close> has to establish of the sub blocks for the booking.\<close>

definition creations_bookable :: "'ctx env \<Rightarrow> BaselineBlock \<Rightarrow> CreationSubBlock list \<Rightarrow> bool" where
  "creations_bookable E b cs \<longleftrightarrow>
     length (last (data_value_hashes b)) + length cs \<le> unat max_num_creations \<and>
     distinct (map (\<lambda>c. calcHash E (data_value c)) cs) \<and>
     (\<forall>c \<in> set cs. isPublicKeyValid E (creator c) \<and>
        calcHash E (data_value c) \<notin> set (last (data_value_hashes b)) \<and>
        in_area (unat (epoch (mining_state b))) (calcHash E (data_value c)))"

definition transactions_bookable :: "'ctx env \<Rightarrow> TransactionSubBlock list \<Rightarrow> bool" where
  "transactions_bookable E ts \<longleftrightarrow>
     (\<forall>t \<in> set ts. isPublicKeyValid E (pre_owner t) \<and> isPublicKeyValid E (post_owner t))"

lemma max_num_creations_unat [simp]: "unat max_num_creations = 1000"
  by (simp add: max_num_creations_def)

lemma num_minings_sum:
  assumes "m + n \<le> 1000"
  shows "(ucast (scast (of_nat m :: i32) + of_nat n :: u64) :: i32) = of_nat (m + n)"
proof -
  have "(scast (of_nat m :: i32) :: u64) = of_nat m"
    using assms by (simp add: signed_of_nat signed_take_bit_int_eq_self)
  then have "(ucast (scast (of_nat m :: i32) + of_nat n :: u64) :: i32) = ucast (of_nat (m + n) :: u64)"
    by simp
  also have "\<dots> = of_nat (m + n)"
    using assms by (simp only: unsigned_of_nat) (simp add: take_bit_nat_eq_self)
  finally show ?thesis .
qed

text \<open>The content of the baseline after the loops, before the mining state advances.\<close>

lemma advance_mining_state_inv:
  assumes tyb: "type_of b = BaselineBlock_type" and wf: "map_wf (wallets b)"
    and sum: "data_value_hashes_sum b = wallets_sum b" and keys: "wallet_keys_valid E b"
    and dvh: "data_value_hashes b = hss @ [hs]" and e: "unat (epoch (mining_state b)) = length hss"
    and eps: "epochs_inv (hss @ [hs])" and hl: "highest_last_ok b"
    and m: "num_minings_in_epoch (mining_state b) = of_nat m" and len: "length hs = m + n"
    and room: "length hss + 2 < 2 ^ 64"
  shows "baseline_inv E (advance_mining_state n b)"
proof -
  let ?ms = "mining_state b"
  have le: "m + n \<le> 1000" using eps len by (simp add: epochs_inv_snoc)
  have num: "(ucast (scast (num_minings_in_epoch ?ms) + of_nat n :: u64) :: i32) = of_nat (length hs)"
    unfolding m len using le by (rule num_minings_sum)
  have full: "(of_nat (length hs) :: i32) = max_num_creations \<longleftrightarrow> length hs = 1000"
  proof -
    have "unat (of_nat (length hs) :: i32) = length hs"
      using le unfolding len by (intro unat_of_nat_small) simp
    then show ?thesis by (metis max_num_creations_unat word_unat_eq_iff)
  qed
  have cur: "data_value_hashes b ! length hss = hs" by (simp add: dvh)
  show ?thesis
  proof (cases "length hs = 1000")
    case True
    have e1: "unat (epoch ?ms + 1) = length hss + 1" "unat (epoch ?ms + 1 + 1) = length hss + 2"
      using e room by (simp_all add: unat_word_ariths)
    have adv: "advance_mining_state n b =
        b\<lparr>mining_state := ?ms\<lparr>num_minings_in_epoch := 0, epoch := epoch ?ms + 1,
            highest_hash_of_last_epoch := last hs, highest_hash_of_current_epoch := 0\<rparr>,
          data_value_hashes := hss @ [hs] @ [[]]\<rparr>"
      using True num full e e1 cur
      by (auto simp: advance_mining_state_def Let_def resize_epochs_def dvh)
    have "epochs_inv (hss @ [hs] @ [[]])" using epochs_inv_next [OF eps] True by simp
    then show ?thesis
      unfolding adv using tyb wf sum keys e e1 dvh
      by (simp add: baseline_inv_def data_value_hashes_sum_def wallets_sum_def wallet_keys_valid_def
          highest_current_ok_def highest_last_ok_def num_minings_ok_def nth_append)
  next
    case False
    have adv: "advance_mining_state n b =
        b\<lparr>mining_state := ?ms\<lparr>num_minings_in_epoch := of_nat (length hs),
            highest_hash_of_current_epoch := (if hs \<noteq> [] then last hs else 0)\<rparr>\<rparr>"
      using False num full e cur
      by (simp add: advance_mining_state_def Let_def)
    show ?thesis
      unfolding adv using tyb wf sum keys e dvh eps hl
      by (simp add: baseline_inv_def data_value_hashes_sum_def wallets_sum_def wallet_keys_valid_def
          highest_current_ok_def highest_last_ok_def num_minings_ok_def)
  qed
qed

lemma advance_mining_state_frame [simp]:
  "header (advance_mining_state n b) = header b" "wallets (advance_mining_state n b) = wallets b"
  by (simp_all add: advance_mining_state_def Let_def)

text \<open>The intermediate baseline of \<open>updateBaseline\<close>: hashes pushed and sorted, wallets booked.\<close>

definition booked_baseline ::
    "'ctx env \<Rightarrow> block_uid_t \<Rightarrow> CollectionBlock \<Rightarrow> (public_key_t, u64) std_map \<Rightarrow> BaselineBlock \<Rightarrow> BaselineBlock" where
  "booked_baseline E newest block w b =
     (set_prev (hash_of block) (set_uid (newest + 1) (set_hash 0 b)))
       \<lparr>data_value_hashes := (data_value_hashes b)[unat (epoch (mining_state b)) :=
          sort (data_value_hashes b ! unat (epoch (mining_state b)) @
                map (\<lambda>c. calcHash E (data_value c)) (map snd (creations block)))],
        wallets := w\<rparr>"

lemma updateBaseline_eq:
  assumes "length (data_value_hashes b) = unat (epoch (mining_state b)) + 1"
  shows "updateBaseline E newest block b =
    bind_res (book_transactions (NDEBUG E) (map snd (transactions block))
               (book_creations (map snd (creations block)) (wallets b)))
      (\<lambda>w. Inr (advance_mining_state (length (creations block)) (booked_baseline E newest block w b)))"
proof -
  have "of_nat (length (data_value_hashes b)) = epoch (mining_state b) + 1"
    by (simp add: assms)
  with assms show ?thesis
    by (simp add: updateBaseline_def booked_baseline_def Let_def)
qed

lemma updateBaseline_frame:
  assumes "updateBaseline E newest block b = Inr b'"
  shows "uid_of b' = newest + 1" "prev_of b' = hash_of block" "hash_of b' = 0" "type_of b' = type_of b"
    "book_transactions (NDEBUG E) (map snd (transactions block))
       (book_creations (map snd (creations block)) (wallets b)) = Inr (wallets b')"
  using assms by (auto simp: updateBaseline_def Let_def res_simps split: if_splits)

text \<open>The balances after the booking, over the words: created and received in, sent out.\<close>

lemma updateBaseline_balance:
  "updateBaseline E newest block b = Inr b' \<Longrightarrow>
   map_lookup0 0 (wallets b') k =
     map_lookup0 0 (wallets b) k + of_nat (coins_of k (map snd (creations block))) * ucast fraction_per_coin
       + received k (map snd (transactions block)) - sent k (map snd (transactions block))"
  using book_transactions_lookup [OF updateBaseline_frame(5), of E newest block b b' k]
  by (simp add: book_creations_lookup)

lemma updateBaseline_release:
  "baseline_inv E b \<Longrightarrow> NDEBUG E \<Longrightarrow> \<exists>b'. updateBaseline E newest block b = Inr b'"
  using book_transactions_release [of "map snd (transactions block)"
      "book_creations (map snd (creations block)) (wallets b)"]
  by (auto simp: baseline_inv_def updateBaseline_eq)

lemma wallet_keys_valid_iff: "wallet_keys_valid E b \<longleftrightarrow> (\<forall>k \<in> fst ` set (wallets b). isPublicKeyValid E k)"
  by (auto simp: wallet_keys_valid_def list_all_iff)

lemma updateBaseline_inv:
  assumes inv: "baseline_inv E b"
    and cs: "creations_bookable E b (map snd (creations block))"
    and ts: "transactions_bookable E (map snd (transactions block))"
    and room: "unat (epoch (mining_state b)) + 2 < 2 ^ 64"
    and upd: "updateBaseline E newest block b = Inr b'"
  shows "baseline_inv E b'"
proof -
  let ?cs = "map snd (creations block)" and ?ts = "map snd (transactions block)"
  let ?new = "map (\<lambda>c. calcHash E (data_value c)) ?cs"
  have len: "length (data_value_hashes b) = unat (epoch (mining_state b)) + 1"
    using inv by (simp add: baseline_inv_def)
  then obtain hss hs where dvh: "data_value_hashes b = hss @ [hs]" and e: "unat (epoch (mining_state b)) = length hss"
    by (cases "data_value_hashes b" rule: rev_cases) auto
  obtain w where w: "book_transactions (NDEBUG E) ?ts (book_creations ?cs (wallets b)) = Inr w"
    and b': "b' = advance_mining_state (length (creations block)) (booked_baseline E newest block w b)"
    using upd by (auto simp: updateBaseline_eq [OF len] res_simps)
  let ?b = "booked_baseline E newest block w b"
  have wf: "map_wf (wallets b)" using inv by (simp add: baseline_inv_def)
  have bdvh: "data_value_hashes ?b = hss @ [sort (hs @ ?new)]"
    by (simp add: booked_baseline_def dvh e)
  have eps: "epochs_inv (hss @ [sort (hs @ ?new)])"
    using inv cs dvh e by (intro epochs_inv_book) (auto simp: baseline_inv_def creations_bookable_def)
  have sum: "data_value_hashes_sum ?b = wallets_sum ?b"
  proof -
    have "wallets_sum ?b = wallets_sum b + of_nat (length ?cs) * ucast fraction_per_coin"
      using book_transactions_sum [OF w] book_creations_sum [OF wf, of ?cs] book_creations_wf [OF wf]
      by (simp add: wallets_sum_def booked_baseline_def)
    moreover have "data_value_hashes_sum b = wallets_sum b" using inv by (simp add: baseline_inv_def)
    ultimately show ?thesis
      by (simp add: data_value_hashes_sum_eq bdvh dvh algebra_simps)
  qed
  have keys: "wallet_keys_valid E ?b"
  proof -
    have "fst ` set w = pre_owner ` set ?ts \<union> post_owner ` set ?ts \<union> (creator ` set ?cs \<union> fst ` set (wallets b))"
      using book_transactions_keys [OF w] by (simp add: book_creations_keys)
    moreover have "\<forall>k \<in> fst ` set (wallets b). isPublicKeyValid E k"
      using inv by (simp add: baseline_inv_def wallet_keys_valid_iff)
    ultimately have "\<forall>k \<in> fst ` set w. isPublicKeyValid E k"
      using cs ts by (auto simp: creations_bookable_def transactions_bookable_def)
    then show ?thesis by (simp add: wallet_keys_valid_iff booked_baseline_def)
  qed
  show ?thesis
    unfolding b'
  proof (rule advance_mining_state_inv [OF _ _ sum keys bdvh _ eps])
    show "type_of ?b = BaselineBlock_type" "map_wf (wallets ?b)"
      using inv book_transactions_wf [OF w book_creations_wf [OF wf]]
      by (simp_all add: baseline_inv_def booked_baseline_def)
    show "unat (epoch (mining_state ?b)) = length hss" using e by (simp add: booked_baseline_def)
    show "highest_last_ok ?b"
      using inv dvh bdvh by (auto simp: baseline_inv_def highest_last_ok_def booked_baseline_def nth_append)
    show "num_minings_in_epoch (mining_state ?b) = of_nat (length hs)"
      using inv dvh by (simp add: baseline_inv_def num_minings_ok_def booked_baseline_def)
    show "length (sort (hs @ ?new)) = length hs + length (creations block)" by simp
    show "length hss + 2 < 2 ^ 64" using room e by simp
  qed
qed

end
