(* ===== verification/Blockchain.thy ===== *)
theory Blockchain
  imports Baseline_State Block_Cache
begin

text \<open>
  The class \<open>Blockchain\<close> of src/src/scn/Blockchain/Blockchain.cpp and .h: a cache of blocks, the
  running baseline, and the ids of the oldest and the newest block (kept in the file \<open>meta\<close>).
  Calls that may dereference \<open>nullptr\<close>, cast to the wrong class or run into an assertion return
  a \<open>res\<close>; calls that change the object return it.
\<close>

section \<open>State\<close>

record MetaData =
  root_block_id :: block_uid_t
  newest_block_id :: block_uid_t

definition save_MetaData :: "MetaData writer" where
  "save_MetaData le m = save_int le (root_block_id m) @ save_int le (newest_block_id m)"

definition load_MetaData :: "MetaData loader" where
  "load_MetaData le conv bs =
     do { (r, bs) \<leftarrow> load_int le conv bs;
          (n, bs) \<leftarrow> load_int le conv bs;
          Some (\<lparr>root_block_id = r, newest_block_id = n\<rparr>, bs) }"

record Blockchain =
  chain_cache :: Cache
  current_baseline :: BaselineBlock
  current_meta_data :: MetaData
  current_meta_data_initialized :: bool
  meta_file :: "byte list option"

section \<open>Meta data\<close>

definition no_meta :: MetaData where
  "no_meta = \<lparr>root_block_id = 0, newest_block_id = 0\<rparr>"

definition read_meta :: "'ctx env \<Rightarrow> byte list option \<Rightarrow> MetaData" where
  "read_meta E stored =
     (case do { bs \<leftarrow> stored;
                (conv, bs) \<leftarrow> in_archive (host_le E) bs;
                load_MetaData (host_le E) conv bs } of
        None \<Rightarrow> no_meta
      | Some (m, _) \<Rightarrow> m)"

text \<open>
  Until \<open>setMetaData\<close> has run, every call reads the file; the \<open>mutable\<close> copy that such a read
  leaves behind is not visible to any other call.
\<close>

definition getMetaData :: "'ctx env \<Rightarrow> Blockchain \<Rightarrow> MetaData" where
  "getMetaData E bc =
     (if \<not> current_meta_data_initialized bc then read_meta E (meta_file bc) else current_meta_data bc)"

definition getExternalMetaData :: "'ctx env \<Rightarrow> byte list option \<Rightarrow> MetaData" where
  "getExternalMetaData E stored = read_meta E stored"

definition setMetaData :: "'ctx env \<Rightarrow> MetaData \<Rightarrow> Blockchain \<Rightarrow> Blockchain" where
  "setMetaData E meta bc =
     bc\<lparr>current_meta_data := meta, current_meta_data_initialized := True,
        meta_file := Some (out_archive (host_le E) @ save_MetaData (host_le E) meta)\<rparr>"

section \<open>Reading\<close>

definition getBlock :: "'ctx env \<Rightarrow> Blockchain \<Rightarrow> block_uid_t \<Rightarrow> block option res" where
  "getBlock E bc uid = cache_getBlock E (chain_cache bc) uid"

definition getRootBlockId :: "'ctx env \<Rightarrow> Blockchain \<Rightarrow> block_uid_t" where
  "getRootBlockId E bc = root_block_id (getMetaData E bc)"

definition getNewestBlockId :: "'ctx env \<Rightarrow> Blockchain \<Rightarrow> block_uid_t" where
  "getNewestBlockId E bc = newest_block_id (getMetaData E bc)"

definition getRootBlock :: "'ctx env \<Rightarrow> Blockchain \<Rightarrow> block option res" where
  "getRootBlock E bc = getBlock E bc (root_block_id (getMetaData E bc))"

definition getNewestBlock :: "'ctx env \<Rightarrow> Blockchain \<Rightarrow> block option res" where
  "getNewestBlock E bc = getBlock E bc (newest_block_id (getMetaData E bc))"

text \<open>\<open>newest_block_in_chain->header\<close>\<close>

definition newest_header :: "'ctx env \<Rightarrow> Blockchain \<Rightarrow> BlockHeader res" where
  "newest_header E bc =
     bind_res (getNewestBlock E bc) (\<lambda>b. case b of None \<Rightarrow> Inl NullDeref | Some b \<Rightarrow> Inr (base_header b))"

definition getBalance :: "Blockchain \<Rightarrow> public_key_t \<Rightarrow> u64" where
  "getBalance bc k = (case map_find (wallets (current_baseline bc)) k of None \<Rightarrow> 0 | Some v \<Rightarrow> v)"

definition getNumWallets :: "Blockchain \<Rightarrow> u64" where
  "getNumWallets bc = of_nat (length (wallets (current_baseline bc)))"

definition getMiningState :: "Blockchain \<Rightarrow> MiningState" where
  "getMiningState bc = mining_state (current_baseline bc)"

section \<open>Adding blocks\<close>

definition addBlock_baseline :: "'ctx env \<Rightarrow> BaselineBlock \<Rightarrow> Blockchain \<Rightarrow> (block_uid_t \<times> Blockchain) res" where
  "addBlock_baseline E block bc =
     bind_res (cache_addBlock E (Baseline block) (chain_cache bc)) (\<lambda>(this_block_id, c).
       let bc = bc\<lparr>chain_cache := c, current_baseline := set_hash 0 block\<rparr>;
           meta = (getMetaData E bc)\<lparr>newest_block_id := this_block_id\<rparr>
       in Inr (this_block_id, setMetaData E meta bc))"

definition updateCurrentBaseline :: "'ctx env \<Rightarrow> CollectionBlock \<Rightarrow> Blockchain \<Rightarrow> Blockchain res" where
  "updateCurrentBaseline E block bc =
     bind_res (updateBaseline E (newest_block_id (getMetaData E bc)) block (current_baseline bc))
       (\<lambda>b. Inr (bc\<lparr>current_baseline := b\<rparr>))"

definition addBlock_collection :: "'ctx env \<Rightarrow> CollectionBlock \<Rightarrow> Blockchain \<Rightarrow> (block_uid_t \<times> Blockchain) res" where
  "addBlock_collection E block bc =
     bind_res (cache_addBlock E (Collection block) (chain_cache bc)) (\<lambda>(this_block_id, c).
       let bc = bc\<lparr>chain_cache := c\<rparr>;
           meta = (getMetaData E bc)\<lparr>newest_block_id := this_block_id\<rparr>
       in bind_res (updateCurrentBaseline E block (setMetaData E meta bc)) (\<lambda>bc.
            Inr (this_block_id, bc)))"

definition setRootBlock :: "'ctx env \<Rightarrow> BaselineBlock \<Rightarrow> Blockchain \<Rightarrow> Blockchain res" where
  "setRootBlock E block bc =
     (if uid_of block = 0 then Inr bc
      else bind_res (addBlock_baseline E block (bc\<lparr>chain_cache := resetCache (uid_of block) (chain_cache bc)\<rparr>))
        (\<lambda>(_, bc). Inr (setMetaData E \<lparr>root_block_id = uid_of block, newest_block_id = uid_of block\<rparr> bc)))"

definition empty_baseline :: BaselineBlock where
  "empty_baseline = new_BaselineBlock
     \<lparr>mining_state := \<lparr>epoch = 0, highest_hash_of_last_epoch = 0,
        highest_hash_of_current_epoch = 0, num_minings_in_epoch = 0\<rparr>,
      wallets := [], data_value_hashes := [[]],
      header := \<lparr>generic_header = \<lparr>block_hash = 0, previous_block_hash = 0, block_type = BaselineBlock_type\<rparr>,
        block_uid = 1\<rparr>\<rparr>"

definition initEmptyChain :: "'ctx env \<Rightarrow> Blockchain \<Rightarrow> Blockchain res" where
  "initEmptyChain E bc = bind_res (fillHash_baseline E empty_baseline) (\<lambda>b. setRootBlock E b bc)"

text \<open>
  The constructor on a folder with these files; the members without an initializer (baseline and
  meta data) hold default or indeterminate values that are overwritten before they are read.
\<close>

definition Blockchain_new ::
    "'ctx env \<Rightarrow> (block_uid_t \<Rightarrow> byte list option) \<Rightarrow> byte list option \<Rightarrow> Blockchain res" where
  "Blockchain_new E folder meta =
     initEmptyChain E \<lparr>chain_cache = Cache_new folder, current_baseline = new_BaselineBlock,
       current_meta_data = no_meta, current_meta_data_initialized = False, meta_file = meta\<rparr>"

definition establishBaseline :: "'ctx env \<Rightarrow> Blockchain \<Rightarrow> (block_uid_t \<times> Blockchain) res" where
  "establishBaseline E bc =
     (let c = resetCache (uid_of (current_baseline bc)) (chain_cache bc)
      in bind_res (fillHash_baseline E (current_baseline bc)) (\<lambda>b.
         bind_res (cache_addBlock E (Baseline b) c) (\<lambda>(this_block_id, c).
           let b = set_hash 0 b
           in Inr (this_block_id,
                setMetaData E \<lparr>root_block_id = uid_of b, newest_block_id = uid_of b\<rparr>
                  (bc\<lparr>chain_cache := c, current_baseline := b\<rparr>)))))"

section \<open>importBlockchain\<close>

text \<open>
  A missing file gives \<open>nullptr\<close>, which the code dereferences; a file of the other block class is
  cast without a check.
\<close>

definition external_baseline ::
    "'ctx env \<Rightarrow> (block_uid_t \<Rightarrow> byte list option) \<Rightarrow> block_uid_t \<Rightarrow> BaselineBlock res" where
  "external_baseline E folder uid =
     bind_res (getBlockFromDisk E folder uid) (\<lambda>b.
       case b of None \<Rightarrow> Inl NullDeref | Some (Baseline b) \<Rightarrow> Inr b | Some (Collection _) \<Rightarrow> Inl BadCast)"

definition external_collection ::
    "'ctx env \<Rightarrow> (block_uid_t \<Rightarrow> byte list option) \<Rightarrow> block_uid_t \<Rightarrow> CollectionBlock res" where
  "external_collection E folder uid =
     bind_res (getBlockFromDisk E folder uid) (\<lambda>b.
       case b of None \<Rightarrow> Inl NullDeref | Some (Collection b) \<Rightarrow> Inr b | Some (Baseline _) \<Rightarrow> Inl BadCast)"

fun import_blocks ::
    "'ctx env \<Rightarrow> (block_uid_t \<Rightarrow> byte list option) \<Rightarrow> block_uid_t list \<Rightarrow> Blockchain \<Rightarrow> Blockchain res" where
  "import_blocks E folder [] bc = Inr bc"
| "import_blocks E folder (i # is) bc =
     bind_res (external_collection E folder i) (\<lambda>block.
     bind_res (addBlock_collection E block bc) (\<lambda>(_, bc).
     import_blocks E folder is bc))"

definition importBlockchain ::
    "'ctx env \<Rightarrow> (block_uid_t \<Rightarrow> byte list option) \<Rightarrow> byte list option \<Rightarrow> Blockchain \<Rightarrow> Blockchain res" where
  "importBlockchain E folder meta bc =
     (let meta_data = getExternalMetaData E meta
      in if root_block_id meta_data = 0 \<or> newest_block_id meta_data = 0 then initEmptyChain E bc
         else
           bind_res (external_baseline E folder (root_block_id meta_data)) (\<lambda>b.
           bind_res (setRootBlock E b bc) (\<lambda>bc.
           import_blocks E folder
             (map of_nat [unat (root_block_id meta_data) + 1 ..< Suc (unat (newest_block_id meta_data))]) bc)))"

end
