(* ===== verification/Block_Validation.thy ===== *)
theory Block_Validation
  imports Blockchain
begin

text \<open>
  The \<open>validateBlock\<close> and \<open>validateSubBlock\<close> overloads of src/src/scn/Blockchain/Blockchain.cpp,
  and what an accepted block guarantees. The collection overload returns the object, since its
  balance check reads \<open>wallets[...]\<close>, which inserts missing keys.
\<close>

section \<open>Library routines\<close>

text \<open>\<open>std::lower_bound\<close> as the halving of \<open>[first, first + len)\<close>, and \<open>std::binary_search\<close>.\<close>

function lower_bound :: "'a::linorder list \<Rightarrow> 'a \<Rightarrow> nat \<Rightarrow> nat \<Rightarrow> nat" where
  "lower_bound xs v first len =
     (if len = 0 then first
      else let half = len div 2; middle = first + half
           in if xs ! middle < v then lower_bound xs v (middle + 1) (len - half - 1)
              else lower_bound xs v first half)"
  by pat_completeness auto
termination
  by (relation "measure (\<lambda>(xs, v, first, len). len)") auto

declare lower_bound.simps [simp del]

definition binary_search :: "'a::linorder list \<Rightarrow> 'a \<Rightarrow> bool" where
  "binary_search xs v =
     (let i = lower_bound xs v 0 (length xs) in i \<noteq> length xs \<and> \<not> v < xs ! i)"

section \<open>Sub blocks\<close>

definition validateSubBlock_tx :: "'ctx env \<Rightarrow> TransactionSubBlock \<Rightarrow> BlockHeader \<Rightarrow> bool res" where
  "validateSubBlock_tx E t newest =
     (if fraction t = 0 then Inr False
      else if block_type (sub_generic_header (tx_header t)) \<noteq> TransactionSubBlock_type then Inr False
      else if \<not> verifyHash_tx E t then Inr False
      else bind_res (verifySignature_tx E t (pre_owner t)) (\<lambda>sig.
        if \<not> sig then Inr False
        else if pre_owner t = post_owner t then Inr False
        else if \<not> isPublicKeyValid E (post_owner t) then Inr False
        else Inr (tx_prev t = block_hash (generic_header newest))))"

definition validateSubBlock_cr ::
    "'ctx env \<Rightarrow> CreationSubBlock \<Rightarrow> BlockHeader \<Rightarrow> MiningState \<Rightarrow> hash_t \<Rightarrow> hash_t \<Rightarrow> hash_t list \<Rightarrow> bool res" where
  "validateSubBlock_cr E c newest ms mx mn hashes_of_epoch =
     (if block_type (sub_generic_header (cr_header c)) \<noteq> CreationSubBlock_type then Inr False
      else if \<not> verifyHash_cr E c then Inr False
      else bind_res (verifySignature_cr E c (creator c)) (\<lambda>sig.
        if \<not> sig then Inr False
        else if length (data_value c) > unat max_data_value_length then Inr False
        else if \<not> starts_with (data_value c)
                    (hash_toString (highest_hash_of_last_epoch ms) @ ''_'' @
                     getAsShortString (creator c) @ ''_'') then Inr False
        else let data_value_hash = calcHash E (data_value c)
             in if data_value_hash < mn \<or> data_value_hash > mx then Inr False
                else if cr_prev c \<noteq> block_hash (generic_header newest) then Inr False
                else Inr (\<not> binary_search hashes_of_epoch data_value_hash)))"

text \<open>The public overloads, which fetch the context themselves.\<close>

definition validateSubBlock_transaction :: "'ctx env \<Rightarrow> Blockchain \<Rightarrow> TransactionSubBlock \<Rightarrow> bool res" where
  "validateSubBlock_transaction E bc t =
     bind_res (newest_header E bc) (\<lambda>newest. validateSubBlock_tx E t newest)"

definition hashes_of_epoch :: "Blockchain \<Rightarrow> hash_t list" where
  "hashes_of_epoch bc =
     (if data_value_hashes (current_baseline bc) \<noteq> [] then last (data_value_hashes (current_baseline bc)) else [])"

definition validateSubBlock_creation :: "'ctx env \<Rightarrow> Blockchain \<Rightarrow> CreationSubBlock \<Rightarrow> bool res" where
  "validateSubBlock_creation E bc c =
     (let ms = getMiningState bc
      in case getHashArea (epoch ms) of (mx, mn) \<Rightarrow>
         bind_res (newest_header E bc) (\<lambda>newest.
           validateSubBlock_cr E c newest ms mx mn (hashes_of_epoch bc)))"

section \<open>Baseline blocks\<close>

definition validateBlock_baseline :: "'ctx env \<Rightarrow> Blockchain \<Rightarrow> BaselineBlock \<Rightarrow> bool res" where
  "validateBlock_baseline E bc b =
     (if \<not> validateBlockWithoutContext E b then Inr False
      else bind_res (newest_header E bc) (\<lambda>newest.
        if prev_of b \<noteq> block_hash (generic_header newest) then Inr False
        else Inr (uid_of b = block_uid newest + 1)))"

section \<open>Collection blocks\<close>

text \<open>A loop that stops at the first rejected element.\<close>

fun all_valid :: "('a \<Rightarrow> bool res) \<Rightarrow> 'a list \<Rightarrow> bool res" where
  "all_valid f [] = Inr True"
| "all_valid f (x # xs) = bind_res (f x) (\<lambda>ok. if \<not> ok then Inr False else all_valid f xs)"

fun creations_sorted :: "hash_t \<Rightarrow> CreationSubBlock list \<Rightarrow> bool" where
  "creations_sorted last_hash [] = True"
| "creations_sorted last_hash (c # cs) =
     (if cr_hash c < last_hash then False else creations_sorted (cr_hash c) cs)"

text \<open>The loop with \<open>std::set::insert\<close>.\<close>

fun insert_unique :: "string set \<Rightarrow> string list \<Rightarrow> bool" where
  "insert_unique seen [] = True"
| "insert_unique seen (d # ds) = (if d \<in> seen then False else insert_unique (insert d seen) ds)"

definition diff_creation :: "CreationSubBlock \<Rightarrow> (public_key_t, i64) std_map \<Rightarrow> (public_key_t, i64) std_map" where
  "diff_creation c m = map_modify (creator c) 0 (\<lambda>d. d + ucast fraction_per_coin) m"

definition diff_transaction :: "TransactionSubBlock \<Rightarrow> (public_key_t, i64) std_map \<Rightarrow> (public_key_t, i64) std_map" where
  "diff_transaction t m =
     map_modify (post_owner t) 0 (\<lambda>d. d + fraction t) (map_modify (pre_owner t) 0 (\<lambda>d. d - fraction t) m)"

definition wallet_diffs :: "CreationSubBlock list \<Rightarrow> TransactionSubBlock list \<Rightarrow> (public_key_t, i64) std_map" where
  "wallet_diffs cs ts = fold diff_transaction ts (fold diff_creation cs [])"

text \<open>
  The signed check, with the entries that \<open>wallets[...]\<close> inserts. The sum wraps as the compiled code does;
  for the source an overflow of the signed sum is undefined, and the theorem on balances bounds the amounts.
\<close>

fun check_balances ::
    "(public_key_t, i64) std_map \<Rightarrow> (public_key_t, u64) std_map \<Rightarrow> bool \<times> (public_key_t, u64) std_map" where
  "check_balances [] w = (True, w)"
| "check_balances ((k, d) # ds) w =
     (if sint d < 0 then
        (case map_index k 0 w of (v, w) \<Rightarrow>
           if sint (d + v) < 0 then (False, w) else check_balances ds w)
      else check_balances ds w)"

text \<open>The checks between the sub blocks and the balances.\<close>

definition block_limits_ok :: "MiningState \<Rightarrow> CollectionBlock \<Rightarrow> bool" where
  "block_limits_ok ms block =
     (creations_sorted 0 (map snd (creations block)) \<and>
      \<not> (of_nat (length (creations block)) :: u64) > ucast (max_num_creations - num_minings_in_epoch ms) \<and>
      \<not> (of_nat (length (transactions block)) :: u64) > ucast max_num_transactions)"

definition validateBlock_collection ::
    "'ctx env \<Rightarrow> Blockchain \<Rightarrow> CollectionBlock \<Rightarrow> (bool \<times> Blockchain) res" where
  "validateBlock_collection E bc block =
     bind_res (newest_header E bc) (\<lambda>newest.
       if uid_of block = 0 \<or> uid_of block \<noteq> block_uid newest + 1 then Inr (False, bc)
       else if type_of block \<noteq> CollectionBlock_type then Inr (False, bc)
       else if \<not> verifyHash_collection E block then Inr (False, bc)
       else bind_res (all_valid (\<lambda>t. validateSubBlock_tx E t newest) (map snd (transactions block))) (\<lambda>ok.
         if \<not> ok then Inr (False, bc)
         else let ms = getMiningState bc
              in case getHashArea (epoch ms) of (mx, mn) \<Rightarrow>
           bind_res (all_valid (\<lambda>c. validateSubBlock_cr E c newest ms mx mn (hashes_of_epoch bc))
                       (map snd (creations block))) (\<lambda>ok.
           if \<not> ok then Inr (False, bc)
           else if \<not> block_limits_ok ms block then Inr (False, bc)
           else if prev_of block \<noteq> block_hash (generic_header newest) then Inr (False, bc)
           else if \<not> insert_unique {} (map data_value (map snd (creations block))) then Inr (False, bc)
           else case check_balances (wallet_diffs (map snd (creations block)) (map snd (transactions block)))
                       (wallets (current_baseline bc)) of
                  (ok, w) \<Rightarrow> Inr (ok, bc\<lparr>current_baseline := (current_baseline bc)\<lparr>wallets := w\<rparr>\<rparr>))))"

section \<open>The library routines meet their specification\<close>

lemma lower_bound_spec:
  assumes "sorted xs" "first + len \<le> length xs"
    and "\<forall>i < first. xs ! i < v" "\<forall>i. first + len \<le> i \<and> i < length xs \<longrightarrow> \<not> xs ! i < v"
  shows "let r = lower_bound xs v first len
    in r \<le> length xs \<and> (\<forall>i < r. xs ! i < v) \<and> (\<forall>i. r \<le> i \<and> i < length xs \<longrightarrow> \<not> xs ! i < v)"
  using assms
proof (induction xs v first len rule: lower_bound.induct)
  case (1 xs v first len)
  let ?half = "len div 2" and ?mid = "first + len div 2"
  show ?case
  proof (cases "len = 0")
    case True
    with "1.prems" show ?thesis by (subst lower_bound.simps) auto
  next
    case False
    then have mid: "?mid < length xs" "?half < len" using "1.prems"(2) by linarith+
    show ?thesis
    proof (cases "xs ! ?mid < v")
      case True
      have "\<forall>i < ?mid + 1. xs ! i < v"
        using True "1.prems"(1) mid(1) by (auto simp: less_Suc_eq_le intro: order_le_less_trans [OF sorted_nth_mono])
      then show ?thesis
        using "1.IH"(1) [OF False refl refl True] "1.prems" False True mid
        by (subst lower_bound.simps) (simp add: Let_def)
    next
      case 2: False
      have "\<forall>i. first + ?half \<le> i \<and> i < length xs \<longrightarrow> \<not> xs ! i < v"
        using 2 "1.prems"(1) by (auto simp: not_less intro: order_trans [OF _ sorted_nth_mono])
      then show ?thesis
        using "1.IH"(2) [OF False refl refl 2] "1.prems" False 2 mid
        by (subst lower_bound.simps) (simp add: Let_def)
    qed
  qed
qed

lemma binary_search_iff: "sorted xs \<Longrightarrow> binary_search xs v \<longleftrightarrow> v \<in> set xs"
proof -
  assume s: "sorted xs"
  define r where "r = lower_bound xs v 0 (length xs)"
  have "r \<le> length xs \<and> (\<forall>i < r. xs ! i < v) \<and> (\<forall>i. r \<le> i \<and> i < length xs \<longrightarrow> \<not> xs ! i < v)"
    by (rule lower_bound_spec [OF s, of 0 "length xs" v, unfolded Let_def, folded r_def]) auto
  then have spec: "r \<le> length xs" "\<forall>i < r. xs ! i < v"
    "\<forall>i. r \<le> i \<and> i < length xs \<longrightarrow> \<not> xs ! i < v"
    by blast+
  show "binary_search xs v \<longleftrightarrow> v \<in> set xs"
  proof
    assume "binary_search xs v"
    then have "r < length xs" "\<not> v < xs ! r" using spec(1) by (auto simp: binary_search_def Let_def r_def)
    with spec(3) have "xs ! r = v" by (metis order_refl antisym_conv3)
    with \<open>r < length xs\<close> show "v \<in> set xs" by auto
  next
    assume "v \<in> set xs"
    then obtain i where i: "i < length xs" "xs ! i = v" by (auto simp: in_set_conv_nth)
    then have "r \<le> i" using spec(2) by (meson less_irrefl not_less)
    then have "xs ! r \<le> v" using i s sorted_nth_mono by blast
    with \<open>r \<le> i\<close> i show "binary_search xs v" by (auto simp: binary_search_def Let_def r_def)
  qed
qed

lemma insert_unique_iff: "insert_unique seen ds \<longleftrightarrow> distinct ds \<and> set ds \<inter> seen = {}"
  by (induction ds arbitrary: seen) auto

lemma all_valid_True: "all_valid f xs = Inr True \<longleftrightarrow> (\<forall>x \<in> set xs. f x = Inr True)"
  by (induction xs) (auto simp: res_simps split: if_splits)

section \<open>What an accepted sub block guarantees\<close>

definition tx_accepted :: "'ctx env \<Rightarrow> BlockHeader \<Rightarrow> TransactionSubBlock \<Rightarrow> bool" where
  "tx_accepted E newest t \<longleftrightarrow>
     fraction t \<noteq> 0 \<and> verifyHash_tx E t \<and> verifySignature_tx E t (pre_owner t) = Inr True \<and>
     pre_owner t \<noteq> post_owner t \<and> isPublicKeyValid E (pre_owner t) \<and> isPublicKeyValid E (post_owner t) \<and>
     block_type (sub_generic_header (tx_header t)) = TransactionSubBlock_type \<and>
     tx_prev t = block_hash (generic_header newest)"

lemma validateSubBlock_tx_True: "validateSubBlock_tx E t newest = Inr True \<longleftrightarrow> tx_accepted E newest t"
  by (auto simp: validateSubBlock_tx_def tx_accepted_def res_simps verifySignature_def Let_def
      dest: verifySignature_data_key split: if_splits)

definition cr_accepted :: "'ctx env \<Rightarrow> BlockHeader \<Rightarrow> BaselineBlock \<Rightarrow> CreationSubBlock \<Rightarrow> bool" where
  "cr_accepted E newest b c \<longleftrightarrow>
     block_type (sub_generic_header (cr_header c)) = CreationSubBlock_type \<and>
     verifyHash_cr E c \<and> verifySignature_cr E c (creator c) = Inr True \<and> isPublicKeyValid E (creator c) \<and>
     length (data_value c) \<le> 1024 \<and>
     starts_with (data_value c) (hash_toString (highest_hash_of_last_epoch (mining_state b)) @ ''_'' @
       getAsShortString (creator c) @ ''_'') \<and>
     in_area (unat (epoch (mining_state b))) (calcHash E (data_value c)) \<and>
     cr_prev c = block_hash (generic_header newest) \<and>
     calcHash E (data_value c) \<notin> set (last (data_value_hashes b))"

lemma validateSubBlock_cr_True:
  assumes inv: "baseline_inv E (current_baseline bc)"
  shows "validateSubBlock_cr E c newest (getMiningState bc) (fst (getHashArea (epoch (getMiningState bc))))
      (snd (getHashArea (epoch (getMiningState bc)))) (hashes_of_epoch bc) = Inr True \<longleftrightarrow>
    cr_accepted E newest (current_baseline bc) c"
proof -
  have "hashes_of_epoch bc = last (data_value_hashes (current_baseline bc))"
    and "sorted (last (data_value_hashes (current_baseline bc)))"
    using inv by (auto simp: baseline_inv_def epochs_inv_def hashes_of_epoch_def)
  then show ?thesis
    by (auto simp: validateSubBlock_cr_def cr_accepted_def res_simps verifySignature_def Let_def
        binary_search_iff in_area_def getHashArea_def getMiningState_def not_less max_data_value_length_def
        dest: verifySignature_data_key split: if_splits)
qed

section \<open>The balance check\<close>

lemma check_balances_True:
  "check_balances ds w = (True, w') \<Longrightarrow>
   w' = w \<and> (\<forall>(k, d) \<in> set ds. sint d < 0 \<longrightarrow> 0 \<le> sint (d + map_lookup0 0 w k))"
proof (induction ds w rule: check_balances.induct)
  case (2 k d ds w)
  show ?case
  proof (cases "sint d < 0")
    case True
    then obtain v where v: "map_find w k = Some v"
      using "2.prems" by (cases "map_find w k") (auto simp: map_index_def)
    with True "2.prems" show ?thesis
      using "2.IH"(1) [OF True, of v w] by (auto simp: map_index_def map_lookup0_def split: if_splits)
  qed (use 2 in auto)
qed simp

lemma check_balances_frame:
  "check_balances ds w = (ok, w') \<Longrightarrow> map_wf w \<Longrightarrow>
   map_wf w' \<and> sum_list (map snd w') = sum_list (map snd w) \<and>
   fst ` set w \<subseteq> fst ` set w' \<and> fst ` set w' \<subseteq> fst ` set w \<union> fst ` set ds \<and>
   (\<forall>k. map_lookup0 0 w' k = map_lookup0 0 w k)"
proof (induction ds w rule: check_balances.induct)
  case (2 k d ds w)
  show ?case
  proof (cases "sint d < 0")
    case True
    obtain v w1 where i: "map_index k 0 w = (v, w1)" by fastforce
    have w1: "map_wf w1" "sum_list (map snd w1) = sum_list (map snd w)"
      "fst ` set w1 = insert k (fst ` set w)" "\<forall>k'. map_lookup0 0 w1 k' = map_lookup0 0 w k'"
      using i "2.prems"(2) map_wf_index [of w k 0] sum_map_index [of w k] map_keys_index [of k 0 w]
        map_lookup0_index [of 0 k w]
      by simp_all
    show ?thesis
    proof (cases "sint (d + v) < 0")
      case neg: True
      with i True "2.prems" w1 show ?thesis by auto
    next
      case pos: False
      then have "check_balances ds w1 = (ok, w')" using i True "2.prems" by simp
      from "2.IH"(1) [OF True i [symmetric] pos this w1(1)] w1 show ?thesis by auto
    qed
  qed (use 2 in auto)
qed auto

text \<open>The signed sums are the bookings on an empty map: subtraction and addition wrap alike.\<close>

lemma book_transactions_True: "book_transactions True ts w = Inr (fold book_transaction ts w)"
  by (induction ts arbitrary: w) simp_all

lemma wallet_diffs_eq:
  "book_transactions True ts (book_creations cs []) = Inr (wallet_diffs cs ts)"
proof -
  have "diff_creation = book_creation" "diff_transaction = book_transaction"
    by (simp_all add: fun_eq_iff diff_creation_def book_creation_def diff_transaction_def book_transaction_def)
  then show ?thesis
    by (simp only: wallet_diffs_def book_transactions_True book_creations_def)
qed

lemma wallet_diffs_wf: "map_wf (wallet_diffs cs ts)"
  by (rule book_transactions_wf [OF wallet_diffs_eq]) (simp add: wf_intros)

lemma wallet_diffs_keys:
  "fst ` set (wallet_diffs cs ts) = creator ` set cs \<union> pre_owner ` set ts \<union> post_owner ` set ts"
  using book_transactions_keys [OF wallet_diffs_eq [of ts cs]] by (auto simp: book_creations_keys)

lemma wallet_diffs_lookup:
  "map_lookup0 0 (wallet_diffs cs ts) k =
     of_nat (coins_of k cs) * ucast fraction_per_coin + received k ts - sent k ts"
  using book_transactions_lookup [OF wallet_diffs_eq, of cs ts k] by (simp add: book_creations_lookup)

section \<open>What an accepted block guarantees\<close>

lemma validateBlock_collection_True:
  assumes val: "validateBlock_collection E bc block = Inr (True, bc')"
    and inv: "baseline_inv E (current_baseline bc)"
  shows "bc' = bc" and "\<exists>newest. newest_header E bc = Inr newest \<and>
    uid_of block \<noteq> 0 \<and> uid_of block = block_uid newest + 1 \<and> type_of block = CollectionBlock_type \<and>
    verifyHash_collection E block \<and> prev_of block = block_hash (generic_header newest) \<and>
    (\<forall>t \<in> set (map snd (transactions block)). tx_accepted E newest t) \<and>
    (\<forall>c \<in> set (map snd (creations block)). cr_accepted E newest (current_baseline bc) c) \<and>
    block_limits_ok (getMiningState bc) block \<and>
    distinct (map data_value (map snd (creations block))) \<and>
    (\<forall>(k, d) \<in> set (wallet_diffs (map snd (creations block)) (map snd (transactions block))).
       sint d < 0 \<longrightarrow> 0 \<le> sint (d + map_lookup0 0 (wallets (current_baseline bc)) k))"
proof -
  obtain newest w where n: "newest_header E bc = Inr newest"
    and hdr: "uid_of block \<noteq> 0" "uid_of block = block_uid newest + 1" "type_of block = CollectionBlock_type"
      "verifyHash_collection E block" "prev_of block = block_hash (generic_header newest)"
    and tx: "all_valid (\<lambda>t. validateSubBlock_tx E t newest) (map snd (transactions block)) = Inr True"
    and cr: "all_valid (\<lambda>c. validateSubBlock_cr E c newest (getMiningState bc)
        (fst (getHashArea (epoch (getMiningState bc)))) (snd (getHashArea (epoch (getMiningState bc))))
        (hashes_of_epoch bc)) (map snd (creations block)) = Inr True"
    and rest: "block_limits_ok (getMiningState bc) block"
      "insert_unique {} (map data_value (map snd (creations block)))"
    and bal: "check_balances (wallet_diffs (map snd (creations block)) (map snd (transactions block)))
        (wallets (current_baseline bc)) = (True, w)"
    and bc': "bc' = bc\<lparr>current_baseline := (current_baseline bc)\<lparr>wallets := w\<rparr>\<rparr>"
    using val by (auto simp: validateBlock_collection_def res_simps Let_def split: if_splits prod.splits)
  have w: "w = wallets (current_baseline bc)" using check_balances_True [OF bal] by simp
  then show "bc' = bc" by (simp add: bc')
  show "\<exists>newest. newest_header E bc = Inr newest \<and>
    uid_of block \<noteq> 0 \<and> uid_of block = block_uid newest + 1 \<and> type_of block = CollectionBlock_type \<and>
    verifyHash_collection E block \<and> prev_of block = block_hash (generic_header newest) \<and>
    (\<forall>t \<in> set (map snd (transactions block)). tx_accepted E newest t) \<and>
    (\<forall>c \<in> set (map snd (creations block)). cr_accepted E newest (current_baseline bc) c) \<and>
    block_limits_ok (getMiningState bc) block \<and>
    distinct (map data_value (map snd (creations block))) \<and>
    (\<forall>(k, d) \<in> set (wallet_diffs (map snd (creations block)) (map snd (transactions block))).
       sint d < 0 \<longrightarrow> 0 \<le> sint (d + map_lookup0 0 (wallets (current_baseline bc)) k))"
    using n hdr tx cr rest check_balances_True [OF bal]
    by (intro exI [of _ newest]) (simp only: all_valid_True validateSubBlock_tx_True
        validateSubBlock_cr_True [OF inv] insert_unique_iff, simp)
qed

text \<open>The converse: these checks are all that validation does.\<close>

lemma validateBlock_collection_accepts:
  assumes inv: "baseline_inv E (current_baseline bc)" and n: "newest_header E bc = Inr newest"
    and hdr: "uid_of block \<noteq> 0" "uid_of block = block_uid newest + 1" "type_of block = CollectionBlock_type"
      "verifyHash_collection E block" "prev_of block = block_hash (generic_header newest)"
    and tx: "\<forall>t \<in> set (map snd (transactions block)). tx_accepted E newest t"
    and cr: "\<forall>c \<in> set (map snd (creations block)). cr_accepted E newest (current_baseline bc) c"
    and lim: "block_limits_ok (getMiningState bc) block" "distinct (map data_value (map snd (creations block)))"
    and bal: "check_balances (wallet_diffs (map snd (creations block)) (map snd (transactions block)))
        (wallets (current_baseline bc)) = (ok, w)"
  shows "validateBlock_collection E bc block =
    Inr (ok, bc\<lparr>current_baseline := (current_baseline bc)\<lparr>wallets := w\<rparr>\<rparr>)"
proof -
  have "all_valid (\<lambda>t. validateSubBlock_tx E t newest) (map snd (transactions block)) = Inr True"
    using tx by (simp only: all_valid_True validateSubBlock_tx_True)
  moreover obtain mx mn where area: "getHashArea (epoch (getMiningState bc)) = (mx, mn)" by fastforce
  moreover have "all_valid (\<lambda>c. validateSubBlock_cr E c newest (getMiningState bc) mx mn (hashes_of_epoch bc))
      (map snd (creations block)) = Inr True"
    using cr validateSubBlock_cr_True [OF inv, of _ newest] by (simp add: all_valid_True area)
  ultimately show ?thesis
    using n hdr lim bal by (simp add: validateBlock_collection_def insert_unique_iff Let_def)
qed

text \<open>The limit on creations, with its unsigned subtraction, is the room left in the epoch.\<close>

lemma block_limits_room:
  assumes inv: "baseline_inv E b" and lim: "block_limits_ok (mining_state b) block"
    and fit: "fits (creations block)"
  shows "length (last (data_value_hashes b)) + length (creations block) \<le> 1000"
proof -
  let ?m = "length (last (data_value_hashes b))" and ?n = "length (creations block)"
  have m: "num_minings_in_epoch (mining_state b) = of_nat ?m" "?m \<le> 1000"
    using inv by (auto simp: baseline_inv_def num_minings_ok_def epochs_inv_def)
  have "max_num_creations = (of_nat 1000 :: u32)" by (simp add: max_num_creations_def)
  then have "max_num_creations - num_minings_in_epoch (mining_state b) = of_nat (1000 - ?m)"
    using m by (simp only: of_nat_diff)
  moreover have "unat (ucast (of_nat (1000 - ?m) :: u32) :: u64) = 1000 - ?m"
    by (simp add: unsigned_of_nat take_bit_nat_eq_self unat_of_nat_small)
  ultimately have "unat (of_nat ?n :: u64) \<le> 1000 - ?m"
    using lim by (simp add: block_limits_ok_def not_less word_le_nat_alt)
  moreover have "unat (of_nat ?n :: u64) = ?n" using fit by (simp add: fits_def unat_of_nat_small)
  ultimately show ?thesis using m(2) by linarith
qed

lemma accepted_bookable:
  assumes val: "validateBlock_collection E bc block = Inr (True, bc')"
    and inv: "baseline_inv E (current_baseline bc)" and fit: "fits (creations block)"
    and inj: "inj_on (calcHash E) (data_value ` snd ` set (creations block))"
  shows "creations_bookable E (current_baseline bc) (map snd (creations block))"
    and "transactions_bookable E (map snd (transactions block))"
proof -
  obtain newest where tx: "\<forall>t \<in> set (map snd (transactions block)). tx_accepted E newest t"
    and cr: "\<forall>c \<in> set (map snd (creations block)). cr_accepted E newest (current_baseline bc) c"
    and lim: "block_limits_ok (getMiningState bc) block"
    and d: "distinct (map data_value (map snd (creations block)))"
    using validateBlock_collection_True(2) [OF val inv] by blast
  show "transactions_bookable E (map snd (transactions block))"
    using tx by (auto simp: transactions_bookable_def tx_accepted_def)
  have "distinct (map (calcHash E) (map data_value (map snd (creations block))))"
    using d inj by (subst distinct_map) (simp add: image_image)
  then have "distinct (map (\<lambda>c. calcHash E (data_value c)) (map snd (creations block)))"
    by (simp add: comp_def)
  with block_limits_room [OF inv lim [unfolded getMiningState_def] fit] cr
  show "creations_bookable E (current_baseline bc) (map snd (creations block))"
    by (auto simp: creations_bookable_def cr_accepted_def)
qed

section \<open>Balances over the integers\<close>

definition received_nat :: "public_key_t \<Rightarrow> TransactionSubBlock list \<Rightarrow> nat" where
  "received_nat k ts = sum_list (map (\<lambda>t. unat (fraction t)) (filter (\<lambda>t. post_owner t = k) ts))"

definition sent_nat :: "public_key_t \<Rightarrow> TransactionSubBlock list \<Rightarrow> nat" where
  "sent_nat k ts = sum_list (map (\<lambda>t. unat (fraction t)) (filter (\<lambda>t. pre_owner t = k) ts))"

lemma received_eq: "received k ts = of_nat (received_nat k ts)"
  by (induction ts) (simp_all add: received_def received_nat_def)

lemma sent_eq: "sent k ts = of_nat (sent_nat k ts)"
  by (induction ts) (simp_all add: sent_def sent_nat_def)

lemma sint_of_int_small: "- (2 ^ 63) \<le> i \<Longrightarrow> i < 2 ^ 63 \<Longrightarrow> sint (of_int i :: i64) = i"
  by (simp add: signed_of_int signed_take_bit_int_eq_self)

text \<open>
  As long as the amounts of one key stay in the signed range, the wrapped sums of the check are
  the exact ones, so an accepted block cannot overdraw the key.
\<close>

lemma accepted_no_overdraft:
  assumes chk: "\<forall>(k, d) \<in> set (wallet_diffs cs ts). sint d < 0 \<longrightarrow> 0 \<le> sint (d + map_lookup0 0 w k)"
    and gain: "unat (map_lookup0 0 w k) + coins_of k cs * 1000000 + received_nat k ts < 2 ^ 63"
    and loss: "sent_nat k ts < 2 ^ 63"
  shows "sent_nat k ts \<le> unat (map_lookup0 0 w k) + coins_of k cs * 1000000 + received_nat k ts"
proof -
  let ?bal = "map_lookup0 0 w k"
  define D where "D = int (coins_of k cs * 1000000 + received_nat k ts) - int (sent_nat k ts)"
  have d: "map_lookup0 0 (wallet_diffs cs ts) k = of_int D"
    by (simp add: wallet_diffs_lookup received_eq sent_eq D_def fraction_per_coin_def)
  have sd: "sint (of_int D :: i64) = D"
    using gain loss by (intro sint_of_int_small) (simp_all add: D_def)
  have sb: "sint (of_int D + ?bal :: i64) = D + int (unat ?bal)"
  proof -
    have "of_int D + ?bal = of_int (D + int (unat ?bal))" by simp
    moreover have "sint (of_int (D + int (unat ?bal)) :: i64) = D + int (unat ?bal)"
    proof (rule sint_of_int_small)
      have "int (sent_nat k ts) < 2 ^ 63" using loss by simp
      then show "- (2 ^ 63) \<le> D + int (unat ?bal)" unfolding D_def by linarith
      have "int (unat ?bal + coins_of k cs * 1000000 + received_nat k ts) < 2 ^ 63"
        using gain by (simp del: of_nat_add of_nat_mult)
      then show "D + int (unat ?bal) < 2 ^ 63" unfolding D_def by linarith
    qed
    ultimately show ?thesis by (simp only:)
  qed
  have "0 \<le> D + int (unat ?bal)"
  proof (cases "map_find (wallet_diffs cs ts) k")
    case None
    then have "sint (of_int D :: i64) = 0" using d by (simp add: map_lookup0_def flip: d)
    with sd show ?thesis by simp
  next
    case (Some v)
    then have "v = of_int D" "(k, v) \<in> set (wallet_diffs cs ts)"
      using d by (simp_all add: map_lookup0_def map_find_in_set)
    with chk sd sb show ?thesis by fastforce
  qed
  then show ?thesis unfolding D_def by linarith
qed

lemma updateBaseline_balance_nat:
  assumes upd: "updateBaseline E newest block b = Inr b'"
    and cover: "sent_nat k (map snd (transactions block)) \<le>
      unat (map_lookup0 0 (wallets b) k) + coins_of k (map snd (creations block)) * 1000000
        + received_nat k (map snd (transactions block))"
    and bound: "unat (map_lookup0 0 (wallets b) k) + coins_of k (map snd (creations block)) * 1000000
        + received_nat k (map snd (transactions block)) < 2 ^ 63"
  shows "unat (map_lookup0 0 (wallets b') k) =
      unat (map_lookup0 0 (wallets b) k) + coins_of k (map snd (creations block)) * 1000000
        + received_nat k (map snd (transactions block)) - sent_nat k (map snd (transactions block))"
    (is "_ = ?gain - ?loss")
proof -
  have "map_lookup0 0 (wallets b') k = of_nat ?gain - of_nat ?loss"
    by (simp add: updateBaseline_balance [OF upd] received_eq sent_eq fraction_per_coin_def)
  also have "\<dots> = of_nat (?gain - ?loss)" using cover by (simp only: of_nat_diff)
  finally show ?thesis using bound by (simp only:) (rule unat_of_nat_small, simp)
qed

section \<open>Supply in builds with assertions\<close>

definition total_supply :: "(public_key_t, u64) std_map \<Rightarrow> nat" where
  "total_supply w = sum_list (map (\<lambda>kv. unat (snd kv)) w)"

lemma supply_put:
  "map_wf w \<Longrightarrow> total_supply (map_put k v w) + unat (map_lookup0 0 w k) = total_supply w + unat v"
proof (induction k v w rule: map_put.induct)
  case (2 k v a b m)
  then show ?case
    by (auto simp: total_supply_def map_lookup0_def map_find_def map_of_eq_None_iff [THEN iffD2] split: option.splits)
      (use map_find_in_set [unfolded map_find_def] in force)
qed (simp add: total_supply_def map_lookup0_def)

lemma lookup_le_supply: "unat (map_lookup0 0 w k) \<le> total_supply w"
  by (induction w) (auto simp: total_supply_def map_lookup0_def split: option.splits if_splits)

lemma supply_transaction:
  assumes wf: "map_wf w" and cover: "fraction t \<le> map_lookup0 0 w (pre_owner t)" and bound: "total_supply w < 2 ^ 64"
  shows "total_supply (book_transaction t w) = total_supply w"
proof -
  let ?v = "map_lookup0 0 w (pre_owner t)"
  define w1 where "w1 = map_modify (pre_owner t) 0 (\<lambda>v. v - fraction t) w"
  have sub: "unat (?v - fraction t) = unat ?v - unat (fraction t)" "unat (fraction t) \<le> unat ?v"
    using cover by (simp_all add: unat_sub word_le_nat_alt)
  have w1: "total_supply w1 + unat (fraction t) = total_supply w" "map_wf w1"
    using supply_put [OF wf, of "pre_owner t" "?v - fraction t"] sub wf
    by (simp_all add: w1_def map_modify_eq wf_intros)
  let ?u = "map_lookup0 0 w1 (post_owner t)"
  have "unat ?u + unat (fraction t) < 2 ^ 64"
    using lookup_le_supply [of w1 "post_owner t"] w1(1) bound by linarith
  then have "unat (?u + fraction t) = unat ?u + unat (fraction t)"
    by (simp add: unat_word_ariths)
  with supply_put [OF w1(2), of "post_owner t" "?u + fraction t"] w1(1) show ?thesis
    by (simp add: book_transaction_def map_modify_eq [of "post_owner t"] flip: w1_def)
qed

lemma supply_transactions:
  "book_transactions False ts w = Inr w' \<Longrightarrow> map_wf w \<Longrightarrow> total_supply w < 2 ^ 64 \<Longrightarrow> total_supply w' = total_supply w"
proof (induction ts arbitrary: w)
  case (Cons t ts)
  then have "fraction t \<le> map_lookup0 0 w (pre_owner t)"
    and rest: "book_transactions False ts (book_transaction t w) = Inr w'"
    by (simp_all add: res_simps)
  with Cons.prems have "total_supply (book_transaction t w) = total_supply w" by (intro supply_transaction) simp_all
  with Cons.IH [OF rest] Cons.prems show ?case by (simp add: wf_intros)
qed simp

lemma supply_creations:
  "map_wf w \<Longrightarrow> total_supply w + length cs * 1000000 < 2 ^ 64 \<Longrightarrow>
   total_supply (book_creations cs w) = total_supply w + length cs * 1000000"
proof (induction cs arbitrary: w)
  case (Cons c cs)
  let ?v = "map_lookup0 0 w (creator c)"
  have "unat ?v + 1000000 < 2 ^ 64"
    using lookup_le_supply [of w "creator c"] Cons.prems(2) by simp
  then have "unat (?v + ucast fraction_per_coin) = unat ?v + 1000000"
    by (simp add: fraction_per_coin_def unat_word_ariths)
  then have "total_supply (book_creation c w) = total_supply w + 1000000"
    using supply_put [OF Cons.prems(1), of "creator c" "?v + ucast fraction_per_coin"]
    by (simp add: book_creation_def map_modify_eq)
  with Cons.IH [of "book_creation c w"] Cons.prems show ?case by (simp add: wf_intros)
qed simp

end
