(* ===== verification/Chain_Refinement.thy ===== *)
theory Chain_Refinement
  imports Block_Validation
begin

text \<open>
  The chain as a list: \<open>chain_rep E bc bs\<close> says that the object \<open>bc\<close> holds the blocks \<open>bs\<close>
  from the root to the newest one. Every operation of the class and every iteration of the cache
  thread is an operation on that list, and the states reachable through validated blocks satisfy
  \<open>chain_inv\<close>: linked by hashes, with a running baseline that passes its own check.
\<close>

section \<open>Abstraction\<close>

abbreviation uid_b :: "block \<Rightarrow> block_uid_t" where "uid_b b \<equiv> block_uid (base_header b)"
abbreviation hash_b :: "block \<Rightarrow> hash_t" where "hash_b b \<equiv> block_hash (generic_header (base_header b))"
abbreviation prev_b :: "block \<Rightarrow> hash_t" where
  "prev_b b \<equiv> previous_block_hash (generic_header (base_header b))"

definition chain_rep :: "'ctx env \<Rightarrow> Blockchain \<Rightarrow> block list \<Rightarrow> bool" where
  "chain_rep E bc bs \<longleftrightarrow>
     cache_inv (chain_cache bc) \<and> current_meta_data_initialized bc \<and> bs \<noteq> [] \<and>
     root_block_id (current_meta_data bc) \<noteq> 0 \<and>
     unat (root_block_id (current_meta_data bc)) + length bs < 2 ^ 64 \<and>
     unat (newest_block_id (current_meta_data bc)) + 1 = unat (root_block_id (current_meta_data bc)) + length bs \<and>
     next_free_block_id (chain_cache bc) = newest_block_id (current_meta_data bc) + 1 \<and>
     (\<forall>i < length bs. getBlock E bc (root_block_id (current_meta_data bc) + of_nat i) = Inr (Some (bs ! i)) \<and>
        uid_b (bs ! i) = root_block_id (current_meta_data bc) + of_nat i)"

fun linked :: "block list \<Rightarrow> bool" where
  "linked (a # b # bs) = (prev_b b = hash_b a \<and> linked (b # bs))"
| "linked _ = True"

lemma linked_snoc: "bs \<noteq> [] \<Longrightarrow> linked (bs @ [b]) \<longleftrightarrow> linked bs \<and> prev_b b = hash_b (last bs)"
  by (induction bs rule: linked.induct) auto

lemma getMetaData_rep: "chain_rep E bc bs \<Longrightarrow> getMetaData E bc = current_meta_data bc"
  by (simp add: chain_rep_def getMetaData_def)

lemma chain_rep_newest_id:
  assumes "chain_rep E bc bs"
  shows "newest_block_id (current_meta_data bc) = root_block_id (current_meta_data bc) + of_nat (length bs - 1)"
proof -
  let ?m = "current_meta_data bc"
  have "bs \<noteq> []" and n: "unat (newest_block_id ?m) + 1 = unat (root_block_id ?m) + length bs"
    using assms by (simp_all add: chain_rep_def)
  then have "unat (newest_block_id ?m) = unat (root_block_id ?m) + (length bs - 1)"
    by (cases bs) simp_all
  then have "of_nat (unat (newest_block_id ?m)) = (of_nat (unat (root_block_id ?m) + (length bs - 1)) :: u64)"
    by (simp only:)
  then show ?thesis by simp
qed

lemma chain_rep_newest:
  assumes "chain_rep E bc bs"
  shows "getNewestBlock E bc = Inr (Some (last bs))" "newest_header E bc = Inr (base_header (last bs))"
    "uid_b (last bs) = newest_block_id (current_meta_data bc)"
proof -
  let ?r = "root_block_id (current_meta_data bc)"
  have ne: "bs \<noteq> []" and all: "\<forall>i < length bs.
      getBlock E bc (?r + of_nat i) = Inr (Some (bs ! i)) \<and> uid_b (bs ! i) = ?r + of_nat i"
    using assms by (simp_all add: chain_rep_def)
  have "length bs - 1 < length bs" and nth: "bs ! (length bs - 1) = last bs"
    using ne by (simp_all add: last_conv_nth)
  from all [rule_format, OF this(1)]
  have "getBlock E bc (newest_block_id (current_meta_data bc)) = Inr (Some (last bs)) \<and>
      uid_b (last bs) = newest_block_id (current_meta_data bc)"
    by (simp only: chain_rep_newest_id [OF assms] nth)
  then show "getNewestBlock E bc = Inr (Some (last bs))" "newest_header E bc = Inr (base_header (last bs))"
    "uid_b (last bs) = newest_block_id (current_meta_data bc)"
    by (simp_all add: newest_header_def getNewestBlock_def getMetaData_rep [OF assms])
qed

lemma chain_rep_baseline [simp]:
  "chain_rep E (bc\<lparr>current_baseline := b\<rparr>) bs = chain_rep E bc bs"
  by (simp add: chain_rep_def getBlock_def)

section \<open>Starting a chain\<close>

lemma singleton_rep:
  assumes "chain_cache bc = c" "cache_inv c" "cache_getBlock E c u = Inr (Some b)" "uid_b b = u"
    and "u \<noteq> 0" "u \<noteq> - 1" "next_free_block_id c = u + 1"
  shows "chain_rep E (setMetaData E \<lparr>root_block_id = u, newest_block_id = u\<rparr> bc) [b]"
proof -
  have "unat u + 1 < 2 ^ 64"
    using assms(6) unat_plus_1 [of u] unsigned_less [of "u + 1", where 'a = nat] by simp
  with assms show ?thesis
    by (simp add: chain_rep_def setMetaData_def getBlock_def)
qed

lemma setRootBlock_rep:
  assumes "uid_of b \<noteq> 0" "uid_of b \<noteq> - 1" "block_ok (Baseline b)"
  shows "\<exists>bc'. setRootBlock E b bc = Inr bc' \<and> chain_rep E bc' [Baseline b] \<and>
    current_baseline bc' = set_hash 0 b"
proof -
  obtain c' where add: "cache_addBlock E (Baseline b) (resetCache (uid_of b) (chain_cache bc)) = Inr (uid_of b, c')"
    and c': "cache_inv c'" "next_free_block_id c' = uid_of b + 1"
      "cache_getBlock E c' (uid_of b) = Inr (Some (Baseline b))"
    using cache_store.reset_add [of "Baseline b" "uid_of b" E "chain_cache bc"] assms by auto
  define m :: MetaData where "m = \<lparr>root_block_id = uid_of b, newest_block_id = uid_of b\<rparr>"
  have "setMetaData E m (setMetaData E m' x) = setMetaData E m x" for m' and x :: Blockchain
    by (simp add: setMetaData_def)
  then have "setRootBlock E b bc =
      Inr (setMetaData E m (bc\<lparr>chain_cache := c', current_baseline := set_hash 0 b\<rparr>))"
    using assms(1) by (simp add: setRootBlock_def addBlock_baseline_def add Let_def m_def)
  moreover have "chain_rep E (setMetaData E m (bc\<lparr>chain_cache := c', current_baseline := set_hash 0 b\<rparr>)) [Baseline b]"
    unfolding m_def using assms c' by (intro singleton_rep [where c = c']) simp_all
  ultimately show ?thesis by (simp add: setMetaData_def)
qed

lemma establishBaseline_rep:
  assumes u: "uid_of (current_baseline bc) \<noteq> 0" "uid_of (current_baseline bc) \<noteq> - 1"
    and ok: "block_ok (Baseline (current_baseline bc))" and h0: "hash_of (current_baseline bc) = 0"
  shows "\<exists>b bc'. fillHash_baseline E (current_baseline bc) = Inr b \<and>
    establishBaseline E bc = Inr (uid_of (current_baseline bc), bc') \<and> chain_rep E bc' [Baseline b] \<and>
    current_baseline bc' = current_baseline bc"
proof -
  obtain h where b: "fillHash_baseline E (current_baseline bc) = Inr (set_hash h (current_baseline bc))"
    using baseline_hash.fill_total [OF h0] by blast
  let ?b = "set_hash h (current_baseline bc)" and ?u = "uid_of (current_baseline bc)"
  have ok': "block_ok (Baseline ?b)" using ok by (simp add: baseline_ok_def)
  obtain c' where add: "cache_addBlock E (Baseline ?b) (resetCache ?u (chain_cache bc)) = Inr (?u, c')"
    and c': "cache_inv c'" "next_free_block_id c' = ?u + 1"
      "cache_getBlock E c' ?u = Inr (Some (Baseline ?b))"
    using cache_store.reset_add [of "Baseline ?b" ?u E "chain_cache bc"] u ok' by auto
  have "establishBaseline E bc = Inr (?u, setMetaData E \<lparr>root_block_id = ?u, newest_block_id = ?u\<rparr>
      (bc\<lparr>chain_cache := c'\<rparr>))"
    using set_hash_idle [OF h0] by (simp add: establishBaseline_def b add Let_def)
  moreover have "chain_rep E (setMetaData E \<lparr>root_block_id = ?u, newest_block_id = ?u\<rparr>
      (bc\<lparr>chain_cache := c'\<rparr>)) [Baseline ?b]"
    using u c' by (intro singleton_rep [where c = c']) simp_all
  ultimately show ?thesis using b by (simp add: setMetaData_def)
qed

section \<open>Extending a chain\<close>

lemma addBlock_collection_rep:
  assumes rep: "chain_rep E bc bs" and ok: "block_ok (Collection block)"
    and uid: "uid_of block = uid_b (last bs) + 1" and room: "unat (uid_b (last bs)) + 2 < 2 ^ 64"
    and upd: "updateBaseline E (uid_of block) block (current_baseline bc) = Inr b'"
  shows "\<exists>bc'. addBlock_collection E block bc = Inr (uid_of block, bc') \<and>
    chain_rep E bc' (bs @ [Collection block]) \<and> current_baseline bc' = b'"
proof -
  let ?m = "current_meta_data bc" and ?c = "chain_cache bc"
  note newest = chain_rep_newest(3) [OF rep]
  have nf: "next_free_block_id ?c = uid_of block"
    using rep uid newest by (simp add: chain_rep_def)
  have u: "unat (uid_of block) = unat (uid_b (last bs)) + 1"
    unfolding uid using room by (simp add: unat_word_ariths)
  then have bounds: "uid_of block \<noteq> 0" "uid_of block \<noteq> - 1"
  proof -
    show "uid_of block \<noteq> 0" using u by auto
    have "unat (- 1 :: u64) = 2 ^ 64 - 1" by (simp add: unsigned_minus_1_eq_mask mask_eq_exp_minus_1)
    then show "uid_of block \<noteq> - 1" using u room by auto
  qed
  obtain c' where add: "cache_addBlock E (Collection block) ?c = Inr (uid_of block, c')"
    and c': "cache_inv c'" "next_free_block_id c' = uid_of block + 1"
    using cache_store.add_ok [of ?c "Collection block" E] rep ok nf bounds by (auto simp: chain_rep_def)
  define bc' where "bc' = (setMetaData E (?m\<lparr>newest_block_id := uid_of block\<rparr>) (bc\<lparr>chain_cache := c'\<rparr>))
    \<lparr>current_baseline := b'\<rparr>"
  have "addBlock_collection E block bc = Inr (uid_of block, bc')"
    using getMetaData_rep [OF rep] rep upd
    by (simp add: addBlock_collection_def add Let_def updateCurrentBaseline_def getMetaData_def
        chain_rep_def bc'_def setMetaData_def)
  moreover have "chain_rep E bc' (bs @ [Collection block])"
  proof -
    let ?r = "root_block_id ?m"
    have r: "unat (uid_b (last bs)) + 1 = unat ?r + length bs" "?r \<noteq> 0"
      and all: "i < length bs \<Longrightarrow> getBlock E bc (?r + of_nat i) = Inr (Some (bs ! i)) \<and> uid_b (bs ! i) = ?r + of_nat i" for i
      using rep newest by (simp_all add: chain_rep_def)
    have eq: "uid_of block = ?r + of_nat (length bs)"
    proof -
      have "of_nat (unat (uid_of block)) = (of_nat (unat ?r + length bs) :: u64)" using u r(1) by (simp only:)
      then show ?thesis by simp
    qed
    have "holds_blocks (cache_getBlock E ?c) ?r bs" using all by (simp add: holds_blocks_def getBlock_def)
    then have "holds_blocks (cache_getBlock E c') ?r (bs @ [Collection block])"
      using add r(1) room by (intro cache_store.add_holds) (simp_all add: eq)
    then have "\<forall>i < length (bs @ [Collection block]).
        getBlock E bc' (?r + of_nat i) = Inr (Some ((bs @ [Collection block]) ! i)) \<and>
        uid_b ((bs @ [Collection block]) ! i) = ?r + of_nat i"
      using all eq by (auto simp: holds_blocks_def getBlock_def bc'_def setMetaData_def nth_append less_Suc_eq)
    then show ?thesis
      using c' r u room by (simp add: chain_rep_def bc'_def setMetaData_def)
  qed
  ultimately show ?thesis by (auto simp: bc'_def)
qed

lemma cacheThread_rep:
  assumes "chain_rep E bc bs"
  shows "\<exists>c'. cacheThread_iteration E (chain_cache bc) = Inr c' \<and> chain_rep E (bc\<lparr>chain_cache := c'\<rparr>) bs"
  using cache_store.background_ok [of "chain_cache bc" E] assms by (auto simp: chain_rep_def getBlock_def)

section \<open>The invariant of a chain\<close>

fun hash_filled :: "'ctx env \<Rightarrow> block \<Rightarrow> bool" where
  "hash_filled E (Baseline b) = verifyHash_baseline E b"
| "hash_filled E (Collection c) = verifyHash_collection E c"

definition chain_inv :: "'ctx env \<Rightarrow> Blockchain \<Rightarrow> block list \<Rightarrow> bool" where
  "chain_inv E bc bs \<longleftrightarrow>
     chain_rep E bc bs \<and> linked bs \<and> list_all (hash_filled E) bs \<and>
     baseline_inv E (current_baseline bc) \<and> hash_of (current_baseline bc) = 0 \<and>
     uid_of (current_baseline bc) \<noteq> 0"

lemma baseline_inv_header:
  "baseline_inv E (set_hash h b) \<longleftrightarrow> baseline_inv E b"
  by (simp add: baseline_inv_def data_value_hashes_sum_def wallets_sum_def wallet_keys_valid_def
      highest_current_ok_def highest_last_ok_def num_minings_ok_def)

lemma setRootBlock_chain_inv:
  assumes u: "uid_of b \<noteq> 0" "uid_of b \<noteq> - 1" and ok: "block_ok (Baseline b)" and inv: "baseline_inv E b"
    and h: "verifyHash_baseline E b"
  shows "\<exists>bc'. setRootBlock E b bc = Inr bc' \<and> chain_inv E bc' [Baseline b]"
  using setRootBlock_rep [OF u ok, of E bc] u inv h
  by (auto simp: chain_inv_def baseline_inv_header)

lemma establishBaseline_chain_inv:
  assumes inv: "chain_inv E bc bs" and ok: "baseline_ok (current_baseline bc)"
    and u: "uid_of (current_baseline bc) \<noteq> - 1"
  shows "\<exists>b bc'. establishBaseline E bc = Inr (uid_of b, bc') \<and> chain_inv E bc' [Baseline b] \<and>
    validateBlockWithoutContext E b \<and> set_hash 0 b = current_baseline bc"
proof -
  let ?cb = "current_baseline bc"
  have cb: "baseline_inv E ?cb" "hash_of ?cb = 0" "uid_of ?cb \<noteq> 0"
    using inv by (simp_all add: chain_inv_def)
  have "block_ok (Baseline ?cb)" using cb(1) ok by (simp add: baseline_inv_def)
  from establishBaseline_rep [OF cb(3) u this cb(2), of E]
  obtain b bc' where b: "fillHash_baseline E ?cb = Inr b"
    and est: "establishBaseline E bc = Inr (uid_of ?cb, bc')" "chain_rep E bc' [Baseline b]" "current_baseline bc' = ?cb"
    by blast
  have ver: "verifyHash_baseline E b" by (rule baseline_hash.verify_fill [OF cb(2) b])
  obtain h where b_eq: "b = set_hash h ?cb"
    using b by (auto simp: fillHash_def res_simps)
  have binv: "baseline_inv E b" using cb(1) by (simp add: b_eq baseline_inv_header)
  have "validateBlockWithoutContext E b"
    using validateBlockWithoutContext_iff [of b E] binv ver cb(3) ok
    by (auto simp: b_eq baseline_inv_def epochs_inv_def baseline_ok_def)
  with est ver cb show ?thesis
    by (intro exI [of _ b] exI [of _ bc']) (auto simp: chain_inv_def b_eq set_hash_idle)
qed

section \<open>Validation and the invariant\<close>

lemma validateBlock_collection_frame:
  assumes val: "validateBlock_collection E bc block = Inr (ok, bc')"
    and inv: "baseline_inv E (current_baseline bc)"
  shows "\<exists>w. bc' = bc\<lparr>current_baseline := (current_baseline bc)\<lparr>wallets := w\<rparr>\<rparr> \<and>
    baseline_inv E ((current_baseline bc)\<lparr>wallets := w\<rparr>) \<and>
    (\<forall>k. map_lookup0 0 w k = map_lookup0 0 (wallets (current_baseline bc)) k)"
proof (cases "bc' = bc")
  case True
  with inv show ?thesis by (intro exI [of _ "wallets (current_baseline bc)"]) simp
next
  case False
  let ?cs = "map snd (creations block)" and ?ts = "map snd (transactions block)"
  let ?b = "current_baseline bc"
  obtain newest w where tx: "\<forall>t \<in> set ?ts. validateSubBlock_tx E t newest = Inr True"
    and cr: "\<forall>c \<in> set ?cs. validateSubBlock_cr E c newest (getMiningState bc)
        (fst (getHashArea (epoch (getMiningState bc)))) (snd (getHashArea (epoch (getMiningState bc))))
        (hashes_of_epoch bc) = Inr True"
    and bal: "check_balances (wallet_diffs ?cs ?ts) (wallets ?b) = (ok, w)"
    and bc': "bc' = bc\<lparr>current_baseline := ?b\<lparr>wallets := w\<rparr>\<rparr>"
    using val False
    by (auto simp: validateBlock_collection_def res_simps Let_def all_valid_True split: if_splits prod.splits)
  have wf: "map_wf (wallets ?b)" using inv by (simp add: baseline_inv_def)
  note frame = check_balances_frame [OF bal wf]
  have "\<forall>k \<in> fst ` set (wallet_diffs ?cs ?ts). isPublicKeyValid E k"
    using tx cr
    by (auto simp only: wallet_diffs_keys validateSubBlock_tx_True validateSubBlock_cr_True [OF inv]
        tx_accepted_def cr_accepted_def)
  moreover have "\<forall>k \<in> fst ` set (wallets ?b). isPublicKeyValid E k"
    using inv by (simp add: baseline_inv_def wallet_keys_valid_iff)
  ultimately have "\<forall>k \<in> fst ` set w. isPublicKeyValid E k" using frame by blast
  then have "wallet_keys_valid E (?b\<lparr>wallets := w\<rparr>)" by (simp add: wallet_keys_valid_iff)
  with inv frame have "baseline_inv E (?b\<lparr>wallets := w\<rparr>)"
    by (simp add: baseline_inv_def data_value_hashes_sum_def wallets_sum_def highest_current_ok_def
        highest_last_ok_def num_minings_ok_def)
  with bc' frame show ?thesis by blast
qed

text \<open>
  Adding an accepted block. The guards: the containers fit (as any C++ object's do), ids and epoch
  are not at the end of their 64 bits, the data values of the block do not collide under SHA-256.
\<close>

definition within_capacity :: "Blockchain \<Rightarrow> CollectionBlock \<Rightarrow> bool" where
  "within_capacity bc block \<longleftrightarrow> collection_ok block \<and> unat (uid_of block) + 1 < 2 ^ 64 \<and>
     unat (epoch (mining_state (current_baseline bc))) + 2 < 2 ^ 64"

definition collision_free :: "'ctx env \<Rightarrow> CollectionBlock \<Rightarrow> bool" where
  "collision_free E block \<longleftrightarrow> inj_on (calcHash E) (data_value ` snd ` set (creations block))"

lemma accepted_add_chain_inv:
  assumes inv: "chain_inv E bc bs" and val: "validateBlock_collection E bc block = Inr (True, bc1)"
    and cap: "within_capacity bc block" and cf: "collision_free E block"
    and upd: "updateBaseline E (uid_of block) block (current_baseline bc) = Inr b'"
  shows "\<exists>bc'. addBlock_collection E block bc1 = Inr (uid_of block, bc') \<and>
    chain_inv E bc' (bs @ [Collection block]) \<and> current_baseline bc' = b'"
proof -
  have rep: "chain_rep E bc bs" and b: "baseline_inv E (current_baseline bc)" and l: "linked bs"
    and hs: "list_all (hash_filled E) bs"
    using inv by (simp_all add: chain_inv_def)
  note acc = validateBlock_collection_True [OF val b]
  have hdr: "uid_of block \<noteq> 0" "uid_of block = uid_b (last bs) + 1" "type_of block = CollectionBlock_type"
    "verifyHash_collection E block" "prev_of block = hash_b (last bs)"
    using acc(2) chain_rep_newest(2) [OF rep] by auto
  have ok: "block_ok (Collection block)" using hdr(3) cap by (simp add: within_capacity_def)
  have "uid_b (last bs) \<noteq> - 1" using hdr(1,2) by auto
  then have room: "unat (uid_b (last bs)) + 2 < 2 ^ 64"
    using cap by (simp add: within_capacity_def hdr(2) unat_plus_1)
  obtain bc' where bc': "addBlock_collection E block bc = Inr (uid_of block, bc')"
    "chain_rep E bc' (bs @ [Collection block])" "current_baseline bc' = b'"
    using addBlock_collection_rep [OF rep ok hdr(2) room upd] by blast
  have fit: "fits (creations block)" using cap by (simp add: within_capacity_def collection_ok_def)
  note bookable = accepted_bookable [OF val b fit cf [unfolded collision_free_def]]
  have "baseline_inv E b'"
    using cap by (intro updateBaseline_inv [OF b bookable _ upd]) (simp add: within_capacity_def)
  moreover have "linked (bs @ [Collection block])"
    using rep l hdr(5) by (simp add: linked_snoc chain_rep_def)
  moreover have "uid_of b' \<noteq> 0"
  proof -
    have "uid_of block \<noteq> - 1"
      using cap by (auto simp: within_capacity_def unsigned_minus_1_eq_mask mask_eq_exp_minus_1)
    then have "unat (uid_of block + 1) = unat (uid_of block) + 1" by (simp add: unat_plus_1)
    then show ?thesis unfolding updateBaseline_frame(1) [OF upd] by auto
  qed
  ultimately show ?thesis
    using bc' hs hdr(4) updateBaseline_frame(3) [OF upd] acc(1) by (auto simp: chain_inv_def)
qed

section \<open>Reachable chains\<close>

text \<open>
  The guards beside the checks of the code: containers and numbers that are not at the end of 64 bits, and
  different hashes of the data values of a block.
\<close>

inductive chain_step :: "'ctx env \<Rightarrow> Blockchain \<Rightarrow> Blockchain \<Rightarrow> bool" for E where
  accept: "validateBlock_collection E bc block = Inr (True, bc1) \<Longrightarrow> within_capacity bc block \<Longrightarrow>
    collision_free E block \<Longrightarrow> addBlock_collection E block bc1 = Inr (i, bc2) \<Longrightarrow> chain_step E bc bc2"
| reject: "validateBlock_collection E bc block = Inr (False, bc1) \<Longrightarrow> chain_step E bc bc1"
| establish: "baseline_ok (current_baseline bc) \<Longrightarrow> uid_of (current_baseline bc) \<noteq> - 1 \<Longrightarrow>
    establishBaseline E bc = Inr (i, bc') \<Longrightarrow> chain_step E bc bc'"
| new_root: "validateBlockWithoutContext E b \<Longrightarrow> baseline_ok b \<Longrightarrow> uid_of b \<noteq> - 1 \<Longrightarrow>
    setRootBlock E b bc = Inr bc' \<Longrightarrow> chain_step E bc bc'"
| cache_thread: "cacheThread_iteration E (chain_cache bc) = Inr c \<Longrightarrow> chain_step E bc (bc\<lparr>chain_cache := c\<rparr>)"

lemma addBlock_collection_baseline:
  "addBlock_collection E block bc = Inr (i, bc') \<Longrightarrow>
   updateBaseline E i block (current_baseline bc) = Inr (current_baseline bc')"
  by (auto simp: addBlock_collection_def updateCurrentBaseline_def res_simps Let_def getMetaData_def setMetaData_def)

text \<open>
  What all of them keep. A baseline without any epoch passes the check of a new root; then the running
  baseline has none, and the invariant of the running baseline does not hold.
\<close>

definition stored_inv :: "'ctx env \<Rightarrow> Blockchain \<Rightarrow> block list \<Rightarrow> bool" where
  "stored_inv E bc bs \<longleftrightarrow>
     chain_rep E bc bs \<and> linked bs \<and> list_all (hash_filled E) bs \<and>
     type_of (current_baseline bc) = BaselineBlock_type \<and> hash_of (current_baseline bc) = 0 \<and>
     uid_of (current_baseline bc) \<noteq> 0 \<and>
     (data_value_hashes (current_baseline bc) = [] \<or> baseline_inv E (current_baseline bc))"

lemma chain_inv_stored: "chain_inv E bc bs \<Longrightarrow> stored_inv E bc bs"
  by (simp add: chain_inv_def stored_inv_def baseline_inv_def)

lemma stored_inv_chain: "stored_inv E bc bs \<Longrightarrow> data_value_hashes (current_baseline bc) \<noteq> [] \<Longrightarrow> chain_inv E bc bs"
  by (simp add: chain_inv_def stored_inv_def)

lemma new_root_stored:
  assumes "validateBlockWithoutContext E b" "baseline_ok b" "uid_of b \<noteq> - 1" "setRootBlock E b bc = Inr bc'"
  shows "stored_inv E bc' [Baseline b]"
proof -
  have h: "type_of b = BaselineBlock_type" "uid_of b \<noteq> 0" "verifyHash_baseline E b"
    using assms(1) by (auto simp: validateBlockWithoutContext_def split: if_splits)
  with assms(2) have "block_ok (Baseline b)" by simp
  from setRootBlock_rep [OF h(2) assms(3) this, of E bc] assms(4)
  have r: "chain_rep E bc' [Baseline b]" "current_baseline bc' = set_hash 0 b" by auto
  moreover have "baseline_inv E b" if "data_value_hashes b \<noteq> []"
    using assms(1,2) validateBlockWithoutContext_iff [of b E] that by (simp add: baseline_ok_def)
  ultimately show ?thesis using h by (auto simp: stored_inv_def baseline_inv_header)
qed

lemma validateBlock_collection_wallets:
  "validateBlock_collection E bc block = Inr (ok, bc') \<Longrightarrow>
   \<exists>w. bc' = bc\<lparr>current_baseline := (current_baseline bc)\<lparr>wallets := w\<rparr>\<rparr>"
  by (auto simp: validateBlock_collection_def res_simps Let_def split: if_splits prod.splits
      intro: exI [of _ "wallets (current_baseline bc)"])

text \<open>Without an epoch a block cannot be added: the booking indexes out of range.\<close>

lemma chain_step_no_epoch:
  assumes "chain_step E bc bc'" "stored_inv E bc bs" "data_value_hashes (current_baseline bc) = []"
  shows "\<exists>bs'. stored_inv E bc' bs'"
  using assms
proof (cases rule: chain_step.cases)
  case (accept block bc1 i)
  have "data_value_hashes (current_baseline bc1) = []"
    using validateBlock_collection_wallets [OF accept(1)] assms(3) by auto
  then show ?thesis
    using addBlock_collection_baseline [OF accept(4)] by (auto simp: updateBaseline_def Let_def res_simps)
next
  case (reject block)
  obtain w where "bc' = bc\<lparr>current_baseline := (current_baseline bc)\<lparr>wallets := w\<rparr>\<rparr>"
    using validateBlock_collection_wallets [OF reject] by blast
  then have "stored_inv E bc' bs"
    using assms(2,3) by (simp add: stored_inv_def chain_rep_def getBlock_def)
  then show ?thesis by blast
next
  case (establish i)
  have cb: "type_of (current_baseline bc) = BaselineBlock_type" "uid_of (current_baseline bc) \<noteq> 0" "hash_of (current_baseline bc) = 0"
    using assms(2) by (simp_all add: stored_inv_def)
  have "block_ok (Baseline (current_baseline bc))" using cb(1) establish(1) by simp
  from establishBaseline_rep [OF cb(2) establish(2) this cb(3), of E] establish(3)
  obtain b where b: "fillHash_baseline E (current_baseline bc) = Inr b" "chain_rep E bc' [Baseline b]"
    "current_baseline bc' = current_baseline bc" by auto
  with baseline_hash.verify_fill [OF cb(3) b(1)] cb assms(3) show ?thesis by (auto simp: stored_inv_def)
next
  case (new_root b)
  then show ?thesis using new_root_stored by blast
next
  case (cache_thread c)
  then show ?thesis using cacheThread_rep [of E bc bs] assms(2) by (auto simp: stored_inv_def)
qed

lemma chain_step_epochs:
  assumes "chain_step E bc bc'" "chain_inv E bc bs"
  shows "\<exists>bs'. stored_inv E bc' bs'"
  using assms
proof (cases rule: chain_step.cases)
  case (accept block bc1 i)
  have b: "baseline_inv E (current_baseline bc)" using assms(2) by (simp add: chain_inv_def)
  have bc1: "bc1 = bc" by (rule validateBlock_collection_True(1) [OF accept(1) b])
  have i: "i = uid_of block"
  proof -
    have "i = next_free_block_id (chain_cache bc)"
      using accept(4) by (auto simp: addBlock_collection_def bc1 cache_addBlock_def Let_def res_simps)
    also have "\<dots> = uid_of block"
      using validateBlock_collection_True(2) [OF accept(1) b] chain_rep_newest [of E bc bs] assms(2)
      by (auto simp: chain_inv_def chain_rep_def)
    finally show ?thesis .
  qed
  have "updateBaseline E (uid_of block) block (current_baseline bc) = Inr (current_baseline bc')"
    using addBlock_collection_baseline [OF accept(4)] by (simp add: bc1 i)
  from accepted_add_chain_inv [OF assms(2) accept(1-3) this] accept(4) show ?thesis
    by (auto intro: chain_inv_stored)
next
  case (reject block)
  then show ?thesis
    using validateBlock_collection_frame [OF reject] assms(2) by (intro exI [of _ bs] chain_inv_stored) (fastforce simp: chain_inv_def)
next
  case (establish i)
  then show ?thesis using establishBaseline_chain_inv [OF assms(2) establish(1,2)] by (auto intro: chain_inv_stored)
next
  case (new_root b)
  then show ?thesis using new_root_stored by blast
next
  case (cache_thread c)
  then show ?thesis
    using cacheThread_rep [of E bc bs] assms(2) by (intro exI [of _ bs] chain_inv_stored) (auto simp: chain_inv_def)
qed

lemma chain_step_inv: "chain_step E bc bc' \<Longrightarrow> stored_inv E bc bs \<Longrightarrow> \<exists>bs'. stored_inv E bc' bs'"
  using chain_step_no_epoch chain_step_epochs stored_inv_chain by metis

lemma empty_baseline_inv: "baseline_inv E empty_baseline"
  by (simp add: empty_baseline_def new_BaselineBlock_def baseline_inv_def data_value_hashes_sum_def wallets_sum_def
      wallet_keys_valid_def epochs_inv_def highest_current_ok_def highest_last_ok_def num_minings_ok_def)

lemma Blockchain_new_inv: "\<exists>bc b. Blockchain_new E folder meta = Inr bc \<and> chain_inv E bc [Baseline b]"
proof -
  have h0: "hash_of empty_baseline = 0" and u: "uid_of empty_baseline = 1"
    by (simp_all add: empty_baseline_def)
  obtain h where f: "fillHash_baseline E empty_baseline = Inr (set_hash h empty_baseline)"
    using baseline_hash.fill_total [OF h0] by blast
  have "block_ok (Baseline (set_hash h empty_baseline))"
    by (simp add: baseline_ok_def empty_baseline_def fits_def set_hash_def new_BaselineBlock_def)
  then have "\<exists>bc'. setRootBlock E (set_hash h empty_baseline) bc = Inr bc' \<and>
      chain_inv E bc' [Baseline (set_hash h empty_baseline)]" for bc
    using u baseline_hash.verify_fill [OF h0 f] empty_baseline_inv [of E]
    by (intro setRootBlock_chain_inv) (simp_all add: baseline_inv_header)
  with f show ?thesis unfolding Blockchain_new_def initEmptyChain_def by fastforce
qed

lemma reachable_chain_inv:
  "(chain_step E)\<^sup>*\<^sup>* bc bc' \<Longrightarrow> \<exists>bs. stored_inv E bc bs \<Longrightarrow> \<exists>bs. stored_inv E bc' bs"
  by (induction rule: rtranclp_induct) (auto dest: chain_step_inv)

end
