(* ===== verification/Sample_Chain.thy ===== *)
theory Sample_Chain
  imports Chain_Refinement Sample_Environment
begin

text \<open>
  A chain of one baseline block over the sample environment, and helpers that build the next block
  and signed transactions for it: the concrete inputs of the chain properties' witnesses.
\<close>

section \<open>A small chain\<close>

text \<open>One coin, mined in epoch 0 and owned by the second of two keys.\<close>

definition alice :: public_key_t where "alice = PublicKeyPEM ''A''"
definition bob :: public_key_t where "bob = PublicKeyPEM ''B''"

lemma alice_bob [simp]: "alice < bob" "\<not> bob < alice" "alice \<noteq> bob" "bob \<noteq> alice"
  by (simp_all add: alice_def bob_def less_public_key_t_def key_less_def getAsShortString_def)

definition sample_baseline :: BaselineBlock where
  "sample_baseline = empty_baseline
     \<lparr>mining_state := \<lparr>epoch = 0, highest_hash_of_last_epoch = 0,
        highest_hash_of_current_epoch = - 1, num_minings_in_epoch = 1\<rparr>,
      wallets := [(bob, 1000000)], data_value_hashes := [[- 1]]\<rparr>"

definition blank_chain :: Blockchain where
  "blank_chain = \<lparr>chain_cache = Cache_new Map.empty, current_baseline = new_BaselineBlock,
     current_meta_data = no_meta, current_meta_data_initialized = False, meta_file = None\<rparr>"

definition sample_root :: "'ctx env \<Rightarrow> BaselineBlock" where
  "sample_root E = projr (fillHash_baseline E sample_baseline)"

definition sample_chain :: "'ctx env \<Rightarrow> Blockchain" where
  "sample_chain E = projr (setRootBlock E (sample_root E) blank_chain)"

text \<open>The next block of a chain with the given sub blocks, and a signed transaction for it.\<close>

definition next_block ::
    "'ctx env \<Rightarrow> block \<Rightarrow> (hash_t \<times> TransactionSubBlock) list \<Rightarrow> (hash_t \<times> CreationSubBlock) list \<Rightarrow> CollectionBlock" where
  "next_block E newest ts cs =
     projr (fillHash_collection E
       ((set_prev (hash_b newest) (set_uid (uid_b newest + 1) new_CollectionBlock))
          \<lparr>transactions := ts, creations := cs\<rparr>))"

definition signed_tx ::
    "'ctx env \<Rightarrow> private_key_t \<Rightarrow> hash_t \<Rightarrow> public_key_t \<Rightarrow> public_key_t \<Rightarrow> u64 \<Rightarrow> TransactionSubBlock" where
  "signed_tx E priv prev a b f =
     projr (bind_res (fillSignature_tx E priv
       ((set_tx_prev prev new_TransactionSubBlock)\<lparr>pre_owner := a, post_owner := b, fraction := f\<rparr>))
       (fillHash_tx E))"

lemma sample_baseline_inv: "baseline_inv (sample_env nd) sample_baseline"
proof -
  have "in_area 0 (- 1)" by (simp add: in_area_def max_allowed_hash_epoch_0)
  then show ?thesis
    by (simp add: sample_baseline_def empty_baseline_def new_BaselineBlock_def baseline_inv_def
        data_value_hashes_sum_def wallets_sum_def wallet_keys_valid_def epochs_inv_def highest_current_ok_def
        highest_last_ok_def num_minings_ok_def sample_public_key bob_def fraction_per_coin_def)
qed

lemma sample_root_facts:
  "fillHash_baseline E sample_baseline = Inr (sample_root E)" "verifyHash_baseline E (sample_root E)"
  "\<exists>h. sample_root E = set_hash h sample_baseline"
proof -
  have h0: "hash_of sample_baseline = 0" by (simp add: sample_baseline_def empty_baseline_def)
  obtain h where h: "fillHash_baseline E sample_baseline = Inr (set_hash h sample_baseline)"
    using baseline_hash.fill_total [OF h0] by blast
  then show f: "fillHash_baseline E sample_baseline = Inr (sample_root E)"
    by (simp add: sample_root_def)
  show "verifyHash_baseline E (sample_root E)" by (rule baseline_hash.verify_fill [OF h0 f])
  show "\<exists>h. sample_root E = set_hash h sample_baseline" using h f by auto
qed

lemma sample_root_simps [simp]:
  "uid_of (sample_root E) = 1" "wallets (sample_root E) = [(bob, 1000000)]"
  "mining_state (sample_root E) = mining_state sample_baseline"
  "data_value_hashes (sample_root E) = [[- 1]]" "type_of (sample_root E) = BaselineBlock_type"
  using sample_root_facts(3) [of E] by (auto simp: sample_baseline_def empty_baseline_def)

lemma sample_root_ok: "block_ok (Baseline (sample_root E))"
  by (simp add: baseline_ok_def fits_def key_ok_def bob_def)

lemma sample_chain_inv:
  "chain_inv (sample_env nd) (sample_chain (sample_env nd)) [Baseline (sample_root (sample_env nd))]"
proof -
  let ?E = "sample_env nd"
  have "baseline_inv ?E (sample_root ?E)"
    using sample_root_facts(3) [of ?E] sample_baseline_inv [of nd] by (auto simp: baseline_inv_header)
  then show ?thesis
    using setRootBlock_chain_inv [of "sample_root ?E" ?E blank_chain] sample_root_facts(2) [of ?E]
      sample_root_ok [of ?E]
    by (auto simp: sample_chain_def)
qed

lemma sample_chain_baseline: "current_baseline (sample_chain E) = set_hash 0 (sample_root E)"
  using setRootBlock_rep [of "sample_root E" E blank_chain] sample_root_ok [of E]
  by (auto simp: sample_chain_def)

lemma sample_chain_newest:
  "newest_header (sample_env nd) (sample_chain (sample_env nd)) = Inr (header (sample_root (sample_env nd)))"
  using chain_rep_newest(2) [of "sample_env nd" "sample_chain (sample_env nd)"] sample_chain_inv [of nd]
  by (auto simp: chain_inv_def)

lemma next_block_facts:
  "uid_of (next_block E newest ts cs) = uid_b newest + 1" "prev_of (next_block E newest ts cs) = hash_b newest"
  "type_of (next_block E newest ts cs) = CollectionBlock_type" "transactions (next_block E newest ts cs) = ts"
  "creations (next_block E newest ts cs) = cs" "verifyHash_collection E (next_block E newest ts cs)"
proof -
  let ?b = "(set_prev (hash_b newest) (set_uid (uid_b newest + 1) new_CollectionBlock))\<lparr>transactions := ts, creations := cs\<rparr>"
  have h0: "hash_of ?b = 0"
    by (simp add: set_prev_def set_uid_def new_CollectionBlock_def new_BlockHeader_def new_GenericHeader_def)
  obtain h where h: "fillHash_collection E ?b = Inr (set_hash h ?b)"
    using collection_hash.fill_total [OF h0] by blast
  then have n: "next_block E newest ts cs = set_hash h ?b" by (simp add: next_block_def)
  show "verifyHash_collection E (next_block E newest ts cs)"
    using collection_hash.verify_fill [OF h0 h] by (simp add: n)
  show "uid_of (next_block E newest ts cs) = uid_b newest + 1" "prev_of (next_block E newest ts cs) = hash_b newest"
    "type_of (next_block E newest ts cs) = CollectionBlock_type" "transactions (next_block E newest ts cs) = ts"
    "creations (next_block E newest ts cs) = cs"
    by (simp_all add: n) (simp_all add: set_prev_def set_uid_def new_CollectionBlock_def new_BlockHeader_def
        new_GenericHeader_def)
qed

lemma signed_tx_accepted:
  assumes E: "base64_ok E" and kp: "key_pair_ok E priv a" and b: "isPublicKeyValid E b" "a \<noteq> b" and f: "f \<noteq> 0"
    and prev: "prev = block_hash (generic_header newest)"
  shows "tx_accepted E newest (signed_tx E priv prev a b f)"
    "pre_owner (signed_tx E priv prev a b f) = a" "post_owner (signed_tx E priv prev a b f) = b"
    "fraction (signed_tx E priv prev a b f) = f"
proof -
  let ?t = "(set_tx_prev prev new_TransactionSubBlock)\<lparr>pre_owner := a, post_owner := b, fraction := f\<rparr>"
  have fresh: "tx_hash ?t = 0" "tx_signature ?t = ''''"
    by (simp_all add: set_tx_prev_def new_TransactionSubBlock_def new_GenericHeader_def)
  obtain s where s: "fillSignature_tx E priv ?t = Inr (set_tx_sig s ?t)"
    using fresh by (simp add: fillSignature_def)
  have h0: "tx_hash (set_tx_sig s ?t) = 0" using fresh(1) by simp
  obtain h where h: "fillHash_tx E (set_tx_sig s ?t) = Inr (set_tx_hash h (set_tx_sig s ?t))"
    using tx_hashed.fill_total [OF h0] by blast
  have t: "signed_tx E priv prev a b f = set_tx_hash h (set_tx_sig s ?t)"
    by (simp add: signed_tx_def s h)
  have "verifySignature_tx E (signed_tx E priv prev a b f) a = Inr True"
    unfolding t by (rule tx_signed.verify_filled_signature [OF E kp fresh s h])
  moreover have "verifyHash_tx E (signed_tx E priv prev a b f)"
    unfolding t by (rule tx_hashed.verify_fill [OF h0 h])
  moreover have p: "pre_owner (signed_tx E priv prev a b f) = a" "post_owner (signed_tx E priv prev a b f) = b"
    "fraction (signed_tx E priv prev a b f) = f"
    by (simp_all add: t)
  moreover have "block_type (sub_generic_header (tx_header (signed_tx E priv prev a b f))) = TransactionSubBlock_type"
    "tx_prev (signed_tx E priv prev a b f) = prev"
    by (simp_all add: t) (simp_all add: set_tx_prev_def new_TransactionSubBlock_def)
  ultimately show "tx_accepted E newest (signed_tx E priv prev a b f)"
    using b f prev kp by (simp add: tx_accepted_def key_pair_ok_def)
  show "pre_owner (signed_tx E priv prev a b f) = a" "post_owner (signed_tx E priv prev a b f) = b"
    "fraction (signed_tx E priv prev a b f) = f"
    by (simp_all add: p)
qed

lemma signed_tx_signature:
  "\<exists>data. tx_signature (signed_tx E priv prev a b f) = calcSignature E priv data"
  by (simp add: signed_tx_def fillSignature_def fillHash_def set_tx_prev_def new_TransactionSubBlock_def
      new_GenericHeader_def) blast

lemma sample_signature_length: "length (calcSignature (sample_env nd) priv data) = 4"
  by (simp add: calcSignature_def encode64_def sample_env_def)

end
