(* ===== verification/Chain_Properties.thy ===== *)
theory Chain_Properties
  imports Sample_Chain
begin

text \<open>
  The properties of the block chain: what validation, adding, booking and establishing a baseline
  guarantee together, each with a witness on the small chain of \<open>Sample_Chain\<close>, and the
  inputs on which the code does not do what it means to.
\<close>

section \<open>Reachable states\<close>

text \<open>
  C1: whatever sequence of accepted and rejected blocks, new baselines, validated new roots and cache
  thread iterations a node runs through after its start, its chain is consistent: the stored blocks
  from root to newest can be read back with consecutive ids, every block carries its own hash and
  the hash of its predecessor, and the running baseline satisfies the baseline invariant unless it has
  no epoch at all. (The validation lets a root without epochs pass, see below; no block can be added
  to it.) Ids and epochs are not at the end of their 64 bits, containers fit, and the data values of an
  accepted block have different hashes.
\<close>

theorem reachable_chain_consistent:
  assumes "Blockchain_new E folder meta = Inr bc\<^sub>0" "(chain_step E)\<^sup>*\<^sup>* bc\<^sub>0 bc"
  shows "\<exists>bs. chain_rep E bc bs \<and> linked bs \<and> list_all (hash_filled E) bs \<and>
    (data_value_hashes (current_baseline bc) \<noteq> [] \<longrightarrow> chain_inv E bc bs)"
proof -
  obtain bs where "stored_inv E bc bs"
    using reachable_chain_inv [OF assms(2)] Blockchain_new_inv [of E folder meta] assms(1) chain_inv_stored by fastforce
  then show ?thesis using stored_inv_chain [of E bc bs] by (auto simp: stored_inv_def)
qed

theorem reachable_chain_consistent_witness:
  "\<exists>bc\<^sub>0 bc bs. Blockchain_new (sample_env True) Map.empty None = Inr bc\<^sub>0 \<and>
     chain_step (sample_env True) bc\<^sub>0 bc \<and> chain_inv (sample_env True) bc bs"
proof -
  let ?E = "sample_env True"
  obtain bc0 b where bc0: "Blockchain_new ?E Map.empty None = Inr bc0" "chain_inv ?E bc0 [Baseline b]"
    using Blockchain_new_inv [of ?E Map.empty None] by blast
  let ?r = "sample_root ?E"
  have "validateBlockWithoutContext ?E ?r"
    using validateBlockWithoutContext_iff [of ?r ?E] sample_root_facts(2,3) [of ?E] sample_baseline_inv [of True]
    by (auto simp: fits_def baseline_inv_header)
  moreover obtain bc where bc: "setRootBlock ?E ?r bc0 = Inr bc" "current_baseline bc = set_hash 0 ?r"
    using setRootBlock_rep [of ?r ?E bc0] sample_root_ok [of ?E] by auto
  ultimately have step: "chain_step ?E bc0 bc"
    using sample_root_ok [of ?E] by (intro chain_step.new_root [of _ ?r]) auto
  obtain bs where "chain_inv ?E bc bs" using reachable_chain_consistent [OF bc0(1), of bc] step bc(2) by auto
  with step show ?thesis using bc0(1) by blast
qed

section \<open>Accepted blocks\<close>

text \<open>
  C4: an accepted block can be added. In a build without assertions \<open>addBlock\<close> returns, the
  stored chain is the old one with the block at its end, still linked, and the running baseline
  again satisfies the invariant. (Capacity: ids and epoch are not at the end of 64 bits; the data
  values of the block have different hashes.)
\<close>

theorem accepted_block_extends_chain:
  assumes "chain_inv E bc bs" "validateBlock_collection E bc block = Inr (True, bc\<^sub>1)"
    and "within_capacity bc block" "collision_free E block" "NDEBUG E"
  shows "\<exists>bc'. addBlock_collection E block bc\<^sub>1 = Inr (uid_of block, bc') \<and>
    chain_inv E bc' (bs @ [Collection block])"
proof -
  have "baseline_inv E (current_baseline bc)" using assms(1) by (simp add: chain_inv_def)
  from updateBaseline_release [OF this assms(5)] show ?thesis
    using accepted_add_chain_inv [OF assms(1-4)] by blast
qed

definition sample_payment :: "bool \<Rightarrow> u64 \<Rightarrow> TransactionSubBlock" where
  "sample_payment nd f =
     signed_tx (sample_env nd) ''K'' (hash_of (sample_root (sample_env nd))) bob alice f"

definition sample_block :: "bool \<Rightarrow> u64 \<Rightarrow> CollectionBlock" where
  "sample_block nd f =
     next_block (sample_env nd) (Baseline (sample_root (sample_env nd)))
       [(tx_hash (sample_payment nd f), sample_payment nd f)] []"

lemma sample_payment_facts:
  assumes "f \<noteq> 0"
  shows "tx_accepted (sample_env nd) (header (sample_root (sample_env nd))) (sample_payment nd f)"
    "pre_owner (sample_payment nd f) = bob" "post_owner (sample_payment nd f) = alice"
    "fraction (sample_payment nd f) = f"
proof -
  have keys: "bob \<noteq> PublicKeyPEM ''''" "alice \<noteq> PublicKeyPEM ''''" "bob \<noteq> alice"
    by (simp_all add: alice_def bob_def)
  note facts = signed_tx_accepted [OF sample_base64 [of nd] sample_key_pair [OF keys(1)] _ keys(3) assms,
      of "hash_of (sample_root (sample_env nd))" "header (sample_root (sample_env nd))" "''K''",
      folded sample_payment_def]
  show "tx_accepted (sample_env nd) (header (sample_root (sample_env nd))) (sample_payment nd f)"
    "pre_owner (sample_payment nd f) = bob" "post_owner (sample_payment nd f) = alice"
    "fraction (sample_payment nd f) = f"
    using facts keys(2) by (simp_all add: sample_public_key)
qed

text \<open>A block of transactions on the small chain is judged by its balances alone.\<close>

lemma sample_validate:
  assumes ts: "\<forall>t \<in> set (map snd ts). tx_accepted (sample_env nd) (header (sample_root (sample_env nd))) t"
    and len: "length ts \<le> 10000"
    and bal: "check_balances (wallet_diffs [] (map snd ts)) [(bob, 1000000)] = (ok, w)"
  shows "validateBlock_collection (sample_env nd) (sample_chain (sample_env nd))
      (next_block (sample_env nd) (Baseline (sample_root (sample_env nd))) ts []) =
    Inr (ok, (sample_chain (sample_env nd))\<lparr>current_baseline :=
      (current_baseline (sample_chain (sample_env nd)))\<lparr>wallets := w\<rparr>\<rparr>)"
proof -
  let ?E = "sample_env nd" and ?bc = "sample_chain (sample_env nd)"
  have inv: "chain_inv ?E ?bc [Baseline (sample_root ?E)]" by (rule sample_chain_inv)
  then have b: "baseline_inv ?E (current_baseline ?bc)"
    and n: "newest_header ?E ?bc = Inr (header (sample_root ?E))"
    using chain_rep_newest(2) [of ?E ?bc] by (auto simp: chain_inv_def)
  have lim: "block_limits_ok (getMiningState ?bc) (next_block ?E (Baseline (sample_root ?E)) ts [])"
    using len by (simp add: block_limits_ok_def next_block_facts max_num_transactions_def not_less
        word_le_nat_alt unat_of_nat_small)
  show ?thesis
    using ts bal by (intro validateBlock_collection_accepts [OF b n])
      (simp_all add: next_block_facts lim sample_chain_baseline)
qed

lemma sample_diffs:
  "pre_owner t = bob \<Longrightarrow> post_owner t = alice \<Longrightarrow>
   wallet_diffs [] [t] = [(alice, fraction t), (bob, - fraction t)]"
  by (simp add: wallet_diffs_def diff_transaction_def map_modify_def map_index_def alice_def bob_def
      less_public_key_t_def key_less_def getAsShortString_def)

lemma sample_block_accepted:
  "validateBlock_collection (sample_env nd) (sample_chain (sample_env nd)) (sample_block nd 400000) =
     Inr (True, sample_chain (sample_env nd))"
proof -
  let ?ts = "[(tx_hash (sample_payment nd 400000), sample_payment nd 400000)]"
  have "check_balances (wallet_diffs [] (map snd ?ts)) [(bob, 1000000)] = (True, [(bob, 1000000)])"
    by (simp add: sample_diffs sample_payment_facts map_index_def alice_def bob_def)
  from sample_validate [OF _ _ this, of nd] show ?thesis
    by (simp add: sample_block_def sample_payment_facts) (simp add: sample_chain_baseline)
qed

lemma sample_block_capacity: "within_capacity (sample_chain E) (sample_block nd f)"
proof -
  have "fits (tx_signature (sample_payment nd f))"
    using signed_tx_signature [of "sample_env nd" "''K''" "hash_of (sample_root (sample_env nd))" bob alice f]
    by (auto simp: sample_payment_def fits_def sample_signature_length)
  moreover have "pre_owner (sample_payment nd f) = bob \<and> post_owner (sample_payment nd f) = alice"
    by (simp add: sample_payment_def signed_tx_def fillSignature_def fillHash_def set_tx_prev_def
        new_TransactionSubBlock_def new_GenericHeader_def)
  ultimately show ?thesis
    by (simp add: within_capacity_def sample_block_def next_block_facts collection_ok_def tx_ok_def key_ok_def
        alice_def bob_def sample_chain_baseline sample_baseline_def) (simp add: fits_def)
qed

lemma sample_block_collision_free: "collision_free E (sample_block nd f)"
  by (simp add: collision_free_def sample_block_def next_block_facts)

theorem accepted_block_extends_chain_witness:
  "\<exists>bc'. addBlock_collection (sample_env True) (sample_block True 400000) (sample_chain (sample_env True)) =
      Inr (2, bc') \<and>
    chain_inv (sample_env True) bc'
      [Baseline (sample_root (sample_env True)), Collection (sample_block True 400000)]"
  using accepted_block_extends_chain [OF sample_chain_inv [of True] sample_block_accepted [of True]
      sample_block_capacity sample_block_collision_free]
  by (simp add: sample_block_def next_block_facts)

text \<open>
  C3: what acceptance guarantees of the content. The object is unchanged; the block refers to the
  newest block; every transaction is non-zero, between different keys, carries its own hash, is
  signed by the sender and made for this block; every coin is signed by its creator, its data value
  starts with the last epoch's highest hash and the creator's key, and the value's hash lies in
  the area of the epoch and was not used in it.
\<close>

theorem accepted_block_authorised:
  assumes "baseline_inv E (current_baseline bc)" "validateBlock_collection E bc block = Inr (True, bc\<^sub>1)"
  shows "bc\<^sub>1 = bc \<and> (\<exists>newest. newest_header E bc = Inr newest \<and>
    uid_of block = block_uid newest + 1 \<and> prev_of block = block_hash (generic_header newest) \<and>
    (\<forall>t \<in> snd ` set (transactions block). fraction t \<noteq> 0 \<and> pre_owner t \<noteq> post_owner t \<and> verifyHash_tx E t \<and>
       verifySignature_tx E t (pre_owner t) = Inr True \<and> tx_prev t = block_hash (generic_header newest)) \<and>
    (\<forall>c \<in> snd ` set (creations block). verifyHash_cr E c \<and> verifySignature_cr E c (creator c) = Inr True \<and>
       cr_prev c = block_hash (generic_header newest) \<and>
       starts_with (data_value c)
         (hash_toString (highest_hash_of_last_epoch (getMiningState bc)) @ ''_'' @ getAsShortString (creator c) @ ''_'') \<and>
       snd (getHashArea (epoch (getMiningState bc))) \<le> calcHash E (data_value c) \<and>
       calcHash E (data_value c) \<le> fst (getHashArea (epoch (getMiningState bc))) \<and>
       calcHash E (data_value c) \<notin> set (last (data_value_hashes (current_baseline bc)))))"
  using validateBlock_collection_True [OF assms(2,1)]
  by (auto simp: tx_accepted_def cr_accepted_def in_area_def getHashArea_def getMiningState_def)

theorem accepted_block_authorised_witness:
  "verifySignature_tx (sample_env True) (sample_payment True 400000) bob = Inr True"
proof -
  have "baseline_inv (sample_env True) (current_baseline (sample_chain (sample_env True)))"
    using sample_chain_inv [of True] by (simp add: chain_inv_def)
  from accepted_block_authorised [OF this sample_block_accepted] show ?thesis
    by (auto simp: sample_block_def next_block_facts sample_payment_facts)
qed

lemma getBalance_eq: "getBalance bc k = map_lookup0 0 (wallets (current_baseline bc)) k"
  by (simp add: getBalance_def map_lookup0_def)

text \<open>
  C2: balances over the integers. When an accepted block is added, every key whose balance,
  creations, received and sent amounts stay below \<open>2 ^ 63\<close> has covered what it sent, and its new
  balance is exactly the old one plus a million per created coin plus the received minus the sent
  amounts: nobody is overdrawn and nothing wraps.
\<close>

theorem accepted_block_balances:
  assumes "chain_inv E bc bs" "validateBlock_collection E bc block = Inr (True, bc\<^sub>1)"
    and "addBlock_collection E block bc\<^sub>1 = Inr (i, bc')"
    and "unat (getBalance bc k) + coins_of k (map snd (creations block)) * 1000000
      + received_nat k (map snd (transactions block)) < 2 ^ 63"
    and "sent_nat k (map snd (transactions block)) < 2 ^ 63"
  shows "sent_nat k (map snd (transactions block)) \<le>
      unat (getBalance bc k) + coins_of k (map snd (creations block)) * 1000000
        + received_nat k (map snd (transactions block)) \<and>
    unat (getBalance bc' k) =
      unat (getBalance bc k) + coins_of k (map snd (creations block)) * 1000000
        + received_nat k (map snd (transactions block)) - sent_nat k (map snd (transactions block))"
proof -
  have b: "baseline_inv E (current_baseline bc)" using assms(1) by (simp add: chain_inv_def)
  note acc = validateBlock_collection_True [OF assms(2) b]
  have upd: "updateBaseline E i block (current_baseline bc) = Inr (current_baseline bc')"
    using addBlock_collection_baseline [OF assms(3)] acc(1) by simp
  have cover: "sent_nat k (map snd (transactions block)) \<le>
      unat (getBalance bc k) + coins_of k (map snd (creations block)) * 1000000
        + received_nat k (map snd (transactions block))"
    using acc(2) assms(4,5) unfolding getBalance_eq by (intro accepted_no_overdraft) blast+
  then show ?thesis
    using updateBaseline_balance_nat [OF upd] assms(4) by (simp add: getBalance_eq)
qed

theorem accepted_block_balances_witness:
  "\<exists>bc'. addBlock_collection (sample_env True) (sample_block True 400000) (sample_chain (sample_env True)) =
      Inr (2, bc') \<and> unat (getBalance bc' bob) = 600000 \<and> unat (getBalance bc' alice) = 400000"
proof -
  let ?E = "sample_env True" and ?b = "sample_block True 400000"
  have "baseline_inv ?E (current_baseline (sample_chain ?E))"
    using sample_chain_inv [of True] by (simp add: chain_inv_def)
  from updateBaseline_release [OF this, of "uid_of ?b" ?b]
  obtain bc' where add: "addBlock_collection ?E ?b (sample_chain ?E) = Inr (2, bc')"
    using accepted_add_chain_inv [OF sample_chain_inv [of True] sample_block_accepted sample_block_capacity
        sample_block_collision_free]
    by (auto simp: sample_block_def next_block_facts)
  note bal = accepted_block_balances [OF sample_chain_inv [of True] sample_block_accepted add]
  have "alice \<noteq> bob" by (simp add: alice_def bob_def)
  then show ?thesis
    using add bal [of bob] bal [of alice]
    by (simp add: getBalance_eq sample_chain_baseline map_lookup0_def sample_block_def next_block_facts
        sample_payment_facts coins_of_def received_nat_def sent_nat_def)
qed

text \<open>
  Validation, whatever its verdict, changes no balance, no stored block and no meta data, and
  keeps the invariant of the running baseline.
\<close>

theorem validation_keeps_balances:
  assumes "baseline_inv E (current_baseline bc)" "validateBlock_collection E bc block = Inr (ok, bc')"
  shows "getBalance bc' = getBalance bc \<and> chain_cache bc' = chain_cache bc \<and>
    current_meta_data bc' = current_meta_data bc \<and> meta_file bc' = meta_file bc \<and>
    baseline_inv E (current_baseline bc')"
  using validateBlock_collection_frame [OF assms(2,1)] by (auto simp: getBalance_eq fun_eq_iff)

definition overdrawn_block :: CollectionBlock where
  "overdrawn_block =
     next_block (sample_env True) (Baseline (sample_root (sample_env True)))
       [(0, signed_tx (sample_env True) ''K'' (hash_of (sample_root (sample_env True))) alice bob 5)] []"

lemma alice_payment_facts:
  fixes nd :: bool and f :: u64
  assumes "f \<noteq> 0"
  defines "t \<equiv> signed_tx (sample_env nd) ''K'' (hash_of (sample_root (sample_env nd))) alice bob f"
  shows "tx_accepted (sample_env nd) (header (sample_root (sample_env nd))) t"
    "pre_owner t = alice" "post_owner t = bob" "fraction t = f"
    "wallet_diffs [] [t] = [(alice, - f), (bob, f)]"
proof -
  have keys: "bob \<noteq> PublicKeyPEM ''''" "alice \<noteq> PublicKeyPEM ''''" "alice \<noteq> bob"
    by (simp_all add: alice_def bob_def)
  note facts = signed_tx_accepted [OF sample_base64 [of nd] sample_key_pair [OF keys(2)] _ keys(3) assms(1),
      of "hash_of (sample_root (sample_env nd))" "header (sample_root (sample_env nd))" "''K''", folded t_def]
  show "tx_accepted (sample_env nd) (header (sample_root (sample_env nd))) t"
    "pre_owner t = alice" "post_owner t = bob" "fraction t = f"
    using facts keys(1) by (simp_all add: sample_public_key)
  then show "wallet_diffs [] [t] = [(alice, - f), (bob, f)]"
    by (simp add: wallet_diffs_def diff_transaction_def map_modify_def map_index_def alice_def bob_def
        less_public_key_t_def key_less_def getAsShortString_def)
qed

lemma overdrawn_block_rejected:
  "validateBlock_collection (sample_env True) (sample_chain (sample_env True)) overdrawn_block =
     Inr (False, (sample_chain (sample_env True))\<lparr>current_baseline :=
      (current_baseline (sample_chain (sample_env True)))\<lparr>wallets := [(alice, 0), (bob, 1000000)]\<rparr>\<rparr>)"
proof -
  let ?t = "signed_tx (sample_env True) ''K'' (hash_of (sample_root (sample_env True))) alice bob 5"
  have "check_balances (wallet_diffs [] (map snd [(0, ?t)])) [(bob, 1000000)] = (False, [(alice, 0), (bob, 1000000)])"
    by (simp add: alice_payment_facts map_index_def)
  from sample_validate [OF _ _ this] show ?thesis
    by (simp add: overdrawn_block_def alice_payment_facts)
qed

theorem validation_keeps_balances_witness:
  "\<exists>bc'. validateBlock_collection (sample_env True) (sample_chain (sample_env True)) overdrawn_block = Inr (False, bc') \<and>
     getBalance bc' = getBalance (sample_chain (sample_env True))"
proof -
  have "baseline_inv (sample_env True) (current_baseline (sample_chain (sample_env True)))"
    using sample_chain_inv [of True] by (simp add: chain_inv_def)
  from validation_keeps_balances [OF this overdrawn_block_rejected] show ?thesis
    using overdrawn_block_rejected by blast
qed

section \<open>Baselines\<close>

text \<open>
  C15: the baseline that a node establishes passes the check its peers run on it. The chain then
  consists of that one block, balances and mining state are unchanged.
\<close>

theorem established_baseline_validates:
  assumes "chain_inv E bc bs" "baseline_ok (current_baseline bc)" "uid_of (current_baseline bc) \<noteq> - 1"
  shows "\<exists>b bc'. establishBaseline E bc = Inr (uid_of b, bc') \<and> validateBlockWithoutContext E b \<and>
    chain_inv E bc' [Baseline b] \<and> getNewestBlock E bc' = Inr (Some (Baseline b)) \<and>
    getBalance bc' = getBalance bc \<and> getMiningState bc' = getMiningState bc"
proof -
  obtain b bc' where e: "establishBaseline E bc = Inr (uid_of b, bc')" "chain_inv E bc' [Baseline b]"
    "validateBlockWithoutContext E b"
    using establishBaseline_chain_inv [OF assms] by blast
  have "current_baseline bc' = current_baseline bc"
    using e(1) assms(1)
    by (auto simp: establishBaseline_def Let_def res_simps setMetaData_def fillHash_def chain_inv_def set_hash_idle)
  moreover have "getNewestBlock E bc' = Inr (Some (Baseline b))"
    using chain_rep_newest(1) [of E bc' "[Baseline b]"] e(2) by (simp add: chain_inv_def)
  ultimately show ?thesis using e by (auto simp: getBalance_eq fun_eq_iff getMiningState_def)
qed

theorem established_baseline_validates_witness:
  "\<exists>b bc'. establishBaseline (sample_env False) (sample_chain (sample_env False)) = Inr (uid_of b, bc') \<and>
     validateBlockWithoutContext (sample_env False) b"
proof -
  have "baseline_ok (current_baseline (sample_chain (sample_env False)))"
    using sample_root_ok [of "sample_env False"] by (simp add: sample_chain_baseline baseline_ok_def)
  moreover have "uid_of (current_baseline (sample_chain (sample_env False))) \<noteq> - 1"
    by (simp add: sample_chain_baseline)
  ultimately show ?thesis using established_baseline_validates [OF sample_chain_inv [of False]] by blast
qed

text \<open>
  In a build with assertions the booking of a block, validated or not, never creates or
  destroys money: if \<open>updateCurrentBaseline\<close> returns at all, the sum of all balances, taken over
  the integers, has grown by exactly one coin per creation.
\<close>

theorem debug_booking_conserves:
  assumes "\<not> NDEBUG E" "map_wf (wallets (current_baseline bc))"
    and "updateCurrentBaseline E block bc = Inr bc'"
    and "sum_list (map (unat \<circ> snd) (wallets (current_baseline bc))) + length (creations block) * 1000000 < 2 ^ 64"
  shows "sum_list (map (unat \<circ> snd) (wallets (current_baseline bc'))) =
    sum_list (map (unat \<circ> snd) (wallets (current_baseline bc))) + length (creations block) * 1000000"
proof -
  let ?w = "wallets (current_baseline bc)" and ?cs = "map snd (creations block)"
  have s: "total_supply w = sum_list (map (unat \<circ> snd) w)" for w by (simp add: total_supply_def comp_def)
  obtain n where "updateBaseline E n block (current_baseline bc) = Inr (current_baseline bc')"
    using assms(3) by (auto simp: updateCurrentBaseline_def res_simps)
  from updateBaseline_frame(5) [OF this] assms(1)
  have t: "book_transactions False (map snd (transactions block)) (book_creations ?cs ?w) =
      Inr (wallets (current_baseline bc'))" by simp
  have c: "total_supply (book_creations ?cs ?w) = total_supply ?w + length (creations block) * 1000000"
    using supply_creations [OF assms(2), of ?cs] assms(4) by (simp add: s)
  have "total_supply (wallets (current_baseline bc')) = total_supply (book_creations ?cs ?w)"
    using supply_transactions [OF t book_creations_wf [OF assms(2)]] c assms(4) by (simp add: s)
  with c show ?thesis by (simp add: s)
qed

theorem debug_booking_conserves_witness:
  "\<exists>bc'. updateCurrentBaseline (sample_env False) (sample_block False 400000) (sample_chain (sample_env False)) = Inr bc' \<and>
     sum_list (map (unat \<circ> snd) (wallets (current_baseline bc'))) = 1000000"
proof -
  let ?E = "sample_env False" and ?b = "sample_block False 400000"
  have "baseline_inv ?E (current_baseline (sample_chain ?E))"
    using sample_chain_inv [of False] by (simp add: chain_inv_def)
  then have len: "length (data_value_hashes (current_baseline (sample_chain ?E))) =
      unat (epoch (mining_state (current_baseline (sample_chain ?E)))) + 1" by (simp add: baseline_inv_def)
  have "book_transactions False (map snd (transactions ?b)) (book_creations (map snd (creations ?b))
      (wallets (current_baseline (sample_chain ?E)))) =
    Inr (book_transaction (sample_payment False 400000) [(bob, 1000000)])"
    by (simp add: sample_block_def next_block_facts sample_payment_facts sample_chain_baseline map_lookup0_def)
  then obtain bc' where upd: "updateCurrentBaseline ?E ?b (sample_chain ?E) = Inr bc'"
    by (simp add: updateCurrentBaseline_def updateBaseline_eq [OF len])
  then show ?thesis
    using debug_booking_conserves [OF _ _ upd]
    by (simp add: sample_chain_baseline sample_block_def next_block_facts)
qed





section \<open>Where the code does not do what it means to\<close>

definition theft :: TransactionSubBlock where
  "theft = signed_tx (sample_env True) ''K'' (hash_of (sample_root (sample_env True))) alice bob (- 1000000)"

definition theft_block :: CollectionBlock where
  "theft_block = next_block (sample_env True) (Baseline (sample_root (sample_env True))) [(tx_hash theft, theft)] []"

text \<open>
  C26: a transaction whose fraction is \<open>2 ^ 64 - 1000000\<close> moves a million from the receiver to the
  sender. The signed differences of \<open>validateBlock\<close> take it for a payment in the other direction,
  so a block with this one transaction, signed only by the sender, is accepted, and in a build
  without assertions it empties the wallet of a key that signed nothing.
\<close>

theorem negative_fraction_steals:
  "pre_owner theft = alice \<and> transactions theft_block = [(tx_hash theft, theft)] \<and>
   getBalance (sample_chain (sample_env True)) bob = 1000000 \<and>
   validateBlock_collection (sample_env True) (sample_chain (sample_env True)) theft_block =
     Inr (True, sample_chain (sample_env True)) \<and>
   (\<exists>bc'. addBlock_collection (sample_env True) theft_block (sample_chain (sample_env True)) = Inr (2, bc') \<and>
      getBalance bc' bob = 0 \<and> getBalance bc' alice = 1000000)"
proof -
  let ?E = "sample_env True" and ?bc = "sample_chain (sample_env True)"
  have t: "tx_accepted ?E (header (sample_root ?E)) theft" "pre_owner theft = alice" "post_owner theft = bob"
    "fraction theft = - 1000000" "wallet_diffs [] [theft] = [(alice, 1000000), (bob, - 1000000)]"
    using alice_payment_facts [of "- 1000000" True, folded theft_def] by simp_all
  have "check_balances (wallet_diffs [] (map snd [(tx_hash theft, theft)])) [(bob, 1000000)] = (True, [(bob, 1000000)])"
    by (simp add: t map_index_def)
  from sample_validate [OF _ _ this, of True] t(1)
  have val: "validateBlock_collection ?E ?bc theft_block = Inr (True, ?bc)"
    by (simp add: theft_block_def) (simp add: sample_chain_baseline)
  have "baseline_inv ?E (current_baseline ?bc)" using sample_chain_inv [of True] by (simp add: chain_inv_def)
  from updateBaseline_release [OF this, of "uid_of theft_block" theft_block]
  obtain b' where upd: "updateBaseline ?E (uid_of theft_block) theft_block (current_baseline ?bc) = Inr b'" by auto
  have "fits (tx_signature theft)"
    using signed_tx_signature [of ?E "''K''" "hash_of (sample_root ?E)" alice bob "- 1000000"]
    by (auto simp: theft_def fits_def sample_signature_length)
  then have "within_capacity ?bc theft_block"
    by (simp add: within_capacity_def theft_block_def next_block_facts collection_ok_def tx_ok_def t key_ok_def
        alice_def bob_def sample_chain_baseline sample_baseline_def) (simp add: fits_def)
  moreover have "collision_free ?E theft_block" by (simp add: collision_free_def theft_block_def next_block_facts)
  ultimately obtain bc' where "addBlock_collection ?E theft_block ?bc = Inr (uid_of theft_block, bc')"
    "current_baseline bc' = b'"
    using accepted_add_chain_inv [OF sample_chain_inv [of True] val _ _ upd] by blast
  then show ?thesis
    using updateBaseline_balance [OF upd, of bob] updateBaseline_balance [OF upd, of alice] t val
    by (simp add: getBalance_eq sample_chain_baseline theft_block_def next_block_facts map_lookup0_def
        coins_of_def received_def sent_def)
qed

definition replay_block :: CollectionBlock where
  "replay_block = next_block (sample_env True) (Baseline (sample_root (sample_env True)))
     [(1, sample_payment True 400000), (2, sample_payment True 400000)] []"

text \<open>
  C27: validation does not compare the keys of the transaction map with the hashes of the sub
  blocks, so one signed payment, listed under two keys, is accepted and booked twice.
\<close>

theorem transaction_replayed_in_block:
  "map snd (transactions replay_block) = [sample_payment True 400000, sample_payment True 400000] \<and>
   validateBlock_collection (sample_env True) (sample_chain (sample_env True)) replay_block =
     Inr (True, sample_chain (sample_env True)) \<and>
   (\<exists>b'. updateBaseline (sample_env True) 2 replay_block (current_baseline (sample_chain (sample_env True))) = Inr b' \<and>
      map_lookup0 0 (wallets b') bob = 200000 \<and> map_lookup0 0 (wallets b') alice = 800000)"
proof -
  let ?E = "sample_env True" and ?bc = "sample_chain (sample_env True)" and ?t = "sample_payment True 400000"
  have t: "tx_accepted ?E (header (sample_root ?E)) ?t" "pre_owner ?t = bob" "post_owner ?t = alice"
    "fraction ?t = 400000"
    by (simp_all add: sample_payment_facts)
  have "wallet_diffs [] [?t, ?t] = [(alice, 800000), (bob, - 800000)]"
    by (simp add: wallet_diffs_def diff_transaction_def map_modify_def map_index_def t)
  then have "check_balances (wallet_diffs [] (map snd [(1, ?t), (2, ?t)])) [(bob, 1000000)] = (True, [(bob, 1000000)])"
    by (simp add: map_index_def)
  from sample_validate [OF _ _ this, of True] t(1)
  have val: "validateBlock_collection ?E ?bc replay_block = Inr (True, ?bc)"
    by (simp add: replay_block_def) (simp add: sample_chain_baseline)
  have "baseline_inv ?E (current_baseline ?bc)" using sample_chain_inv [of True] by (simp add: chain_inv_def)
  from updateBaseline_release [OF this, of 2 replay_block]
  obtain b' where upd: "updateBaseline ?E 2 replay_block (current_baseline ?bc) = Inr b'" by auto
  then show ?thesis
    using updateBaseline_balance [OF upd, of bob] updateBaseline_balance [OF upd, of alice] t val
    by (simp add: sample_chain_baseline replay_block_def next_block_facts map_lookup0_def coins_of_def
        received_def sent_def)
qed

text \<open>
  A rejected block can change the running baseline. Reading \<open>wallets[...]\<close> for the balance
  check inserts an empty wallet for a key without one, so two nodes of which only one saw the
  rejected block no longer agree on the number of wallets, and on the next baseline's content.
\<close>

lemma rejected_block_adds_wallet:
  "\<exists>bc'. validateBlock_collection (sample_env True) (sample_chain (sample_env True)) overdrawn_block = Inr (False, bc') \<and>
     getNumWallets (sample_chain (sample_env True)) = 1 \<and> getNumWallets bc' = 2 \<and>
     save_BaselineBlock True (current_baseline bc') \<noteq>
       save_BaselineBlock True (current_baseline (sample_chain (sample_env True)))"
proof -
  let ?bc = "sample_chain (sample_env True)"
  let ?b = "(current_baseline ?bc)\<lparr>wallets := [(alice, 0), (bob, 1000000)]\<rparr>"
  have ok: "baseline_ok (current_baseline ?bc)" "baseline_ok ?b"
    by (simp_all add: sample_chain_baseline baseline_ok_def fits_def key_ok_def alice_def bob_def
        less_public_key_t_def key_less_def getAsShortString_def)
  have "save_BaselineBlock True ?b \<noteq> save_BaselineBlock True (current_baseline ?bc)"
  proof
    assume "save_BaselineBlock True ?b = save_BaselineBlock True (current_baseline ?bc)"
    then have "?b = current_baseline ?bc"
      using BaselineBlock_codec.save_inj [OF ok(2,1), of True "[]" "[]"] by simp
    then have "wallets ?b = wallets (current_baseline ?bc)" by (rule arg_cong)
    then show False by (simp add: sample_chain_baseline)
  qed
  then show ?thesis
    using overdrawn_block_rejected by (simp add: getNumWallets_def sample_chain_baseline)
qed

definition no_epoch_baseline :: BaselineBlock where
  "no_epoch_baseline = empty_baseline
     \<lparr>mining_state := \<lparr>epoch = - 1, highest_hash_of_last_epoch = 0,
        highest_hash_of_current_epoch = 0, num_minings_in_epoch = 0\<rparr>,
      data_value_hashes := []\<rparr>"

text \<open>
  A baseline without any epoch and with \<open>2 ^ 64 - 1\<close> as its epoch passes the check (the
  number of epochs, zero, equals the epoch plus one), and the first block after it makes
  \<open>updateCurrentBaseline\<close> index \<open>data_value_hashes\<close> out of range, in builds with and without
  assertions.
\<close>

lemma no_epoch_baseline_validates:
  "\<exists>b. fillHash_baseline E no_epoch_baseline = Inr b \<and> validateBlockWithoutContext E b \<and>
     (\<forall>newest block. updateBaseline E newest block b = Inl OutOfRange)"
proof -
  have h0: "hash_of no_epoch_baseline = 0" by (simp add: no_epoch_baseline_def empty_baseline_def)
  obtain h where h: "fillHash_baseline E no_epoch_baseline = Inr (set_hash h no_epoch_baseline)"
    using baseline_hash.fill_total [OF h0] by blast
  moreover have "validateBlockWithoutContext E (set_hash h no_epoch_baseline)"
    using baseline_hash.verify_fill [OF h0 h]
    by (simp add: validateBlockWithoutContext_def no_epoch_baseline_def empty_baseline_def new_BaselineBlock_def
        data_value_hashes_sum_def wallets_sum_def wallet_keys_valid_def hash_areas_ok_def highest_current_ok_def
        highest_last_ok_def num_minings_ok_def)
  moreover have "updateBaseline E newest block (set_hash h no_epoch_baseline) = Inl OutOfRange" for newest block
    by (simp add: updateBaseline_def Let_def no_epoch_baseline_def)
  ultimately show ?thesis by blast
qed

end
