(* ===== verification/Entry_Point_Fetcher.thy ===== *)
theory Entry_Point_Fetcher
  imports Scn_Prelude
begin

text \<open>
  The list of entry points to the network
  (src/src/scn/P2PConnector/EntryPointFetcher.cpp): a built-in list, to whose front the lines of a
  downloaded file are added. The download (cpp-httplib) is an argument, its outcome; so is
  \<open>boost::split\<close>.
\<close>

section \<open>Definitions\<close>

type_synonym entry_point = "string \<times> u16"

definition entry_points_fallback :: "entry_point list" where
  "entry_points_fallback =
    [(''56bd5cf.online-server.cloud'', 13286), (''f11b639.online-server.cloud'', 13288),
     (''e2f7bf6.online-server.cloud'', 13290), (''df564a5.online-server.cloud'', 13292),
     (''v33200.1blu.de'', 13294), (''v36919.1blu.de'', 13296), (''v41253.1blu.de'', 13298), (''v26254.1blu.de'', 13300)]"

text \<open>
  \<open>std::stoi\<close>: blanks, a sign and decimal digits; the rest of the text is not looked at. \<open>None\<close> is
  either of its exceptions, no digits or a value that is no 32-bit \<open>int\<close>.
\<close>

definition is_space :: "char \<Rightarrow> bool" where
  "is_space c \<longleftrightarrow> of_char c \<in> {9 :: nat, 10, 11, 12, 13, 32}"

definition is_digit :: "char \<Rightarrow> bool" where
  "is_digit c \<longleftrightarrow> 48 \<le> (of_char c :: nat) \<and> (of_char c :: nat) \<le> 57"

definition digits_value :: "string \<Rightarrow> nat" where
  "digits_value s = foldl (\<lambda>n c. 10 * n + (of_char c - 48)) 0 s"

definition stoi_sign :: "string \<Rightarrow> int \<times> string" where
  "stoi_sign s = (case s of [] \<Rightarrow> (1, [])
     | c # r \<Rightarrow> if c = CHR ''-'' then (- 1, r) else if c = CHR ''+'' then (1, r) else (1, s))"

definition stoi :: "string \<Rightarrow> int option" where
  "stoi s =
     (let (sgn, r) = stoi_sign (dropWhile is_space s); ds = takeWhile is_digit r; v = sgn * int (digits_value ds)
      in if ds = [] then None else if - (2 ^ 31) \<le> v \<and> v < 2 ^ 31 then Some v else None)"

text \<open>The loop over the lines, and whether an exception left it.\<close>

fun add_lines :: "(char \<Rightarrow> string \<Rightarrow> string list) \<Rightarrow> string list \<Rightarrow> entry_point list \<Rightarrow> bool \<times> entry_point list" where
  "add_lines split [] entry_points = (True, entry_points)"
| "add_lines split (line # lines) entry_points =
     (case split CHR '':'' line of
        [host, port] \<Rightarrow>
          (case stoi port of None \<Rightarrow> (False, entry_points)
           | Some p \<Rightarrow> add_lines split lines ((host, word_of_int p) # entry_points))
      | _ \<Rightarrow> add_lines split lines entry_points)"

datatype http_result = Response string | No_Response | Exception

definition fetch :: "(char \<Rightarrow> string \<Rightarrow> string list) \<Rightarrow> http_result \<Rightarrow> entry_point list" where
  "fetch split res =
     (case res of
        Response body \<Rightarrow> snd (add_lines split (split CHR 0x0A body) entry_points_fallback)
      | _ \<Rightarrow> entry_points_fallback)"

section \<open>Numbers\<close>

lemma of_char_digit [simp]: "n < 10 \<Longrightarrow> of_char (char_of (48 + n :: nat) :: char) = 48 + n"
  by (simp add: of_char_of)

lemma digits_value_snoc: "digits_value (s @ [c]) = 10 * digits_value s + (of_char c - 48)"
  by (simp add: digits_value_def)

lemma dec_of_nat_facts: "digits_value (dec_of_nat n) = n" "list_all is_digit (dec_of_nat n)" "dec_of_nat n \<noteq> []"
proof (induction n rule: dec_of_nat.induct)
  case (1 n)
  {
    case 1
    show ?case using "1.IH"(1) by (cases "n < 10") (simp_all add: dec_of_nat.simps [of n] digits_value_snoc, simp_all add: digits_value_def)
  next
    case 2
    show ?case using "1.IH"(2) by (cases "n < 10") (simp_all add: dec_of_nat.simps [of n] is_digit_def)
  next
    case 3
    show ?case by (simp add: dec_of_nat.simps [of n])
  }
qed

lemma is_digit_other: "is_digit c \<Longrightarrow> \<not> is_space c \<and> c \<noteq> CHR ''-'' \<and> c \<noteq> CHR ''+'' \<and> c \<noteq> CHR '':'' \<and> c \<noteq> CHR 0x0A"
  by (auto simp: is_digit_def is_space_def)

lemma stoi_digits:
  assumes "list_all is_digit ds" "ds \<noteq> []" "digits_value ds < 2 ^ 31"
  shows "stoi ds = Some (int (digits_value ds))"
proof -
  obtain c r where ds: "ds = c # r" using assms(2) by (cases ds) auto
  then have "dropWhile is_space ds = ds" "stoi_sign ds = (1, ds)"
    using assms(1) is_digit_other [of c] by (simp_all add: stoi_sign_def)
  moreover have t: "takeWhile is_digit ds = ds" using assms(1) by (simp add: takeWhile_eq_all_conv list_all_iff)
  ultimately show ?thesis unfolding stoi_def using assms(2,3) by (simp only: Let_def t split_conv mult_1) simp
qed

lemma stoi_dec: "stoi (dec_of_nat (unat (p :: u16))) = Some (int (unat p))"
proof -
  have "unat p < 2 ^ 16" using unsigned_less [of p, where 'a = nat] by simp
  then show ?thesis using stoi_digits [OF dec_of_nat_facts(2,3), of "unat p"] by (simp add: dec_of_nat_facts(1))
qed

section \<open>Lines\<close>

fun join :: "char \<Rightarrow> string list \<Rightarrow> string" where
  "join c [] = []"
| "join c [p] = p"
| "join c (p # ps) = p @ c # join c ps"

text \<open>What \<open>boost::split\<close> with a single separator is documented to do.\<close>

definition split_ok :: "(char \<Rightarrow> string \<Rightarrow> string list) \<Rightarrow> bool" where
  "split_ok split \<longleftrightarrow> (\<forall>c ps. ps \<noteq> [] \<longrightarrow> (\<forall>p \<in> set ps. c \<notin> set p) \<longrightarrow> split c (join c ps) = ps)"

lemma split_ok_join: "split_ok split \<Longrightarrow> ps \<noteq> [] \<Longrightarrow> \<forall>p \<in> set ps. c \<notin> set p \<Longrightarrow> split c (join c ps) = ps"
  by (simp add: split_ok_def)

definition entry_line :: "entry_point \<Rightarrow> string" where
  "entry_line = (\<lambda>(host, port). host @ '':'' @ dec_of_nat (unat port))"

definition host_ok :: "string \<Rightarrow> bool" where
  "host_ok host \<longleftrightarrow> CHR '':'' \<notin> set host \<and> CHR 0x0A \<notin> set host"

lemma dec_no_separator: "c \<in> set (dec_of_nat n) \<Longrightarrow> is_digit c"
  using dec_of_nat_facts(2) [of n] by (simp add: list_all_iff)

lemma split_two: "split_ok split \<Longrightarrow> c \<notin> set a \<Longrightarrow> c \<notin> set b \<Longrightarrow> split c (a @ c # b) = [a, b]"
  using split_ok_join [of split "[a, b]" c] by simp

lemma dec_host_ok: "host_ok (dec_of_nat n)"
  using dec_no_separator is_digit_other by (auto simp: host_ok_def)

lemma split_entry_line:
  assumes "split_ok split" "host_ok host"
  shows "split CHR '':'' (entry_line (host, port)) = [host, dec_of_nat (unat port)]"
  using split_two [OF assms(1), of "CHR '':''" host "dec_of_nat (unat port)"] assms(2) dec_host_ok [of "unat port"]
  by (simp add: host_ok_def entry_line_def)

lemma add_entry_lines:
  assumes "split_ok split" "\<forall>(host, port) \<in> set es. host_ok host"
  shows "add_lines split (map entry_line es @ ls) acc = add_lines split ls (rev es @ acc)"
  using assms(2)
proof (induction es arbitrary: acc)
  case (Cons e es)
  obtain host port where e: "e = (host, port)" by (cases e)
  have "host_ok host" using Cons.prems by (simp add: e)
  then show ?case using Cons by (simp add: e split_entry_line [OF assms(1)] stoi_dec)
qed simp

lemma split_lines:
  assumes "split_ok split" "\<forall>(host, port) \<in> set es. host_ok host" "ls \<noteq> []" "\<forall>l \<in> set ls. CHR 0x0A \<notin> set l"
  shows "split CHR 0x0A (join CHR 0x0A (map entry_line es @ ls)) = map entry_line es @ ls"
proof (rule split_ok_join [OF assms(1)])
  have "CHR 0x0A \<notin> set (entry_line e)" if "e \<in> set es" for e
    using assms(2) that dec_host_ok by (cases e) (auto simp: entry_line_def host_ok_def)
  then show "\<forall>p \<in> set (map entry_line es @ ls). CHR 0x0A \<notin> set p" using assms(4) by auto
qed (simp add: assms(3))

lemma fetch_lines:
  assumes "split_ok split" "\<forall>(host, port) \<in> set es. host_ok host" "ls \<noteq> []" "\<forall>l \<in> set ls. CHR 0x0A \<notin> set l"
  shows "fetch split (Response (join CHR 0x0A (map entry_line es @ ls))) =
    snd (add_lines split ls (rev es @ entry_points_fallback))"
  by (simp add: fetch_def split_lines [OF assms] add_entry_lines [OF assms(1,2)])

section \<open>Properties\<close>

text \<open>
  A published list is used. From a file with one line per entry point the node gets exactly
  these entry points, the last first, before the built-in ones. If a line has a port that is no
  number, the lines before it are used all the same and those after it are lost.
\<close>

lemma published_entry_points_used:
  assumes "split_ok split" "\<forall>(host, port) \<in> set es. host_ok host"
  shows "fetch split (Response (join CHR 0x0A (map entry_line es @ [[]]))) = rev es @ entry_points_fallback \<and>
    (host_ok host \<and> host_ok port \<and> stoi port = None \<and> (\<forall>l \<in> set rest. CHR 0x0A \<notin> set l) \<longrightarrow>
     fetch split (Response (join CHR 0x0A (map entry_line es @ (host @ '':'' @ port) # rest))) =
       rev es @ entry_points_fallback)"
proof -
  have "split CHR '':'' [] = [[]]" using split_ok_join [OF assms(1), of "[[]]" "CHR '':''"] by simp
  then have "fetch split (Response (join CHR 0x0A (map entry_line es @ [[]]))) = rev es @ entry_points_fallback"
    using fetch_lines [OF assms, of "[[]]"] by simp
  moreover have "fetch split (Response (join CHR 0x0A (map entry_line es @ (host @ '':'' @ port) # rest))) =
      rev es @ entry_points_fallback"
    if b: "host_ok host" "host_ok port" "stoi port = None" "\<forall>l \<in> set rest. CHR 0x0A \<notin> set l"
  proof -
    have "split CHR '':'' (host @ '':'' @ port) = [host, port]"
      using split_two [OF assms(1), of "CHR '':''" host port] b(1,2) by (simp add: host_ok_def)
    then show ?thesis
      using fetch_lines [OF assms, of "(host @ '':'' @ port) # rest"] b by (simp add: host_ok_def)
  qed
  ultimately show ?thesis by blast
qed

text \<open>The law that is assumed of the splitter holds for the function that cuts at every separator.\<close>

fun split_at :: "char \<Rightarrow> string \<Rightarrow> string list" where
  "split_at c [] = [[]]"
| "split_at c (d # s) = (if c = d then [] # split_at c s
     else case split_at c s of [] \<Rightarrow> [[d]] | p # ps \<Rightarrow> (d # p) # ps)"

lemma split_at_piece: "c \<notin> set p \<Longrightarrow> split_at c p = [p] \<and> split_at c (p @ c # s) = p # split_at c s"
  by (induction p) auto

lemma split_at_ok: "split_ok split_at"
proof -
  have "split_at c (join c ps) = ps" if "ps \<noteq> []" "\<forall>p \<in> set ps. c \<notin> set p" for c ps
    using that by (induction c ps rule: join.induct) (auto simp: split_at_piece)
  then show ?thesis by (simp add: split_ok_def)
qed

end
