(* ===== verification/Block_Printing.thy ===== *)
theory Block_Printing
  imports Chain_Refinement Sample_Chain Entry_Point_Fetcher "HOL-Library.Sublist"
begin

text \<open>
  The text form of the blocks, the output operators of src/src/scn/Blockchain/BlockDefinitions.cpp, of
  a whole chain and of the running baseline (src/src/scn/Blockchain/Blockchain.cpp). An operator gives
  the text it appends to the stream.
\<close>

section \<open>Definitions\<close>

definition endl :: string where "endl = [CHR 0x0A]"

definition print_u64 :: "u64 \<Rightarrow> string" where "print_u64 n = dec_of_nat (unat n)"

text \<open>The lines on the generic header, which four of the operators share.\<close>

definition print_generic :: "GenericHeader \<Rightarrow> string" where
  "print_generic g =
     ''   hash: '' @ hash_toString (block_hash g) @ endl @
     ''   previous_block_hash: '' @ hash_toString (previous_block_hash g) @ endl @
     ''   type: '' @ dec_of_nat (unat (ucast (block_type g) :: u32)) @ endl"

definition print_BaseBlock :: "'a BaseBlock_scheme \<Rightarrow> string" where
  "print_BaseBlock b =
     ''Block '' @ print_u64 (block_uid (header b)) @ endl @ print_generic (generic_header (header b))"

definition print_wallet :: "public_key_t \<times> u64 \<Rightarrow> string" where
  "print_wallet = (\<lambda>(key, balance). ''      '' @ getAsShortString key @ '': '' @ print_u64 balance @ endl)"

definition print_data_value_hash :: "hash_t \<Rightarrow> string" where
  "print_data_value_hash h = ''     '' @ hash_toString h @ endl"

text \<open>One pass of the loop over the epochs; its counter has 32 bits.\<close>

definition print_epoch :: "u32 \<times> hash_t list \<Rightarrow> string" where
  "print_epoch = (\<lambda>(epoch, hashes). ''    epoch '' @ dec_of_nat (unat epoch) @ '': '' @ dec_of_nat (length hashes) @ endl @
     concat (map print_data_value_hash hashes))"

definition numbered :: "'a list \<Rightarrow> (u32 \<times> 'a) list" where
  "numbered xs = zip (map of_nat [0..<length xs]) xs"

definition print_BaselineBlock :: "BaselineBlock \<Rightarrow> string" where
  "print_BaselineBlock b =
     print_BaseBlock b @
     ''   wallets: '' @ dec_of_nat (length (wallets b)) @ endl @
     concat (map print_wallet (wallets b)) @
     ''   data_value_hashes'' @ endl @
     concat (map print_epoch (numbered (data_value_hashes b)))"

definition print_TransactionSubBlock :: "TransactionSubBlock \<Rightarrow> string" where
  "print_TransactionSubBlock t =
     ''TransactionSubBlock '' @ endl @ print_generic (sub_generic_header (tx_header t)) @
     ''   fraction: '' @ print_u64 (fraction t) @ endl @
     ''   preowner: '' @ getAsShortString (pre_owner t) @ endl @
     ''   postowner: '' @ getAsShortString (post_owner t) @ endl"

definition print_CreationSubBlock :: "CreationSubBlock \<Rightarrow> string" where
  "print_CreationSubBlock c =
     ''CreationSubBlock '' @ endl @ print_generic (sub_generic_header (cr_header c)) @
     ''   data value: '' @ data_value c @ endl @
     ''   creator: '' @ getAsShortString (creator c) @ endl"

definition print_CollectionBlock :: "CollectionBlock \<Rightarrow> string" where
  "print_CollectionBlock b =
     print_BaseBlock b @
     ''   transactions'' @ endl @ concat (map (\<lambda>(_, t). print_TransactionSubBlock t @ endl) (transactions b)) @
     ''   creations'' @ endl @ concat (map (\<lambda>(_, c). print_CreationSubBlock c @ endl) (creations b))"

text \<open>
  The loop over the ids of a chain. Nothing stops it at the largest id, so that it may not end; a block
  that is missing is dereferenced, and the pointer is cast by the type in the header.
\<close>

definition print_block :: "block \<Rightarrow> string res" where
  "print_block b =
     (if block_type (generic_header (base_header b)) = CollectionBlock_type then
        (case b of Collection c \<Rightarrow> Inr (print_CollectionBlock c @ endl) | Baseline _ \<Rightarrow> Inl BadCast)
      else (case b of Baseline c \<Rightarrow> Inr (print_BaselineBlock c @ endl) | Collection _ \<Rightarrow> Inl BadCast))"

partial_function (option) print_from :: "'ctx env \<Rightarrow> Blockchain \<Rightarrow> block_uid_t \<Rightarrow> string \<Rightarrow> string res option" where
  "print_from E bc uid os =
     (if uid \<le> getNewestBlockId E bc then
        (case getBlock E bc uid of
           Inl e \<Rightarrow> Some (Inl e)
         | Inr None \<Rightarrow> Some (Inl NullDeref)
         | Inr (Some b) \<Rightarrow>
             (case print_block b of Inl e \<Rightarrow> Some (Inl e) | Inr text \<Rightarrow> print_from E bc (uid + 1) (os @ text)))
      else Some (Inr os))"

definition print_Blockchain :: "'ctx env \<Rightarrow> Blockchain \<Rightarrow> string res option" where
  "print_Blockchain E bc = print_from E bc (getRootBlockId E bc) []"

definition writeCurrentBaselineToFile :: "string \<Rightarrow> Blockchain \<Rightarrow> (string \<rightharpoonup> string) \<Rightarrow> (string \<rightharpoonup> string)" where
  "writeCurrentBaselineToFile filename bc files = files(filename \<mapsto> print_BaselineBlock (current_baseline bc))"

section \<open>Lines\<close>

lemma append_sep: "c \<notin> set a \<Longrightarrow> c \<notin> set b \<Longrightarrow> a @ c # r = b @ c # s \<longleftrightarrow> a = b \<and> r = s"
proof (induction a arbitrary: b)
  case Nil
  then show ?case by (cases b) auto
next
  case (Cons x a)
  then show ?case by (cases b) auto
qed

lemma dec_of_nat_inj: "dec_of_nat m = dec_of_nat n \<longleftrightarrow> m = n"
  using dec_of_nat_facts(1) by metis

lemma dec_no_sep: "CHR 0x0A \<notin> set (dec_of_nat n)" "CHR '':'' \<notin> set (dec_of_nat n)"
  using dec_host_ok [of n] by (simp_all add: host_ok_def)

lemma hex_digit_line: "hex_digit d \<noteq> CHR 0x0A"
proof -
  have "\<forall>d \<in> set [0..<16]. ''0123456789ABCDEF'' ! d \<noteq> CHR 0x0A" by (simp add: upt_rec)
  then show ?thesis by (auto simp: hex_digit_def)
qed

lemma hex_no_sep: "CHR 0x0A \<notin> set (hex_of_nat n)"
proof (induction n rule: hex_of_nat.induct)
  case (1 n)
  then show ?case using hex_digit_line by (subst hex_of_nat.simps) (auto dest: sym)
qed

lemma hash_no_sep: "CHR 0x0A \<notin> set (hash_toString h)"
  by (simp add: hash_toString_def hex_no_sep)

named_theorems line_simps \<open>texts that end with a separator\<close>

lemma dec_line [line_simps]:
  "dec_of_nat m @ CHR 0x0A # r = dec_of_nat n @ CHR 0x0A # s \<longleftrightarrow> m = n \<and> r = s"
  "dec_of_nat m @ CHR '':'' # r = dec_of_nat n @ CHR '':'' # s \<longleftrightarrow> m = n \<and> r = s"
  by (simp_all add: append_sep dec_no_sep dec_of_nat_inj)

lemma u64_line [line_simps]: "print_u64 m @ CHR 0x0A # r = print_u64 n @ CHR 0x0A # s \<longleftrightarrow> m = n \<and> r = s"
  by (simp add: print_u64_def dec_line word_unat_eq_iff)

lemma hash_line [line_simps]: "hash_toString g @ CHR 0x0A # r = hash_toString h @ CHR 0x0A # s \<longleftrightarrow> g = h \<and> r = s"
  using hash_toString_inj by (auto simp: append_sep hash_no_sep)

lemma generic_line [line_simps]: "print_generic g @ r = print_generic h @ s \<longleftrightarrow> g = h \<and> r = s"
proof -
  have "unat (ucast (x :: u8) :: u32) = unat x" for x
    using unsigned_less [of x, where 'a = nat] by (simp add: unsigned_ucast_eq take_bit_nat_eq_self)
  then show ?thesis by (auto simp: print_generic_def endl_def line_simps word_unat_eq_iff [symmetric]
        intro: GenericHeader.equality)
qed

lemma base_line [line_simps]: "print_BaseBlock a @ r = print_BaseBlock b @ s \<longleftrightarrow> header a = header b \<and> r = s"
  by (auto simp: print_BaseBlock_def endl_def line_simps intro: BlockHeader.equality)

section \<open>Texts that tell where they end\<close>

text \<open>
  A printer whose texts determine what \<open>view\<close> shows of the printed value and where they end, and one
  whose texts also begin with a tag, so that a list of them ends where no tag follows.
\<close>

locale printer =
  fixes pr :: "'a \<Rightarrow> string" and ok :: "'a \<Rightarrow> bool" and view :: "'a \<Rightarrow> 'b"
  assumes delimited: "ok a \<Longrightarrow> ok b \<Longrightarrow> pr a @ r = pr b @ s \<Longrightarrow> view a = view b \<and> r = s"
begin

lemma same_text: "ok a \<Longrightarrow> ok b \<Longrightarrow> pr a = pr b \<Longrightarrow> view a = view b"
  using delimited [of a b "[]" "[]"] by simp

lemma list_of_length:
  "length xs = length ys \<Longrightarrow> list_all ok xs \<Longrightarrow> list_all ok ys \<Longrightarrow>
   concat (map pr xs) @ r = concat (map pr ys) @ s \<Longrightarrow> map view xs = map view ys \<and> r = s"
proof (induction xs ys rule: list_induct2)
  case (Cons x xs y ys)
  have "view x = view y \<and> concat (map pr xs) @ r = concat (map pr ys) @ s"
    using Cons.prems by (intro delimited) simp_all
  with Cons show ?case by simp
qed simp

end

locale tagged_printer = printer pr ok view
  for pr :: "'a \<Rightarrow> string" and ok :: "'a \<Rightarrow> bool" and view :: "'a \<Rightarrow> 'b" +
  fixes tag :: string
  assumes tagged: "ok a \<Longrightarrow> prefix tag (pr a)"
begin

lemma list_delimited:
  "list_all ok xs \<Longrightarrow> list_all ok ys \<Longrightarrow> \<not> prefix tag r \<Longrightarrow> \<not> prefix tag s \<Longrightarrow>
   concat (map pr xs) @ r = concat (map pr ys) @ s \<Longrightarrow> map view xs = map view ys \<and> r = s"
proof (induction xs arbitrary: ys)
  case Nil
  have "ys = []"
  proof (cases ys)
    case (Cons y ys')
    then have "prefix tag r" using Nil tagged [of y] by (auto simp: prefix_def)
    with Nil(3) show ?thesis by simp
  qed simp
  with Nil show ?case by simp
next
  case (Cons x xs)
  show ?case
  proof (cases ys)
    case Nil
    then have "prefix tag s" using Cons.prems(1,5) tagged [of x] by (auto simp: prefix_def)
    with Cons.prems(4) show ?thesis by simp
  next
    case ys: (Cons y ys')
    have "view x = view y \<and> concat (map pr xs) @ r = concat (map pr ys') @ s"
      using Cons.prems by (intro delimited) (simp_all add: ys)
    with Cons.IH [of ys'] Cons.prems show ?thesis by (simp add: ys)
  qed
qed

end

text \<open>What is printed of the parts; nothing is printed of the signatures and of the maps' keys.\<close>

definition no_line :: "string \<Rightarrow> bool" where "no_line s \<longleftrightarrow> CHR 0x0A \<notin> set s"

definition tx_view :: "hash_t \<times> TransactionSubBlock \<Rightarrow> SubBlockHeader \<times> u64 \<times> public_key_t \<times> public_key_t" where
  "tx_view = (\<lambda>(_, t). (tx_header t, fraction t, pre_owner t, post_owner t))"

definition cr_view :: "hash_t \<times> CreationSubBlock \<Rightarrow> SubBlockHeader \<times> string \<times> public_key_t" where
  "cr_view = (\<lambda>(_, c). (cr_header c, data_value c, creator c))"

definition tx_printable :: "hash_t \<times> TransactionSubBlock \<Rightarrow> bool" where
  "tx_printable = (\<lambda>(_, t). no_line (short_string (pre_owner t)) \<and> no_line (short_string (post_owner t)))"

definition cr_printable :: "hash_t \<times> CreationSubBlock \<Rightarrow> bool" where
  "cr_printable = (\<lambda>(_, c). no_line (data_value c) \<and> no_line (short_string (creator c)))"

definition wallet_printable :: "public_key_t \<times> u64 \<Rightarrow> bool" where
  "wallet_printable = (\<lambda>(key, _). CHR '':'' \<notin> set (short_string key))"

lemma text_line: "no_line a \<Longrightarrow> no_line b \<Longrightarrow> a @ CHR 0x0A # r = b @ CHR 0x0A # s \<longleftrightarrow> a = b \<and> r = s"
  by (simp add: append_sep no_line_def)

interpretation tx_printer: tagged_printer "\<lambda>(_, t). print_TransactionSubBlock t @ endl" tx_printable tx_view "''TransactionSubBlock ''"
proof
  fix a b :: "hash_t \<times> TransactionSubBlock" and r s
  show "tx_printable a \<Longrightarrow> tx_printable b \<Longrightarrow>
    (case a of (_, t) \<Rightarrow> print_TransactionSubBlock t @ endl) @ r = (case b of (_, t) \<Rightarrow> print_TransactionSubBlock t @ endl) @ s \<Longrightarrow>
    tx_view a = tx_view b \<and> r = s"
    by (auto simp: tx_printable_def tx_view_def print_TransactionSubBlock_def endl_def getAsShortString_def line_simps
        text_line intro!: SubBlockHeader.equality public_key_t.expand split: prod.splits)
qed (simp add: print_TransactionSubBlock_def split: prod.split)

interpretation cr_printer: tagged_printer "\<lambda>(_, c). print_CreationSubBlock c @ endl" cr_printable cr_view "''CreationSubBlock ''"
proof
  fix a b :: "hash_t \<times> CreationSubBlock" and r s
  show "cr_printable a \<Longrightarrow> cr_printable b \<Longrightarrow>
    (case a of (_, c) \<Rightarrow> print_CreationSubBlock c @ endl) @ r = (case b of (_, c) \<Rightarrow> print_CreationSubBlock c @ endl) @ s \<Longrightarrow>
    cr_view a = cr_view b \<and> r = s"
    by (auto simp: cr_printable_def cr_view_def print_CreationSubBlock_def endl_def getAsShortString_def line_simps
        text_line intro!: SubBlockHeader.equality public_key_t.expand split: prod.splits)
qed (simp add: print_CreationSubBlock_def split: prod.split)

interpretation wallet_printer: printer print_wallet wallet_printable "\<lambda>w. w"
proof
  fix a b :: "public_key_t \<times> u64" and r s
  show "wallet_printable a \<Longrightarrow> wallet_printable b \<Longrightarrow> print_wallet a @ r = print_wallet b @ s \<Longrightarrow> a = b \<and> r = s"
    by (auto simp: wallet_printable_def print_wallet_def endl_def getAsShortString_def append_sep line_simps
        intro: public_key_t.expand split: prod.splits)
qed

interpretation hash_printer: printer print_data_value_hash "\<lambda>_. True" "\<lambda>h. h"
  by unfold_locales (auto simp: print_data_value_hash_def endl_def line_simps)

interpretation epoch_printer: tagged_printer print_epoch "\<lambda>_. True" "\<lambda>e. e" "''    epoch ''"
proof
  fix a b :: "u32 \<times> hash_t list" and r s
  obtain i xs j ys where ab: "a = (i, xs)" "b = (j, ys)" by (cases a, cases b)
  show "print_epoch a @ r = print_epoch b @ s \<Longrightarrow> a = b \<and> r = s"
    using hash_printer.list_of_length [of xs ys r s]
    by (auto simp: ab print_epoch_def endl_def line_simps word_unat_eq_iff [symmetric] list_all_iff)
qed (simp add: print_epoch_def split: prod.split)

lemma numbered_inj: "numbered xs = numbered ys \<Longrightarrow> xs = ys"
proof -
  have "map snd (numbered zs) = zs" for zs :: "'a list" by (simp add: numbered_def)
  then show "numbered xs = numbered ys \<Longrightarrow> xs = ys" by metis
qed

section \<open>Properties\<close>

text \<open>
  C40: the printed text tells blocks apart in what it shows. Two collection blocks with the same text have
  the same header and, in the same order, transactions and coins with the same header, amount, data value
  and keys; signatures and map keys are not printed. Two baselines with the same text have the same
  header, wallets and hashes of every epoch; their mining state is not printed, and may differ. The keys
  and data values of sub blocks must have no line break, the keys of wallets no colon.
\<close>

theorem printed_blocks_identified:
  assumes "list_all tx_printable (transactions c\<^sub>1 @ transactions c\<^sub>2)" "list_all cr_printable (creations c\<^sub>1 @ creations c\<^sub>2)"
    and "list_all wallet_printable (wallets b\<^sub>1 @ wallets b\<^sub>2)"
  shows "(print_CollectionBlock c\<^sub>1 = print_CollectionBlock c\<^sub>2 \<longrightarrow> header c\<^sub>1 = header c\<^sub>2 \<and>
      map tx_view (transactions c\<^sub>1) = map tx_view (transactions c\<^sub>2) \<and> map cr_view (creations c\<^sub>1) = map cr_view (creations c\<^sub>2)) \<and>
    (print_BaselineBlock b\<^sub>1 = print_BaselineBlock b\<^sub>2 \<longrightarrow>
      header b\<^sub>1 = header b\<^sub>2 \<and> wallets b\<^sub>1 = wallets b\<^sub>2 \<and> data_value_hashes b\<^sub>1 = data_value_hashes b\<^sub>2)"
proof (intro conjI impI)
  let ?t = "\<lambda>c. concat (map (\<lambda>(_, t). print_TransactionSubBlock t @ endl) (transactions c))"
  let ?c = "\<lambda>c. concat (map (\<lambda>(_, c). print_CreationSubBlock c @ endl) (creations c))"
  assume "print_CollectionBlock c\<^sub>1 = print_CollectionBlock c\<^sub>2"
  then have h: "header c\<^sub>1 = header c\<^sub>2" and "?t c\<^sub>1 @ ''   creations'' @ endl @ ?c c\<^sub>1 = ?t c\<^sub>2 @ ''   creations'' @ endl @ ?c c\<^sub>2"
    by (simp_all add: print_CollectionBlock_def line_simps)
  from tx_printer.list_delimited [OF _ _ _ _ this(2)] assms(1)
  have t: "map tx_view (transactions c\<^sub>1) = map tx_view (transactions c\<^sub>2)" and "?c c\<^sub>1 @ [] = ?c c\<^sub>2 @ []" by simp_all
  from cr_printer.list_delimited [OF _ _ _ _ this(2)] assms(2)
  have "map cr_view (creations c\<^sub>1) = map cr_view (creations c\<^sub>2)" by simp
  with h t show "header c\<^sub>1 = header c\<^sub>2" "map tx_view (transactions c\<^sub>1) = map tx_view (transactions c\<^sub>2)"
    "map cr_view (creations c\<^sub>1) = map cr_view (creations c\<^sub>2)" by simp_all
next
  let ?e = "\<lambda>b. concat (map print_epoch (numbered (data_value_hashes b)))"
  assume "print_BaselineBlock b\<^sub>1 = print_BaselineBlock b\<^sub>2"
  then have h: "header b\<^sub>1 = header b\<^sub>2" "length (wallets b\<^sub>1) = length (wallets b\<^sub>2)"
    and "concat (map print_wallet (wallets b\<^sub>1)) @ ''   data_value_hashes'' @ endl @ ?e b\<^sub>1 =
      concat (map print_wallet (wallets b\<^sub>2)) @ ''   data_value_hashes'' @ endl @ ?e b\<^sub>2"
    by (simp_all add: print_BaselineBlock_def endl_def line_simps)
  from wallet_printer.list_of_length [OF h(2) _ _ this(3)] assms(3)
  have w: "wallets b\<^sub>1 = wallets b\<^sub>2" and "?e b\<^sub>1 @ [] = ?e b\<^sub>2 @ []" by simp_all
  from epoch_printer.list_delimited [OF _ _ _ _ this(2)]
  have "numbered (data_value_hashes b\<^sub>1) = numbered (data_value_hashes b\<^sub>2)" by (simp add: list_all_iff)
  with h(1) w show "header b\<^sub>1 = header b\<^sub>2" "wallets b\<^sub>1 = wallets b\<^sub>2" "data_value_hashes b\<^sub>1 = data_value_hashes b\<^sub>2"
    by (simp_all add: numbered_inj)
qed

theorem printed_blocks_identified_witness:
  "print_CollectionBlock (new_CollectionBlock\<lparr>transactions := [(1, new_TransactionSubBlock\<lparr>fraction := 1, pre_owner := bob\<rparr>)]\<rparr>) \<noteq>
   print_CollectionBlock (new_CollectionBlock\<lparr>transactions := [(1, new_TransactionSubBlock\<lparr>fraction := 2, pre_owner := bob\<rparr>)]\<rparr>)"
  using printed_blocks_identified [of
      "new_CollectionBlock\<lparr>transactions := [(1, new_TransactionSubBlock\<lparr>fraction := 1, pre_owner := bob\<rparr>)]\<rparr>"
      "new_CollectionBlock\<lparr>transactions := [(1, new_TransactionSubBlock\<lparr>fraction := 2, pre_owner := bob\<rparr>)]\<rparr>"
      new_BaselineBlock new_BaselineBlock]
  by (auto simp: new_CollectionBlock_def new_BaselineBlock_def new_TransactionSubBlock_def tx_printable_def no_line_def
      tx_view_def bob_def default_key_def)

subsection \<open>A whole chain\<close>

fun block_text :: "block \<Rightarrow> string" where
  "block_text (Baseline b) = print_BaselineBlock b @ endl"
| "block_text (Collection c) = print_CollectionBlock c @ endl"

lemma print_block_ok: "block_ok b \<Longrightarrow> print_block b = Inr (block_text b)"
  by (cases b) (simp_all add: print_block_def)

lemma print_from_rep:
  assumes "chain_rep E bc bs" "list_all block_ok bs" "i \<le> length bs"
  shows "print_from E bc (root_block_id (current_meta_data bc) + of_nat i) os =
    Some (Inr (os @ concat (map block_text (drop i bs))))"
  using assms(3)
proof (induction "length bs - i" arbitrary: i os)
  case 0
  let ?m = "current_meta_data bc"
  have i: "i = length bs" using 0 by simp
  have "unat (root_block_id ?m + of_nat i) = unat (root_block_id ?m) + i" "unat (newest_block_id ?m) < unat (root_block_id ?m) + i"
    using assms(1) by (auto simp: chain_rep_def i unat_add_small)
  then have "\<not> root_block_id ?m + of_nat i \<le> getNewestBlockId E bc"
    by (simp add: getNewestBlockId_def getMetaData_rep [OF assms(1)] word_le_nat_alt)
  then show ?case by (subst print_from.simps) (simp add: i)
next
  case (Suc j)
  let ?m = "current_meta_data bc"
  have i: "i < length bs" "j = length bs - Suc i" using Suc by simp_all
  then have b: "getBlock E bc (root_block_id ?m + of_nat i) = Inr (Some (bs ! i))" "print_block (bs ! i) = Inr (block_text (bs ! i))"
    using assms(1,2) by (simp_all add: chain_rep_def list_all_length print_block_ok)
  have "unat (root_block_id ?m + of_nat i) = unat (root_block_id ?m) + i" "unat (root_block_id ?m) + i \<le> unat (newest_block_id ?m)"
    using assms(1) i(1) by (auto simp: chain_rep_def unat_add_small)
  then have "root_block_id ?m + of_nat i \<le> getNewestBlockId E bc"
    by (simp add: getNewestBlockId_def getMetaData_rep [OF assms(1)] word_le_nat_alt)
  then have "print_from E bc (root_block_id ?m + of_nat i) os =
      print_from E bc (root_block_id ?m + of_nat (Suc i)) (os @ block_text (bs ! i))"
    by (subst print_from.simps) (simp add: b add.assoc add.commute [of "of_nat i"])
  also have "\<dots> = Some (Inr ((os @ block_text (bs ! i)) @ concat (map block_text (drop (Suc i) bs))))"
    using i by (intro Suc.hyps(1)) simp_all
  finally show ?case using i(1) by (simp add: Cons_nth_drop_Suc [symmetric])
qed

text \<open>
  Printing a chain ends and gives the texts of exactly its blocks, each with an empty line after
  it, from the root to the newest; printing a chain that holds no block dereferences a null pointer.
\<close>

lemma chain_printed:
  assumes "chain_rep E bc bs" "list_all block_ok bs"
  shows "print_Blockchain E bc = Some (Inr (concat (map block_text bs))) \<and>
    print_Blockchain E blank_chain = Some (Inl NullDeref)"
proof
  show "print_Blockchain E bc = Some (Inr (concat (map block_text bs)))"
    using print_from_rep [OF assms, of 0 "[]"]
    by (simp add: print_Blockchain_def getRootBlockId_def getMetaData_rep [OF assms(1)])
  show "print_Blockchain E blank_chain = Some (Inl NullDeref)"
    unfolding print_Blockchain_def
    by (subst print_from.simps) (simp add: getRootBlockId_def getNewestBlockId_def getMetaData_def read_meta_def no_meta_def blank_chain_def getBlock_def
        cache_getBlock_def Cache_new_def getBlockFromDisk_def)
qed

end
