(* ===== verification/P2P_Definitions.thy ===== *)
theory P2P_Definitions
  imports Block_Definitions Bloom_Filter
begin

text \<open>
  The message types and the list of active peers of src/src/scn/P2PConnector/P2PDefinitions.h, and
  the calls that the other components make on \<open>IP2PConnector\<close> (src/src/scn/P2PConnector/IP2PConnector.h).
\<close>

datatype MessageType =
  PropagateBaselineBlock | PropagateCollectionBlock | AskForBlock | AskForLastBaselineBlock
  | PropagateActivePeersList

fun message_code :: "MessageType \<Rightarrow> u8" where
  "message_code PropagateBaselineBlock = 1"
| "message_code PropagateCollectionBlock = 2"
| "message_code AskForBlock = 5"
| "message_code AskForLastBaselineBlock = 6"
| "message_code PropagateActivePeersList = 7"

lemma message_code_inj [simp]: "message_code a = message_code b \<longleftrightarrow> a = b"
  by (cases a; cases b) simp_all

type_synonym ActivePeersList = "byte list"

definition bloom_bytes :: nat where "bloom_bytes = 8192"

definition new_ActivePeersList :: ActivePeersList where
  "new_ActivePeersList = bloom_clear bloom_bytes"

definition save_ActivePeersList :: "ActivePeersList writer" where
  "save_ActivePeersList le l = save_array le l"

definition load_ActivePeersList :: "ActivePeersList loader" where
  "load_ActivePeersList le conv bs = load_array bloom_bytes le conv bs"

interpretation peers_codec: codec save_ActivePeersList load_ActivePeersList "\<lambda>l. length l = bloom_bytes"
  by unfold_locales (metis save_ActivePeersList_def load_ActivePeersList_def load_array_save)

lemma length_new_ActivePeersList [simp]: "length new_ActivePeersList = bloom_bytes"
  by (simp add: new_ActivePeersList_def bloom_clear_def)

text \<open>The calls on the interface that send something, as the callers log them.\<close>

datatype p2p_call =
  askForBlock_call block_uid_t
  | askForLastBaselineBlock_call
  | propagateBaseline_call BaselineBlock
  | propagateCollection_call CollectionBlock
  | propagateActivePeersList_call ActivePeersList

end
