(* ===== verification/Peer_Plugin.thy ===== *)
theory Peer_Plugin
  imports Scn_Prelude "HOL-Library.Sublist" "HOL-Library.Multiset"
begin

text \<open>
  One connected peer: the struct \<open>FcoinPeerPlugin\<close> that the program adds to its copy of libtorrent
  (src/dep/libtorrent-rasterbar-1.2.2_extended/src/LibTorrentFcoinPlugin.cpp). Messages of
  libtorrent's own thread go to the connection's send buffer at once; those of other threads wait in
  \<open>buffered_msgs_\<close> for the next \<open>tick\<close>. The connection object of libtorrent is represented by the
  bytes given to \<open>send_buffer\<close> and by the calls that ban and disconnect it.
\<close>

section \<open>Definitions\<close>

record Peer =
  peer_pid :: peer_id_t
  m_send_buffer :: "byte list"
  buffered_msgs :: "byte list list"
  peer_banned :: bool
  peer_disconnected :: bool

definition FcoinPeerPlugin_new :: "peer_id_t \<Rightarrow> Peer" where
  "FcoinPeerPlugin_new pid =
     \<lparr>peer_pid = pid, m_send_buffer = [], buffered_msgs = [], peer_banned = False, peer_disconnected = False\<rparr>"

definition write_uint32 :: "u32 \<Rightarrow> byte list" where "write_uint32 v = rev (bytes_le 4 v)"

definition msg_extended :: byte where "msg_extended = 20"
definition fcoin_extension_id :: byte where "fcoin_extension_id = 117"

definition message_header :: "byte list \<Rightarrow> byte list" where
  "message_header message =
     (let total_size = of_nat (2 + length message) :: u32
      in write_uint32 total_size @ [msg_extended, fcoin_extension_id])"

definition sendMessageWithinSingleThread :: "byte list \<Rightarrow> Peer \<Rightarrow> Peer" where
  "sendMessageWithinSingleThread message p =
     (let p = p\<lparr>m_send_buffer := m_send_buffer p @ message_header message\<rparr>
      in p\<lparr>m_send_buffer := m_send_buffer p @ message\<rparr>)"

definition sendMessage :: "bool \<Rightarrow> byte list \<Rightarrow> Peer \<Rightarrow> Peer" where
  "sendMessage libtorrent_thread message p =
     (if libtorrent_thread then sendMessageWithinSingleThread message p
      else p\<lparr>buffered_msgs := buffered_msgs p @ [message]\<rparr>)"

fun flush_buffered :: "byte list list \<Rightarrow> Peer \<Rightarrow> Peer" where
  "flush_buffered [] p = p"
| "flush_buffered (m # ms) p = flush_buffered ms ((sendMessageWithinSingleThread m p)\<lparr>buffered_msgs := ms\<rparr>)"

definition tick :: "Peer \<Rightarrow> Peer" where
  "tick p = flush_buffered (buffered_msgs p) p"

definition sendBufferEmpty :: "Peer \<Rightarrow> bool" where
  "sendBufferEmpty p \<longleftrightarrow> m_send_buffer p = [] \<and> buffered_msgs p = []"

definition kick :: "Peer \<Rightarrow> Peer" where "kick p = p\<lparr>peer_disconnected := True\<rparr>"

definition ban :: "Peer \<Rightarrow> Peer" where "ban p = p\<lparr>peer_banned := True, peer_disconnected := True\<rparr>"

definition getId :: "Peer \<Rightarrow> peer_id_t" where "getId p = peer_pid p"

definition isConnected :: "Peer \<Rightarrow> bool" where
  "isConnected p \<longleftrightarrow> length (getId p) > 0 \<and> getId p ! 0 \<noteq> CHR 0x00"

text \<open>
  The message that reaches \<open>receivedMessage\<close>, if any: libtorrent calls \<open>on_extended\<close> with the
  packet's length, its extension id and what has arrived of its body so far.
\<close>

definition on_extended :: "bool \<Rightarrow> nat \<Rightarrow> byte \<Rightarrow> byte list \<Rightarrow> byte list option" where
  "on_extended connector_set len extended_msg body =
     (if extended_msg = fcoin_extension_id \<and> connector_set \<and> \<not> length body < len then Some body else None)"

section \<open>The byte stream\<close>

text \<open>
  The connection that receives the stream (\<open>on_receive_impl\<close> of src/bt_peer_connection.cpp) reads four
  bytes as a signed length. A negative one ends the connection, zero is a keepalive, and otherwise the
  packet begins with the next byte.
\<close>

datatype packet_start = Need_more | Packet_too_large | Keepalive | Packet_of nat

definition read_packet_size :: "byte list \<Rightarrow> packet_start" where
  "read_packet_size recv_buffer =
     (if length recv_buffer < 4 then Need_more
      else
        (let packet_size = sint (word_le (rev (take 4 recv_buffer)) :: u32)
         in if packet_size < 0 then Packet_too_large
            else if packet_size = 0 then Keepalive
            else if length recv_buffer < 5 then Need_more
            else Packet_of (nat packet_size)))"

text \<open>
  The messages of a stream that the plugin passes on. \<open>None\<close> if the stream ends the connection, is cut in
  a packet, or holds another packet than extension messages of the plugin.
\<close>

function deframe :: "byte list \<Rightarrow> byte list list option" where
  "deframe bs =
     (if bs = [] then Some []
      else
        (case read_packet_size bs of
           Need_more \<Rightarrow> None
         | Packet_too_large \<Rightarrow> None
         | Keepalive \<Rightarrow> deframe (drop 4 bs)
         | Packet_of n \<Rightarrow>
             (let packet = take n (drop 4 bs)
              in if n < 2 \<or> length packet < n \<or> packet ! 0 \<noteq> msg_extended then None
                 else
                   (case on_extended True (n - 2) (packet ! 1) (drop 2 packet) of
                      None \<Rightarrow> None
                    | Some m \<Rightarrow> map_option ((#) m) (deframe (drop (4 + n) bs))))))"
  by pat_completeness auto
termination by (relation "measure length") auto

declare deframe.simps [simp del]

definition frame :: "byte list \<Rightarrow> byte list" where
  "frame m = message_header m @ m"

lemma deframe_Nil [simp]: "deframe [] = Some []"
  by (subst deframe.simps) simp

text \<open>The length of a frame is read as it was written, as long as it is below \<open>2 ^ 31\<close>.\<close>

lemma sint_of_nat_u32: "n < 2 ^ 31 \<Longrightarrow> sint (of_nat n :: u32) = int n"
  by (simp add: signed_of_nat signed_take_bit_int_eq_self)

lemma length_write_uint32 [simp]: "length (write_uint32 w) = 4"
  by (simp add: write_uint32_def)

lemma read_packet_size_frame:
  assumes "0 < length packet" "length packet < 2 ^ 31"
  shows "read_packet_size (write_uint32 (of_nat (length packet)) @ packet @ rest) = Packet_of (length packet)"
    "drop 4 (write_uint32 (of_nat (length packet)) @ packet @ rest) = packet @ rest"
proof -
  let ?bs = "write_uint32 (of_nat (length packet)) @ packet @ rest"
  have "word_le (rev (take 4 ?bs)) = (of_nat (length packet) :: u32)"
    by (simp add: write_uint32_def word_le_bytes_le_full)
  moreover have "\<not> length ?bs < 4" "\<not> length ?bs < 5" using assms(1) by (cases packet; simp)+
  ultimately show "read_packet_size ?bs = Packet_of (length packet)"
    using assms sint_of_nat_u32 [OF assms(2)] by (simp only: read_packet_size_def Let_def) simp
  show "drop 4 ?bs = packet @ rest" by simp
qed

lemma read_packet_size_large:
  assumes "2 ^ 31 \<le> length packet" "length packet < 2 ^ 32"
  shows "read_packet_size (write_uint32 (of_nat (length packet)) @ packet @ rest) = Packet_too_large"
proof -
  let ?bs = "write_uint32 (of_nat (length packet)) @ packet @ rest"
  have w: "word_le (rev (take 4 ?bs)) = (of_nat (length packet) :: u32)"
    by (simp add: write_uint32_def word_le_bytes_le_full)
  have "int (length packet) div 2 ^ 31 = 1" using assms by (intro int_div_pos_eq [where r = "int (length packet) - 2 ^ 31"]) simp_all
  then have "bit (int (length packet)) 31" by (simp add: bit_iff_odd)
  then have "sint (of_nat (length packet) :: u32) < 0" by (simp add: signed_of_nat)
  then show ?thesis using w by (simp only: read_packet_size_def Let_def) simp
qed

lemma frame_packet:
  "frame m = write_uint32 (of_nat (length (msg_extended # fcoin_extension_id # m))) @ msg_extended # fcoin_extension_id # m"
  by (simp add: frame_def message_header_def)

lemma deframe_frame:
  assumes "length m + 2 < 2 ^ 31"
  shows "deframe (frame m @ rest) = map_option ((#) m) (deframe rest)"
proof -
  let ?packet = "msg_extended # fcoin_extension_id # m"
  have f: "frame m @ rest = write_uint32 (of_nat (length ?packet)) @ ?packet @ rest" by (simp add: frame_packet)
  have l: "0 < length ?packet" "length ?packet < 2 ^ 31" using assms by simp_all
  note r = read_packet_size_frame [OF l, of rest, folded f]
  have ne: "frame m @ rest \<noteq> []" by (simp add: frame_packet)
  have d: "drop (4 + length ?packet) (frame m @ rest) = rest"
    using arg_cong [OF r(2), of "drop (length ?packet)"] by (simp only: drop_drop add.commute [of 4]) simp
  show ?thesis
    by (subst deframe.simps, simp only: if_not_P [OF ne] r d Let_def packet_start.case) (simp add: on_extended_def)
qed

lemma deframe_frames:
  "\<forall>m \<in> set ms. length m + 2 < 2 ^ 31 \<Longrightarrow> deframe (concat (map frame ms)) = Some ms"
  by (induction ms) (simp_all add: deframe_frame)

lemma sendMessageWithinSingleThread_frame:
  "sendMessageWithinSingleThread m p = p\<lparr>m_send_buffer := m_send_buffer p @ frame m\<rparr>"
  by (simp add: sendMessageWithinSingleThread_def frame_def Let_def)

lemma flush_buffered_frames:
  "flush_buffered ms (p\<lparr>buffered_msgs := ms\<rparr>) =
     p\<lparr>m_send_buffer := m_send_buffer p @ concat (map frame ms), buffered_msgs := []\<rparr>"
proof (induction ms arbitrary: p)
  case (Cons m ms)
  have "(sendMessageWithinSingleThread m (p\<lparr>buffered_msgs := m # ms\<rparr>))\<lparr>buffered_msgs := ms\<rparr> =
      (p\<lparr>m_send_buffer := m_send_buffer p @ frame m\<rparr>)\<lparr>buffered_msgs := ms\<rparr>"
    by (simp add: sendMessageWithinSingleThread_frame)
  then show ?case using Cons.IH [of "p\<lparr>m_send_buffer := m_send_buffer p @ frame m\<rparr>"] by simp
qed simp

lemma tick_frames:
  "tick p = p\<lparr>m_send_buffer := m_send_buffer p @ concat (map frame (buffered_msgs p)), buffered_msgs := []\<rparr>"
  using flush_buffered_frames [of "buffered_msgs p" p] by (simp add: tick_def)

section \<open>Delivery\<close>

text \<open>What threads do to a peer: a message from libtorrent's thread or another, and the tick.\<close>

datatype peer_op = Send bool "byte list" | Tick

fun peer_apply :: "peer_op \<Rightarrow> Peer \<Rightarrow> Peer" where
  "peer_apply (Send own m) p = sendMessage own m p"
| "peer_apply Tick p = tick p"

definition peer_run :: "peer_op list \<Rightarrow> Peer \<Rightarrow> Peer" where
  "peer_run ops p = fold peer_apply ops p"

fun sent_by :: "bool \<Rightarrow> peer_op list \<Rightarrow> byte list list" where
  "sent_by own [] = []"
| "sent_by own (Send own' m # ops) = (if own' = own then m # sent_by own ops else sent_by own ops)"
| "sent_by own (Tick # ops) = sent_by own ops"

lemma sent_by_append [simp]: "sent_by own (ops @ ops') = sent_by own ops @ sent_by own ops'"
  by (induction own ops rule: sent_by.induct) simp_all

text \<open>The stream so far and the queue, against the history of sends.\<close>

definition peer_rep :: "peer_op list \<Rightarrow> byte list list \<Rightarrow> Peer \<Rightarrow> bool" where
  "peer_rep ops out p \<longleftrightarrow>
     m_send_buffer p = concat (map frame out) \<and> subseq (sent_by True ops) out \<and>
     (\<exists>flushed. sent_by False ops = flushed @ buffered_msgs p \<and> subseq flushed out) \<and>
     mset (sent_by True ops @ sent_by False ops) = mset (out @ buffered_msgs p)"

lemma peer_rep_op:
  assumes "peer_rep ops out p"
  shows "\<exists>out'. peer_rep (ops @ [a]) out' (peer_apply a p)"
proof -
  obtain flushed where r: "m_send_buffer p = concat (map frame out)" "subseq (sent_by True ops) out"
    "sent_by False ops = flushed @ buffered_msgs p" "subseq flushed out"
    and ms: "mset (sent_by True ops @ sent_by False ops) = mset (out @ buffered_msgs p)"
    using assms by (auto simp: peer_rep_def)
  show ?thesis
  proof (cases a)
    case (Send own m)
    show ?thesis
    proof (cases own)
      case True
      have "peer_rep (ops @ [a]) (out @ [m]) (peer_apply a p)"
        using r ms True Send
        by (auto simp: peer_rep_def sendMessage_def sendMessageWithinSingleThread_frame subseq_append_iff intro: list_emb_append2)
      then show ?thesis ..
    next
      case False
      have "peer_rep (ops @ [a]) out (peer_apply a p)"
        using r ms False Send by (auto simp: peer_rep_def sendMessage_def)
      then show ?thesis ..
    qed
  next
    case Tick
    have "subseq (flushed @ buffered_msgs p) (out @ buffered_msgs p)"
      using r(4) by (intro list_emb_append_mono) simp_all
    then have "peer_rep (ops @ [a]) (out @ buffered_msgs p) (peer_apply a p)"
      using r ms Tick by (auto simp: peer_rep_def tick_frames intro: list_emb_append2)
    then show ?thesis ..
  qed
qed

lemma peer_rep_run: "\<exists>out. peer_rep ops out (peer_run ops (FcoinPeerPlugin_new pid))"
proof (induction ops rule: rev_induct)
  case Nil
  have "peer_rep [] [] (FcoinPeerPlugin_new pid)" by (simp add: peer_rep_def FcoinPeerPlugin_new_def)
  then show ?case by (auto simp: peer_run_def)
next
  case (snoc a ops)
  then show ?case using peer_rep_op by (fastforce simp: peer_run_def)
qed

section \<open>Property\<close>

text \<open>
  C36: whatever threads send messages of less than \<open>2 ^ 31 - 2\<close> bytes to a peer, after the next tick
  the other side reads the byte stream as exactly the sent messages, each once. The messages of
  libtorrent's thread appear in the order they were sent, and so do those of the other threads; a
  message of libtorrent's thread may overtake buffered ones of other threads.
\<close>

theorem peer_stream_delivers:
  assumes "\<forall>m \<in> set (sent_by True ops @ sent_by False ops). length m + 2 < 2 ^ 31"
  shows "\<exists>msgs. deframe (m_send_buffer (peer_run (ops @ [Tick]) (FcoinPeerPlugin_new pid))) = Some msgs \<and>
    mset msgs = mset (sent_by True ops) + mset (sent_by False ops) \<and>
    subseq (sent_by True ops) msgs \<and> subseq (sent_by False ops) msgs"
proof -
  let ?p = "peer_run (ops @ [Tick]) (FcoinPeerPlugin_new pid)"
  obtain out where rep: "peer_rep (ops @ [Tick]) out ?p" using peer_rep_run by blast
  have q: "buffered_msgs ?p = []" by (simp add: peer_run_def tick_frames)
  have r: "m_send_buffer ?p = concat (map frame out)" "subseq (sent_by True ops) out"
    "subseq (sent_by False ops) out" "mset out = mset (sent_by True ops @ sent_by False ops)"
    using rep q by (auto simp: peer_rep_def)
  from r(4) have "set out = set (sent_by True ops @ sent_by False ops)" by (rule mset_eq_setD)
  then have "deframe (m_send_buffer ?p) = Some out" unfolding r(1) using assms by (intro deframe_frames) simp
  with r show ?thesis by auto
qed

theorem peer_stream_delivers_witness:
  "\<exists>msgs. deframe (m_send_buffer (peer_run ([Send False [1], Send True [2, 3], Send False []] @ [Tick])
      (FcoinPeerPlugin_new ''P''))) = Some msgs \<and>
    subseq (sent_by False [Send False [1], Send True [2, 3], Send False []]) msgs"
  using peer_stream_delivers [of "[Send False [1], Send True [2, 3], Send False []]" "''P''"] by auto

end
