(* ===== verification/P2P_Connector.thy ===== *)
theory P2P_Connector
  imports P2P_Definitions Peer_Plugin Sample_Chain
begin

text \<open>
  The class \<open>P2PConnector\<close> of src/src/scn/P2PConnector/P2PConnector.cpp: the messages of the
  protocol, how each is sent, what an incoming one does, and the thread that sends a baseline. Peers
  live at addresses; the callbacks that the other components registered are an event list.
  \<open>std::rand()\<close> is an argument. Creating the torrent session in the constructor and draining its
  alerts are calls into libtorrent.
\<close>

section \<open>State\<close>

type_synonym peer_ref = nat

datatype callback =
  BaselineReceived peer_id_t BaselineBlock bool
  | CollectionReceived peer_id_t CollectionBlock bool
  | ActivePeersReceived peer_id_t ActivePeersList

datatype send_thread = NoThread | SendBaseline peer_ref | AwaitDrained peer_ref | ThreadEnded

record P2PConnector =
  connector_peers :: "(peer_ref, Peer) std_map"
  peer_sending_baseline_to :: "peer_ref option"
  send_baseline_thread :: send_thread
  block_callbacks_registered :: bool
  active_peers_callback_registered :: bool
  callback_log :: "callback list"

definition P2PConnector_new :: P2PConnector where
  "P2PConnector_new = \<lparr>connector_peers = [], peer_sending_baseline_to = None, send_baseline_thread = NoThread,
     block_callbacks_registered = False, active_peers_callback_registered = False, callback_log = []\<rparr>"

definition protocol_version :: u16 where "protocol_version = 1"

definition registerBlockCallbacks :: "P2PConnector \<Rightarrow> P2PConnector" where
  "registerBlockCallbacks c = c\<lparr>block_callbacks_registered := True\<rparr>"

definition registerActivePeersCallback :: "P2PConnector \<Rightarrow> P2PConnector" where
  "registerActivePeersCallback c = c\<lparr>active_peers_callback_registered := True\<rparr>"

definition registerPeer :: "peer_ref \<Rightarrow> Peer \<Rightarrow> P2PConnector \<Rightarrow> P2PConnector" where
  "registerPeer ref peer c = c\<lparr>connector_peers := map_emplace ref peer (connector_peers c)\<rparr>"

definition unregisterPeer :: "peer_ref \<Rightarrow> P2PConnector \<Rightarrow> P2PConnector" where
  "unregisterPeer ref c = c\<lparr>connector_peers := map_erase ref (connector_peers c)\<rparr>"

definition numConnectedPeers :: "P2PConnector \<Rightarrow> u32" where
  "numConnectedPeers c = of_nat (length (connector_peers c))"

definition getConnectedPeers :: "P2PConnector \<Rightarrow> peer_ref list" where
  "getConnectedPeers c = map fst (filter (\<lambda>(_, p). isConnected p) (connector_peers c))"

definition peerSendBuffersEmpty :: "P2PConnector \<Rightarrow> bool" where
  "peerSendBuffersEmpty c = list_all (\<lambda>(_, p). sendBufferEmpty p) (connector_peers c)"

definition banPeer :: "peer_id_t \<Rightarrow> P2PConnector \<Rightarrow> P2PConnector" where
  "banPeer peer_to_ban c =
     c\<lparr>connector_peers := map (\<lambda>(r, p). (r, if getId p = peer_to_ban then ban p else p)) (connector_peers c)\<rparr>"

definition at_peer :: "peer_ref \<Rightarrow> (Peer \<Rightarrow> Peer) \<Rightarrow> P2PConnector \<Rightarrow> P2PConnector" where
  "at_peer ref f c =
     (case map_find (connector_peers c) ref of
        None \<Rightarrow> c
      | Some p \<Rightarrow> c\<lparr>connector_peers := map_put ref (f p) (connector_peers c)\<rparr>)"

section \<open>Messages\<close>

definition msg_head :: "bool \<Rightarrow> MessageType \<Rightarrow> byte list" where
  "msg_head le t = out_archive le @ save_int le protocol_version @ save_int le (message_code t)"

definition msg_AskForBlock :: "bool \<Rightarrow> block_uid_t \<Rightarrow> byte list" where
  "msg_AskForBlock le uid = msg_head le AskForBlock @ save_int le uid"

definition msg_AskForLastBaselineBlock :: "bool \<Rightarrow> byte list" where
  "msg_AskForLastBaselineBlock le = msg_head le AskForLastBaselineBlock"

definition msg_BaselineBlock :: "bool \<Rightarrow> BaselineBlock \<Rightarrow> bool \<Rightarrow> byte list" where
  "msg_BaselineBlock le block reply = msg_head le PropagateBaselineBlock @ save_BaselineBlock le block @ save_bool le reply"

definition msg_CollectionBlock :: "bool \<Rightarrow> CollectionBlock \<Rightarrow> bool \<Rightarrow> byte list" where
  "msg_CollectionBlock le block reply =
     msg_head le PropagateCollectionBlock @ save_CollectionBlock le block @ save_bool le reply"

definition msg_ActivePeersList :: "bool \<Rightarrow> ActivePeersList \<Rightarrow> byte list" where
  "msg_ActivePeersList le l = msg_head le PropagateActivePeersList @ save_ActivePeersList le l"

section \<open>Sending\<close>

text \<open>To one connected peer, chosen at random, or to all; not while it is being sent a baseline.\<close>

definition ask_random :: "nat \<Rightarrow> byte list \<Rightarrow> P2PConnector \<Rightarrow> P2PConnector" where
  "ask_random rnd message c =
     (let connected_peers = getConnectedPeers c
      in if connected_peers = [] then c
         else
           (let ref = connected_peers ! (rnd mod length connected_peers)
            in if Some ref \<noteq> peer_sending_baseline_to c then at_peer ref (sendMessage False message) c else c))"

definition askForBlock :: "'ctx env \<Rightarrow> nat \<Rightarrow> block_uid_t \<Rightarrow> P2PConnector \<Rightarrow> P2PConnector" where
  "askForBlock E rnd uid c = ask_random rnd (msg_AskForBlock (host_le E) uid) c"

definition askForLastBaselineBlock :: "'ctx env \<Rightarrow> nat \<Rightarrow> P2PConnector \<Rightarrow> P2PConnector" where
  "askForLastBaselineBlock E rnd c = ask_random rnd (msg_AskForLastBaselineBlock (host_le E)) c"

definition send_to_all :: "byte list \<Rightarrow> P2PConnector \<Rightarrow> P2PConnector" where
  "send_to_all output c =
     c\<lparr>connector_peers := map (\<lambda>(r, p). (r, if Some r \<noteq> peer_sending_baseline_to c then sendMessage False output p else p))
        (connector_peers c)\<rparr>"

definition propagateBlock_baseline :: "'ctx env \<Rightarrow> BaselineBlock \<Rightarrow> P2PConnector \<Rightarrow> P2PConnector" where
  "propagateBlock_baseline E block c = send_to_all (msg_BaselineBlock (host_le E) block False) c"

definition propagateBlock_collection :: "'ctx env \<Rightarrow> CollectionBlock \<Rightarrow> P2PConnector \<Rightarrow> P2PConnector" where
  "propagateBlock_collection E block c = send_to_all (msg_CollectionBlock (host_le E) block False) c"

definition propagateActivePeersList :: "'ctx env \<Rightarrow> ActivePeersList \<Rightarrow> P2PConnector \<Rightarrow> P2PConnector" where
  "propagateActivePeersList E l c = send_to_all (msg_ActivePeersList (host_le E) l) c"

section \<open>The thread that sends a baseline\<close>

definition send_baseline_end :: "P2PConnector \<Rightarrow> P2PConnector" where
  "send_baseline_end c = c\<lparr>peer_sending_baseline_to := None, send_baseline_thread := ThreadEnded\<rparr>"

definition send_baseline_start :: "'ctx env \<Rightarrow> Blockchain \<Rightarrow> peer_ref \<Rightarrow> P2PConnector \<Rightarrow> P2PConnector res" where
  "send_baseline_start E bc ref c =
     bind_res (getRootBlock E bc) (\<lambda>b.
       case b of
         None \<Rightarrow> Inr (send_baseline_end c)
       | Some (Collection _) \<Rightarrow> Inl BadCast
       | Some (Baseline block) \<Rightarrow>
           Inr ((at_peer ref (sendMessage False (msg_BaselineBlock (host_le E) block True)) c)
                 \<lparr>send_baseline_thread := AwaitDrained ref\<rparr>))"

definition send_baseline_poll :: "peer_ref \<Rightarrow> P2PConnector \<Rightarrow> P2PConnector" where
  "send_baseline_poll ref c =
     (case map_find (connector_peers c) ref of
        None \<Rightarrow> send_baseline_end c
      | Some p \<Rightarrow> if sendBufferEmpty p then send_baseline_end c else c)"

definition send_baseline_step :: "'ctx env \<Rightarrow> Blockchain \<Rightarrow> P2PConnector \<Rightarrow> P2PConnector res" where
  "send_baseline_step E bc c =
     (case send_baseline_thread c of
        SendBaseline ref \<Rightarrow> send_baseline_start E bc ref c
      | AwaitDrained ref \<Rightarrow> Inr (send_baseline_poll ref c)
      | _ \<Rightarrow> Inr c)"

section \<open>Receiving\<close>

definition throwing :: "'a option \<Rightarrow> 'a res" where
  "throwing x = (case x of None \<Rightarrow> Inl Uncaught | Some a \<Rightarrow> Inr a)"

definition answer_block :: "'ctx env \<Rightarrow> block \<Rightarrow> peer_ref \<Rightarrow> P2PConnector \<Rightarrow> P2PConnector res" where
  "answer_block E b ref c =
     (if block_type (generic_header (base_header b)) = CollectionBlock_type then
        (case b of
           Collection block \<Rightarrow> Inr (at_peer ref (sendMessage True (msg_CollectionBlock (host_le E) block True)) c)
         | Baseline _ \<Rightarrow> Inl BadCast)
      else
        (case b of
           Baseline block \<Rightarrow> Inr (at_peer ref (sendMessage True (msg_BaselineBlock (host_le E) block True)) c)
         | Collection _ \<Rightarrow> Inl BadCast))"

text \<open>The body of the \<open>switch\<close>; \<open>Uncaught\<close> is a \<open>std::exception\<close> on its way to the handler.\<close>

definition handle_message ::
    "'ctx env \<Rightarrow> Blockchain \<Rightarrow> peer_ref \<Rightarrow> Peer \<Rightarrow> u8 \<Rightarrow> bool \<Rightarrow> byte list \<Rightarrow> P2PConnector \<Rightarrow> P2PConnector res" where
  "handle_message E bc ref peer t conv bs c =
     (let le = host_le E
      in if t = message_code PropagateBaselineBlock then
           (if block_callbacks_registered c then
              bind_res (throwing (load_BaselineBlock le conv bs)) (\<lambda>(block, bs).
              bind_res (throwing (load_bool le conv bs)) (\<lambda>(reply, bs).
              Inr (c\<lparr>callback_log := callback_log c @ [BaselineReceived (getId peer) block reply]\<rparr>)))
            else Inr c)
         else if t = message_code PropagateCollectionBlock then
           (if block_callbacks_registered c then
              bind_res (throwing (load_CollectionBlock le conv bs)) (\<lambda>(block, bs).
              bind_res (throwing (load_bool le conv bs)) (\<lambda>(reply, bs).
              Inr (c\<lparr>callback_log := callback_log c @ [CollectionReceived (getId peer) block reply]\<rparr>)))
            else Inr c)
         else if t = message_code AskForLastBaselineBlock then
           (if peer_sending_baseline_to c = None then
              Inr (c\<lparr>peer_sending_baseline_to := Some ref, send_baseline_thread := SendBaseline ref\<rparr>)
            else Inr c)
         else if t = message_code AskForBlock then
           (if Some ref = peer_sending_baseline_to c then Inr c
            else
              bind_res (throwing (load_int le conv bs)) (\<lambda>(uid, bs).
              bind_res (getBlock E bc uid) (\<lambda>b.
              case b of None \<Rightarrow> Inr c | Some b \<Rightarrow> answer_block E b ref c)))
         else if t = message_code PropagateActivePeersList then
           (if active_peers_callback_registered c then
              bind_res (throwing (load_ActivePeersList le conv bs)) (\<lambda>(l, bs).
              Inr (c\<lparr>callback_log := callback_log c @ [ActivePeersReceived (getId peer) l]\<rparr>))
            else Inr c)
         else Inr c)"

definition parse_message ::
    "'ctx env \<Rightarrow> Blockchain \<Rightarrow> peer_ref \<Rightarrow> Peer \<Rightarrow> byte list \<Rightarrow> P2PConnector \<Rightarrow> P2PConnector res" where
  "parse_message E bc ref peer message c =
     bind_res (throwing (in_archive (host_le E) message)) (\<lambda>(conv, bs).
     bind_res (throwing (load_int (host_le E) conv bs)) (\<lambda>(incoming_protocol_version, bs).
     if incoming_protocol_version \<noteq> protocol_version then Inr (at_peer ref ban c)
     else
       bind_res (throwing (load_int (host_le E) conv bs)) (\<lambda>(t, bs).
       handle_message E bc ref peer t conv bs c)))"

text \<open>
  A peer object calls this with itself; it is registered from its construction to its destruction. The
  callbacks it makes are added to \<open>callback_log\<close>, at most one for a message and as the last thing it does;
  \<open>node_receive\<close> of the theory \<open>Network\<close> runs them.
\<close>

definition receivedMessage ::
    "'ctx env \<Rightarrow> Blockchain \<Rightarrow> peer_ref \<Rightarrow> byte list \<Rightarrow> P2PConnector \<Rightarrow> P2PConnector res" where
  "receivedMessage E bc ref message c =
     (case map_find (connector_peers c) ref of
        None \<Rightarrow> Inr c
      | Some peer \<Rightarrow>
          (case parse_message E bc ref peer message c of Inl Uncaught \<Rightarrow> Inr c | r \<Rightarrow> r))"

section \<open>Encoded messages are understood\<close>

lemma throwing_simps [simp]: "throwing (Some a) = Inr a" "throwing None = Inl Uncaught"
  by (simp_all add: throwing_def)

lemma parse_message_head:
  "parse_message E bc ref peer (msg_head le t @ rest) c =
     handle_message E bc ref peer (message_code t) (endian_conv (host_le E) le) rest c"
  by (simp add: parse_message_def msg_head_def codec)

lemma handle_BaselineBlock:
  assumes "block_callbacks_registered c" "baseline_ok b"
  shows "handle_message E bc ref peer (message_code PropagateBaselineBlock) (endian_conv (host_le E) le)
      (save_BaselineBlock le b @ save_bool le reply) c =
    Inr (c\<lparr>callback_log := callback_log c @ [BaselineReceived (getId peer) b reply]\<rparr>)"
  using assms bool_codec.roundtrip [of "host_le E" le reply "[]"]
  by (simp add: handle_message_def Let_def BaselineBlock_codec.roundtrip)

lemma handle_CollectionBlock:
  assumes "block_callbacks_registered c" "collection_ok b"
  shows "handle_message E bc ref peer (message_code PropagateCollectionBlock) (endian_conv (host_le E) le)
      (save_CollectionBlock le b @ save_bool le reply) c =
    Inr (c\<lparr>callback_log := callback_log c @ [CollectionReceived (getId peer) b reply]\<rparr>)"
  using assms bool_codec.roundtrip [of "host_le E" le reply "[]"]
  by (simp add: handle_message_def Let_def CollectionBlock_codec.roundtrip)

lemma handle_ActivePeersList:
  assumes "active_peers_callback_registered c" "length l = bloom_bytes"
  shows "handle_message E bc ref peer (message_code PropagateActivePeersList) (endian_conv (host_le E) le)
      (save_ActivePeersList le l) c =
    Inr (c\<lparr>callback_log := callback_log c @ [ActivePeersReceived (getId peer) l]\<rparr>)"
  using assms peers_codec.roundtrip [of l "host_le E" le "[]"] by (simp add: handle_message_def Let_def)

lemma handle_AskForBlock:
  assumes "Some ref \<noteq> peer_sending_baseline_to c" "getBlock E bc uid = Inr (Some b)"
  shows "handle_message E bc ref peer (message_code AskForBlock) (endian_conv (host_le E) le) (save_int le uid) c =
    answer_block E b ref c"
  using assms u64_codec.roundtrip [of "host_le E" le uid "[]"] by (simp add: handle_message_def Let_def)

lemma receivedMessage_parsed:
  assumes "map_find (connector_peers c) ref = Some peer" "parse_message E bc ref peer message c = Inr c'"
  shows "receivedMessage E bc ref message c = Inr c'"
  using assms by (simp add: receivedMessage_def)

text \<open>An incoming block message, whatever endianness it was written with.\<close>

lemma received_CollectionBlock:
  assumes "map_find (connector_peers c) ref = Some peer" "block_callbacks_registered c" "collection_ok b"
  shows "receivedMessage E bc ref (msg_CollectionBlock le b reply) c =
    Inr (c\<lparr>callback_log := callback_log c @ [CollectionReceived (getId peer) b reply]\<rparr>)"
  using assms by (intro receivedMessage_parsed [OF assms(1)])
    (simp only: msg_CollectionBlock_def parse_message_head handle_CollectionBlock)

lemma received_BaselineBlock:
  assumes "map_find (connector_peers c) ref = Some peer" "block_callbacks_registered c" "baseline_ok b"
  shows "receivedMessage E bc ref (msg_BaselineBlock le b reply) c =
    Inr (c\<lparr>callback_log := callback_log c @ [BaselineReceived (getId peer) b reply]\<rparr>)"
  using assms by (intro receivedMessage_parsed [OF assms(1)])
    (simp only: msg_BaselineBlock_def parse_message_head handle_BaselineBlock)

lemma received_ActivePeersList:
  assumes "map_find (connector_peers c) ref = Some peer" "active_peers_callback_registered c" "length l = bloom_bytes"
  shows "receivedMessage E bc ref (msg_ActivePeersList le l) c =
    Inr (c\<lparr>callback_log := callback_log c @ [ActivePeersReceived (getId peer) l]\<rparr>)"
  using assms by (intro receivedMessage_parsed [OF assms(1)])
    (simp only: msg_ActivePeersList_def parse_message_head handle_ActivePeersList)

section \<open>No message stops the connector\<close>

text \<open>
  Every id reads as no block or a block whose class is the one it declares: the cached blocks are such
  blocks (\<open>cache_inv\<close>), and the files have to be. An empty folder is, and the theory
  \<open>Message_Safety\<close> shows that all operations of the chain keep it.
\<close>

definition files_readable :: "'ctx env \<Rightarrow> Cache \<Rightarrow> bool" where
  "files_readable E c \<longleftrightarrow>
     (\<forall>uid file. disk c uid = Some file \<longrightarrow> (\<exists>b. parseBlock E file = Inr b \<and> (\<forall>x. b = Some x \<longrightarrow> block_ok x)))"

definition chain_readable :: "'ctx env \<Rightarrow> Blockchain \<Rightarrow> bool" where
  "chain_readable E bc \<longleftrightarrow> (\<forall>uid. \<exists>b. getBlock E bc uid = Inr b \<and> (\<forall>x. b = Some x \<longrightarrow> block_ok x))"

lemma chain_readable_files:
  assumes "cache_inv (chain_cache bc)" "files_readable E (chain_cache bc)"
  shows "chain_readable E bc"
proof -
  have "\<exists>b. getBlock E bc uid = Inr b \<and> (\<forall>x. b = Some x \<longrightarrow> block_ok x)" for uid
    using assms(2) cache_inv_find [OF assms(1), of uid]
    by (cases "map_find (cached_blocks (chain_cache bc)) uid"; cases "disk (chain_cache bc) uid")
      (auto simp: getBlock_def cache_getBlock_def getBlockFromDisk_def files_readable_def)
  then show ?thesis by (simp add: chain_readable_def)
qed

lemma at_peer_other: "r \<noteq> ref \<Longrightarrow> map_find (connector_peers (at_peer ref f c)) r = map_find (connector_peers c) r"
  by (simp add: at_peer_def map_find_put split: option.split)

lemma at_peer_self:
  "map_find (connector_peers c) ref = Some p \<Longrightarrow> map_find (connector_peers (at_peer ref f c)) ref = Some (f p)"
  by (simp add: at_peer_def map_find_put)

lemma answer_block_ok:
  assumes "block_ok b"
  shows "\<exists>f. answer_block E b ref c = Inr (at_peer ref f c)"
  using assms by (cases b) (auto simp: answer_block_def)

text \<open>
  An exception for the handler, or a connector with the same other peers, in which at most callbacks
  for the sender's id have been added.
\<close>

fun callback_peer :: "callback \<Rightarrow> peer_id_t" where
  "callback_peer (BaselineReceived p b reply) = p"
| "callback_peer (CollectionReceived p b reply) = p"
| "callback_peer (ActivePeersReceived p l) = p"

definition tame :: "peer_ref \<Rightarrow> peer_id_t \<Rightarrow> P2PConnector \<Rightarrow> P2PConnector res \<Rightarrow> bool" where
  "tame ref pid c r \<longleftrightarrow> r = Inl Uncaught \<or>
     (\<exists>c' cbs. r = Inr c' \<and> (\<forall>q. q \<noteq> ref \<longrightarrow> map_find (connector_peers c') q = map_find (connector_peers c) q) \<and>
       callback_log c' = callback_log c @ cbs \<and> (\<forall>cb \<in> set cbs. callback_peer cb = pid))"

lemma callback_log_at_peer [simp]: "callback_log (at_peer ref f c) = callback_log c"
  by (simp add: at_peer_def split: option.split)

lemma tame_log: "callback_peer cb = pid \<Longrightarrow> tame ref pid c (Inr (c\<lparr>callback_log := callback_log c @ [cb]\<rparr>))"
  by (simp add: tame_def)

lemma tame_intros:
  "tame ref pid c (Inl Uncaught)" "tame ref pid c (Inr c)" "tame ref pid c (Inr (at_peer ref f c))"
  "tame ref pid c (Inr (c\<lparr>peer_sending_baseline_to := s, send_baseline_thread := t\<rparr>))"
  by (simp_all add: tame_def at_peer_other)

lemma tame_bind:
  "(\<And>a bs. tame ref pid c (f a bs)) \<Longrightarrow> tame ref pid c (bind_res (throwing x) (\<lambda>(a, bs). f a bs))"
  by (cases x) (auto simp: tame_intros)

lemma tame_if: "tame ref pid c r \<Longrightarrow> tame ref pid c s \<Longrightarrow> tame ref pid c (if b then r else s)"
  by simp

lemma handle_message_tame:
  assumes "chain_readable E bc"
  shows "tame ref (getId peer) c (handle_message E bc ref peer t conv bs c)"
proof -
  have ask: "tame ref (getId peer) c
      (bind_res (getBlock E bc uid) (\<lambda>b. case b of None \<Rightarrow> Inr c | Some b \<Rightarrow> answer_block E b ref c))" for uid
  proof -
    obtain ob where ob: "getBlock E bc uid = Inr ob" "\<forall>x. ob = Some x \<longrightarrow> block_ok x"
      using assms by (auto simp: chain_readable_def)
    show ?thesis
    proof (cases ob)
      case (Some b)
      then obtain f where "answer_block E b ref c = Inr (at_peer ref f c)"
        using ob(2) answer_block_ok [of b E ref c] by blast
      with Some show ?thesis by (simp add: ob(1) tame_intros)
    qed (simp add: ob(1) tame_intros)
  qed
  show ?thesis
    unfolding handle_message_def Let_def
    by (intro tame_if tame_bind tame_intros ask tame_log callback_peer.simps)
qed

lemma parse_message_tame:
  assumes "chain_readable E bc"
  shows "tame ref (getId peer) c (parse_message E bc ref peer message c)"
  unfolding parse_message_def
  by (intro tame_if tame_bind tame_intros handle_message_tame [OF assms])

text \<open>The handler of \<open>receivedMessage\<close> leaves the connector as it was.\<close>

lemma receivedMessage_tame:
  assumes "chain_readable E bc"
  shows "\<exists>c' cbs. receivedMessage E bc ref message c = Inr c' \<and>
    (\<forall>q. q \<noteq> ref \<longrightarrow> map_find (connector_peers c') q = map_find (connector_peers c) q) \<and>
    callback_log c' = callback_log c @ cbs \<and>
    (\<forall>cb \<in> set cbs. \<exists>p. map_find (connector_peers c) ref = Some p \<and> callback_peer cb = getId p)"
proof (cases "map_find (connector_peers c) ref")
  case (Some p)
  then show ?thesis
    using parse_message_tame [OF assms, of ref p c message] by (auto simp: receivedMessage_def tame_def)
qed (simp add: receivedMessage_def)

lemma receivedMessage_version:
  "v \<noteq> protocol_version \<Longrightarrow> receivedMessage E bc ref (out_archive le @ save_int le v @ rest) c = Inr (at_peer ref ban c)"
  by (cases "map_find (connector_peers c) ref")
    (simp_all add: receivedMessage_def parse_message_def codec at_peer_def)

section \<open>Streams between two nodes\<close>

fun msg_block :: "bool \<Rightarrow> block \<Rightarrow> bool \<Rightarrow> byte list" where
  "msg_block le (Baseline b) reply = msg_BaselineBlock le b reply"
| "msg_block le (Collection b) reply = msg_CollectionBlock le b reply"

definition idle_peer :: "peer_ref \<Rightarrow> Peer \<Rightarrow> P2PConnector \<Rightarrow> bool" where
  "idle_peer ref p c \<longleftrightarrow> map_find (connector_peers c) ref = Some p \<and> sendBufferEmpty p \<and>
     peer_sending_baseline_to c \<noteq> Some ref"

lemma answer_block_msg:
  "block_ok b \<Longrightarrow> answer_block E b ref c = Inr (at_peer ref (sendMessage True (msg_block (host_le E) b True)) c)"
  by (cases b) (auto simp: answer_block_def)

text \<open>One message given to an idle peer is the stream's only message after the next tick.\<close>

lemma deframe_single:
  assumes "sendBufferEmpty p" "length m + 2 < 2 ^ 31"
  shows "deframe (m_send_buffer (tick (sendMessage own m p))) = Some [m]"
  using assms deframe_frame [of m "[]"]
  by (simp add: sendMessage_def tick_frames sendMessageWithinSingleThread_frame sendBufferEmpty_def)

lemma map_find_map_snd: "map_find (map (\<lambda>(k, v). (k, f k v)) m) k = map_option (f k) (map_find m k)"
  by (induction m) auto

lemma length_AskForBlock [simp]: "length (msg_AskForBlock le uid) = 12"
  by (simp add: msg_AskForBlock_def msg_head_def out_archive_def saveBinary_def)

section \<open>Properties\<close>

text \<open>
  A propagated collection block reaches every idle peer: after the next tick the peer's byte
  stream is one message, and the node at the other end, of any endianness, that receives it calls
  back with exactly this block, from this peer, and not as a reply.
\<close>

theorem propagated_block_received:
  assumes "idle_peer r\<^sub>1 p\<^sub>1 c\<^sub>1" "collection_ok b" "length (msg_CollectionBlock (host_le E\<^sub>1) b False) + 2 < 2 ^ 31"
    and "map_find (connector_peers c\<^sub>2) r\<^sub>2 = Some p\<^sub>2" "block_callbacks_registered c\<^sub>2"
  shows "\<exists>p message. map_find (connector_peers (propagateBlock_collection E\<^sub>1 b c\<^sub>1)) r\<^sub>1 = Some p \<and>
    deframe (m_send_buffer (tick p)) = Some [message] \<and>
    receivedMessage E\<^sub>2 bc r\<^sub>2 message c\<^sub>2 =
      Inr (c\<^sub>2\<lparr>callback_log := callback_log c\<^sub>2 @ [CollectionReceived (getId p\<^sub>2) b False]\<rparr>)"
proof -
  let ?m = "msg_CollectionBlock (host_le E\<^sub>1) b False"
  have "map_find (connector_peers (propagateBlock_collection E\<^sub>1 b c\<^sub>1)) r\<^sub>1 = Some (sendMessage False ?m p\<^sub>1)"
    using assms(1) by (auto simp: propagateBlock_collection_def send_to_all_def map_find_map_snd idle_peer_def)
  moreover have "deframe (m_send_buffer (tick (sendMessage False ?m p\<^sub>1))) = Some [?m]"
    using assms(1,3) by (intro deframe_single) (simp_all add: idle_peer_def)
  moreover have "receivedMessage E\<^sub>2 bc r\<^sub>2 ?m c\<^sub>2 =
      Inr (c\<^sub>2\<lparr>callback_log := callback_log c\<^sub>2 @ [CollectionReceived (getId p\<^sub>2) b False]\<rparr>)"
    by (rule received_CollectionBlock [OF assms(4,5,2)])
  ultimately show ?thesis by blast
qed

definition sample_connector :: P2PConnector where
  "sample_connector = registerBlockCallbacks (registerPeer 5 (FcoinPeerPlugin_new ''P'') P2PConnector_new)"

lemma sample_connector_facts:
  "idle_peer 5 (FcoinPeerPlugin_new ''P'') sample_connector" "block_callbacks_registered sample_connector"
  "getConnectedPeers sample_connector = [5]" "callback_log sample_connector = []"
  "map_find (connector_peers sample_connector) 5 = Some (FcoinPeerPlugin_new ''P'')"
  by (simp_all add: sample_connector_def registerBlockCallbacks_def registerPeer_def P2PConnector_new_def
      idle_peer_def sendBufferEmpty_def FcoinPeerPlugin_new_def getConnectedPeers_def isConnected_def getId_def
      map_emplace_def)

lemma getId_new [simp]: "getId (FcoinPeerPlugin_new pid) = pid"
  by (simp add: getId_def FcoinPeerPlugin_new_def)

theorem propagated_block_received_witness:
  "\<exists>p message. map_find (connector_peers (propagateBlock_collection (sample_env True) new_CollectionBlock sample_connector)) 5 = Some p \<and>
    deframe (m_send_buffer (tick p)) = Some [message] \<and>
    receivedMessage (sample_env False) blank_chain 5 message sample_connector =
      Inr (sample_connector\<lparr>callback_log := [CollectionReceived ''P'' new_CollectionBlock False]\<rparr>)"
proof -
  have "collection_ok new_CollectionBlock"
    by (simp add: collection_ok_def new_CollectionBlock_def fits_def)
  moreover have "length (msg_CollectionBlock (host_le (sample_env True)) new_CollectionBlock False) + 2 < 2 ^ 31"
    by (simp add: msg_CollectionBlock_def msg_head_def out_archive_def saveBinary_def save_CollectionBlock_def
        save_BlockHeader_def save_GenericHeader_def save_hash_def save_map_def save_size_def save_bool_def
        new_CollectionBlock_def)
  ultimately show ?thesis
    using propagated_block_received [of 5 "FcoinPeerPlugin_new ''P''" sample_connector new_CollectionBlock
        "sample_env True" sample_connector 5 "FcoinPeerPlugin_new ''P''" "sample_env False" blank_chain]
    by (simp add: sample_connector_facts)
qed

end
