(* ===== verification/Block_Schedule.thy ===== *)
theory Block_Schedule
  imports Scn_Prelude
begin

text \<open>
  The static arithmetic of \<open>BlockchainManager\<close> (src/src/scn/BlockchainManager/BlockchainManager.cpp
  lines 139 to 157) on block ids and the clock: every 720th block is a baseline, and a block id
  belongs to every two minutes.
\<close>

section \<open>Definitions\<close>

definition max_num_blocks_after_baseline :: u32 where "max_num_blocks_after_baseline = 720"
definition cycle_length_ms :: blockchain_time_t where "cycle_length_ms = 120000"

definition isBaselineBlock :: "block_uid_t \<Rightarrow> bool" where
  "isBaselineBlock uid = ((uid - 1) mod ucast max_num_blocks_after_baseline = 0)"

definition getNextBaselineBlock :: "block_uid_t \<Rightarrow> block_uid_t" where
  "getNextBaselineBlock uid =
     ((uid - 1) div ucast max_num_blocks_after_baseline + 1) * ucast max_num_blocks_after_baseline + 1"

definition getPreviousBaselineBlock :: "block_uid_t \<Rightarrow> block_uid_t" where
  "getPreviousBaselineBlock uid =
     max (ucast (max_num_blocks_after_baseline + 1)) (getNextBaselineBlock uid)
       - ucast max_num_blocks_after_baseline"

definition getBlockId :: "blockchain_time_t \<Rightarrow> block_uid_t" where
  "getBlockId t = (let d = t div cycle_length_ms in d - min d 12892961)"

section \<open>Over the natural numbers\<close>

lemma unat_pred: "uid \<noteq> 0 \<Longrightarrow> unat (uid - 1) = unat uid - 1" for uid :: u64
  by (simp add: unat_sub word_le_nat_alt unat_gt_0 Suc_leI)

lemma isBaselineBlock_nat: "uid \<noteq> 0 \<Longrightarrow> isBaselineBlock uid \<longleftrightarrow> (unat uid - 1) mod 720 = 0"
  by (simp add: isBaselineBlock_def max_num_blocks_after_baseline_def word_unat_eq_iff unat_mod_distrib unat_pred)

lemma getNextBaselineBlock_nat:
  assumes "uid \<noteq> 0" "unat uid + 720 < 2 ^ 64"
  shows "unat (getNextBaselineBlock uid) = ((unat uid - 1) div 720 + 1) * 720 + 1"
proof -
  let ?q = "(unat uid - 1) div 720"
  have q: "unat ((uid - 1) div 720) = ?q" using assms(1) by (simp add: unat_div_distrib unat_pred)
  have "?q * 720 \<le> unat uid - 1" by simp
  then have b: "(?q + 1) * 720 + 1 < 2 ^ 64" using assms by (simp add: unat_gt_0)
  have "(uid - 1) div 720 = of_nat ?q" using arg_cong [OF q, of "of_nat :: nat \<Rightarrow> u64"] by simp
  then have "getNextBaselineBlock uid = of_nat ((?q + 1) * 720 + 1)"
    by (simp add: getNextBaselineBlock_def max_num_blocks_after_baseline_def)
  moreover have "unat (of_nat ((?q + 1) * 720 + 1) :: u64) = (?q + 1) * 720 + 1"
    using b by (intro unat_of_nat_small) simp
  ultimately show ?thesis by (simp only:)
qed

lemma getPreviousBaselineBlock_nat:
  assumes "uid \<noteq> 0" "unat uid + 720 < 2 ^ 64"
  shows "unat (getPreviousBaselineBlock uid) = (unat uid - 1) div 720 * 720 + 1"
proof -
  let ?n = "getNextBaselineBlock uid"
  have n: "unat ?n = ((unat uid - 1) div 720 + 1) * 720 + 1" by (rule getNextBaselineBlock_nat [OF assms])
  then have "721 \<le> ?n" by (simp add: word_le_nat_alt)
  then have "getPreviousBaselineBlock uid = ?n - 720"
    by (simp add: getPreviousBaselineBlock_def max_num_blocks_after_baseline_def max_def)
  moreover have "720 \<le> ?n" using n by (simp add: word_le_nat_alt)
  ultimately show ?thesis using n by (simp add: unat_sub)
qed

lemma unat_getBlockId: "unat (getBlockId t) = unat t div 120000 - 12892961"
proof -
  let ?d = "t div cycle_length_ms"
  have d: "unat ?d = unat t div 120000" by (simp add: cycle_length_ms_def unat_div_distrib)
  have "unat (?d - min ?d 12892961) = unat ?d - unat (min ?d 12892961)"
    by (simp add: unat_sub)
  also have "unat (min ?d 12892961) = min (unat ?d) 12892961"
    by (simp add: min_def word_le_nat_alt)
  finally show ?thesis by (simp add: getBlockId_def Let_def d min_def)
qed

text \<open>One cycle later the id is one higher, once the chain's first block is due.\<close>

lemma getBlockId_next:
  assumes "12892961 \<le> unat t div 120000" "unat t + 120000 < 2 ^ 64"
  shows "unat (getBlockId (t + cycle_length_ms)) = unat (getBlockId t) + 1"
proof -
  have "unat (t + cycle_length_ms) = unat t + 120000"
    using assms(2) by (simp add: cycle_length_ms_def unat_word_ariths)
  moreover have "(unat t + 120000) div 120000 = unat t div 120000 + 1" by simp
  ultimately show ?thesis using assms(1) by (simp only: unat_getBlockId)
qed

section \<open>Property\<close>

text \<open>
  The baseline blocks partition the ids. For every id (below the last 720 of 64 bits) the
  previous and the next baseline are baseline ids, 720 apart, the id lies in between, and there is
  no other baseline id in between.
\<close>

theorem baseline_blocks_partition:
  assumes "uid \<noteq> 0" "unat uid + 720 < 2 ^ 64"
  shows "isBaselineBlock (getPreviousBaselineBlock uid) \<and> isBaselineBlock (getNextBaselineBlock uid) \<and>
    getPreviousBaselineBlock uid \<le> uid \<and> uid < getNextBaselineBlock uid \<and>
    unat (getNextBaselineBlock uid) = unat (getPreviousBaselineBlock uid) + 720 \<and>
    (isBaselineBlock v \<and> v \<noteq> 0 \<longrightarrow> v \<le> getPreviousBaselineBlock uid \<or> getNextBaselineBlock uid \<le> v)"
proof -
  let ?q = "(unat uid - 1) div 720"
  have n: "unat (getNextBaselineBlock uid) = (?q + 1) * 720 + 1"
    and p: "unat (getPreviousBaselineBlock uid) = ?q * 720 + 1"
    using getNextBaselineBlock_nat [OF assms] getPreviousBaselineBlock_nat [OF assms] by simp_all
  have nz: "getNextBaselineBlock uid \<noteq> 0" "getPreviousBaselineBlock uid \<noteq> 0"
    using n p by auto
  have u: "1 \<le> unat uid" using assms(1) by (simp add: unat_gt_0 Suc_leI)
  have "?q * 720 \<le> unat uid - 1" "unat uid - 1 < (?q + 1) * 720" by simp_all
  then have order: "getPreviousBaselineBlock uid \<le> uid" "uid < getNextBaselineBlock uid"
    using n p u by (simp_all add: word_le_nat_alt word_less_nat_alt)
  moreover have "v \<le> getPreviousBaselineBlock uid \<or> getNextBaselineBlock uid \<le> v"
    if v: "isBaselineBlock v" "v \<noteq> 0"
  proof -
    obtain k where k: "unat v - 1 = 720 * k" using v by (auto simp: isBaselineBlock_nat)
    have "1 \<le> unat v" using v(2) by (simp add: unat_gt_0 Suc_leI)
    then have "unat v = 720 * k + 1" using k by linarith
    moreover have "720 * k \<le> 720 * ?q \<or> 720 * (?q + 1) \<le> 720 * k"
      by (cases "k \<le> ?q") (simp_all only: mult_le_mono2 not_le Suc_leI Suc_eq_plus1 [symmetric] simp_thms)
    ultimately show ?thesis using n p unfolding word_le_nat_alt by linarith
  qed
  moreover have "isBaselineBlock (getPreviousBaselineBlock uid)" "isBaselineBlock (getNextBaselineBlock uid)"
    "unat (getNextBaselineBlock uid) = unat (getPreviousBaselineBlock uid) + 720"
    using n p nz by (simp_all add: isBaselineBlock_nat)
  ultimately show ?thesis by blast
qed

theorem baseline_blocks_partition_witness:
  "isBaselineBlock (getPreviousBaselineBlock 1000) \<and> getPreviousBaselineBlock 1000 \<le> 1000 \<and>
   1000 < getNextBaselineBlock 1000"
  using baseline_blocks_partition [of 1000 1] by simp

end
