(* ===== verification/Out_Of_Sync_Detector.thy ===== *)
theory Out_Of_Sync_Detector
  imports Complex_Main Sample_Chain Block_Schedule
begin

text \<open>
  The class \<open>OutOfSyncDetector\<close> of src/src/scn/BlockchainManager/OutOfSyncDetector.cpp and .h: it
  compares the newest block with the clock and with what the peers refer to.
\<close>

section \<open>Definitions\<close>

record OutOfSyncDetector =
  input_msgs_out_of_sync :: bool
  oos_newest_block_hash :: hash_t
  oos_newest_block_id :: block_uid_t
  peer_in_sync_map :: "(peer_id_t, bool) std_map"
  time_out_of_sync :: bool

definition OutOfSyncDetector_new :: OutOfSyncDetector where
  "OutOfSyncDetector_new = \<lparr>input_msgs_out_of_sync = False, oos_newest_block_hash = 0,
     oos_newest_block_id = 0, peer_in_sync_map = [], time_out_of_sync = False\<rparr>"

definition restartCheckCycle ::
    "'ctx env \<Rightarrow> blockchain_time_t \<Rightarrow> Blockchain \<Rightarrow> OutOfSyncDetector \<Rightarrow> OutOfSyncDetector res" where
  "restartCheckCycle E now bc d =
     bind_res (newest_header E bc) (\<lambda>newest.
       let d = d\<lparr>input_msgs_out_of_sync := False,
                 oos_newest_block_hash := block_hash (generic_header newest),
                 oos_newest_block_id := block_uid newest, peer_in_sync_map := []\<rparr>
       in Inr (d\<lparr>time_out_of_sync := (getBlockId now \<noteq> oos_newest_block_id d)\<rparr>))"

definition isOutOfSync :: "OutOfSyncDetector \<Rightarrow> bool" where
  "isOutOfSync d = (input_msgs_out_of_sync d \<or> time_out_of_sync d)"

text \<open>
  The quotient of two 32-bit counts is compared with one half in \<open>double\<close>; a quotient above one
  half is at least \<open>2 ^ -33\<close> above it, so the rounding of the division does not change the verdict.
\<close>

definition oos_blockReceivedCallback ::
    "peer_id_t \<Rightarrow> CollectionBlock \<Rightarrow> bool \<Rightarrow> OutOfSyncDetector \<Rightarrow> OutOfSyncDetector" where
  "oos_blockReceivedCallback peer block reply d =
     (if \<not> reply \<and> uid_of block = oos_newest_block_id d + 1 then
        (let m = map_put peer (prev_of block = oos_newest_block_hash d) (peer_in_sync_map d);
             peers_out_of_sync = of_nat (length (filter (\<lambda>kv. \<not> snd kv) m)) :: u32;
             num_peers = of_nat (length m) :: u32
         in d\<lparr>peer_in_sync_map := m,
              input_msgs_out_of_sync :=
                (rat_of_nat (unat peers_out_of_sync) / rat_of_nat (unat num_peers) > 1 / 2)\<rparr>)
      else d)"

section \<open>Majority\<close>

definition oos_run :: "(peer_id_t \<times> CollectionBlock \<times> bool) list \<Rightarrow> OutOfSyncDetector \<Rightarrow> OutOfSyncDetector" where
  "oos_run evs d = fold (\<lambda>(peer, block, reply). oos_blockReceivedCallback peer block reply) evs d"

text \<open>What the last counted message of a peer says: whether it refers to our newest block.\<close>

definition verdict :: "OutOfSyncDetector \<Rightarrow> (peer_id_t \<times> CollectionBlock \<times> bool) list \<Rightarrow> peer_id_t \<Rightarrow> bool option" where
  "verdict d evs p =
     map_of (rev (map (\<lambda>(peer, block, reply). (peer, prev_of block = oos_newest_block_hash d))
       (filter (\<lambda>(peer, block, reply). \<not> reply \<and> uid_of block = oos_newest_block_id d + 1) evs))) p"

lemma card_map_find:
  assumes "map_wf m"
  shows "card {p. map_find m p = Some v} = length (filter (\<lambda>kv. snd kv = v) m)"
    and "card {p. map_find m p \<noteq> None} = length m"
proof -
  have d: "distinct (map fst m)" using assms by (rule map_wf_distinct)
  have "{p. map_find m p = Some v} = set (map fst (filter (\<lambda>kv. snd kv = v) m))"
    using assms by (force simp: map_find_eq_Some)
  moreover have "distinct (map fst (filter (\<lambda>kv. snd kv = v) m))" using d by (rule distinct_map_filter)
  ultimately show "card {p. map_find m p = Some v} = length (filter (\<lambda>kv. snd kv = v) m)"
    by (simp only: distinct_card) simp
  have "{p. map_find m p \<noteq> None} = set (map fst m)" using map_find_eq_None [of m] by auto
  then show "card {p. map_find m p \<noteq> None} = length m" using distinct_card [OF d] by simp
qed

definition detector_rep :: "OutOfSyncDetector \<Rightarrow> (peer_id_t \<times> CollectionBlock \<times> bool) list \<Rightarrow> OutOfSyncDetector \<Rightarrow> bool" where
  "detector_rep d evs d' \<longleftrightarrow>
     oos_newest_block_hash d' = oos_newest_block_hash d \<and> oos_newest_block_id d' = oos_newest_block_id d \<and>
     time_out_of_sync d' = time_out_of_sync d \<and>
     map_wf (peer_in_sync_map d') \<and> map_find (peer_in_sync_map d') = verdict d evs \<and>
     length (peer_in_sync_map d') \<le> length evs \<and>
     input_msgs_out_of_sync d' =
       (2 * length (filter (\<lambda>kv. \<not> snd kv) (peer_in_sync_map d')) > length (peer_in_sync_map d'))"

lemma majority_rat:
  assumes "n < 2 ^ 32" "m \<le> n" "0 < n"
  shows "rat_of_nat (unat (of_nat m :: u32)) / rat_of_nat (unat (of_nat n :: u32)) > 1 / 2 \<longleftrightarrow> 2 * m > n"
proof -
  have "unat (of_nat m :: u32) = m" "unat (of_nat n :: u32) = n"
    using assms by (simp_all add: unat_of_nat_small)
  moreover have "rat_of_nat m / rat_of_nat n > 1 / 2 \<longleftrightarrow> rat_of_nat (2 * m) > rat_of_nat n"
    using assms(3) by (simp add: field_simps)
  ultimately show ?thesis by (simp only: of_nat_less_iff)
qed

lemma detector_rep_step:
  assumes rep: "detector_rep d evs d'" and len: "length evs + 1 < 2 ^ 32"
  shows "detector_rep d (evs @ [(peer, block, reply)]) (oos_blockReceivedCallback peer block reply d')"
proof (cases "\<not> reply \<and> uid_of block = oos_newest_block_id d + 1")
  case True
  let ?m = "map_put peer (prev_of block = oos_newest_block_hash d) (peer_in_sync_map d')"
  have wf: "map_wf (peer_in_sync_map d')" and l: "length (peer_in_sync_map d') \<le> length evs"
    and h: "oos_newest_block_hash d' = oos_newest_block_hash d" "oos_newest_block_id d' = oos_newest_block_id d"
    and find: "map_find (peer_in_sync_map d') = verdict d evs"
    using rep by (simp_all add: detector_rep_def)
  have lm: "length ?m \<le> length evs + 1" using l by (simp add: length_map_put [OF wf])
  have "0 < length ?m" by (cases "peer_in_sync_map d'") (auto split: if_splits)
  then have maj: "rat_of_nat (unat (of_nat (length (filter (\<lambda>kv. \<not> snd kv) ?m)) :: u32)) /
      rat_of_nat (unat (of_nat (length ?m) :: u32)) > 1 / 2 \<longleftrightarrow>
      2 * length (filter (\<lambda>kv. \<not> snd kv) ?m) > length ?m"
    using lm len by (intro majority_rat) auto
  have "map_find ?m = verdict d (evs @ [(peer, block, reply)])"
    using True find by (simp add: fun_eq_iff map_find_put verdict_def)
  then show ?thesis
    using True rep wf lm maj h
    by (simp add: detector_rep_def oos_blockReceivedCallback_def Let_def wf_intros)
next
  case False
  then have "verdict d (evs @ [(peer, block, reply)]) = verdict d evs" by (auto simp: fun_eq_iff verdict_def)
  with False rep show ?thesis
    by (auto simp: detector_rep_def oos_blockReceivedCallback_def)
qed

lemma detector_rep_run:
  "detector_rep d evs d' \<Longrightarrow> length evs + length evs' < 2 ^ 32 \<Longrightarrow> detector_rep d (evs @ evs') (oos_run evs' d')"
proof (induction evs' arbitrary: evs d')
  case (Cons ev evs')
  obtain peer block reply where ev: "ev = (peer, block, reply)" by (cases ev) auto
  have "detector_rep d (evs @ [ev]) (oos_blockReceivedCallback peer block reply d')"
    unfolding ev using Cons.prems by (intro detector_rep_step) auto
  from Cons.IH [OF this] Cons.prems(2) show ?case by (simp add: oos_run_def ev)
qed (simp add: oos_run_def)

text \<open>Two of three peers refer to another newest block than the sample chain's.\<close>

definition sample_votes :: "(peer_id_t \<times> CollectionBlock \<times> bool) list" where
  "sample_votes =
     (let root = sample_root (sample_env True);
          agree = next_block (sample_env True) (Baseline root) [] [];
          differ = set_prev (hash_of root + 1) agree
      in [(''a'', differ, False), (''b'', agree, False), (''c'', agree, False), (''b'', differ, False)])"

section \<open>Property\<close>

text \<open>
  C39: after a restart of the check cycle and any sequence of messages, the detector reports out of
  sync exactly if the clock did not fit the newest block at the restart, or, among the peers whose
  last counted message (no reply, next block id) is known, a strict majority refers to a
  different newest block.
\<close>

theorem out_of_sync_iff_majority:
  assumes "restartCheckCycle E now bc d\<^sub>0 = Inr d" "length evs < 2 ^ 32"
  shows "isOutOfSync (oos_run evs d) \<longleftrightarrow>
    getBlockId now \<noteq> oos_newest_block_id d \<or>
    2 * card {p. verdict d evs p = Some False} > card {p. verdict d evs p \<noteq> None}"
proof -
  have "detector_rep d [] d" and t: "time_out_of_sync d = (getBlockId now \<noteq> oos_newest_block_id d)"
    using assms(1)
    by (auto simp: restartCheckCycle_def res_simps Let_def detector_rep_def verdict_def fun_eq_iff)
  from detector_rep_run [OF this(1), of evs] assms(2)
  have rep: "detector_rep d evs (oos_run evs d)" by simp
  let ?m = "peer_in_sync_map (oos_run evs d)"
  have wf: "map_wf ?m" and find: "map_find ?m = verdict d evs" using rep by (simp_all add: detector_rep_def)
  have f: "(\<lambda>kv. snd kv = False) = (\<lambda>kv :: peer_id_t \<times> bool. \<not> snd kv)" by auto
  show ?thesis
    using rep t card_map_find [OF wf] unfolding find isOutOfSync_def detector_rep_def by (auto simp: f)
qed

theorem out_of_sync_iff_majority_witness:
  "\<exists>d. restartCheckCycle (sample_env True) (12892962 * 120000) (sample_chain (sample_env True)) OutOfSyncDetector_new
     = Inr d \<and> getBlockId (12892962 * 120000) = oos_newest_block_id d \<and> isOutOfSync (oos_run sample_votes d)"
proof -
  let ?E = "sample_env True" and ?root = "sample_root (sample_env True)"
  let ?now = "12892962 * 120000 :: blockchain_time_t"
  obtain d where d: "restartCheckCycle ?E ?now (sample_chain ?E) OutOfSyncDetector_new = Inr d"
    and f: "oos_newest_block_hash d = hash_of ?root" "oos_newest_block_id d = 1"
    by (auto simp: restartCheckCycle_def Let_def sample_chain_newest)
  have "verdict d sample_votes = [''a'' \<mapsto> False, ''b'' \<mapsto> False, ''c'' \<mapsto> True]"
    by (auto simp: fun_eq_iff verdict_def sample_votes_def Let_def f next_block_facts)
  then have "{p. verdict d sample_votes p = Some False} = {''a'', ''b''}"
    "{p. verdict d sample_votes p \<noteq> None} = {''a'', ''b'', ''c''}"
    by (auto split: if_splits)
  then have "isOutOfSync (oos_run sample_votes d)"
    using out_of_sync_iff_majority [OF d, of sample_votes] by (simp add: sample_votes_def Let_def)
  moreover have "getBlockId ?now = oos_newest_block_id d" unfolding f by (simp add: getBlockId_def cycle_length_ms_def)
  ultimately show ?thesis using d by blast
qed

end
