(* ===== verification/Peers_Monitor.thy ===== *)
theory Peers_Monitor
  imports Block_Definitions
begin

text \<open>
  The class \<open>PeersMonitor\<close> of src/src/scn/BlockchainManager/PeersMonitor.cpp and .h: per peer the
  times of its last 50 block messages and the number of its violations. \<open>sync_timer_.now()\<close> is an
  argument of the calls; \<open>p2p_connector_.banPeer\<close> appends to \<open>banned\<close>.
\<close>

section \<open>Definitions\<close>

definition message_history_size :: u32 where "message_history_size = 50"
definition num_tolerated_violations :: u32 where "num_tolerated_violations = 3"
definition time_between_propagations_ms :: blockchain_time_t where "time_between_propagations_ms = 4000"
definition min_allowed_avg_time_between_propagations_ms :: u32 where
  "min_allowed_avg_time_between_propagations_ms = ucast (time_between_propagations_ms * 4 div 5)"

record PeersMonitor =
  peer_message_history :: "(peer_id_t, blockchain_time_t list) std_map"
  peer_violations_map :: "(peer_id_t, u32) std_map"
  banned :: "peer_id_t list"

definition PeersMonitor_new :: PeersMonitor where
  "PeersMonitor_new = \<lparr>peer_message_history = [], peer_violations_map = [], banned = []\<rparr>"

definition reportViolation :: "peer_id_t \<Rightarrow> PeersMonitor \<Rightarrow> PeersMonitor" where
  "reportViolation peer pm =
     (let m = map_modify peer 0 (\<lambda>violations. violations + 1) (peer_violations_map pm);
          pm = pm\<lparr>peer_violations_map := m\<rparr>
      in if map_lookup0 0 m peer > num_tolerated_violations then pm\<lparr>banned := banned pm @ [peer]\<rparr> else pm)"

text \<open>The list after \<open>push_back\<close> and \<open>pop_front\<close>, and the test on its ends.\<close>

definition push_history :: "blockchain_time_t \<Rightarrow> blockchain_time_t list \<Rightarrow> blockchain_time_t list" where
  "push_history now hist =
     (let l = hist @ [now] in if length l > unat message_history_size then tl l else l)"

definition too_fast :: "blockchain_time_t list \<Rightarrow> bool" where
  "too_fast hist \<longleftrightarrow> length hist = unat message_history_size \<and>
     last hist - hd hist < ucast (min_allowed_avg_time_between_propagations_ms * (message_history_size - 1))"

definition pm_blockReceivedCallback ::
    "blockchain_time_t \<Rightarrow> peer_id_t \<Rightarrow> CollectionBlock \<Rightarrow> bool \<Rightarrow> PeersMonitor \<Rightarrow> PeersMonitor" where
  "pm_blockReceivedCallback now peer block reply pm =
     (if reply then pm
      else
        (let hist = push_history now (map_lookup0 [] (peer_message_history pm) peer)
         in if too_fast hist then
              reportViolation peer (pm\<lparr>peer_message_history := map_put peer [] (peer_message_history pm)\<rparr>)
            else pm\<lparr>peer_message_history := map_put peer hist (peer_message_history pm)\<rparr>))"

section \<open>Violations\<close>

definition violations :: "peer_id_t \<Rightarrow> PeersMonitor \<Rightarrow> u32" where
  "violations peer pm = map_lookup0 0 (peer_violations_map pm) peer"

lemma reportViolation_violations:
  "violations p (reportViolation q pm) = (if p = q then violations q pm + 1 else violations p pm)"
  by (simp add: violations_def reportViolation_def Let_def map_lookup0_modify)

lemma violations_history [simp]: "violations p (pm\<lparr>peer_message_history := h\<rparr>) = violations p pm"
  by (simp add: violations_def)

lemma reportViolation_history [simp]:
  "peer_message_history (reportViolation q pm) = peer_message_history pm"
  by (simp add: reportViolation_def Let_def)

lemma reportViolation_banned:
  "banned (reportViolation q pm) = (if violations q pm + 1 > 3 then banned pm @ [q] else banned pm)"
  by (simp add: reportViolation_def Let_def map_lookup0_modify violations_def num_tolerated_violations_def)

text \<open>Only peers with more than three violations are banned, and reporting never forgets one.\<close>

definition monitor_inv :: "PeersMonitor \<Rightarrow> bool" where
  "monitor_inv pm \<longleftrightarrow> (\<forall>p \<in> set (banned pm). violations p pm > 3)"

lemma monitor_inv_report:
  assumes "monitor_inv pm" "violations q pm \<noteq> - 1"
  shows "monitor_inv (reportViolation q pm)"
proof -
  have "violations q pm < violations q pm + 1" using assms(2) by (rule word_less_plus_1)
  with assms(1) show ?thesis
    by (auto simp: monitor_inv_def reportViolation_violations reportViolation_banned dest: less_trans)
qed

section \<open>A peer that keeps to the protocol\<close>

text \<open>Times that are at least 3200 milliseconds apart, none of them later than \<open>now\<close> minus that.\<close>

fun spaced :: "blockchain_time_t list \<Rightarrow> bool" where
  "spaced (a # b # l) = (unat a + 3200 \<le> unat b \<and> spaced (b # l))"
| "spaced _ = True"

lemma spaced_snoc: "spaced (l @ [a, b]) \<longleftrightarrow> spaced (l @ [a]) \<and> unat a + 3200 \<le> unat b"
  by (induction l rule: spaced.induct) auto

lemma spaced_tl: "spaced l \<Longrightarrow> spaced (tl l)"
  by (cases l rule: spaced.cases) auto

lemma spaced_ends: "spaced (a # l) \<Longrightarrow> unat a + 3200 * length l \<le> unat (last (a # l))"
  by (induction l arbitrary: a) force+

lemma spaced_push:
  assumes "spaced l" "l = [] \<or> unat (last l) + 3200 \<le> unat now"
  shows "spaced (push_history now l)" "last (push_history now l) = now" "push_history now l \<noteq> []"
proof -
  have s: "spaced (l @ [now])"
    using assms by (cases l rule: rev_cases) (auto simp: spaced_snoc)
  then show "spaced (push_history now l)"
    by (simp add: push_history_def Let_def spaced_tl)
  show "last (push_history now l) = now" "push_history now l \<noteq> []"
    by (auto simp: push_history_def Let_def message_history_size_def last_tl tl_append split: list.splits)
qed

lemma spaced_not_too_fast: "spaced l \<Longrightarrow> \<not> too_fast l"
proof
  assume s: "spaced l" and "too_fast l"
  then have len: "length l = 50" and lt: "last l - hd l < 156800"
    by (simp_all add: too_fast_def message_history_size_def min_allowed_avg_time_between_propagations_ms_def
        time_between_propagations_ms_def)
  then obtain a m where l: "l = a # m" "length m = 49" by (cases l) auto
  have "unat a + 156800 \<le> unat (last l)" using spaced_ends [of a m] s l by simp
  then have "unat (last l - hd l) = unat (last l) - unat a"
    using l by (simp add: unat_sub word_le_nat_alt)
  with lt \<open>unat a + 156800 \<le> unat (last l)\<close> show False by (simp add: word_less_nat_alt)
qed

text \<open>A run of messages of several peers, each with its time.\<close>

definition pm_run :: "(blockchain_time_t \<times> peer_id_t \<times> CollectionBlock \<times> bool) list \<Rightarrow> PeersMonitor \<Rightarrow> PeersMonitor" where
  "pm_run evs pm = fold (\<lambda>(now, peer, block, reply). pm_blockReceivedCallback now peer block reply) evs pm"

definition times_of :: "peer_id_t \<Rightarrow> (blockchain_time_t \<times> peer_id_t \<times> CollectionBlock \<times> bool) list \<Rightarrow> blockchain_time_t list" where
  "times_of p evs = map fst (filter (\<lambda>(now, peer, block, reply). peer = p \<and> \<not> reply) evs)"

definition polite :: "peer_id_t \<Rightarrow> blockchain_time_t option \<Rightarrow> PeersMonitor \<Rightarrow> bool" where
  "polite p t pm \<longleftrightarrow> spaced (map_lookup0 [] (peer_message_history pm) p) \<and>
     (map_lookup0 [] (peer_message_history pm) p = [] \<or>
      (\<exists>now. t = Some now \<and> last (map_lookup0 [] (peer_message_history pm) p) = now))"

lemma polite_other:
  "polite p t pm \<Longrightarrow> q \<noteq> p \<or> reply \<Longrightarrow>
   polite p t (pm_blockReceivedCallback now q block reply pm) \<and>
   violations p (pm_blockReceivedCallback now q block reply pm) = violations p pm"
  by (auto simp: polite_def pm_blockReceivedCallback_def Let_def map_lookup0_put reportViolation_violations)

lemma polite_own:
  assumes "polite p t pm" "\<forall>t'. t = Some t' \<longrightarrow> unat t' + 3200 \<le> unat now"
  shows "polite p (Some now) (pm_blockReceivedCallback now p block False pm) \<and>
    violations p (pm_blockReceivedCallback now p block False pm) = violations p pm"
proof -
  let ?h = "map_lookup0 [] (peer_message_history pm) p"
  have "spaced ?h" "?h = [] \<or> unat (last ?h) + 3200 \<le> unat now"
    using assms by (auto simp: polite_def)
  note push = spaced_push [OF this]
  show ?thesis
    using push spaced_not_too_fast [OF push(1)]
    by (simp add: polite_def pm_blockReceivedCallback_def Let_def map_lookup0_put)
qed

lemma polite_run:
  "polite p t pm \<Longrightarrow> spaced (case t of None \<Rightarrow> times_of p evs | Some t' \<Rightarrow> t' # times_of p evs) \<Longrightarrow>
   violations p (pm_run evs pm) = violations p pm"
proof (induction evs arbitrary: t pm)
  case (Cons ev evs)
  obtain now q block reply where ev: "ev = (now, q, block, reply)" by (cases ev) auto
  show ?case
  proof (cases "q = p \<and> \<not> reply")
    case True
    then have "\<forall>t'. t = Some t' \<longrightarrow> unat t' + 3200 \<le> unat now" "spaced (now # times_of p evs)"
      using Cons.prems(2) by (auto simp: ev times_of_def split: option.splits)
    with True polite_own [OF Cons.prems(1), of now block] Cons.IH [of "Some now"] show ?thesis
      by (simp add: pm_run_def ev)
  next
    case False
    then have "times_of p (ev # evs) = times_of p evs" by (auto simp: ev times_of_def)
    then have "spaced (case t of None \<Rightarrow> times_of p evs | Some t' \<Rightarrow> t' # times_of p evs)"
      using Cons.prems(2) by (cases t) simp_all
    then have "violations p (pm_run evs (pm_blockReceivedCallback now q block reply pm)) = violations p pm"
      using False polite_other [OF Cons.prems(1), of q reply now block] Cons.IH [of t] by auto
    then show ?thesis by (simp add: pm_run_def ev)
  qed
qed (simp add: pm_run_def)

section \<open>Properties\<close>

text \<open>
  A peer whose block messages are at least 3200 milliseconds apart (four fifths of the
  protocol's 4000) is never charged with a violation by the message counter, however the messages
  of other peers interleave with its own.
\<close>

theorem spaced_peer_not_reported:
  assumes "spaced (times_of p evs)"
  shows "violations p (pm_run evs PeersMonitor_new) = 0"
proof -
  have "polite p None PeersMonitor_new" by (simp add: polite_def PeersMonitor_new_def)
  from polite_run [OF this] assms show ?thesis by (simp add: violations_def PeersMonitor_new_def)
qed

theorem spaced_peer_not_reported_witness:
  "violations ''p'' (pm_run [(0, ''p'', new_CollectionBlock, False), (1, ''q'', new_CollectionBlock, False),
     (4000, ''p'', new_CollectionBlock, False)] PeersMonitor_new) = 0"
  using spaced_peer_not_reported [of "''p''" "[(0, ''p'', new_CollectionBlock, False),
     (1, ''q'', new_CollectionBlock, False), (4000, ''p'', new_CollectionBlock, False)]"]
  by (simp add: times_of_def)

end
