(* ===== verification/Active_Peers_Collector.thy ===== *)
theory Active_Peers_Collector
  imports P2P_Definitions Crypto_Helper
begin

text \<open>
  The class \<open>ActivePeersCollector\<close> of src/src/scn/BlockchainManager/ActivePeersCollector.cpp: a Bloom
  filter of the keys of active peers, merged with the filters of other peers. The estimate
  \<open>numHashEstimation\<close>, floating-point logarithms converted to \<open>uint64_t\<close>, is the argument \<open>est\<close>;
  the theory \<open>Peer_Estimation\<close> defines it.
\<close>

section \<open>Definitions\<close>

record ActivePeersCollector =
  owner_key_hash :: hash_t
  temp_active_peers_list :: ActivePeersList
  total_active_peers :: u64

definition blocks_to_collect_active_peers :: u32 where "blocks_to_collect_active_peers = 30"

definition ActivePeersCollector_new :: "'ctx env \<Rightarrow> public_key_t \<Rightarrow> ActivePeersCollector" where
  "ActivePeersCollector_new E owner_key =
     \<lparr>owner_key_hash = calcHash E (getAsShortString owner_key), temp_active_peers_list = new_ActivePeersList,
      total_active_peers = 0\<rparr>"

definition activePeersListReceivedCallback ::
    "peer_id_t \<Rightarrow> ActivePeersList \<Rightarrow> ActivePeersCollector \<Rightarrow> ActivePeersCollector" where
  "activePeersListReceivedCallback peer l a =
     a\<lparr>temp_active_peers_list := bloom_merge (temp_active_peers_list a) l\<rparr>"

definition restartListBuilding :: "(ActivePeersList \<Rightarrow> u64) \<Rightarrow> ActivePeersCollector \<Rightarrow> ActivePeersCollector" where
  "restartListBuilding est a =
     (let a = a\<lparr>total_active_peers := est (temp_active_peers_list a)\<rparr>;
          a = a\<lparr>temp_active_peers_list := bloom_clear bloom_bytes\<rparr>
      in a\<lparr>temp_active_peers_list := insertHash bloom_bytes (owner_key_hash a) (temp_active_peers_list a)\<rparr>)"

definition propagate :: "ActivePeersCollector \<Rightarrow> p2p_call list" where
  "propagate a = [propagateActivePeersList_call (temp_active_peers_list a)]"

definition getActivePeers :: "(ActivePeersList \<Rightarrow> u64) \<Rightarrow> ActivePeersCollector \<Rightarrow> u64" where
  "getActivePeers est a = max (total_active_peers a) (est (temp_active_peers_list a))"

section \<open>Lemmas\<close>

lemma bloom_wf_peers: "bloom_wf bloom_bytes l \<longleftrightarrow> length l = bloom_bytes"
  by (simp add: bloom_wf_def bloom_bytes_def)

definition merge_lists :: "(peer_id_t \<times> ActivePeersList) list \<Rightarrow> ActivePeersCollector \<Rightarrow> ActivePeersCollector" where
  "merge_lists evs a = fold (\<lambda>(peer, l). activePeersListReceivedCallback peer l) evs a"

lemma merge_lists_wf:
  "bloom_wf bloom_bytes (temp_active_peers_list a) \<Longrightarrow> \<forall>(peer, l) \<in> set evs. length l = bloom_bytes \<Longrightarrow>
   bloom_wf bloom_bytes (temp_active_peers_list (merge_lists evs a))"
  by (induction evs arbitrary: a)
    (auto simp: merge_lists_def activePeersListReceivedCallback_def bloom_wf_peers bloom_merge_def)

lemma merge_lists_found:
  assumes "bloom_wf bloom_bytes (temp_active_peers_list a)" "\<forall>(peer, l) \<in> set evs. length l = bloom_bytes"
    and "findHash bloom_bytes h (temp_active_peers_list a) \<or> (\<exists>(peer, l) \<in> set evs. findHash bloom_bytes h l)"
  shows "findHash bloom_bytes h (temp_active_peers_list (merge_lists evs a))"
  using assms
proof (induction evs arbitrary: a)
  case (Cons ev evs)
  obtain peer l where ev: "ev = (peer, l)" by (cases ev)
  let ?a = "activePeersListReceivedCallback peer l a"
  have l: "bloom_wf bloom_bytes l" using Cons.prems(2) by (simp add: ev bloom_wf_peers)
  have wf: "bloom_wf bloom_bytes (temp_active_peers_list ?a)"
    using Cons.prems(1) l by (simp add: activePeersListReceivedCallback_def bloom_wf_merge)
  have "findHash bloom_bytes h (temp_active_peers_list ?a) \<or> (\<exists>(peer, l) \<in> set evs. findHash bloom_bytes h l)"
    using Cons.prems(3) findHash_merge [OF Cons.prems(1) l]
    by (auto simp: ev activePeersListReceivedCallback_def)
  from Cons.IH [OF wf _ this] Cons.prems(2) show ?case by (simp add: merge_lists_def ev)
qed (simp add: merge_lists_def)

section \<open>Property\<close>

text \<open>
  After a restart, the list a node propagates contains its own key and every key that any list
  received since contains, also those its peers only know from others.
\<close>

theorem collected_peers_propagated:
  assumes "\<forall>(peer, l) \<in> set evs. length l = bloom_bytes"
    and "h = owner_key_hash a \<or> (\<exists>(peer, l) \<in> set evs. findHash bloom_bytes h l)"
  shows "\<exists>l. propagate (merge_lists evs (restartListBuilding est a)) = [propagateActivePeersList_call l] \<and>
    length l = bloom_bytes \<and> findHash bloom_bytes h l"
proof -
  let ?a = "restartListBuilding est a"
  have c: "bloom_wf bloom_bytes (bloom_clear bloom_bytes)" by (simp add: bloom_wf_peers bloom_clear_def)
  then have wf: "bloom_wf bloom_bytes (temp_active_peers_list ?a)"
    and own: "findHash bloom_bytes (owner_key_hash a) (temp_active_peers_list ?a)"
    by (simp_all add: restartListBuilding_def Let_def bloom_wf_insert insertHash_found)
  have "findHash bloom_bytes h (temp_active_peers_list (merge_lists evs ?a))"
    using assms own by (intro merge_lists_found [OF wf]) auto
  then show ?thesis using merge_lists_wf [OF wf assms(1)] by (simp add: propagate_def bloom_wf_peers)
qed

theorem collected_peers_propagated_witness:
  "\<exists>l. propagate (merge_lists [(''P'', new_ActivePeersList)] (restartListBuilding (\<lambda>_. 0)
       \<lparr>owner_key_hash = 77, temp_active_peers_list = new_ActivePeersList, total_active_peers = 0\<rparr>)) =
     [propagateActivePeersList_call l] \<and> findHash bloom_bytes 77 l"
  using collected_peers_propagated [of "[(''P'', new_ActivePeersList)]" 77
      "\<lparr>owner_key_hash = 77, temp_active_peers_list = new_ActivePeersList, total_active_peers = 0\<rparr>" "\<lambda>_. 0"]
  by auto

end
