(* ===== verification/Block_Fetch_Agent.thy ===== *)
theory Block_Fetch_Agent
  imports P2P_Definitions
begin

text \<open>
  The template \<open>BlockFetchAgent\<close> of src/src/scn/BlockchainManager/BlockFetchAgent.h and .cpp: it asks
  for one block again and again until a matching one has arrived. The block type is the record's
  extension; \<open>sync_timer_.now()\<close> is an argument, the calls on the connector are returned.
\<close>

section \<open>Definitions\<close>

record 'b BlockFetchAgent =
  fetch_timeout_ms :: u32
  agent_block_id :: block_uid_t
  received_block :: "(peer_id_t \<times> 'b) option"
  next_fetch_time :: blockchain_time_t

definition default_fetch_timeout_ms :: u32 where "default_fetch_timeout_ms = 2000"

definition BlockFetchAgent_new :: "blockchain_time_t \<Rightarrow> block_uid_t \<Rightarrow> u32 \<Rightarrow> 'b BlockFetchAgent" where
  "BlockFetchAgent_new now block_id timeout =
     \<lparr>fetch_timeout_ms = timeout, agent_block_id = block_id, received_block = None, next_fetch_time = now\<rparr>"

definition agent_onCycle_collection ::
    "blockchain_time_t \<Rightarrow> CollectionBlock BlockFetchAgent \<Rightarrow> p2p_call list \<times> CollectionBlock BlockFetchAgent" where
  "agent_onCycle_collection now a =
     (if now \<ge> next_fetch_time a
      then ([askForBlock_call (agent_block_id a)], a\<lparr>next_fetch_time := next_fetch_time a + ucast (fetch_timeout_ms a)\<rparr>)
      else ([], a))"

definition agent_onCycle_baseline ::
    "blockchain_time_t \<Rightarrow> BaselineBlock BlockFetchAgent \<Rightarrow> p2p_call list \<times> BaselineBlock BlockFetchAgent" where
  "agent_onCycle_baseline now a =
     (if now \<ge> next_fetch_time a
      then ([askForLastBaselineBlock_call], a\<lparr>next_fetch_time := next_fetch_time a + ucast (fetch_timeout_ms a)\<rparr>)
      else ([], a))"

definition getReceivedBlock :: "'b BlockFetchAgent \<Rightarrow> (peer_id_t \<times> 'b) option" where
  "getReceivedBlock a = received_block a"

definition agent_blockReceivedCallback ::
    "peer_id_t \<Rightarrow> 'a BaseBlock_scheme \<Rightarrow> 'a BaseBlock_scheme BlockFetchAgent \<Rightarrow> 'a BaseBlock_scheme BlockFetchAgent" where
  "agent_blockReceivedCallback peer block a =
     (if received_block a = None \<and> (agent_block_id a = 0 \<or> uid_of block = agent_block_id a)
      then a\<lparr>received_block := Some (peer, block)\<rparr> else a)"

definition agent_restart :: "blockchain_time_t \<Rightarrow> 'b BlockFetchAgent \<Rightarrow> 'b BlockFetchAgent" where
  "agent_restart now a = a\<lparr>received_block := None, next_fetch_time := now\<rparr>"

section \<open>Runs of an agent\<close>

text \<open>The agent of a collection block between two restarts: cycles at given times, and incoming blocks.\<close>

datatype agent_event = AgentCycle blockchain_time_t | AgentBlock peer_id_t CollectionBlock

fun agent_step ::
    "agent_event \<Rightarrow> p2p_call list \<times> CollectionBlock BlockFetchAgent \<Rightarrow> p2p_call list \<times> CollectionBlock BlockFetchAgent" where
  "agent_step (AgentCycle now) (out, a) = (let (calls, a) = agent_onCycle_collection now a in (out @ calls, a))"
| "agent_step (AgentBlock peer block) (out, a) = (out, agent_blockReceivedCallback peer block a)"

definition agent_run :: "agent_event list \<Rightarrow> CollectionBlock BlockFetchAgent \<Rightarrow> p2p_call list \<times> CollectionBlock BlockFetchAgent" where
  "agent_run evs a = fold agent_step evs ([], a)"

fun cycle_times :: "agent_event list \<Rightarrow> blockchain_time_t list" where
  "cycle_times [] = []"
| "cycle_times (AgentCycle now # evs) = now # cycle_times evs"
| "cycle_times (AgentBlock p b # evs) = cycle_times evs"

fun incoming_blocks :: "agent_event list \<Rightarrow> (peer_id_t \<times> CollectionBlock) list" where
  "incoming_blocks [] = []"
| "incoming_blocks (AgentCycle now # evs) = incoming_blocks evs"
| "incoming_blocks (AgentBlock p b # evs) = (p, b) # incoming_blocks evs"

lemma incoming_blocks_append [simp]: "incoming_blocks (evs @ evs') = incoming_blocks evs @ incoming_blocks evs'"
  by (induction evs rule: incoming_blocks.induct) simp_all

lemma cycle_times_append [simp]: "cycle_times (evs @ evs') = cycle_times evs @ cycle_times evs'"
  by (induction evs rule: cycle_times.induct) simp_all

definition agent_rep ::
    "blockchain_time_t \<Rightarrow> block_uid_t \<Rightarrow> u32 \<Rightarrow> agent_event list \<Rightarrow> p2p_call list \<times> CollectionBlock BlockFetchAgent \<Rightarrow> bool" where
  "agent_rep start uid timeout evs s \<longleftrightarrow>
     agent_block_id (snd s) = uid \<and> fetch_timeout_ms (snd s) = timeout \<and>
     fst s = replicate (length (fst s)) (askForBlock_call uid) \<and>
     unat (next_fetch_time (snd s)) = unat start + length (fst s) * unat timeout \<and>
     (fst s \<noteq> [] \<longrightarrow> (\<exists>t \<in> set (cycle_times evs). unat start + (length (fst s) - 1) * unat timeout \<le> unat t)) \<and>
     received_block (snd s) = find (\<lambda>(p, b). uid = 0 \<or> uid_of b = uid) (incoming_blocks evs)"

lemma find_append: "find P (xs @ ys) = (case find P xs of None \<Rightarrow> find P ys | Some x \<Rightarrow> Some x)"
  by (induction xs) auto

lemma agent_rep_event:
  assumes rep: "agent_rep start uid timeout evs s"
    and t: "\<forall>t \<in> set (cycle_times [ev]). unat t + unat timeout < 2 ^ 64"
  shows "agent_rep start uid timeout (evs @ [ev]) (agent_step ev s)"
proof -
  obtain out a where s: "s = (out, a)" by (cases s)
  note r = rep [unfolded agent_rep_def s fst_conv snd_conv]
  show ?thesis
  proof (cases ev)
    case (AgentCycle now)
    show ?thesis
    proof (cases "now \<ge> next_fetch_time a")
      case True
      then have le: "unat start + length out * unat timeout \<le> unat now"
        using r by (simp add: word_le_nat_alt)
      have "unat (next_fetch_time a) + unat timeout < 2 ^ 64"
        using True t AgentCycle by (simp add: word_le_nat_alt)
      then have "unat (next_fetch_time a + ucast timeout) = unat (next_fetch_time a) + unat timeout"
        by (simp add: unat_word_ariths unat_ucast_u32)
      moreover have "out @ [askForBlock_call uid] = replicate (Suc (length out)) (askForBlock_call uid)"
        using r by (metis append_Cons append_Nil replicate_Suc replicate_append_same)
      ultimately show ?thesis
        using r le True AgentCycle
        by (simp add: agent_rep_def s agent_onCycle_collection_def find_append split: option.split)
    next
      case False
      then show ?thesis
        using r AgentCycle by (auto simp: agent_rep_def s agent_onCycle_collection_def)
    qed
  next
    case (AgentBlock p b)
    then show ?thesis
      using r by (auto simp: agent_rep_def s agent_blockReceivedCallback_def find_append split: option.split)
  qed
qed

lemma agent_rep_run:
  assumes "\<forall>t \<in> set (cycle_times evs). unat t + unat timeout < 2 ^ 64"
  shows "agent_rep start uid timeout evs (agent_run evs (BlockFetchAgent_new start uid timeout))"
  using assms
proof (induction evs rule: rev_induct)
  case Nil
  show ?case by (simp add: agent_rep_def agent_run_def BlockFetchAgent_new_def)
next
  case (snoc ev evs)
  then show ?case by (auto simp: agent_run_def intro!: agent_rep_event)
qed

section \<open>Property\<close>

text \<open>
  Between two restarts an agent keeps the first incoming block with the id it waits for, ignores
  all others, only ever asks for that id, and asks at most once per timeout: up to any time \<open>T\<close> no
  more than \<open>(T - start) div timeout + 1\<close> times.
\<close>

theorem fetch_agent_keeps_first_and_rate:
  assumes "timeout \<noteq> 0" "\<forall>t \<in> set (cycle_times evs). unat t \<le> T" "T + unat timeout < 2 ^ 64"
  shows "case agent_run evs (BlockFetchAgent_new start uid timeout) of (calls, a) \<Rightarrow>
    getReceivedBlock a = find (\<lambda>(p, b). uid = 0 \<or> uid_of b = uid) (incoming_blocks evs) \<and>
    calls = replicate (length calls) (askForBlock_call uid) \<and>
    length calls \<le> (T - unat start) div unat timeout + 1"
proof -
  obtain calls a where run: "agent_run evs (BlockFetchAgent_new start uid timeout) = (calls, a)" by fastforce
  have "agent_rep start uid timeout evs (calls, a)"
    using agent_rep_run [of evs timeout start uid] assms by (fastforce simp: run)
  then have r: "received_block a = find (\<lambda>(p, b). uid = 0 \<or> uid_of b = uid) (incoming_blocks evs)"
    "calls = replicate (length calls) (askForBlock_call uid)"
    "calls \<noteq> [] \<longrightarrow> (\<exists>t \<in> set (cycle_times evs). unat start + (length calls - 1) * unat timeout \<le> unat t)"
    by (simp_all add: agent_rep_def)
  have "length calls \<le> (T - unat start) div unat timeout + 1"
  proof (cases "calls = []")
    case False
    then obtain t where "t \<in> set (cycle_times evs)" "unat start + (length calls - 1) * unat timeout \<le> unat t"
      using r(3) by blast
    then have "(length calls - 1) * unat timeout \<le> T - unat start" using assms(2) by fastforce
    then have "length calls - 1 \<le> (T - unat start) div unat timeout"
      using assms(1) by (simp add: less_eq_div_iff_mult_less_eq unat_gt_0)
    then show ?thesis by simp
  qed simp
  with r(1,2) show ?thesis by (simp add: run getReceivedBlock_def)
qed

theorem fetch_agent_keeps_first_and_rate_witness:
  "case agent_run [AgentCycle 100, AgentBlock ''x'' (set_uid 8 new_CollectionBlock),
       AgentBlock ''y'' (set_uid 7 new_CollectionBlock), AgentCycle 200] (BlockFetchAgent_new 100 7 2000) of
     (calls, a) \<Rightarrow> getReceivedBlock a = Some (''y'', set_uid 7 new_CollectionBlock) \<and> length calls \<le> 1"
  using fetch_agent_keeps_first_and_rate [of 2000 "[AgentCycle 100, AgentBlock ''x'' (set_uid 8 new_CollectionBlock),
       AgentBlock ''y'' (set_uid 7 new_CollectionBlock), AgentCycle 200]" 200 7 100]
  by (simp add: case_prod_unfold)

end
