(* ===== verification/Miner_Local.thy ===== *)
theory Miner_Local
  imports Hash_Area Sample_Environment
begin

text \<open>
  The class \<open>MinerLocal\<close> of src/src/scn/Miner/MinerLocal.cpp: worker threads that append growing
  hexadecimal numbers to a prefix and report every text whose hash lies in the epoch's area, and a
  thread that measures the rate. A worker is a value; one iteration of its loop is a step. The random
  number of a worker is an argument of \<open>start\<close>, the callback appends to \<open>found_values\<close>.
\<close>

section \<open>State\<close>

record 'ctx mining_worker =
  worker_prefix :: string
  hash_object_common :: 'ctx
  worker_value :: "1024 word"

text \<open>A joined \<open>std::thread\<close> stays in \<open>workers_\<close>, which is never cleared: \<open>None\<close>.\<close>

record 'ctx MinerLocal =
  miner_running :: bool
  num_worker_threads :: u32
  miner_workers :: "'ctx mining_worker option list"
  stats_check_counter :: u64
  stats_check_counter_per_sec :: u64
  previous_epoch_highest_hash :: hash_t
  owner_public_key :: public_key_t
  miner_epoch :: epoch_t
  min_allowed_value :: hash_t
  max_allowed_value :: hash_t
  found_values :: "(epoch_t \<times> string) list"

definition MinerLocal_new :: "u32 \<Rightarrow> 'ctx MinerLocal" where
  "MinerLocal_new n = \<lparr>miner_running = False, num_worker_threads = n, miner_workers = [],
     stats_check_counter = 0, stats_check_counter_per_sec = 0, previous_epoch_highest_hash = 0,
     owner_public_key = PublicKeyPEM '''', miner_epoch = 0, min_allowed_value = 0, max_allowed_value = 0,
     found_values = []\<rparr>"

section \<open>Workers\<close>

definition mining_prefix :: "hash_t \<Rightarrow> public_key_t \<Rightarrow> u32 \<Rightarrow> string" where
  "mining_prefix prev key random_value =
     hash_toString prev @ ''_'' @ getAsShortString key @ ''_'' @ dec_of_nat (unat random_value) @ ''_''"

definition miningThread_init :: "'ctx env \<Rightarrow> u32 \<Rightarrow> 'ctx MinerLocal \<Rightarrow> 'ctx mining_worker" where
  "miningThread_init E random_value m =
     (let prefix = mining_prefix (previous_epoch_highest_hash m) (owner_public_key m) random_value
      in \<lparr>worker_prefix = prefix, hash_object_common = Hash_update E (Hash_new E) prefix, worker_value = 0\<rparr>)"

definition payload_string :: "1024 word \<Rightarrow> string" where
  "payload_string v = hex_of_nat (unat v)"

text \<open>One pass through the loop of the worker with this index.\<close>

definition miningThread_iteration :: "'ctx env \<Rightarrow> nat \<Rightarrow> 'ctx MinerLocal \<Rightarrow> 'ctx MinerLocal" where
  "miningThread_iteration E i m =
     (if \<not> miner_running m \<or> length (miner_workers m) \<le> i then m
      else case miner_workers m ! i of None \<Rightarrow> m | Some w \<Rightarrow>
        (let payload = payload_string (worker_value w);
             hash = Hash_finalize E (Hash_update E (hash_object_common w) payload);
             m = m\<lparr>stats_check_counter := stats_check_counter m + 1\<rparr>;
             m = (if hash \<ge> min_allowed_value m \<and> hash \<le> max_allowed_value m
                  then m\<lparr>found_values := found_values m @ [(miner_epoch m, worker_prefix w @ payload)]\<rparr> else m)
         in m\<lparr>miner_workers := (miner_workers m)[i := Some (w\<lparr>worker_value := worker_value w + 1\<rparr>)]\<rparr>))"

text \<open>One pass of the statistics thread, with its local \<open>last_stats_check_counter\<close>, and its end.\<close>

definition statsThread_iteration :: "u64 \<Rightarrow> 'ctx MinerLocal \<Rightarrow> u64 \<times> 'ctx MinerLocal" where
  "statsThread_iteration last_counter m =
     (let current = stats_check_counter m;
          rate = (if current < last_counter then 0 else (current - last_counter) * 1000 div 1000)
      in (current, m\<lparr>stats_check_counter_per_sec := rate\<rparr>))"

section \<open>Control\<close>

text \<open>The joins wait for the threads; the statistics thread leaves a rate of zero.\<close>

definition miner_stop :: "'ctx MinerLocal \<Rightarrow> 'ctx MinerLocal" where
  "miner_stop m =
     m\<lparr>miner_running := False, stats_check_counter_per_sec := 0,
       miner_workers := map (\<lambda>_. None) (miner_workers m)\<rparr>"

definition miner_start ::
    "'ctx env \<Rightarrow> (nat \<Rightarrow> u32) \<Rightarrow> hash_t \<Rightarrow> public_key_t \<Rightarrow> epoch_t \<Rightarrow> 'ctx MinerLocal \<Rightarrow> 'ctx MinerLocal" where
  "miner_start E rnd prev key ep m =
     (let m = (if miner_running m then miner_stop m else m);
          m = m\<lparr>stats_check_counter := 0, stats_check_counter_per_sec := 0, previous_epoch_highest_hash := prev,
                owner_public_key := key, miner_epoch := ep, miner_running := True\<rparr>
      in case getHashArea ep of (mx, mn) \<Rightarrow>
           (let m = m\<lparr>max_allowed_value := mx, min_allowed_value := mn\<rparr>
            in m\<lparr>miner_workers := miner_workers m @
                   map (\<lambda>i. Some (miningThread_init E (rnd i) m)) [0..<unat (num_worker_threads m)]\<rparr>))"

definition changeNumWorkerThreads :: "'ctx env \<Rightarrow> (nat \<Rightarrow> u32) \<Rightarrow> u32 \<Rightarrow> 'ctx MinerLocal \<Rightarrow> 'ctx MinerLocal" where
  "changeNumWorkerThreads E rnd n m =
     (let m = (miner_stop m)\<lparr>num_worker_threads := n\<rparr>
      in miner_start E rnd (previous_epoch_highest_hash m) (owner_public_key m) (miner_epoch m) m)"

inductive miner_step :: "'ctx env \<Rightarrow> 'ctx MinerLocal \<Rightarrow> 'ctx MinerLocal \<Rightarrow> bool" for E where
  step_start: "miner_step E m (miner_start E rnd prev key ep m)"
| step_stop: "miner_step E m (miner_stop m)"
| step_threads: "miner_step E m (changeNumWorkerThreads E rnd n m)"
| step_mine: "miner_step E m (miningThread_iteration E i m)"
| step_stats: "statsThread_iteration l m = (l', m') \<Longrightarrow> miner_step E m m'"

section \<open>Lengths of the texts\<close>

lemma length_hex_of_nat: "0 < k \<Longrightarrow> n < 16 ^ k \<Longrightarrow> length (hex_of_nat n) \<le> k"
proof (induction n arbitrary: k rule: hex_of_nat.induct)
  case (1 n)
  show ?case
  proof (cases "n < 16")
    case True
    then show ?thesis using 1(2) by (subst hex_of_nat.simps) simp
  next
    case False
    then obtain j where j: "k = Suc j" "0 < j" using 1(2,3) by (cases k; cases "k - 1") auto
    then have "n div 16 < 16 ^ j" using 1(3) by (simp add: less_mult_imp_div_less mult.commute)
    then have "length (hex_of_nat (n div 16)) \<le> j" using 1(1) [OF False] j(2) by simp
    then show ?thesis using False j(1) by (subst hex_of_nat.simps) simp
  qed
qed

lemma length_dec_of_nat: "0 < k \<Longrightarrow> n < 10 ^ k \<Longrightarrow> length (dec_of_nat n) \<le> k"
proof (induction n arbitrary: k rule: dec_of_nat.induct)
  case (1 n)
  show ?case
  proof (cases "n < 10")
    case True
    then show ?thesis using 1(2) by (subst dec_of_nat.simps) simp
  next
    case False
    then obtain j where j: "k = Suc j" "0 < j" using 1(2,3) by (cases k; cases "k - 1") auto
    then have "n div 10 < 10 ^ j" using 1(3) by (simp add: less_mult_imp_div_less mult.commute)
    then have "length (dec_of_nat (n div 10)) \<le> j" using 1(1) [OF False] j(2) by simp
    then show ?thesis using False j(1) by (subst dec_of_nat.simps) simp
  qed
qed

lemma length_mined_text:
  "length (mining_prefix prev key r @ payload_string v) \<le> 333 + length (getAsShortString key)"
proof -
  have "length (hash_toString prev) \<le> 64"
    unfolding hash_toString_def using unsigned_less [of prev, where 'a = nat] by (intro length_hex_of_nat) simp_all
  moreover have "length (payload_string v) \<le> 256"
    unfolding payload_string_def using unsigned_less [of v, where 'a = nat] by (intro length_hex_of_nat) simp_all
  moreover have "length (dec_of_nat (unat r)) \<le> 10"
    using unsigned_less [of r, where 'a = nat] by (intro length_dec_of_nat) simp_all
  ultimately show ?thesis by (simp add: mining_prefix_def)
qed

section \<open>Invariant\<close>

definition worker_inv :: "'ctx env \<Rightarrow> hash_t \<Rightarrow> public_key_t \<Rightarrow> 'ctx mining_worker \<Rightarrow> bool" where
  "worker_inv E prev key w \<longleftrightarrow>
     (\<exists>r. worker_prefix w = mining_prefix prev key r) \<and>
     hash_object_common w = Hash_update E (Hash_new E) (worker_prefix w)"

definition miner_inv :: "'ctx env \<Rightarrow> 'ctx MinerLocal \<Rightarrow> bool" where
  "miner_inv E m \<longleftrightarrow>
     (miner_running m \<longrightarrow> getHashArea (miner_epoch m) = (max_allowed_value m, min_allowed_value m)) \<and>
     (\<not> miner_running m \<longrightarrow> set (miner_workers m) \<subseteq> {None}) \<and>
     (\<forall>w. Some w \<in> set (miner_workers m) \<longrightarrow>
        worker_inv E (previous_epoch_highest_hash m) (owner_public_key m) w)"

lemma miner_inv_new: "miner_inv E (MinerLocal_new n)"
  by (simp add: miner_inv_def MinerLocal_new_def)

lemma miner_inv_stop: "miner_inv E (miner_stop m)"
  by (auto simp: miner_inv_def miner_stop_def)

lemma miner_inv_start:
  assumes "miner_inv E m"
  shows "miner_inv E (miner_start E rnd prev key ep m)"
proof -
  let ?m = "if miner_running m then miner_stop m else m"
  have "set (miner_workers ?m) \<subseteq> {None}"
    using assms by (auto simp: miner_inv_def miner_stop_def)
  then show ?thesis
    by (auto simp: miner_inv_def miner_start_def Let_def miningThread_init_def worker_inv_def split: prod.split)
qed

lemma miner_inv_mine:
  assumes "miner_inv E m"
  shows "miner_inv E (miningThread_iteration E i m)"
proof (cases "miner_running m \<and> i < length (miner_workers m)")
  case True
  show ?thesis
  proof (cases "miner_workers m ! i")
    case None
    then show ?thesis using assms by (simp add: miningThread_iteration_def)
  next
    case (Some w)
    then have "Some w \<in> set (miner_workers m)" using True by (metis nth_mem)
    then have "worker_inv E (previous_epoch_highest_hash m) (owner_public_key m) (w\<lparr>worker_value := v\<rparr>)" for v
      using assms by (simp add: miner_inv_def worker_inv_def)
    with Some True assms show ?thesis
      by (auto simp: miner_inv_def miningThread_iteration_def Let_def dest: set_update_subset_insert [THEN subsetD])
  qed
qed (use assms in \<open>auto simp: miningThread_iteration_def\<close>)

lemma miner_inv_step: "miner_step E m m' \<Longrightarrow> miner_inv E m \<Longrightarrow> miner_inv E m'"
proof (induction rule: miner_step.induct)
  case (step_threads m rnd n)
  have "miner_inv E ((miner_stop m)\<lparr>num_worker_threads := n\<rparr>)"
    using miner_inv_stop [of E m] by (simp add: miner_inv_def)
  then show ?case by (simp add: changeNumWorkerThreads_def Let_def miner_inv_start)
next
  case (step_stats l m l' m')
  then show ?case by (auto simp: statsThread_iteration_def Let_def miner_inv_def)
qed (simp_all add: miner_inv_start miner_inv_stop miner_inv_mine)

lemma miner_inv_reachable: "(miner_step E)\<^sup>*\<^sup>* (MinerLocal_new n) m \<Longrightarrow> miner_inv E m"
  by (induction rule: rtranclp_induct) (simp_all add: miner_inv_new miner_inv_step)

section \<open>What a worker reports\<close>

text \<open>A text that fits the miner's current job.\<close>

definition mined_text :: "'ctx env \<Rightarrow> 'ctx MinerLocal \<Rightarrow> string \<Rightarrow> bool" where
  "mined_text E m d \<longleftrightarrow>
     starts_with d (hash_toString (previous_epoch_highest_hash m) @ ''_'' @ getAsShortString (owner_public_key m) @ ''_'') \<and>
     snd (getHashArea (miner_epoch m)) \<le> calcHash E d \<and> calcHash E d \<le> fst (getHashArea (miner_epoch m)) \<and>
     length d \<le> 333 + length (getAsShortString (owner_public_key m))"

lemma iteration_reports:
  assumes E: "sha_stream E" and inv: "miner_inv E m"
  shows "found_values (miningThread_iteration E i m) = found_values m \<or>
    (\<exists>d. found_values (miningThread_iteration E i m) = found_values m @ [(miner_epoch m, d)] \<and> mined_text E m d)"
proof (cases "miner_running m \<and> i < length (miner_workers m) \<and> miner_workers m ! i \<noteq> None")
  case True
  then obtain w where w: "miner_workers m ! i = Some w" "Some w \<in> set (miner_workers m)" by (metis not_None_eq nth_mem)
  then obtain r where p: "worker_prefix w = mining_prefix (previous_epoch_highest_hash m) (owner_public_key m) r"
    and h: "hash_object_common w = Hash_update E (Hash_new E) (worker_prefix w)"
    using inv by (auto simp: miner_inv_def worker_inv_def)
  let ?d = "worker_prefix w @ payload_string (worker_value w)"
  have hash: "Hash_finalize E (Hash_update E (hash_object_common w) (payload_string (worker_value w))) = calcHash E ?d"
    unfolding h by (rule Hash_object_eq [OF E])
  have area: "getHashArea (miner_epoch m) = (max_allowed_value m, min_allowed_value m)"
    using inv True by (simp add: miner_inv_def)
  have pre: "starts_with ?d (hash_toString (previous_epoch_highest_hash m) @ ''_'' @ getAsShortString (owner_public_key m) @ ''_'')"
    by (simp add: p mining_prefix_def starts_with_def)
  have len: "length ?d \<le> 333 + length (getAsShortString (owner_public_key m))"
    unfolding p by (rule length_mined_text)
  show ?thesis
  proof (cases "calcHash E ?d \<ge> min_allowed_value m \<and> calcHash E ?d \<le> max_allowed_value m")
    case in_area: True
    then have "mined_text E m ?d" using pre len by (simp add: mined_text_def area)
    moreover have "found_values (miningThread_iteration E i m) = found_values m @ [(miner_epoch m, ?d)]"
      using True w(1) in_area by (auto simp: miningThread_iteration_def Let_def hash)
    ultimately show ?thesis by blast
  next
    case False
    then show ?thesis using True w(1) by (auto simp: miningThread_iteration_def Let_def hash)
  qed
qed (auto simp: miningThread_iteration_def)

section \<open>Property\<close>

text \<open>
  C38: in every state that starts, stops, changes of the number of threads and iterations of any
  worker can reach, an iteration reports at most one text, and a reported text is for the current
  epoch, begins with the highest hash of the last epoch and the owner's key, hashes into the
  epoch's area, and is at most 333 characters longer than the key.
\<close>

theorem mined_values_fit:
  assumes "sha_stream E" "(miner_step E)\<^sup>*\<^sup>* (MinerLocal_new n) m"
  shows "found_values (miningThread_iteration E i m) = found_values m \<or>
    (\<exists>d. found_values (miningThread_iteration E i m) = found_values m @ [(miner_epoch m, d)] \<and>
      starts_with d (hash_toString (previous_epoch_highest_hash m) @ ''_'' @
        getAsShortString (owner_public_key m) @ ''_'') \<and>
      snd (getHashArea (miner_epoch m)) \<le> calcHash E d \<and> calcHash E d \<le> fst (getHashArea (miner_epoch m)) \<and>
      length d \<le> 333 + length (getAsShortString (owner_public_key m)))"
  using iteration_reports [OF assms(1) miner_inv_reachable [OF assms(2)], of i] by (simp add: mined_text_def)

definition sample_miner :: "byte list MinerLocal" where
  "sample_miner = miner_start (sample_env True) (\<lambda>_. 7) 0 (PublicKeyPEM ''A'') 0 (MinerLocal_new 2)"

lemma sample_miner_reports: "found_values (miningThread_iteration (sample_env True) 0 sample_miner) \<noteq> []"
  by code_simp

theorem mined_values_fit_witness:
  "\<exists>d. found_values (miningThread_iteration (sample_env True) 0 sample_miner) = [(0, d)] \<and>
     starts_with d ''0_A_'' \<and> length d \<le> 334"
proof -
  have "(miner_step (sample_env True))\<^sup>*\<^sup>* (MinerLocal_new 2) sample_miner"
    unfolding sample_miner_def by (rule r_into_rtranclp) (rule step_start)
  moreover have "found_values sample_miner = []" "miner_epoch sample_miner = 0"
    "previous_epoch_highest_hash sample_miner = 0" "owner_public_key sample_miner = PublicKeyPEM ''A''"
    by (simp_all add: sample_miner_def miner_start_def MinerLocal_new_def Let_def split: prod.split)
  moreover have "hash_toString 0 = ''0''" by (simp add: hash_toString_def hex_of_nat.simps [of 0] hex_digit_def)
  ultimately show ?thesis
    using mined_values_fit [OF sample_sha_stream, of True 2 sample_miner 0] sample_miner_reports
    by (auto simp: getAsShortString_def)
qed

end
