(* ===== verification/Manager_State.thy ===== *)
theory Manager_State
  imports Out_Of_Sync_Detector Peers_Monitor Active_Peers_Collector Block_Fetch_Agent Miner_Local
begin

text \<open>
  The object \<open>BlockchainManager\<close> (src/src/scn/BlockchainManager/BlockchainManager.h) with the four
  cycle states it owns, and its operations that do not depend on the current state. Calls on the
  connector are collected in \<open>p2p_calls\<close>; the clock is an argument where the code reads it.
\<close>

section \<open>The cycle states' members\<close>

datatype State = Unassigned | FetchBlockchain | Collect | IntroduceBlock | IntroduceBaseline

record CycleStateCollect =
  minings_in_cycle :: u32
  max_cycle_duration_ms :: u32

record CycleStateIntroduceBlock =
  next_propagation_time :: blockchain_time_t
  num_propagations_in_current_cycle :: u32
  processed_blocks :: "(hash_t, bool) std_map"
  creation_sub_block_counter :: "(hash_t, u32) std_map"
  transaction_sub_block_counter :: "(hash_t, u32) std_map"

text \<open>Where the fetch thread is: before, in \<open>fetchBaseline\<close>, in its own loop, or at its end.\<close>

datatype fetch_thread = FT_Absent | FT_WaitPeers | FT_Baseline | FT_Blocks block_uid_t | FT_Ended

record CycleStateFetchBlockchain =
  global_blockchain_newest_block_id :: block_uid_t
  baseline_block_fetch_agent :: "BaselineBlock BlockFetchAgent option"
  block_fetch_agent_map :: "(block_uid_t, CollectionBlock BlockFetchAgent) std_map"
  fetch_running :: bool
  fetch_blocks_thread :: fetch_thread

section \<open>The manager\<close>

record 'ctx BlockchainManager =
  our_public_key :: public_key_t
  our_private_key :: private_key_t
  bm_blockchain :: Blockchain
  bm_miner :: "'ctx MinerLocal"
  out_of_sync_detector :: OutOfSyncDetector
  peers_monitor :: PeersMonitor
  active_peers_collector :: ActivePeersCollector
  cycle_state_fetch :: CycleStateFetchBlockchain
  cycle_state_collect :: CycleStateCollect
  cycle_state_introduce_block :: CycleStateIntroduceBlock
  current_state :: State
  bm_running :: bool
  new_block :: CollectionBlock
  found_hash_queue :: "string list"
  transaction_queue :: "(public_key_t \<times> u64) list"
  p2p_calls :: "p2p_call list"

definition BlockchainManager_new ::
    "'ctx env \<Rightarrow> public_key_t \<Rightarrow> private_key_t \<Rightarrow> Blockchain \<Rightarrow> 'ctx MinerLocal \<Rightarrow> 'ctx BlockchainManager" where
  "BlockchainManager_new E pub priv bc miner =
     \<lparr>our_public_key = pub, our_private_key = priv, bm_blockchain = bc, bm_miner = miner,
      out_of_sync_detector = OutOfSyncDetector_new, peers_monitor = PeersMonitor_new,
      active_peers_collector = ActivePeersCollector_new E pub,
      cycle_state_fetch = \<lparr>global_blockchain_newest_block_id = 0, baseline_block_fetch_agent = None,
        block_fetch_agent_map = [], fetch_running = False, fetch_blocks_thread = FT_Absent\<rparr>,
      cycle_state_collect = \<lparr>minings_in_cycle = 0, max_cycle_duration_ms = 0\<rparr>,
      cycle_state_introduce_block = \<lparr>next_propagation_time = 0, num_propagations_in_current_cycle = 0,
        processed_blocks = [], creation_sub_block_counter = [], transaction_sub_block_counter = []\<rparr>,
      current_state = Unassigned, bm_running = True, new_block = new_CollectionBlock, found_hash_queue = [],
      transaction_queue = [], p2p_calls = []\<rparr>"

definition bm_report :: "peer_id_t \<Rightarrow> 'ctx BlockchainManager \<Rightarrow> 'ctx BlockchainManager" where
  "bm_report peer m = m\<lparr>peers_monitor := reportViolation peer (peers_monitor m)\<rparr>"

definition bm_call :: "p2p_call list \<Rightarrow> 'ctx BlockchainManager \<Rightarrow> 'ctx BlockchainManager" where
  "bm_call calls m = m\<lparr>p2p_calls := p2p_calls m @ calls\<rparr>"

definition foundHashCallback :: "epoch_t \<Rightarrow> string \<Rightarrow> 'ctx BlockchainManager \<Rightarrow> 'ctx BlockchainManager" where
  "foundHashCallback ep data m = m\<lparr>found_hash_queue := found_hash_queue m @ [data]\<rparr>"

definition triggerTransaction :: "public_key_t \<Rightarrow> u64 \<Rightarrow> 'ctx BlockchainManager \<Rightarrow> 'ctx BlockchainManager" where
  "triggerTransaction receiver fract m = m\<lparr>transaction_queue := transaction_queue m @ [(receiver, fract)]\<rparr>"

definition pauseMiner :: "'ctx BlockchainManager \<Rightarrow> 'ctx BlockchainManager" where
  "pauseMiner m = m\<lparr>bm_miner := miner_stop (bm_miner m)\<rparr>"

definition resumeMiner :: "'ctx env \<Rightarrow> (nat \<Rightarrow> u32) \<Rightarrow> 'ctx BlockchainManager \<Rightarrow> 'ctx BlockchainManager" where
  "resumeMiner E rnd m =
     (let ms = getMiningState (bm_blockchain m)
      in m\<lparr>bm_miner := miner_start E rnd (highest_hash_of_last_epoch ms) (our_public_key m) (epoch ms) (bm_miner m)\<rparr>)"

text \<open>An iteration of a mining worker, whose callback is \<open>foundHashCallback\<close>.\<close>

definition bm_mine :: "'ctx env \<Rightarrow> nat \<Rightarrow> 'ctx BlockchainManager \<Rightarrow> 'ctx BlockchainManager" where
  "bm_mine E i m =
     (let miner = miningThread_iteration E i (bm_miner m);
          reported = drop (length (found_values (bm_miner m))) (found_values miner)
      in fold (\<lambda>(ep, data). foundHashCallback ep data) reported (m\<lparr>bm_miner := miner\<rparr>))"

definition getTotalPeersEstimation :: "(ActivePeersList \<Rightarrow> u64) \<Rightarrow> 'ctx BlockchainManager \<Rightarrow> u64" where
  "getTotalPeersEstimation est m = getActivePeers est (active_peers_collector m)"

definition getCurrentState :: "'ctx BlockchainManager \<Rightarrow> State" where
  "getCurrentState m = current_state m"

end
