(* ===== verification/Cycle_Collect.thy ===== *)
theory Cycle_Collect
  imports Manager_State
begin

text \<open>
  The collect state (src/src/scn/BlockchainManager/CycleStateCollect.cpp): one found coin and one
  requested transaction per cycle become signed sub blocks of the node's next block. The shown
  property follows a value from the mining worker into that block.
\<close>

section \<open>Definitions\<close>

definition collect_onEnter :: "'ctx env \<Rightarrow> (ActivePeersList \<Rightarrow> u64) \<Rightarrow> 'ctx BlockchainManager \<Rightarrow> 'ctx BlockchainManager" where
  "collect_onEnter E est m =
     (let m = m\<lparr>new_block := new_CollectionBlock\<rparr>;
          m = m\<lparr>new_block := (new_block m)\<lparr>transactions := [], creations := []\<rparr>\<rparr>;
          m = m\<lparr>cycle_state_collect := \<lparr>minings_in_cycle = 0, max_cycle_duration_ms = 0\<rparr>\<rparr>;
          m = (if getNewestBlockId E (bm_blockchain m) mod ucast blocks_to_collect_active_peers = 0
               then m\<lparr>active_peers_collector := restartListBuilding est (active_peers_collector m)\<rparr> else m)
      in bm_call (propagate (active_peers_collector m)) m)"

text \<open>The room for creations, an unsigned 32-bit difference, as the loops compare it.\<close>

definition creation_room :: "MiningState \<Rightarrow> u64" where
  "creation_room ms = ucast (max_num_creations - num_minings_in_epoch ms)"

definition make_creation :: "'ctx env \<Rightarrow> hash_t \<Rightarrow> string \<Rightarrow> 'ctx BlockchainManager \<Rightarrow> CreationSubBlock res" where
  "make_creation E prev data m =
     bind_res (fillSignature_cr E (our_private_key m)
       ((set_cr_prev prev new_CreationSubBlock)\<lparr>data_value := data, creator := our_public_key m\<rparr>)) (fillHash_cr E)"

definition collect_creation ::
    "'ctx env \<Rightarrow> block option \<Rightarrow> MiningState \<Rightarrow> string \<Rightarrow> 'ctx BlockchainManager \<Rightarrow> 'ctx BlockchainManager res" where
  "collect_creation E newest ms data m =
     (if length data > 0 then
        (case newest of None \<Rightarrow> Inl NullDeref | Some b \<Rightarrow>
           bind_res (make_creation E (block_hash (generic_header (base_header b))) data m) (\<lambda>sub_block.
           bind_res (validateSubBlock_creation E (bm_blockchain m) sub_block) (\<lambda>valid.
             if valid then
               (let cs = map_put (cr_hash sub_block) sub_block (creations (new_block m));
                    n = minings_in_cycle (cycle_state_collect m) + 1;
                    (cs, n) = (if (of_nat (length cs) :: u64) > creation_room ms then (map_erase_last cs, n - 1) else (cs, n))
                in Inr (m\<lparr>new_block := (new_block m)\<lparr>creations := cs\<rparr>,
                          cycle_state_collect := (cycle_state_collect m)\<lparr>minings_in_cycle := n\<rparr>\<rparr>))
             else Inr m)))
      else Inr m)"

definition make_transaction ::
    "'ctx env \<Rightarrow> hash_t \<Rightarrow> public_key_t \<Rightarrow> u64 \<Rightarrow> 'ctx BlockchainManager \<Rightarrow> TransactionSubBlock res" where
  "make_transaction E prev receiver fract m =
     bind_res (fillSignature_tx E (our_private_key m)
       ((set_tx_prev prev new_TransactionSubBlock)\<lparr>pre_owner := our_public_key m, post_owner := receiver, fraction := fract\<rparr>))
       (fillHash_tx E)"

definition collect_transaction ::
    "'ctx env \<Rightarrow> block option \<Rightarrow> public_key_t \<Rightarrow> u64 \<Rightarrow> 'ctx BlockchainManager \<Rightarrow> 'ctx BlockchainManager res" where
  "collect_transaction E newest receiver fract m =
     (if \<not> key_isEmpty receiver then
        (case newest of None \<Rightarrow> Inl NullDeref | Some b \<Rightarrow>
           bind_res (make_transaction E (block_hash (generic_header (base_header b))) receiver fract m) (\<lambda>sub_block.
           bind_res (validateSubBlock_transaction E (bm_blockchain m) sub_block) (\<lambda>valid.
             if valid then
               (let ts = map_put (tx_hash sub_block) sub_block (transactions (new_block m));
                    ts = (if (of_nat (length ts) :: u64) > ucast max_num_transactions then map_erase_last ts else ts)
                in Inr (m\<lparr>new_block := (new_block m)\<lparr>transactions := ts\<rparr>\<rparr>))
             else Inr m)))
      else Inr m)"

text \<open>Taking the front of each queue; \<open>no_sleep\<close> if something is left.\<close>

definition pop_found :: "'ctx BlockchainManager \<Rightarrow> string \<times> bool \<times> 'ctx BlockchainManager" where
  "pop_found m =
     (case found_hash_queue m of
        [] \<Rightarrow> ('''', False, m)
      | d # q \<Rightarrow> (d, q \<noteq> [], m\<lparr>found_hash_queue := q\<rparr>))"

definition pop_transaction :: "'ctx BlockchainManager \<Rightarrow> public_key_t \<times> u64 \<times> bool \<times> 'ctx BlockchainManager" where
  "pop_transaction m =
     (case transaction_queue m of
        [] \<Rightarrow> (PublicKeyPEM '''', 0, False, m)
      | (k, f) # q \<Rightarrow> (k, f, q \<noteq> [], m\<lparr>transaction_queue := q\<rparr>))"

definition collect_onCycle :: "'ctx env \<Rightarrow> u32 \<Rightarrow> 'ctx BlockchainManager \<Rightarrow> (bool \<times> 'ctx BlockchainManager) res" where
  "collect_onCycle E cycle_duration m =
     bind_res (getNewestBlock E (bm_blockchain m)) (\<lambda>newest.
       let ms = getMiningState (bm_blockchain m); (data, more_found, m) = pop_found m
       in bind_res (collect_creation E newest ms data m) (\<lambda>m.
            let (receiver, fract, more_transactions, m) = pop_transaction m
            in bind_res (collect_transaction E newest receiver fract m) (\<lambda>m.
                 let m = (if cycle_duration > max_cycle_duration_ms (cycle_state_collect m)
                          then m\<lparr>cycle_state_collect := (cycle_state_collect m)\<lparr>max_cycle_duration_ms := cycle_duration\<rparr>\<rparr>
                          else m)
                 in Inr (more_found \<or> more_transactions, m))))"

section \<open>Sub blocks that every peer accepts\<close>

lemma unat_creation_room:
  assumes "baseline_inv E b"
  shows "unat (creation_room (mining_state b)) = 1000 - length (last (data_value_hashes b))"
proof -
  let ?m = "length (last (data_value_hashes b))"
  have m: "num_minings_in_epoch (mining_state b) = of_nat ?m" "?m \<le> 1000"
    using assms by (auto simp: baseline_inv_def num_minings_ok_def epochs_inv_def)
  have "max_num_creations = (of_nat 1000 :: u32)" by (simp add: max_num_creations_def)
  then have "max_num_creations - num_minings_in_epoch (mining_state b) = of_nat (1000 - ?m)"
    using m by (simp only: of_nat_diff)
  then show ?thesis by (simp add: creation_room_def unat_of_nat_small)
qed

text \<open>
  What a block under construction holds: sub blocks that the chain accepts, in bounds; and what the
  node's own candidate holds besides: each sub block is stored under its hash.
\<close>

definition sub_blocks_inv :: "'ctx env \<Rightarrow> BlockHeader \<Rightarrow> BaselineBlock \<Rightarrow> CollectionBlock \<Rightarrow> bool" where
  "sub_blocks_inv E newest b nb \<longleftrightarrow>
     map_wf (transactions nb) \<and> map_wf (creations nb) \<and>
     (\<forall>(k, t) \<in> set (transactions nb). tx_accepted E newest t) \<and>
     (\<forall>(k, c) \<in> set (creations nb). cr_accepted E newest b c) \<and>
     length (transactions nb) \<le> 10000 \<and> length (last (data_value_hashes b)) + length (creations nb) \<le> 1000"

definition candidate_inv :: "'ctx env \<Rightarrow> BlockHeader \<Rightarrow> BaselineBlock \<Rightarrow> CollectionBlock \<Rightarrow> bool" where
  "candidate_inv E newest b nb \<longleftrightarrow> sub_blocks_inv E newest b nb \<and>
     (\<forall>(k, t) \<in> set (transactions nb). tx_hash t = k) \<and> (\<forall>(k, c) \<in> set (creations nb). cr_hash c = k)"

definition put_limited :: "'k::linorder \<Rightarrow> 'v \<Rightarrow> u64 \<Rightarrow> ('k, 'v) std_map \<Rightarrow> ('k, 'v) std_map" where
  "put_limited k v bound m =
     (let m = map_put k v m in if (of_nat (length m) :: u64) > bound then map_erase_last m else m)"

lemma put_limited_facts:
  assumes wf: "map_wf m" and len: "length m \<le> unat bound" "unat bound < 2 ^ 63"
  shows "map_wf (put_limited k v bound m)" "set (put_limited k v bound m) \<subseteq> insert (k, v) (set m)"
    "length (put_limited k v bound m) \<le> unat bound"
    "length m < unat bound \<Longrightarrow> put_limited k v bound m = map_put k v m"
proof -
  let ?p = "map_put k v m"
  have lp: "length ?p \<le> length m + 1" by (simp add: length_map_put [OF wf])
  then have "unat (of_nat (length ?p) :: u64) = length ?p" using len by (intro unat_of_nat_small) simp
  then have gt: "(of_nat (length ?p) :: u64) > bound \<longleftrightarrow> length ?p > unat bound"
    by (simp add: word_less_nat_alt)
  show "map_wf (put_limited k v bound m)" using wf by (auto simp: put_limited_def Let_def intro!: wf_intros)
  show "set (put_limited k v bound m) \<subseteq> insert (k, v) (set m)"
    using set_map_put_subset [of k v m] set_map_erase_last [of ?p] by (auto simp: put_limited_def Let_def)
  show "length (put_limited k v bound m) \<le> unat bound" using lp len by (auto simp: put_limited_def Let_def gt)
  show "length m < unat bound \<Longrightarrow> put_limited k v bound m = map_put k v m" using lp by (simp add: put_limited_def Let_def gt)
qed

lemma sub_blocks_put_tx:
  assumes inv: "sub_blocks_inv E newest b nb" and t: "tx_accepted E newest t"
  shows "sub_blocks_inv E newest b (nb\<lparr>transactions := put_limited k t (ucast max_num_transactions) (transactions nb)\<rparr>)"
  using inv t put_limited_facts [of "transactions nb" "ucast max_num_transactions" k t]
  by (auto simp: sub_blocks_inv_def max_num_transactions_def)

lemma sub_blocks_room:
  assumes "baseline_inv E b" "sub_blocks_inv E newest b nb"
  shows "map_wf (creations nb)" "length (creations nb) \<le> unat (creation_room (mining_state b))"
    "unat (creation_room (mining_state b)) < 2 ^ 63"
  using assms(2) by (auto simp: sub_blocks_inv_def unat_creation_room [OF assms(1)])

lemma sub_blocks_put_cr:
  assumes b: "baseline_inv E b" and inv: "sub_blocks_inv E newest b nb" and c: "cr_accepted E newest b c"
  shows "sub_blocks_inv E newest b (nb\<lparr>creations := put_limited k c (creation_room (mining_state b)) (creations nb)\<rparr>)"
proof -
  have "length (last (data_value_hashes b)) \<le> 1000" using inv by (simp add: sub_blocks_inv_def)
  then show ?thesis
    using put_limited_facts(1-3) [OF sub_blocks_room [OF b inv], of k c] inv c
    by (fastforce simp: sub_blocks_inv_def unat_creation_room [OF b])
qed

lemma candidate_inv_put_tx:
  assumes "candidate_inv E newest b nb" "tx_accepted E newest t"
  shows "candidate_inv E newest b (nb\<lparr>transactions := put_limited (tx_hash t) t (ucast max_num_transactions) (transactions nb)\<rparr>)"
  using assms sub_blocks_put_tx [of E newest b nb t "tx_hash t"]
    put_limited_facts(2) [of "transactions nb" "ucast max_num_transactions" "tx_hash t" t]
  by (auto simp: candidate_inv_def sub_blocks_inv_def max_num_transactions_def)

lemma candidate_inv_put_cr:
  assumes b: "baseline_inv E b" and inv: "candidate_inv E newest b nb" and c: "cr_accepted E newest b c"
  shows "candidate_inv E newest b (nb\<lparr>creations := put_limited (cr_hash c) c (creation_room (mining_state b)) (creations nb)\<rparr>)"
proof -
  have sub: "sub_blocks_inv E newest b nb" using inv by (simp add: candidate_inv_def)
  show ?thesis
    using put_limited_facts(2) [OF sub_blocks_room [OF b sub], of "cr_hash c" c] sub_blocks_put_cr [OF b sub c] inv
    by (fastforce simp: candidate_inv_def)
qed

section \<open>The sub blocks a node signs\<close>

definition own_key_ok :: "'ctx env \<Rightarrow> 'ctx BlockchainManager \<Rightarrow> bool" where
  "own_key_ok E m \<longleftrightarrow> base64_ok E \<and> key_pair_ok E (our_private_key m) (our_public_key m)"

lemma make_creation_facts:
  assumes "own_key_ok E m"
  obtains c where "make_creation E prev data m = Inr c" "verifyHash_cr E c" "verifySignature_cr E c (creator c) = Inr True"
    "creator c = our_public_key m" "data_value c = data" "cr_prev c = prev"
    "block_type (sub_generic_header (cr_header c)) = CreationSubBlock_type"
proof -
  let ?c = "(set_cr_prev prev new_CreationSubBlock)\<lparr>data_value := data, creator := our_public_key m\<rparr>"
  have fresh: "cr_hash ?c = 0" "cr_signature ?c = ''''"
    by (simp_all add: set_cr_prev_def new_CreationSubBlock_def new_GenericHeader_def)
  obtain s where s: "fillSignature_cr E (our_private_key m) ?c = Inr (set_cr_sig s ?c)"
    using fresh by (simp add: fillSignature_def)
  have h0: "cr_hash (set_cr_sig s ?c) = 0" using fresh(1) by simp
  obtain h where h: "fillHash_cr E (set_cr_sig s ?c) = Inr (set_cr_hash h (set_cr_sig s ?c))"
    using cr_hashed.fill_total [OF h0] by blast
  let ?r = "set_cr_hash h (set_cr_sig s ?c)"
  have "verifySignature_cr E ?r (our_public_key m) = Inr True"
    using assms cr_signed.verify_filled_signature [OF _ _ fresh s h] by (simp add: own_key_ok_def)
  moreover have "make_creation E prev data m = Inr ?r" by (simp add: make_creation_def s h)
  moreover have "verifyHash_cr E ?r" by (rule cr_hashed.verify_fill [OF h0 h])
  moreover have "creator ?r = our_public_key m" "data_value ?r = data" by simp_all
  moreover have "cr_prev ?r = prev" "block_type (sub_generic_header (cr_header ?r)) = CreationSubBlock_type"
    by (simp_all) (simp_all add: set_cr_prev_def new_CreationSubBlock_def)
  ultimately show ?thesis using that by simp
qed

lemma make_transaction_facts:
  assumes "own_key_ok E m"
  obtains t where "make_transaction E prev receiver fract m = Inr t" "verifySignature_tx E t (pre_owner t) = Inr True"
proof -
  let ?t = "(set_tx_prev prev new_TransactionSubBlock)
      \<lparr>pre_owner := our_public_key m, post_owner := receiver, fraction := fract\<rparr>"
  have fresh: "tx_hash ?t = 0" "tx_signature ?t = ''''"
    by (simp_all add: set_tx_prev_def new_TransactionSubBlock_def new_GenericHeader_def)
  obtain s where s: "fillSignature_tx E (our_private_key m) ?t = Inr (set_tx_sig s ?t)"
    using fresh by (simp add: fillSignature_def)
  have h0: "tx_hash (set_tx_sig s ?t) = 0" using fresh(1) by simp
  obtain h where h: "fillHash_tx E (set_tx_sig s ?t) = Inr (set_tx_hash h (set_tx_sig s ?t))"
    using tx_hashed.fill_total [OF h0] by blast
  have "verifySignature_tx E (set_tx_hash h (set_tx_sig s ?t)) (our_public_key m) = Inr True"
    using assms tx_signed.verify_filled_signature [OF _ _ fresh s h] by (simp add: own_key_ok_def)
  then show ?thesis using that by (simp add: make_transaction_def s h)
qed

lemma validateSubBlock_creation_iff:
  assumes "baseline_inv E (current_baseline bc)" "newest_header E bc = Inr newest"
  shows "validateSubBlock_creation E bc c = Inr True \<longleftrightarrow> cr_accepted E newest (current_baseline bc) c"
proof -
  obtain mx mn where "getHashArea (epoch (getMiningState bc)) = (mx, mn)" by fastforce
  then show ?thesis
    using validateSubBlock_cr_True [OF assms(1), of c newest]
    by (simp add: validateSubBlock_creation_def assms(2) Let_def)
qed

lemma validateSubBlock_creation_total:
  assumes "newest_header E bc = Inr newest" "verifySignature_cr E c (creator c) = Inr True"
  shows "\<exists>ok. validateSubBlock_creation E bc c = Inr ok"
  using assms by (auto simp: validateSubBlock_creation_def validateSubBlock_cr_def Let_def split: prod.split)

lemma validateSubBlock_transaction_total:
  assumes "newest_header E bc = Inr newest" "verifySignature_tx E t (pre_owner t) = Inr True"
  shows "\<exists>ok. validateSubBlock_transaction E bc t = Inr ok"
  using assms by (auto simp: validateSubBlock_transaction_def validateSubBlock_tx_def)

section \<open>One cycle\<close>

abbreviation candidate_ok :: "'ctx env \<Rightarrow> block list \<Rightarrow> 'ctx BlockchainManager \<Rightarrow> bool" where
  "candidate_ok E bs m \<equiv>
     chain_inv E (bm_blockchain m) bs \<and>
     candidate_inv E (base_header (last bs)) (current_baseline (bm_blockchain m)) (new_block m)"

text \<open>What both halves of a cycle leave alone.\<close>

definition same_core :: "'ctx BlockchainManager \<Rightarrow> 'ctx BlockchainManager \<Rightarrow> bool" where
  "same_core m m' \<longleftrightarrow> bm_blockchain m' = bm_blockchain m \<and> our_public_key m' = our_public_key m \<and>
     our_private_key m' = our_private_key m"

lemma collect_creation_step:
  assumes key: "own_key_ok E m" and ok: "candidate_ok E bs m"
  shows "\<exists>m'. collect_creation E (Some (last bs)) (getMiningState (bm_blockchain m)) data m = Inr m' \<and>
    candidate_ok E bs m' \<and> same_core m m' \<and>
    (\<exists>c. make_creation E (hash_b (last bs)) data m = Inr c \<and>
      (data \<noteq> '''' \<and> validateSubBlock_creation E (bm_blockchain m) c = Inr True \<and>
       length (last (data_value_hashes (current_baseline (bm_blockchain m)))) + length (creations (new_block m)) < 1000 \<longrightarrow>
       (cr_hash c, c) \<in> set (creations (new_block m'))))"
proof -
  let ?bc = "bm_blockchain m" and ?b = "current_baseline (bm_blockchain m)"
  have n: "newest_header E ?bc = Inr (base_header (last bs))" and b: "baseline_inv E ?b"
    using ok chain_rep_newest(2) [of E ?bc bs] by (auto simp: chain_inv_def)
  obtain c where c: "make_creation E (hash_b (last bs)) data m = Inr c" "verifySignature_cr E c (creator c) = Inr True"
    using make_creation_facts [OF key] by metis
  obtain v where v: "validateSubBlock_creation E ?bc c = Inr v"
    using validateSubBlock_creation_total [OF n c(2)] by blast
  show ?thesis
  proof (cases "data \<noteq> '''' \<and> v")
    case True
    let ?room = "creation_room (mining_state ?b)" and ?n = "minings_in_cycle (cycle_state_collect m)"
    let ?cs = "put_limited (cr_hash c) c ?room (creations (new_block m))"
    have wf: "map_wf (creations (new_block m))"
      and len: "length (creations (new_block m)) \<le> unat ?room" "unat ?room < 2 ^ 63"
      using ok sub_blocks_room [OF b, of "base_header (last bs)" "new_block m"] by (simp_all add: candidate_inv_def)
    have acc: "cr_accepted E (base_header (last bs)) ?b c"
      using v True validateSubBlock_creation_iff [OF b n] by simp
    have inv: "candidate_inv E (base_header (last bs)) ?b ((new_block m)\<lparr>creations := ?cs\<rparr>)"
      using ok by (intro candidate_inv_put_cr [OF b _ acc]) simp
    have run: "collect_creation E (Some (last bs)) (getMiningState ?bc) data m =
        Inr (m\<lparr>new_block := (new_block m)\<lparr>creations := ?cs\<rparr>,
               cycle_state_collect := (cycle_state_collect m)\<lparr>minings_in_cycle :=
                 if (of_nat (length (map_put (cr_hash c) c (creations (new_block m)))) :: u64) > ?room then ?n else ?n + 1\<rparr>\<rparr>)"
      using True v
      by (cases "(of_nat (length (map_put (cr_hash c) c (creations (new_block m)))) :: u64) > ?room")
        (simp_all add: collect_creation_def c(1) Let_def getMiningState_def put_limited_def)
    have "(cr_hash c, c) \<in> set ?cs"
      if room: "length (last (data_value_hashes ?b)) + length (creations (new_block m)) < 1000"
    proof -
      have "?cs = map_put (cr_hash c) c (creations (new_block m))"
        using room by (intro put_limited_facts(4) [OF wf len]) (simp add: unat_creation_room [OF b])
      moreover have "map_find (map_put (cr_hash c) c (creations (new_block m))) (cr_hash c) = Some c"
        by (simp add: map_find_put)
      ultimately show ?thesis by (simp add: map_find_in_set)
    qed
    then show ?thesis using run inv ok c(1) by (auto simp: same_core_def)
  next
    case False
    then have "collect_creation E (Some (last bs)) (getMiningState ?bc) data m = Inr m"
      using v by (auto simp: collect_creation_def c(1))
    then show ?thesis using False v ok c(1) by (auto simp: same_core_def)
  qed
qed

lemma collect_transaction_step:
  assumes key: "own_key_ok E m" and ok: "candidate_ok E bs m"
  shows "\<exists>m'. collect_transaction E (Some (last bs)) receiver fract m = Inr m' \<and>
    candidate_ok E bs m' \<and> same_core m m' \<and> creations (new_block m') = creations (new_block m)"
proof -
  let ?bc = "bm_blockchain m"
  have n: "newest_header E ?bc = Inr (base_header (last bs))"
    using ok chain_rep_newest(2) [of E ?bc bs] by (auto simp: chain_inv_def)
  obtain t where t: "make_transaction E (hash_b (last bs)) receiver fract m = Inr t" "verifySignature_tx E t (pre_owner t) = Inr True"
    using make_transaction_facts [OF key] by metis
  obtain v where v: "validateSubBlock_transaction E ?bc t = Inr v"
    using validateSubBlock_transaction_total [OF n t(2)] by blast
  show ?thesis
  proof (cases "\<not> key_isEmpty receiver \<and> v")
    case True
    let ?ts = "put_limited (tx_hash t) t (ucast max_num_transactions) (transactions (new_block m))"
    have acc: "tx_accepted E (base_header (last bs)) t"
      using v True by (simp add: validateSubBlock_transaction_def n validateSubBlock_tx_True)
    have "candidate_inv E (base_header (last bs)) (current_baseline ?bc) ((new_block m)\<lparr>transactions := ?ts\<rparr>)"
      using ok by (intro candidate_inv_put_tx [OF _ acc]) simp
    moreover have "collect_transaction E (Some (last bs)) receiver fract m =
        Inr (m\<lparr>new_block := (new_block m)\<lparr>transactions := ?ts\<rparr>\<rparr>)"
      using True v by (simp add: collect_transaction_def t(1) Let_def put_limited_def)
    ultimately show ?thesis using ok by (auto simp: same_core_def)
  next
    case False
    then have "collect_transaction E (Some (last bs)) receiver fract m = Inr m"
      using v by (auto simp: collect_transaction_def t(1))
    then show ?thesis using ok by (auto simp: same_core_def)
  qed
qed

lemma collect_onCycle_step:
  assumes key: "own_key_ok E m" and ok: "candidate_ok E bs m"
  shows "\<exists>r m'. collect_onCycle E dur m = Inr (r, m') \<and> candidate_ok E bs m' \<and> same_core m m' \<and>
    (\<forall>data q. found_hash_queue m = data # q \<and> data \<noteq> '''' \<longrightarrow>
      (\<exists>c. make_creation E (hash_b (last bs)) data m = Inr c \<and>
        (validateSubBlock_creation E (bm_blockchain m) c = Inr True \<and>
         length (last (data_value_hashes (current_baseline (bm_blockchain m)))) + length (creations (new_block m)) < 1000 \<longrightarrow>
         (cr_hash c, c) \<in> set (creations (new_block m')))))"
proof -
  have g: "getNewestBlock E (bm_blockchain m) = Inr (Some (last bs))"
    using ok chain_rep_newest(1) [of E "bm_blockchain m" bs] by (auto simp: chain_inv_def)
  obtain data mf m1 where p1: "pop_found m = (data, mf, m1)" by (metis prod_cases3)
  have m1: "own_key_ok E m1" "candidate_ok E bs m1" "same_core m m1" "new_block m1 = new_block m"
    and hd: "\<And>d q. found_hash_queue m = d # q \<Longrightarrow> data = d"
    using key ok p1 by (auto simp: pop_found_def own_key_ok_def same_core_def split: list.splits)
  obtain m2 c where m2: "collect_creation E (Some (last bs)) (getMiningState (bm_blockchain m1)) data m1 = Inr m2"
    "candidate_ok E bs m2" "same_core m1 m2" "make_creation E (hash_b (last bs)) data m1 = Inr c"
    and put: "data \<noteq> '''' \<and> validateSubBlock_creation E (bm_blockchain m1) c = Inr True \<and>
       length (last (data_value_hashes (current_baseline (bm_blockchain m1)))) + length (creations (new_block m1)) < 1000 \<longrightarrow>
       (cr_hash c, c) \<in> set (creations (new_block m2))"
    using collect_creation_step [OF m1(1,2), of data] by blast
  obtain rec fr mt m3 where p3: "pop_transaction m2 = (rec, fr, mt, m3)" by (metis prod_cases4)
  have m3: "own_key_ok E m3" "candidate_ok E bs m3" "same_core m2 m3" "new_block m3 = new_block m2"
    using m1(1) m2(2,3) p3 by (auto simp: pop_transaction_def own_key_ok_def same_core_def split: list.splits)
  obtain m4 where m4: "collect_transaction E (Some (last bs)) rec fr m3 = Inr m4" "candidate_ok E bs m4"
    "same_core m3 m4" "creations (new_block m4) = creations (new_block m3)"
    using collect_transaction_step [OF m3(1,2)] by blast
  let ?m = "if dur > max_cycle_duration_ms (cycle_state_collect m4)
    then m4\<lparr>cycle_state_collect := (cycle_state_collect m4)\<lparr>max_cycle_duration_ms := dur\<rparr>\<rparr> else m4"
  have core: "same_core m m1" "same_core m ?m" using m1(3) m2(3) m3(3) m4(3) by (auto simp: same_core_def)
  have mk: "make_creation E (hash_b (last bs)) data m1 = make_creation E (hash_b (last bs)) data m"
    using core(1) by (simp add: make_creation_def same_core_def)
  have "collect_onCycle E dur m = Inr (mf \<or> mt, ?m)"
    using m2(1) core(1) by (simp add: collect_onCycle_def g p1 p3 m4(1) same_core_def Let_def)
  moreover have "candidate_ok E bs ?m" using m4(2) by simp
  moreover have "\<exists>c. make_creation E (hash_b (last bs)) d m = Inr c \<and>
      (validateSubBlock_creation E (bm_blockchain m) c = Inr True \<and>
       length (last (data_value_hashes (current_baseline (bm_blockchain m)))) + length (creations (new_block m)) < 1000 \<longrightarrow>
       (cr_hash c, c) \<in> set (creations (new_block ?m)))"
    if q: "found_hash_queue m = d # q" "d \<noteq> ''''" for d q
  proof (intro exI [of _ c] conjI impI)
    have dd: "data = d" by (rule hd [OF q(1)])
    show "make_creation E (hash_b (last bs)) d m = Inr c" using m2(4) mk by (simp add: dd)
    assume "validateSubBlock_creation E (bm_blockchain m) c = Inr True \<and>
      length (last (data_value_hashes (current_baseline (bm_blockchain m)))) + length (creations (new_block m)) < 1000"
    then show "(cr_hash c, c) \<in> set (creations (new_block ?m))"
      using put q(2) core(1) m1(4) m4(4) m3(4) by (simp add: dd same_core_def)
  qed
  ultimately show ?thesis using core(2) by blast
qed

section \<open>The miner's values\<close>

text \<open>The manager's miner works on the chain's current epoch, and the queue holds only its values.\<close>

definition mining_for :: "'ctx env \<Rightarrow> 'ctx BlockchainManager \<Rightarrow> 'ctx BlockchainManager \<Rightarrow> bool" where
  "mining_for E m\<^sub>0 m \<longleftrightarrow>
     same_core m\<^sub>0 m \<and> new_block m = new_block m\<^sub>0 \<and> miner_inv E (bm_miner m) \<and>
     previous_epoch_highest_hash (bm_miner m) = highest_hash_of_last_epoch (getMiningState (bm_blockchain m\<^sub>0)) \<and>
     owner_public_key (bm_miner m) = our_public_key m\<^sub>0 \<and>
     miner_epoch (bm_miner m) = epoch (getMiningState (bm_blockchain m\<^sub>0)) \<and>
     (\<exists>ds. found_hash_queue m = found_hash_queue m\<^sub>0 @ ds \<and> (\<forall>d \<in> set ds. mined_text E (bm_miner m) d))"

lemma miner_start_job:
  "previous_epoch_highest_hash (miner_start E rnd prev key ep mi) = prev"
  "owner_public_key (miner_start E rnd prev key ep mi) = key" "miner_epoch (miner_start E rnd prev key ep mi) = ep"
  by (simp_all add: miner_start_def Let_def split: prod.split)

lemma mining_for_resume: "miner_inv E (bm_miner m) \<Longrightarrow> mining_for E m (resumeMiner E rnd m)"
  by (simp add: mining_for_def same_core_def resumeMiner_def Let_def miner_start_job miner_inv_start)

lemma iteration_job:
  "previous_epoch_highest_hash (miningThread_iteration E i mi) = previous_epoch_highest_hash mi"
  "owner_public_key (miningThread_iteration E i mi) = owner_public_key mi"
  "miner_epoch (miningThread_iteration E i mi) = miner_epoch mi"
  by (simp_all add: miningThread_iteration_def Let_def split: option.split)

lemma mining_for_mine:
  assumes E: "sha_stream E" and m: "mining_for E m\<^sub>0 m"
  shows "mining_for E m\<^sub>0 (bm_mine E i m)"
proof -
  let ?mi = "miningThread_iteration E i (bm_miner m)"
  have inv: "miner_inv E (bm_miner m)" using m by (simp add: mining_for_def)
  obtain ds where new: "drop (length (found_values (bm_miner m))) (found_values ?mi) = map (\<lambda>d. (miner_epoch (bm_miner m), d)) ds"
    and ds: "\<forall>d \<in> set ds. mined_text E (bm_miner m) d"
  proof (cases "found_values ?mi = found_values (bm_miner m)")
    case True
    then show ?thesis by (intro that [of "[]"]) simp_all
  next
    case False
    then obtain d where "found_values ?mi = found_values (bm_miner m) @ [(miner_epoch (bm_miner m), d)]"
      "mined_text E (bm_miner m) d"
      using iteration_reports [OF E inv, of i] by blast
    then show ?thesis by (intro that [of "[d]"]) simp_all
  qed
  have "fold (\<lambda>(ep, data). foundHashCallback ep data) (map (\<lambda>d. (e, d)) xs) n =
      n\<lparr>found_hash_queue := found_hash_queue n @ xs\<rparr>" for e xs and n :: "'a BlockchainManager"
    by (induction xs arbitrary: n) (simp_all add: foundHashCallback_def)
  then have "bm_mine E i m = m\<lparr>bm_miner := ?mi, found_hash_queue := found_hash_queue m @ ds\<rparr>"
    by (simp add: bm_mine_def Let_def new)
  then show ?thesis
    using m ds miner_inv_mine [OF inv, of i]
    by (auto simp: mining_for_def same_core_def iteration_job mined_text_def)
qed

lemma mining_for_run:
  assumes "sha_stream E" "mining_for E m\<^sub>0 m"
  shows "mining_for E m\<^sub>0 (fold (bm_mine E) is m)"
  using assms(2) by (induction "is" arbitrary: m) (simp_all add: mining_for_mine [OF assms(1)])

lemma mined_creation_accepted:
  assumes chain: "chain_inv E bc bs" and c: "make_creation E (hash_b (last bs)) d m = Inr c" and key: "own_key_ok E m"
    and d: "starts_with d (hash_toString (highest_hash_of_last_epoch (getMiningState bc)) @ ''_'' @
        getAsShortString (our_public_key m) @ ''_'')"
      "in_area (unat (epoch (getMiningState bc))) (calcHash E d)" "length d \<le> 1024"
      "calcHash E d \<notin> set (last (data_value_hashes (current_baseline bc)))"
  shows "validateSubBlock_creation E bc c = Inr True" "data_value c = d" "creator c = our_public_key m"
proof -
  obtain c' where c': "make_creation E (hash_b (last bs)) d m = Inr c'" "verifyHash_cr E c'"
    "verifySignature_cr E c' (creator c') = Inr True" "creator c' = our_public_key m" "data_value c' = d"
    "cr_prev c' = hash_b (last bs)" "block_type (sub_generic_header (cr_header c')) = CreationSubBlock_type"
    by (rule make_creation_facts [OF key])
  have n: "newest_header E bc = Inr (base_header (last bs))" and b: "baseline_inv E (current_baseline bc)"
    using chain chain_rep_newest(2) [of E bc bs] by (auto simp: chain_inv_def)
  have "cr_accepted E (base_header (last bs)) (current_baseline bc) c'"
    using c' d key by (simp add: cr_accepted_def own_key_ok_def key_pair_ok_def getMiningState_def)
  then show "validateSubBlock_creation E bc c = Inr True" "data_value c = d" "creator c = our_public_key m"
    using validateSubBlock_creation_iff [OF b n] c' c by auto
qed

section \<open>A sample manager\<close>

definition sample_manager :: "byte list BlockchainManager" where
  "sample_manager = BlockchainManager_new (sample_env True) bob ''k'' (sample_chain (sample_env True)) (MinerLocal_new 1)"

lemma sample_manager_simps [simp]:
  "bm_blockchain sample_manager = sample_chain (sample_env True)" "our_public_key sample_manager = bob"
  "our_private_key sample_manager = ''k''" "new_block sample_manager = new_CollectionBlock"
  "bm_miner sample_manager = MinerLocal_new 1" "found_hash_queue sample_manager = []"
  "peers_monitor sample_manager = PeersMonitor_new" "current_state sample_manager = Unassigned"
  by (simp_all add: sample_manager_def BlockchainManager_new_def)

lemma sample_manager_key: "own_key_ok (sample_env True) sample_manager"
  by (simp add: own_key_ok_def sample_base64 sample_key_pair bob_def)

lemma sample_manager_candidate:
  "candidate_inv (sample_env True) h (current_baseline (sample_chain (sample_env True))) new_CollectionBlock"
  by (simp add: candidate_inv_def sub_blocks_inv_def new_CollectionBlock_def sample_chain_baseline)

lemma sample_mining_state: "getMiningState (sample_chain E) = mining_state sample_baseline"
  by (simp add: getMiningState_def sample_chain_baseline)

lemma sample_mined:
  "found_values (miningThread_iteration (sample_env True) 0
     (miner_start (sample_env True) (\<lambda>_. 7) 0 (PublicKeyPEM ''B'') 0 (MinerLocal_new 1))) = [(0, ''0_B_7_0'')]"
  "calcHash (sample_env True) ''0_B_7_0'' \<noteq> - 1"
  by code_simp+

lemma sample_mined_queue:
  "found_hash_queue (fold (bm_mine (sample_env True)) [0] (resumeMiner (sample_env True) (\<lambda>_. 7) sample_manager)) = [''0_B_7_0'']"
proof -
  let ?mi = "miner_start (sample_env True) (\<lambda>_. 7) 0 (PublicKeyPEM ''B'') 0 (MinerLocal_new 1)"
  have "bm_miner (resumeMiner (sample_env True) (\<lambda>_. 7) sample_manager) = ?mi"
    by (simp add: resumeMiner_def Let_def sample_mining_state) (simp add: sample_baseline_def bob_def)
  moreover have "found_values ?mi = []"
    by (simp add: miner_start_def MinerLocal_new_def Let_def split: prod.split)
  moreover have "found_hash_queue (resumeMiner (sample_env True) (\<lambda>_. 7) sample_manager) = []"
    by (simp add: resumeMiner_def Let_def)
  ultimately show ?thesis by (simp add: bm_mine_def sample_mined(1) foundHashCallback_def)
qed

section \<open>Properties\<close>

text \<open>
  C33: the candidate block stays valid. A cycle of the collect state on a consistent chain never
  fails; the chain is unchanged, and afterwards again every sub block of the node's next block is
  stored under its hash and accepted by the chain, and the block keeps the limits on transactions
  and on the coins of the epoch.
\<close>

theorem collect_cycle_keeps_candidate:
  assumes "own_key_ok E m" "chain_inv E (bm_blockchain m) bs"
    and "candidate_inv E (base_header (last bs)) (current_baseline (bm_blockchain m)) (new_block m)"
  shows "\<exists>r m'. collect_onCycle E dur m = Inr (r, m') \<and> bm_blockchain m' = bm_blockchain m \<and>
    candidate_inv E (base_header (last bs)) (current_baseline (bm_blockchain m')) (new_block m')"
  using collect_onCycle_step [of E m bs dur] assms by (auto simp: same_core_def)

theorem collect_cycle_keeps_candidate_witness:
  "\<exists>r m'. collect_onCycle (sample_env True) 3 (triggerTransaction alice 5 sample_manager) = Inr (r, m') \<and>
    bm_blockchain m' = sample_chain (sample_env True)"
proof -
  have "own_key_ok (sample_env True) (triggerTransaction alice 5 sample_manager)"
    using sample_manager_key by (simp add: own_key_ok_def triggerTransaction_def)
  from collect_cycle_keeps_candidate [OF this, of "[Baseline (sample_root (sample_env True))]" 3]
  show ?thesis
    using sample_chain_inv [of True] sample_manager_candidate by (auto simp: triggerTransaction_def)
qed

text \<open>
  C34: a mined coin reaches the block. Let the miner be resumed on a consistent chain, its workers run
  for any number of iterations in any order, and \<open>d\<close> be the first value they report: if its hash is
  not yet in the epoch's list and the epoch has room, the next collect cycle puts a creation sub block
  with \<open>d\<close> and the node's key into the candidate block, and the chain accepts that sub block.
\<close>

theorem mined_coin_collected:
  assumes "sha_stream E" "own_key_ok E m" "chain_inv E (bm_blockchain m) bs"
    and "candidate_inv E (base_header (last bs)) (current_baseline (bm_blockchain m)) (new_block m)"
    and "(miner_step E)\<^sup>*\<^sup>* (MinerLocal_new n) (bm_miner m)" "found_hash_queue m = []"
    and "m\<^sub>1 = fold (bm_mine E) is (resumeMiner E rnd m)" "found_hash_queue m\<^sub>1 = d # q"
    and "length (getAsShortString (our_public_key m)) \<le> 691"
    and "calcHash E d \<notin> set (last (data_value_hashes (current_baseline (bm_blockchain m))))"
    and "length (last (data_value_hashes (current_baseline (bm_blockchain m)))) + length (creations (new_block m)) < 1000"
  shows "\<exists>r m\<^sub>2 c. collect_onCycle E dur m\<^sub>1 = Inr (r, m\<^sub>2) \<and> (cr_hash c, c) \<in> set (creations (new_block m\<^sub>2)) \<and>
    data_value c = d \<and> creator c = our_public_key m \<and> validateSubBlock_creation E (bm_blockchain m\<^sub>2) c = Inr True"
proof -
  have job: "mining_for E m m\<^sub>1"
    unfolding assms(7) using miner_inv_reachable [OF assms(5)]
    by (intro mining_for_run [OF assms(1)] mining_for_resume)
  then have core: "same_core m m\<^sub>1" "new_block m\<^sub>1 = new_block m" and d: "mined_text E (bm_miner m\<^sub>1) d"
    using assms(6,8) by (auto simp: mining_for_def)
  have key: "own_key_ok E m\<^sub>1" and ok: "candidate_ok E bs m\<^sub>1"
    using assms(2-4) core by (simp_all add: own_key_ok_def same_core_def)
  have fit: "starts_with d (hash_toString (highest_hash_of_last_epoch (getMiningState (bm_blockchain m))) @ ''_'' @
        getAsShortString (our_public_key m\<^sub>1) @ ''_'')"
    "in_area (unat (epoch (getMiningState (bm_blockchain m)))) (calcHash E d)" "length d \<le> 1024"
    using d job core(1) assms(9)
    by (auto simp: mined_text_def mining_for_def in_area_def getHashArea_def same_core_def)
  have "d \<noteq> ''''" using fit(1) by (auto simp: starts_with_def)
  then obtain r m\<^sub>2 c where run: "collect_onCycle E dur m\<^sub>1 = Inr (r, m\<^sub>2)" "same_core m\<^sub>1 m\<^sub>2"
    and c: "make_creation E (hash_b (last bs)) d m\<^sub>1 = Inr c"
    and put: "validateSubBlock_creation E (bm_blockchain m\<^sub>1) c = Inr True \<and>
         length (last (data_value_hashes (current_baseline (bm_blockchain m\<^sub>1)))) + length (creations (new_block m\<^sub>1)) < 1000 \<longrightarrow>
         (cr_hash c, c) \<in> set (creations (new_block m\<^sub>2))"
    using collect_onCycle_step [OF key ok, of dur] assms(8) by blast
  have "validateSubBlock_creation E (bm_blockchain m) c = Inr True" "data_value c = d" "creator c = our_public_key m\<^sub>1"
    using mined_creation_accepted [OF assms(3) c key fit assms(10)] by blast+
  then show ?thesis using run put core assms(11) by (auto simp: same_core_def)
qed

theorem mined_coin_collected_witness:
  "\<exists>r m\<^sub>2 c. collect_onCycle (sample_env True) 3
      (fold (bm_mine (sample_env True)) [0] (resumeMiner (sample_env True) (\<lambda>_. 7) sample_manager)) = Inr (r, m\<^sub>2) \<and>
    (cr_hash c, c) \<in> set (creations (new_block m\<^sub>2)) \<and> data_value c = ''0_B_7_0'' \<and> creator c = bob"
proof -
  let ?E = "sample_env True"
  have "\<exists>r m\<^sub>2 c. collect_onCycle ?E 3 (fold (bm_mine ?E) [0] (resumeMiner ?E (\<lambda>_. 7) sample_manager)) = Inr (r, m\<^sub>2) \<and>
      (cr_hash c, c) \<in> set (creations (new_block m\<^sub>2)) \<and> data_value c = ''0_B_7_0'' \<and>
      creator c = our_public_key sample_manager \<and> validateSubBlock_creation ?E (bm_blockchain m\<^sub>2) c = Inr True"
  proof (rule mined_coin_collected [OF sample_sha_stream sample_manager_key])
    show "chain_inv ?E (bm_blockchain sample_manager) [Baseline (sample_root ?E)]" using sample_chain_inv by simp
    show "candidate_inv ?E (base_header (last [Baseline (sample_root ?E)])) (current_baseline (bm_blockchain sample_manager))
        (new_block sample_manager)" using sample_manager_candidate by simp
    show "(miner_step ?E)\<^sup>*\<^sup>* (MinerLocal_new 1) (bm_miner sample_manager)" by simp
    show "found_hash_queue (fold (bm_mine ?E) [0] (resumeMiner ?E (\<lambda>_. 7) sample_manager)) = ''0_B_7_0'' # []"
      by (rule sample_mined_queue)
    show "calcHash ?E ''0_B_7_0'' \<notin> set (last (data_value_hashes (current_baseline (bm_blockchain sample_manager))))"
      using sample_mined(2) by (simp add: sample_chain_baseline)
    show "fold (bm_mine ?E) [0] (resumeMiner ?E (\<lambda>_. 7) sample_manager) =
        fold (bm_mine ?E) [0] (resumeMiner ?E (\<lambda>_. 7) sample_manager)" ..
  qed (simp_all add: bob_def getAsShortString_def sample_chain_baseline new_CollectionBlock_def)
  then show ?thesis by auto
qed

end
