(* ===== verification/Cycle_Introduce_Block.thy ===== *)
theory Cycle_Introduce_Block
  imports Cycle_Collect
begin

text \<open>
  The states that introduce a block and a baseline
  (src/src/scn/BlockchainManager/CycleStateIntroduceBlock.cpp and CycleStateIntroduceBaseline.cpp): the
  node propagates its candidate block, merges the sub blocks of the peers' blocks into it once enough
  peers have sent them, and adds the result to its chain.
\<close>

section \<open>Definitions\<close>

definition peers_necessary_for_granting :: "u32 list" where
  "peers_necessary_for_granting = [1, 1, 1, 1, 1, 1, 1, 1, 1, 1, 1, 2, 2, 3, 4, 5, 5, 6, 6, 7, 7, 8]"

definition necessary_peers :: "u32 \<Rightarrow> u32" where
  "necessary_peers num_propagations =
     peers_necessary_for_granting ! unat (min (of_nat (length peers_necessary_for_granting) - 1) num_propagations)"

text \<open>The new block with its number and predecessor, hashed again.\<close>

definition rehash :: "'ctx env \<Rightarrow> CollectionBlock \<Rightarrow> CollectionBlock res" where
  "rehash E nb = fillHash_collection E (set_hash 0 nb)"

definition introduce_onEnter :: "'ctx env \<Rightarrow> blockchain_time_t \<Rightarrow> 'ctx BlockchainManager \<Rightarrow> 'ctx BlockchainManager res" where
  "introduce_onEnter E now m =
     bind_res (restartCheckCycle E now (bm_blockchain m) (out_of_sync_detector m)) (\<lambda>d.
       let m = m\<lparr>out_of_sync_detector := d\<rparr>;
           st = (cycle_state_introduce_block m)
             \<lparr>processed_blocks := [], creation_sub_block_counter := [], transaction_sub_block_counter := []\<rparr>;
           new_block_uid = getNewestBlockId E (bm_blockchain m) + 1
       in bind_res (getBlock E (bm_blockchain m) (new_block_uid - 1)) (\<lambda>b.
          case b of None \<Rightarrow> Inl NullDeref | Some b \<Rightarrow>
            bind_res (rehash E (set_uid new_block_uid (set_prev (hash_b b) (new_block m)))) (\<lambda>nb.
              Inr (bm_call [propagateCollection_call nb]
                (m\<lparr>new_block := nb,
                   cycle_state_introduce_block :=
                     st\<lparr>next_propagation_time := now + time_between_propagations_ms,
                        num_propagations_in_current_cycle := 1\<rparr>\<rparr>)))))"

definition introduce_onCycle :: "blockchain_time_t \<Rightarrow> 'ctx BlockchainManager \<Rightarrow> bool \<times> 'ctx BlockchainManager" where
  "introduce_onCycle now m =
     (let st = cycle_state_introduce_block m
      in if now \<ge> next_propagation_time st then
           (False, bm_call [propagateCollection_call (new_block m)]
              (m\<lparr>cycle_state_introduce_block :=
                   st\<lparr>next_propagation_time := next_propagation_time st + time_between_propagations_ms,
                      num_propagations_in_current_cycle := num_propagations_in_current_cycle st + 1\<rparr>\<rparr>))
         else (False, m))"

definition introduce_onExit :: "'ctx env \<Rightarrow> (nat \<Rightarrow> u32) \<Rightarrow> 'ctx BlockchainManager \<Rightarrow> 'ctx BlockchainManager res" where
  "introduce_onExit E rnd m =
     bind_res (rehash E (new_block m)) (\<lambda>nb.
     bind_res (addBlock_collection E nb (bm_blockchain m)) (\<lambda>(_, bc).
       let m = m\<lparr>new_block := nb, bm_blockchain := bc\<rparr>
       in if epoch (getMiningState bc) \<noteq> miner_epoch (bm_miner m) \<and> miner_running (bm_miner m)
          then Inr (resumeMiner E rnd ((pauseMiner m)\<lparr>found_hash_queue := []\<rparr>))
          else Inr m))"

text \<open>Merging; the state of both loops is the new block's map and the counter.\<close>

definition merge_transaction ::
    "u32 \<Rightarrow> hash_t \<times> TransactionSubBlock \<Rightarrow> (hash_t, TransactionSubBlock) std_map \<times> (hash_t, u32) std_map \<Rightarrow>
     (hash_t, TransactionSubBlock) std_map \<times> (hash_t, u32) std_map" where
  "merge_transaction num_propagations = (\<lambda>(k, t) (ts, counter).
     if map_find ts k = None then
       (let counter = map_modify k 0 (\<lambda>n. n + 1) counter
        in if map_lookup0 0 counter k \<ge> necessary_peers num_propagations then
             (let ts = map_put k t ts;
                  ts = (if (of_nat (length ts) :: u64) > ucast max_num_transactions then map_erase_last ts else ts)
              in (ts, map_erase k counter))
           else (ts, counter))
     else (ts, counter))"

fun getRidOfDuplicates ::
    "string \<Rightarrow> bool \<Rightarrow> (hash_t, CreationSubBlock) std_map \<Rightarrow> (hash_t, CreationSubBlock) std_map" where
  "getRidOfDuplicates d already_found [] = []"
| "getRidOfDuplicates d already_found ((k, c) # m) =
     (if data_value c = d then
        (if already_found then getRidOfDuplicates d already_found m else (k, c) # getRidOfDuplicates d True m)
      else (k, c) # getRidOfDuplicates d already_found m)"

definition merge_creation ::
    "MiningState \<Rightarrow> u32 \<Rightarrow> hash_t \<times> CreationSubBlock \<Rightarrow> (hash_t, CreationSubBlock) std_map \<times> (hash_t, u32) std_map \<Rightarrow>
     (hash_t, CreationSubBlock) std_map \<times> (hash_t, u32) std_map" where
  "merge_creation ms num_propagations = (\<lambda>(k, c) (cs, counter).
     if map_find cs k = None then
       (let counter = map_modify k 0 (\<lambda>n. n + 1) counter
        in if map_lookup0 0 counter k \<ge> necessary_peers num_propagations then
             (let cs = map_put k c cs;
                  cs = getRidOfDuplicates (data_value c) False cs;
                  cs = (if (of_nat (length cs) :: u64) > creation_room ms then map_erase_last cs else cs)
              in (cs, map_erase k counter))
           else (cs, counter))
     else (cs, counter))"

definition merge_block :: "'ctx env \<Rightarrow> CollectionBlock \<Rightarrow> 'ctx BlockchainManager \<Rightarrow> 'ctx BlockchainManager res" where
  "merge_block E block m =
     (let ms = getMiningState (bm_blockchain m);
          st = cycle_state_introduce_block m;
          n = num_propagations_in_current_cycle st;
          (ts, tc) = fold (merge_transaction n) (transactions block) (transactions (new_block m), transaction_sub_block_counter st);
          (cs, cc) = fold (merge_creation ms n) (creations block) (creations (new_block m), creation_sub_block_counter st)
      in bind_res (rehash E ((new_block m)\<lparr>transactions := ts, creations := cs\<rparr>)) (\<lambda>nb.
           Inr (m\<lparr>new_block := nb, cycle_state_introduce_block :=
                  st\<lparr>transaction_sub_block_counter := tc, creation_sub_block_counter := cc\<rparr>\<rparr>)))"

definition process_block :: "'ctx env \<Rightarrow> peer_id_t \<Rightarrow> CollectionBlock \<Rightarrow> 'ctx BlockchainManager \<Rightarrow> 'ctx BlockchainManager res" where
  "process_block E peer block m =
     (let st = cycle_state_introduce_block m; processed = map_find (processed_blocks st) (hash_of block)
      in if uid_of block \<noteq> uid_of (new_block m) then Inr m
         else if processed \<noteq> None \<and> creation_sub_block_counter st = [] \<and> transaction_sub_block_counter st = [] then Inr m
         else
           bind_res (case processed of Some v \<Rightarrow> Inr (v, bm_blockchain m)
                     | None \<Rightarrow> validateBlock_collection E (bm_blockchain m) block) (\<lambda>(block_valid, bc).
             let m = m\<lparr>bm_blockchain := bc, cycle_state_introduce_block :=
                   st\<lparr>processed_blocks := map_put (hash_of block) block_valid (processed_blocks st)\<rparr>\<rparr>
             in if block_valid then
                  (if hash_of block \<noteq> hash_of (new_block m) then merge_block E block m else Inr m)
                else Inr (bm_report peer m)))"

definition introduce_blockReceived ::
    "'ctx env \<Rightarrow> peer_id_t \<Rightarrow> CollectionBlock \<Rightarrow> bool \<Rightarrow> 'ctx BlockchainManager \<Rightarrow> 'ctx BlockchainManager res" where
  "introduce_blockReceived E peer block reply m =
     (if reply then Inr (bm_report peer m)
      else bind_res (process_block E peer block m) (\<lambda>m.
        Inr (m\<lparr>out_of_sync_detector := oos_blockReceivedCallback peer block reply (out_of_sync_detector m)\<rparr>)))"

text \<open>The baseline state only acts when it is entered.\<close>

definition baseline_onEnter :: "'ctx env \<Rightarrow> (nat \<Rightarrow> u32) \<Rightarrow> 'ctx BlockchainManager \<Rightarrow> 'ctx BlockchainManager res" where
  "baseline_onEnter E rnd m =
     (let m = pauseMiner m
      in bind_res (establishBaseline E (bm_blockchain m)) (\<lambda>(_, bc).
           Inr (resumeMiner E rnd (m\<lparr>bm_blockchain := bc\<rparr>))))"

section \<open>getRidOfDuplicates\<close>

lemma getRid_True: "getRidOfDuplicates d True m = filter (\<lambda>kc. data_value (snd kc) \<noteq> d) m"
  by (induction m) auto

lemma getRid_others:
  "filter (\<lambda>kc. data_value (snd kc) \<noteq> d) (getRidOfDuplicates d f m) = filter (\<lambda>kc. data_value (snd kc) \<noteq> d) m"
  by (induction m arbitrary: f) auto

lemma getRid_first:
  "filter (\<lambda>kc. data_value (snd kc) = d) (getRidOfDuplicates d False m) = take 1 (filter (\<lambda>kc. data_value (snd kc) = d) m)"
proof (induction m)
  case (Cons a m)
  then show ?case by (cases a) (simp add: getRid_True)
qed simp

lemma getRid_subset: "set (getRidOfDuplicates d f m) \<subseteq> set m"
proof (induction m arbitrary: f)
  case (Cons a m)
  show ?case using Cons.IH [of f] Cons.IH [of True] by (cases a) auto
qed simp

lemma getRid_length: "length (getRidOfDuplicates d f m) \<le> length m"
proof (induction m arbitrary: f)
  case (Cons a m)
  show ?case using Cons.IH [of f] Cons.IH [of True] by (cases a) auto
qed simp

lemma getRid_wf [wf_intros]: "map_wf m \<Longrightarrow> map_wf (getRidOfDuplicates d f m)"
proof (induction m arbitrary: f)
  case (Cons a m)
  then show ?case using getRid_subset [of d f m] getRid_subset [of d True m] by (cases a) auto
qed simp

lemma getRid_distinct:
  "distinct (map (\<lambda>kc. data_value (snd kc)) m) \<Longrightarrow> getRidOfDuplicates d False m = m"
proof (induction m)
  case (Cons a m)
  then show ?case
  proof (cases "data_value (snd a) = d")
    case True
    then have "filter (\<lambda>kc. data_value (snd kc) \<noteq> d) m = m" using Cons.prems by (force simp: filter_id_conv image_iff)
    with True show ?thesis by (cases a) (simp add: getRid_True)
  qed (cases a, simp)
qed simp

section \<open>Validation of a block with signatures always returns\<close>

definition signatures_present :: "CollectionBlock \<Rightarrow> bool" where
  "signatures_present block \<longleftrightarrow>
     (\<forall>t \<in> snd ` set (transactions block). 2 \<le> length (tx_signature t)) \<and>
     (\<forall>c \<in> snd ` set (creations block). 2 \<le> length (cr_signature c))"

lemma decode64_total: "2 \<le> length s \<Longrightarrow> \<exists>raw. decode64 E s = Inr raw"
  by (auto simp: decode64_def calcDecodeLength_def Let_def)

lemma verifySignature_total:
  "2 \<le> length (sig_get block) \<Longrightarrow> \<exists>ok. verifySignature E save put sig_get sig_put block key = Inr ok"
  using decode64_total [of "sig_get block" E]
  by (auto simp: verifySignature_def Let_def verifySignature_data_def)

lemma all_valid_total: "\<forall>x \<in> set xs. \<exists>ok. f x = Inr ok \<Longrightarrow> \<exists>ok. all_valid f xs = Inr ok"
  by (induction xs) auto

lemma validateBlock_collection_total:
  assumes n: "newest_header E bc = Inr newest" and s: "signatures_present block"
  shows "\<exists>ok bc'. validateBlock_collection E bc block = Inr (ok, bc')"
proof -
  have t: "\<exists>ok. validateSubBlock_tx E t newest = Inr ok" if "t \<in> set (map snd (transactions block))" for t
  proof -
    have "2 \<le> length (tx_signature t)" using that s by (auto simp: signatures_present_def)
    from verifySignature_total [of tx_signature t, OF this]
    obtain v where "verifySignature_tx E t (pre_owner t) = Inr v" by blast
    then show ?thesis by (auto simp: validateSubBlock_tx_def)
  qed
  have c: "\<exists>ok. validateSubBlock_cr E c newest ms mx mn hs = Inr ok" if "c \<in> set (map snd (creations block))" for c ms mx mn hs
  proof -
    have "2 \<le> length (cr_signature c)" using that s by (auto simp: signatures_present_def)
    from verifySignature_total [of cr_signature c, OF this]
    obtain v where "verifySignature_cr E c (creator c) = Inr v" by blast
    then show ?thesis by (auto simp: validateSubBlock_cr_def Let_def)
  qed
  obtain ok1 where a: "all_valid (\<lambda>t. validateSubBlock_tx E t newest) (map snd (transactions block)) = Inr ok1"
    using all_valid_total [of "map snd (transactions block)" "\<lambda>t. validateSubBlock_tx E t newest"] t by blast
  obtain mx mn where area: "getHashArea (epoch (getMiningState bc)) = (mx, mn)" by fastforce
  obtain ok2 where b: "all_valid (\<lambda>c. validateSubBlock_cr E c newest (getMiningState bc) mx mn (hashes_of_epoch bc))
      (map snd (creations block)) = Inr ok2"
    using all_valid_total [of "map snd (creations block)"
        "\<lambda>c. validateSubBlock_cr E c newest (getMiningState bc) mx mn (hashes_of_epoch bc)"] c by blast
  obtain ok w where "check_balances (wallet_diffs (map snd (creations block)) (map snd (transactions block)))
      (wallets (current_baseline bc)) = (ok, w)" by fastforce
  then have "\<not> isl (validateBlock_collection E bc block)"
    by (simp add: validateBlock_collection_def n a b area Let_def)
  then show ?thesis by (cases "validateBlock_collection E bc block") auto
qed

section \<open>Merging keeps the sub blocks accepted\<close>

lemma merge_transaction_eq:
  "merge_transaction n (k, t) (ts, cnt) =
     (if map_find ts k = None then
        (let cnt = map_modify k 0 (\<lambda>n. n + 1) cnt
         in if map_lookup0 0 cnt k \<ge> necessary_peers n
            then (put_limited k t (ucast max_num_transactions) ts, map_erase k cnt) else (ts, cnt))
      else (ts, cnt))"
  by (simp add: merge_transaction_def put_limited_def Let_def)

lemma merge_transactions_inv:
  assumes "\<forall>(k, t) \<in> set kts. tx_accepted E newest t"
    and "sub_blocks_inv E newest b (nb\<lparr>transactions := ts\<rparr>)"
  shows "sub_blocks_inv E newest b (nb\<lparr>transactions := fst (fold (merge_transaction n) kts (ts, cnt))\<rparr>)"
  using assms
proof (induction kts arbitrary: ts cnt)
  case (Cons kt kts)
  obtain k t where kt: "kt = (k, t)" by (cases kt)
  obtain ts' cnt' where m: "merge_transaction n kt (ts, cnt) = (ts', cnt')" by fastforce
  have t: "tx_accepted E newest t" using Cons.prems(1) by (simp add: kt)
  have "sub_blocks_inv E newest b (nb\<lparr>transactions := ts'\<rparr>)"
    using m Cons.prems(2) sub_blocks_put_tx [OF Cons.prems(2) t, of k]
    by (auto simp: kt merge_transaction_eq Let_def split: if_splits)
  with Cons show ?case by (simp add: m)
qed simp

lemma sub_blocks_subset:
  assumes "sub_blocks_inv E newest b (nb\<lparr>creations := cs\<rparr>)" "map_wf cs'" "set cs' \<subseteq> set cs" "length cs' \<le> length cs"
  shows "sub_blocks_inv E newest b (nb\<lparr>creations := cs'\<rparr>)"
  using assms by (fastforce simp: sub_blocks_inv_def)

lemma merge_creation_inv:
  assumes b: "baseline_inv E b" and inv: "sub_blocks_inv E newest b (nb\<lparr>creations := cs\<rparr>)"
    and c: "cr_accepted E newest b c"
  shows "sub_blocks_inv E newest b (nb\<lparr>creations := fst (merge_creation (mining_state b) n (k, c) (cs, cnt))\<rparr>)"
proof -
  let ?room = "creation_room (mining_state b)" and ?m = "length (last (data_value_hashes b))"
  let ?put = "map_put k c cs"
  let ?rid = "getRidOfDuplicates (data_value c) False ?put"
  let ?res = "if (of_nat (length ?rid) :: u64) > ?room then map_erase_last ?rid else ?rid"
  have wf: "map_wf cs" and len: "length cs \<le> unat ?room" and room: "unat ?room = 1000 - ?m" and m: "?m \<le> 1000"
    using sub_blocks_room [OF b inv] unat_creation_room [OF b] inv by (simp_all add: sub_blocks_inv_def)
  have lr: "length ?rid \<le> length cs + 1"
    using getRid_length [of "data_value c" False ?put] length_map_put [OF wf, of k c] by (simp split: if_splits)
  then have "unat (of_nat (length ?rid) :: u64) = length ?rid" using len room by (intro unat_of_nat_small) simp
  then have gt: "(of_nat (length ?rid) :: u64) > ?room \<longleftrightarrow> length ?rid > unat ?room" by (simp add: word_less_nat_alt)
  have sub: "set ?res \<subseteq> insert (k, c) (set cs)"
    using getRid_subset [of "data_value c" False ?put] set_map_put_subset [of k c cs] set_map_erase_last [of ?rid] by auto
  have "map_wf ?res" using wf by (auto intro!: wf_intros)
  moreover have "length ?res \<le> unat ?room" using lr len by (auto simp: gt)
  ultimately have "sub_blocks_inv E newest b (nb\<lparr>creations := ?res\<rparr>)"
    using inv c sub room m by (fastforce simp: sub_blocks_inv_def)
  then show ?thesis using inv by (auto simp: merge_creation_def Let_def)
qed

lemma merge_creations_inv:
  assumes b: "baseline_inv E b" and "\<forall>(k, c) \<in> set kcs. cr_accepted E newest b c"
    and "sub_blocks_inv E newest b (nb\<lparr>creations := cs\<rparr>)"
  shows "sub_blocks_inv E newest b (nb\<lparr>creations := fst (fold (merge_creation (mining_state b) n) kcs (cs, cnt))\<rparr>)"
  using assms(2,3)
proof (induction kcs arbitrary: cs cnt)
  case (Cons kc kcs)
  obtain k c where kc: "kc = (k, c)" by (cases kc)
  obtain cs' cnt' where m: "merge_creation (mining_state b) n kc (cs, cnt) = (cs', cnt')" by fastforce
  have "sub_blocks_inv E newest b (nb\<lparr>creations := cs'\<rparr>)"
    using merge_creation_inv [OF b Cons.prems(2), of c n k cnt] m Cons.prems(1) by (simp add: kc)
  with Cons show ?case by (simp add: m)
qed simp

definition sub_blocks_accepted :: "'ctx env \<Rightarrow> BlockHeader \<Rightarrow> BaselineBlock \<Rightarrow> CollectionBlock \<Rightarrow> bool" where
  "sub_blocks_accepted E newest b block \<longleftrightarrow>
     (\<forall>(k, t) \<in> set (transactions block). tx_accepted E newest t) \<and>
     (\<forall>(k, c) \<in> set (creations block). cr_accepted E newest b c)"

lemma rehash_total: "\<exists>h. rehash E nb = Inr (set_hash h nb) \<and> verifyHash_collection E (set_hash h nb)"
proof -
  have h0: "hash_of (set_hash 0 nb) = 0" by simp
  obtain h where h: "fillHash_collection E (set_hash 0 nb) = Inr (set_hash h (set_hash 0 nb))"
    using collection_hash.fill_total [OF h0] by blast
  moreover have "set_hash h (set_hash 0 nb) = set_hash h nb" by (simp add: set_hash_def)
  ultimately show ?thesis using collection_hash.verify_fill [OF h0 h] by (auto simp: rehash_def)
qed

lemma sub_blocks_inv_hash [simp]: "sub_blocks_inv E newest b (set_hash h nb) = sub_blocks_inv E newest b nb"
  by (simp add: sub_blocks_inv_def)

text \<open>The header of the block under construction: number, predecessor, class and hash.\<close>

definition head_ok :: "'ctx env \<Rightarrow> BlockHeader \<Rightarrow> CollectionBlock \<Rightarrow> bool" where
  "head_ok E newest nb \<longleftrightarrow> uid_of nb = block_uid newest + 1 \<and> prev_of nb = block_hash (generic_header newest) \<and>
     type_of nb = CollectionBlock_type \<and> verifyHash_collection E nb"

text \<open>Merging never fails and changes the candidate block and the counters only.\<close>

lemma merge_block_run:
  assumes b: "baseline_inv E (current_baseline (bm_blockchain m))"
    and inv: "sub_blocks_inv E newest (current_baseline (bm_blockchain m)) (new_block m)"
    and acc: "sub_blocks_accepted E newest (current_baseline (bm_blockchain m)) block"
    and head: "head_ok E newest (new_block m)"
  shows "\<exists>m'. merge_block E block m = Inr m' \<and> bm_blockchain m' = bm_blockchain m \<and> head_ok E newest (new_block m') \<and>
    sub_blocks_inv E newest (current_baseline (bm_blockchain m)) (new_block m') \<and>
    processed_blocks (cycle_state_introduce_block m') = processed_blocks (cycle_state_introduce_block m)"
proof -
  let ?st = "cycle_state_introduce_block m" and ?n = "num_propagations_in_current_cycle (cycle_state_introduce_block m)"
  let ?b = "current_baseline (bm_blockchain m)"
  obtain ts tc where t: "fold (merge_transaction ?n) (transactions block)
      (transactions (new_block m), transaction_sub_block_counter ?st) = (ts, tc)" by fastforce
  obtain cs cc where c: "fold (merge_creation (mining_state ?b) ?n) (creations block)
      (creations (new_block m), creation_sub_block_counter ?st) = (cs, cc)" by fastforce
  have 1: "sub_blocks_inv E newest ?b ((new_block m)\<lparr>transactions := ts\<rparr>)"
    using merge_transactions_inv [of "transactions block" E newest ?b "transactions (new_block m)" "new_block m" ?n
        "transaction_sub_block_counter ?st"] acc inv t
    by (simp add: sub_blocks_accepted_def)
  have "sub_blocks_inv E newest ?b ((new_block m)\<lparr>transactions := ts, creations := cs\<rparr>)"
    using merge_creations_inv [OF b, of "creations block" newest "creations (new_block m)" "(new_block m)\<lparr>transactions := ts\<rparr>" ?n
        "creation_sub_block_counter ?st"] acc 1 c
    by (simp add: sub_blocks_accepted_def)
  then show ?thesis
    using rehash_total [of E "(new_block m)\<lparr>transactions := ts, creations := cs\<rparr>"] t c head
    by (auto simp: merge_block_def Let_def getMiningState_def head_ok_def)
qed

section \<open>Processing incoming blocks\<close>

type_synonym block_message = "peer_id_t \<times> CollectionBlock \<times> bool"

fun receive_all :: "'ctx env \<Rightarrow> block_message list \<Rightarrow> 'ctx BlockchainManager \<Rightarrow> 'ctx BlockchainManager res" where
  "receive_all E [] m = Inr m"
| "receive_all E ((peer, block, reply) # evs) m = bind_res (introduce_blockReceived E peer block reply m) (receive_all E evs)"

text \<open>
  The state while the blocks \<open>S\<close> may arrive: the chain is the one the cycle started on, the new block
  is in order, and every hash noted as valid belongs to a block of \<open>S\<close> in order.
\<close>

definition introduce_inv :: "'ctx env \<Rightarrow> block list \<Rightarrow> CollectionBlock set \<Rightarrow> 'ctx BlockchainManager \<Rightarrow> bool" where
  "introduce_inv E bs S m \<longleftrightarrow>
     chain_inv E (bm_blockchain m) bs \<and> head_ok E (base_header (last bs)) (new_block m) \<and>
     sub_blocks_inv E (base_header (last bs)) (current_baseline (bm_blockchain m)) (new_block m) \<and>
     (\<forall>h. map_find (processed_blocks (cycle_state_introduce_block m)) h = Some True \<longrightarrow>
        (\<exists>b \<in> S. hash_of b = h \<and> sub_blocks_accepted E (base_header (last bs)) (current_baseline (bm_blockchain m)) b))"

lemma cr_accepted_wallets [simp]: "cr_accepted E newest (b\<lparr>wallets := w\<rparr>) c = cr_accepted E newest b c"
  by (simp add: cr_accepted_def)

lemma sub_blocks_wallets [simp]:
  "sub_blocks_inv E newest (b\<lparr>wallets := w\<rparr>) nb = sub_blocks_inv E newest b nb"
  "sub_blocks_accepted E newest (b\<lparr>wallets := w\<rparr>) nb = sub_blocks_accepted E newest b nb"
  by (simp_all add: sub_blocks_inv_def sub_blocks_accepted_def)

text \<open>The verdict on a block, looked up or computed.\<close>

lemma verdict_step:
  assumes inv: "introduce_inv E bs S m" and block: "block \<in> S" "signatures_present block"
    and inj: "\<forall>b \<in> S. \<forall>b' \<in> S. hash_of b = hash_of b' \<longrightarrow> b = b'"
  obtains v w where "(case map_find (processed_blocks (cycle_state_introduce_block m)) (hash_of block) of
      Some v \<Rightarrow> Inr (v, bm_blockchain m) | None \<Rightarrow> validateBlock_collection E (bm_blockchain m) block) =
      Inr (v, (bm_blockchain m)\<lparr>current_baseline := (current_baseline (bm_blockchain m))\<lparr>wallets := w\<rparr>\<rparr>)"
    "chain_inv E ((bm_blockchain m)\<lparr>current_baseline := (current_baseline (bm_blockchain m))\<lparr>wallets := w\<rparr>\<rparr>) bs"
    "v \<longrightarrow> sub_blocks_accepted E (base_header (last bs)) (current_baseline (bm_blockchain m)) block"
proof (cases "map_find (processed_blocks (cycle_state_introduce_block m)) (hash_of block)")
  case (Some v)
  have "sub_blocks_accepted E (base_header (last bs)) (current_baseline (bm_blockchain m)) block" if "v"
  proof -
    have "map_find (processed_blocks (cycle_state_introduce_block m)) (hash_of block) = Some True" using Some that by simp
    then obtain b where "b \<in> S" "hash_of b = hash_of block"
      "sub_blocks_accepted E (base_header (last bs)) (current_baseline (bm_blockchain m)) b"
      using inv unfolding introduce_inv_def by blast
    then show ?thesis using inj block(1) by blast
  qed
  with inv Some show ?thesis
    by (intro that [of v "wallets (current_baseline (bm_blockchain m))"]) (simp_all add: introduce_inv_def)
next
  case None
  have chain: "chain_inv E (bm_blockchain m) bs" using inv by (simp add: introduce_inv_def)
  then have b: "baseline_inv E (current_baseline (bm_blockchain m))"
    and n: "newest_header E (bm_blockchain m) = Inr (base_header (last bs))"
    using chain_rep_newest(2) [of E "bm_blockchain m" bs] by (auto simp: chain_inv_def)
  obtain v bc' where v: "validateBlock_collection E (bm_blockchain m) block = Inr (v, bc')"
    using validateBlock_collection_total [OF n block(2)] by blast
  obtain w where w: "bc' = (bm_blockchain m)\<lparr>current_baseline := (current_baseline (bm_blockchain m))\<lparr>wallets := w\<rparr>\<rparr>"
    "baseline_inv E ((current_baseline (bm_blockchain m))\<lparr>wallets := w\<rparr>)"
    using validateBlock_collection_frame [OF v b] by blast
  have "sub_blocks_accepted E (base_header (last bs)) (current_baseline (bm_blockchain m)) block" if "v"
    using validateBlock_collection_True(2) [of E "bm_blockchain m" block bc'] v b n that
    by (fastforce simp: sub_blocks_accepted_def)
  moreover have "chain_inv E bc' bs" using chain w by (simp add: chain_inv_def)
  ultimately show ?thesis using None v w(1) by (intro that [of v w]) simp_all
qed

lemma process_block_step:
  assumes inv: "introduce_inv E bs S m" and block: "block \<in> S" "signatures_present block"
    and inj: "\<forall>b \<in> S. \<forall>b' \<in> S. hash_of b = hash_of b' \<longrightarrow> b = b'"
  shows "\<exists>m'. process_block E peer block m = Inr m' \<and> introduce_inv E bs S m'"
proof -
  let ?st = "cycle_state_introduce_block m"
  show ?thesis
  proof (cases "uid_of block \<noteq> uid_of (new_block m) \<or>
      (map_find (processed_blocks ?st) (hash_of block) \<noteq> None \<and> creation_sub_block_counter ?st = [] \<and>
       transaction_sub_block_counter ?st = [])")
    case True
    then show ?thesis using inv by (auto simp: process_block_def Let_def)
  next
    case False
    obtain v w where v: "(case map_find (processed_blocks ?st) (hash_of block) of
        Some v \<Rightarrow> Inr (v, bm_blockchain m) | None \<Rightarrow> validateBlock_collection E (bm_blockchain m) block) =
        Inr (v, (bm_blockchain m)\<lparr>current_baseline := (current_baseline (bm_blockchain m))\<lparr>wallets := w\<rparr>\<rparr>)"
      and chain: "chain_inv E ((bm_blockchain m)\<lparr>current_baseline := (current_baseline (bm_blockchain m))\<lparr>wallets := w\<rparr>\<rparr>) bs"
      and acc: "v \<longrightarrow> sub_blocks_accepted E (base_header (last bs)) (current_baseline (bm_blockchain m)) block"
      by (rule verdict_step [OF inv block inj])
    let ?bc = "(bm_blockchain m)\<lparr>current_baseline := (current_baseline (bm_blockchain m))\<lparr>wallets := w\<rparr>\<rparr>"
    let ?m = "m\<lparr>bm_blockchain := ?bc, cycle_state_introduce_block :=
        ?st\<lparr>processed_blocks := map_put (hash_of block) v (processed_blocks ?st)\<rparr>\<rparr>"
    have inv': "introduce_inv E bs S ?m"
      using inv chain acc block(1) by (auto simp: introduce_inv_def map_find_put)
    have run: "process_block E peer block m =
        (if v then (if hash_of block \<noteq> hash_of (new_block m) then merge_block E block ?m else Inr ?m)
         else Inr (bm_report peer ?m))"
      using False v by (auto simp: process_block_def Let_def)
    show ?thesis
    proof (cases "v \<and> hash_of block \<noteq> hash_of (new_block m)")
      case True
      have "baseline_inv E (current_baseline (bm_blockchain ?m))" using chain by (simp add: chain_inv_def)
      then obtain m' where m': "merge_block E block ?m = Inr m'" "bm_blockchain m' = bm_blockchain ?m"
        "head_ok E (base_header (last bs)) (new_block m')"
        "sub_blocks_inv E (base_header (last bs)) (current_baseline (bm_blockchain ?m)) (new_block m')"
        "processed_blocks (cycle_state_introduce_block m') = processed_blocks (cycle_state_introduce_block ?m)"
        using merge_block_run [of E ?m "base_header (last bs)" block] inv' acc True by (auto simp: introduce_inv_def)
      then have "introduce_inv E bs S m'" using inv' by (simp add: introduce_inv_def)
      with m'(1) True run show ?thesis by auto
    next
      case False
      then show ?thesis using run inv' by (auto simp: bm_report_def introduce_inv_def)
    qed
  qed
qed

lemma receive_all_inv:
  assumes "introduce_inv E bs S m" "\<forall>(p, b, r) \<in> set evs. b \<in> S \<and> signatures_present b"
    and inj: "\<forall>b \<in> S. \<forall>b' \<in> S. hash_of b = hash_of b' \<longrightarrow> b = b'"
  shows "\<exists>m'. receive_all E evs m = Inr m' \<and> introduce_inv E bs S m'"
  using assms(1,2)
proof (induction evs arbitrary: m)
  case (Cons ev evs)
  obtain p b r where ev: "ev = (p, b, r)" by (cases ev)
  have b: "b \<in> S" "signatures_present b" using Cons.prems(2) by (simp_all add: ev)
  have "\<exists>m'. introduce_blockReceived E p b r m = Inr m' \<and> introduce_inv E bs S m'"
    using process_block_step [OF Cons.prems(1) b inj, of p] Cons.prems(1)
    by (auto simp: introduce_blockReceived_def bm_report_def introduce_inv_def)
  then obtain m' where m': "introduce_blockReceived E p b r m = Inr m'" "introduce_inv E bs S m'" by blast
  with Cons show ?case by (simp add: ev)
qed simp

lemma introduce_onEnter_run:
  assumes chain: "chain_inv E (bm_blockchain m) bs" and t: "type_of (new_block m) = CollectionBlock_type"
    and sub: "sub_blocks_inv E (base_header (last bs)) (current_baseline (bm_blockchain m)) (new_block m)"
  shows "\<exists>m'. introduce_onEnter E now m = Inr m' \<and> introduce_inv E bs S m' \<and>
    cycle_state_introduce_block m' = \<lparr>next_propagation_time = now + time_between_propagations_ms,
      num_propagations_in_current_cycle = 1, processed_blocks = [], creation_sub_block_counter = [],
      transaction_sub_block_counter = []\<rparr> \<and>
    bm_blockchain m' = bm_blockchain m \<and> transactions (new_block m') = transactions (new_block m) \<and>
    creations (new_block m') = creations (new_block m) \<and>
    p2p_calls m' = p2p_calls m @ [propagateCollection_call (new_block m')]"
proof -
  let ?bc = "bm_blockchain m" and ?uid = "uid_b (last bs) + 1"
  have rep: "chain_rep E ?bc bs" using chain by (simp add: chain_inv_def)
  have n: "newest_header E ?bc = Inr (base_header (last bs))" "getNewestBlockId E ?bc = uid_b (last bs)"
    "getBlock E ?bc (uid_b (last bs)) = Inr (Some (last bs))"
    using chain_rep_newest [OF rep] by (simp_all add: getNewestBlockId_def getNewestBlock_def getMetaData_rep [OF rep])
  let ?nb = "set_uid ?uid (set_prev (hash_b (last bs)) (new_block m))"
  obtain h where h: "rehash E ?nb = Inr (set_hash h ?nb)" "verifyHash_collection E (set_hash h ?nb)"
    using rehash_total by blast
  have "head_ok E (base_header (last bs)) (set_hash h ?nb)" using h(2) t by (simp add: head_ok_def)
  moreover have "sub_blocks_inv E (base_header (last bs)) (current_baseline ?bc) (set_hash h ?nb)"
    using sub by (simp add: sub_blocks_inv_def)
  ultimately show ?thesis
    using chain n h(1)
    by (simp add: introduce_onEnter_def restartCheckCycle_def Let_def bm_call_def introduce_inv_def)
qed

section \<open>Properties\<close>

text \<open>
  C9: what a node introduces is in order. From a consistent chain and a candidate block in order,
  entering the state and receiving blocks does not fail, and the block the node has built then has the
  next number, points to the newest block, carries its own hash, holds only sub blocks the chain accepts,
  and keeps the limits. The received blocks are any blocks whose signatures have at least two characters
  (decoding an empty one reads out of range) and of which those that claim the same hash in their header
  are equal (\<open>Agreement\<close> shows a forged block with a claimed hash that is merged).
\<close>

theorem introduced_block_in_order:
  assumes "chain_inv E (bm_blockchain m) bs" "type_of (new_block m) = CollectionBlock_type"
    and "sub_blocks_inv E (base_header (last bs)) (current_baseline (bm_blockchain m)) (new_block m)"
    and "\<forall>(p, b, r) \<in> set evs. signatures_present b"
    and "\<forall>(p, b, r) \<in> set evs. \<forall>(p', b', r') \<in> set evs. hash_of b = hash_of b' \<longrightarrow> b = b'"
  shows "\<exists>m\<^sub>1 m\<^sub>2. introduce_onEnter E now m = Inr m\<^sub>1 \<and> receive_all E evs m\<^sub>1 = Inr m\<^sub>2 \<and>
    chain_inv E (bm_blockchain m\<^sub>2) bs \<and> uid_of (new_block m\<^sub>2) = uid_b (last bs) + 1 \<and>
    prev_of (new_block m\<^sub>2) = hash_b (last bs) \<and> verifyHash_collection E (new_block m\<^sub>2) \<and>
    sub_blocks_inv E (base_header (last bs)) (current_baseline (bm_blockchain m\<^sub>2)) (new_block m\<^sub>2)"
proof -
  let ?S = "(\<lambda>(p, b, r). b) ` set evs"
  obtain m\<^sub>1 where m1: "introduce_onEnter E now m = Inr m\<^sub>1" "introduce_inv E bs ?S m\<^sub>1"
    using introduce_onEnter_run [OF assms(1,2,3)] by blast
  have "\<forall>(p, b, r) \<in> set evs. b \<in> ?S \<and> signatures_present b" using assms(4) by force
  moreover have "\<forall>b \<in> ?S. \<forall>b' \<in> ?S. hash_of b = hash_of b' \<longrightarrow> b = b'" using assms(5) by fastforce
  ultimately obtain m\<^sub>2 where "receive_all E evs m\<^sub>1 = Inr m\<^sub>2" "introduce_inv E bs ?S m\<^sub>2"
    using receive_all_inv [OF m1(2)] by blast
  with m1(1) show ?thesis by (auto simp: introduce_inv_def head_ok_def)
qed

theorem introduced_block_in_order_witness:
  "\<exists>m\<^sub>1 m\<^sub>2. introduce_onEnter (sample_env True) 5 sample_manager = Inr m\<^sub>1 \<and>
    receive_all (sample_env True)
      [(''p'', next_block (sample_env True) (Baseline (sample_root (sample_env True))) [] [], False)] m\<^sub>1 = Inr m\<^sub>2 \<and>
    uid_of (new_block m\<^sub>2) = 2"
proof -
  let ?E = "sample_env True"
  have "sub_blocks_inv ?E (base_header (last [Baseline (sample_root ?E)])) (current_baseline (bm_blockchain sample_manager))
      (new_block sample_manager)"
    using sample_manager_candidate by (simp add: candidate_inv_def)
  then show ?thesis
    using introduced_block_in_order [of ?E sample_manager "[Baseline (sample_root ?E)]"
        "[(''p'', next_block ?E (Baseline (sample_root ?E)) [] [], False)]" 5] sample_chain_inv [of True]
    by (auto simp: signatures_present_def next_block_facts) (auto simp: new_CollectionBlock_def)
qed

text \<open>
  Of several coins with the same data value \<open>getRidOfDuplicates\<close> keeps exactly the one under the
  smallest hash; all other coins stay, in order.
\<close>

theorem getRidOfDuplicates_keeps_smallest:
  "filter (\<lambda>kc. data_value (snd kc) = d) (getRidOfDuplicates d False m) =
     take 1 (filter (\<lambda>kc. data_value (snd kc) = d) m) \<and>
   filter (\<lambda>kc. data_value (snd kc) \<noteq> d) (getRidOfDuplicates d False m) =
     filter (\<lambda>kc. data_value (snd kc) \<noteq> d) m"
  by (simp add: getRid_first getRid_others)

end
