(* ===== verification/Agreement.thy ===== *)
theory Agreement
  imports Cycle_Introduce_Block Chain_Properties
begin

text \<open>
  Two nodes that introduce different candidate blocks and receive each other's build the same block:
  the merge of src/src/scn/BlockchainManager/CycleStateIntroduceBlock.cpp is the union of the two
  maps while one peer is enough to grant a sub block. Then what goes wrong in the merge.
\<close>

section \<open>Merging is a union\<close>

lemma necessary_peers_early: "n \<le> 10 \<Longrightarrow> necessary_peers n = 1"
proof -
  assume "n \<le> 10"
  then have n: "unat n \<in> set [0..<11]" by (simp add: word_le_nat_alt)
  have "\<forall>i \<in> set [0..<11]. peers_necessary_for_granting ! i = 1"
    by (simp add: peers_necessary_for_granting_def upt_rec)
  with n have "peers_necessary_for_granting ! unat n = 1" by blast
  moreover have "min (of_nat (length peers_necessary_for_granting) - 1) n = n"
    using \<open>n \<le> 10\<close> by (simp add: peers_necessary_for_granting_def min_def word_le_nat_alt)
  ultimately show ?thesis by (simp add: necessary_peers_def)
qed

lemma counter_idle [simp]: "map_erase k (map_modify k 0 f []) = []"
  by (simp add: map_modify_def map_index_def)

lemma merge_transactions_union:
  assumes "necessary_peers n = 1" "map_wf ts" "length ts + length kts \<le> 10000"
  shows "fold (merge_transaction n) kts (ts, []) = (map_union ts kts, [])"
  using assms
proof (induction kts arbitrary: ts)
  case (Cons kt kts)
  obtain k t where kt: "kt = (k, t)" by (cases kt)
  have lim: "unat (ucast max_num_transactions :: u64) = 10000" by (simp add: max_num_transactions_def)
  have "put_limited k t (ucast max_num_transactions) ts = map_put k t ts"
    using Cons.prems(3) by (intro put_limited_facts(4) [OF Cons.prems(2)]) (simp_all only: lim, simp_all)
  then have "merge_transaction n kt (ts, []) = (if map_find ts k = None then map_put k t ts else ts, [])"
    using Cons.prems(1) by (simp add: kt merge_transaction_eq Let_def map_lookup0_modify)
  then show ?case
    using Cons.prems Cons.IH [of "map_put k t ts"] Cons.IH [of ts] length_map_put [OF Cons.prems(2), of k t]
    by (simp add: map_union_def kt wf_intros)
qed (simp add: map_union_def)

definition values_unique :: "(hash_t \<times> CreationSubBlock) set \<Rightarrow> bool" where
  "values_unique U \<longleftrightarrow> (\<forall>x \<in> U. \<forall>y \<in> U. data_value (snd x) = data_value (snd y) \<longrightarrow> fst x = fst y)"

lemma values_unique_mono: "values_unique B \<Longrightarrow> A \<subseteq> B \<Longrightarrow> values_unique A"
  by (auto simp: values_unique_def)

lemma values_unique_distinct:
  assumes "map_wf cs" "set cs \<subseteq> U" "values_unique U"
  shows "distinct (map (\<lambda>kc. data_value (snd kc)) cs)"
proof -
  have "inj_on (\<lambda>kc. data_value (snd kc)) (set cs)"
  proof (rule inj_onI)
    fix x y assume xy: "x \<in> set cs" "y \<in> set cs" "data_value (snd x) = data_value (snd y)"
    then have "fst x = fst y" using assms(2,3) unfolding values_unique_def by blast
    then show "x = y" using xy map_wf_distinct [OF assms(1)] by (auto simp: distinct_map inj_on_def)
  qed
  then show ?thesis using map_wf_distinct [OF assms(1)] by (simp add: distinct_map)
qed

lemma merge_creations_union:
  assumes "necessary_peers n = 1" "map_wf cs" "length cs + length kcs \<le> unat (creation_room ms)"
    "unat (creation_room ms) < 2 ^ 63" "values_unique (set cs \<union> set kcs)"
  shows "fold (merge_creation ms n) kcs (cs, []) = (map_union cs kcs, [])"
  using assms
proof (induction kcs arbitrary: cs)
  case (Cons kc kcs)
  obtain k c where kc: "kc = (k, c)" by (cases kc)
  have sub: "set (map_put k c cs) \<subseteq> set cs \<union> set (kc # kcs)"
    using set_map_put_subset [of k c cs] by (auto simp: kc)
  have wf: "map_wf (map_put k c cs)" using Cons.prems(2) by (rule map_wf_put)
  have "distinct (map (\<lambda>kc. data_value (snd kc)) (map_put k c cs))"
    by (rule values_unique_distinct [OF wf sub Cons.prems(5)])
  then have rid: "getRidOfDuplicates (data_value c) False (map_put k c cs) = map_put k c cs" by (rule getRid_distinct)
  have "put_limited k c (creation_room ms) cs = map_put k c cs"
    using Cons.prems(3,4) by (intro put_limited_facts(4) [OF Cons.prems(2)]) simp_all
  then have "merge_creation ms n kc (cs, []) = (if map_find cs k = None then map_put k c cs else cs, [])"
    using Cons.prems(1) by (auto simp: kc merge_creation_def Let_def map_lookup0_modify rid put_limited_def)
  moreover have "values_unique (set (map_put k c cs) \<union> set kcs)" "values_unique (set cs \<union> set kcs)"
    using sub by (auto intro!: values_unique_mono [OF Cons.prems(5)])
  ultimately show ?case
    using Cons.prems(1-4) Cons.IH [of "map_put k c cs"] Cons.IH [of cs] length_map_put [OF Cons.prems(2), of k c] wf
    by (simp add: map_union_def kc)
qed (simp add: map_union_def)

section \<open>Two nodes\<close>

definition maps_agree :: "('k::linorder, 'v) std_map \<Rightarrow> ('k, 'v) std_map \<Rightarrow> bool" where
  "maps_agree a b \<longleftrightarrow> (\<forall>(k, v) \<in> set a. \<forall>(k', w) \<in> set b. k = k' \<longrightarrow> v = w)"

lemma map_union_agree: "map_wf a \<Longrightarrow> map_wf b \<Longrightarrow> maps_agree a b \<Longrightarrow> map_union a b = map_union b a"
  by (rule map_union_commute) (fastforce simp: maps_agree_def dest!: map_find_in_set)+

lemma merge_block_union:
  assumes "transaction_sub_block_counter (cycle_state_introduce_block m) = []"
    and "creation_sub_block_counter (cycle_state_introduce_block m) = []"
    and "num_propagations_in_current_cycle (cycle_state_introduce_block m) \<le> 10"
    and "map_wf (transactions (new_block m))" "map_wf (creations (new_block m))"
    and "length (transactions (new_block m)) + length (transactions b) \<le> 10000"
    and "length (creations (new_block m)) + length (creations b) \<le> unat (creation_room (getMiningState (bm_blockchain m)))"
    and "unat (creation_room (getMiningState (bm_blockchain m))) < 2 ^ 63"
    and "values_unique (set (creations (new_block m)) \<union> set (creations b))"
  shows "merge_block E b m =
    bind_res (rehash E ((new_block m)\<lparr>transactions := map_union (transactions (new_block m)) (transactions b),
      creations := map_union (creations (new_block m)) (creations b)\<rparr>)) (\<lambda>nb. Inr (m\<lparr>new_block := nb\<rparr>))"
proof -
  note n = necessary_peers_early [OF assms(3)]
  show ?thesis
    using merge_transactions_union [OF n assms(4,6)] merge_creations_union [OF n assms(5,7,8,9)] assms(1,2)
    by (simp add: merge_block_def Let_def bind_res_def split: sum.split)
qed

lemma introduce_entered:
  assumes "introduce_onEnter E now m = Inr n"
  shows "bm_blockchain n = bm_blockchain m"
    "cycle_state_introduce_block n = \<lparr>next_propagation_time = now + time_between_propagations_ms,
      num_propagations_in_current_cycle = 1, processed_blocks = [], creation_sub_block_counter = [],
      transaction_sub_block_counter = []\<rparr>"
  using assms by (auto simp: introduce_onEnter_def Let_def bm_call_def res_simps split: option.splits)

lemma rehash_set_hash: "rehash E (set_hash h nb) = rehash E nb"
  by (simp add: rehash_def set_hash_def)

text \<open>What the second node's block becomes of the first node's and the other way round.\<close>

definition merged :: "CollectionBlock \<Rightarrow> CollectionBlock \<Rightarrow> CollectionBlock" where
  "merged a b = a\<lparr>transactions := map_union (transactions a) (transactions b), creations := map_union (creations a) (creations b)\<rparr>"

lemma merged_commute:
  assumes "uid_of a = uid_of b" "prev_of a = prev_of b" "type_of a = type_of b"
    and "map_wf (transactions a)" "map_wf (creations a)" "map_wf (transactions b)" "map_wf (creations b)"
    and "maps_agree (transactions a) (transactions b)" "maps_agree (creations a) (creations b)"
  shows "rehash E (merged a b) = rehash E (merged b a)"
proof -
  have "set_hash 0 (merged a b) = set_hash 0 (merged b a)"
    using assms(1-3) map_union_agree [OF assms(4,6,8)] map_union_agree [OF assms(5,7,9)]
    by (simp add: merged_def set_hash_def)
  then show ?thesis by (simp add: rehash_def)
qed

text \<open>A node that has just entered the state takes over a valid block of a peer.\<close>

lemma first_block_received:
  assumes st: "cycle_state_introduce_block n = \<lparr>next_propagation_time = tm, num_propagations_in_current_cycle = 1,
      processed_blocks = [], creation_sub_block_counter = [], transaction_sub_block_counter = []\<rparr>"
    and inv: "baseline_inv E (current_baseline (bm_blockchain n))"
    and val: "validateBlock_collection E (bm_blockchain n) b = Inr (True, bc)"
    and b: "uid_of b = uid_of (new_block n)" "hash_of b \<noteq> hash_of (new_block n)"
    and wf: "map_wf (transactions (new_block n))" "map_wf (creations (new_block n))"
    and len: "length (transactions (new_block n)) + length (transactions b) \<le> 10000"
      "length (creations (new_block n)) + length (creations b) \<le> unat (creation_room (getMiningState (bm_blockchain n)))"
    and uniq: "values_unique (set (creations (new_block n)) \<union> set (creations b))"
  shows "\<exists>n' nb. introduce_blockReceived E p b False n = Inr n' \<and> rehash E (merged (new_block n) b) = Inr nb \<and> new_block n' = nb"
proof -
  let ?n = "n\<lparr>cycle_state_introduce_block := (cycle_state_introduce_block n)\<lparr>processed_blocks := [(hash_of b, True)]\<rparr>\<rparr>"
  have bc: "bc = bm_blockchain n" by (rule validateBlock_collection_True(1) [OF val inv])
  obtain h where h: "rehash E (merged (new_block n) b) = Inr (set_hash h (merged (new_block n) b))"
    using rehash_total by blast
  have "unat (creation_room (getMiningState (bm_blockchain n))) < 2 ^ 63"
    using unat_creation_room [OF inv] by (simp add: getMiningState_def)
  then have "merge_block E b ?n = Inr (?n\<lparr>new_block := set_hash h (merged (new_block n) b)\<rparr>)"
    using merge_block_union [of ?n b E] st wf len uniq h by (simp add: merged_def)
  then have "process_block E p b n = Inr (?n\<lparr>new_block := set_hash h (merged (new_block n) b)\<rparr>)"
    using val b st by (simp add: process_block_def Let_def bc)
  with h show ?thesis by (simp add: introduce_blockReceived_def)
qed

lemma map_union_self: "map_wf a \<Longrightarrow> map_union a a = a"
  by (rule map_ext) (auto simp: map_find_union wf_intros split: option.split)

lemma same_block_received:
  assumes st: "processed_blocks (cycle_state_introduce_block n) = []"
    and inv: "baseline_inv E (current_baseline (bm_blockchain n))"
    and val: "validateBlock_collection E (bm_blockchain n) (new_block n) = Inr (True, bc)"
  shows "\<exists>n'. introduce_blockReceived E p (new_block n) False n = Inr n' \<and> new_block n' = new_block n"
  using st val validateBlock_collection_True(1) [OF val inv]
  by (simp add: introduce_blockReceived_def process_block_def Let_def)

text \<open>
  Two nodes that start a cycle on the same chain with different candidate blocks build the same
  block. When each receives the other's block, finds it valid, and the sub blocks of both fit into a
  block (the maps do not contradict each other, no two coins claim the same value), both end with
  the same block, hash included, which holds the sub blocks of both.
\<close>

lemma two_nodes_agree:
  assumes chain: "chain_inv E (bm_blockchain m\<^sub>1) bs" "chain_inv E (bm_blockchain m\<^sub>2) bs"
    and enter: "introduce_onEnter E t\<^sub>1 m\<^sub>1 = Inr n\<^sub>1" "introduce_onEnter E t\<^sub>2 m\<^sub>2 = Inr n\<^sub>2"
    and val: "validateBlock_collection E (bm_blockchain n\<^sub>1) (new_block n\<^sub>2) = Inr (True, bc\<^sub>1)"
      "validateBlock_collection E (bm_blockchain n\<^sub>2) (new_block n\<^sub>1) = Inr (True, bc\<^sub>2)"
    and wf: "map_wf (transactions (new_block n\<^sub>1))" "map_wf (creations (new_block n\<^sub>1))"
      "map_wf (transactions (new_block n\<^sub>2))" "map_wf (creations (new_block n\<^sub>2))"
    and agree: "maps_agree (transactions (new_block n\<^sub>1)) (transactions (new_block n\<^sub>2))"
      "maps_agree (creations (new_block n\<^sub>1)) (creations (new_block n\<^sub>2))"
    and len: "length (transactions (new_block n\<^sub>1)) + length (transactions (new_block n\<^sub>2)) \<le> 10000"
      "length (creations (new_block n\<^sub>1)) + length (creations (new_block n\<^sub>2)) \<le>
         min (unat (creation_room (getMiningState (bm_blockchain n\<^sub>1)))) (unat (creation_room (getMiningState (bm_blockchain n\<^sub>2))))"
    and uniq: "values_unique (set (creations (new_block n\<^sub>1)) \<union> set (creations (new_block n\<^sub>2)))"
    and inj: "hash_of (new_block n\<^sub>1) = hash_of (new_block n\<^sub>2) \<Longrightarrow> new_block n\<^sub>1 = new_block n\<^sub>2"
  shows "\<exists>n\<^sub>1' n\<^sub>2'. introduce_blockReceived E p\<^sub>2 (new_block n\<^sub>2) False n\<^sub>1 = Inr n\<^sub>1' \<and>
    introduce_blockReceived E p\<^sub>1 (new_block n\<^sub>1) False n\<^sub>2 = Inr n\<^sub>2' \<and> new_block n\<^sub>1' = new_block n\<^sub>2' \<and>
    transactions (new_block n\<^sub>1') = map_union (transactions (new_block n\<^sub>1)) (transactions (new_block n\<^sub>2)) \<and>
    creations (new_block n\<^sub>1') = map_union (creations (new_block n\<^sub>1)) (creations (new_block n\<^sub>2))"
proof -
  note e1 = introduce_entered [OF enter(1)] and e2 = introduce_entered [OF enter(2)]
  have b: "baseline_inv E (current_baseline (bm_blockchain n\<^sub>1))" "baseline_inv E (current_baseline (bm_blockchain n\<^sub>2))"
    using chain by (simp_all add: chain_inv_def e1(1) e2(1))
  have "newest_header E (bm_blockchain n\<^sub>1) = newest_header E (bm_blockchain n\<^sub>2)"
    using chain chain_rep_newest(2) [of E _ bs] by (simp add: chain_inv_def e1(1) e2(1))
  then have h: "uid_of (new_block n\<^sub>2) = uid_of (new_block n\<^sub>1)" "prev_of (new_block n\<^sub>1) = prev_of (new_block n\<^sub>2)"
    "type_of (new_block n\<^sub>1) = type_of (new_block n\<^sub>2)"
    using validateBlock_collection_True(2) [OF val(1) b(1)] validateBlock_collection_True(2) [OF val(2) b(2)] by auto
  show ?thesis
  proof (cases "hash_of (new_block n\<^sub>1) = hash_of (new_block n\<^sub>2)")
    case True
    then have "new_block n\<^sub>1 = new_block n\<^sub>2" by (rule inj)
    then show ?thesis
      using same_block_received [of n\<^sub>1 E bc\<^sub>1 p\<^sub>2] same_block_received [of n\<^sub>2 E bc\<^sub>2 p\<^sub>1] val b wf
      by (auto simp: e1(2) e2(2) map_union_self)
  next
    case False
    obtain n\<^sub>1' where r1: "introduce_blockReceived E p\<^sub>2 (new_block n\<^sub>2) False n\<^sub>1 = Inr n\<^sub>1'"
      "rehash E (merged (new_block n\<^sub>1) (new_block n\<^sub>2)) = Inr (new_block n\<^sub>1')"
      using first_block_received [OF e1(2) b(1) val(1) h(1) _ wf(1,2) len(1), of p\<^sub>2] False len(2) uniq by auto
    obtain n\<^sub>2' where r2: "introduce_blockReceived E p\<^sub>1 (new_block n\<^sub>1) False n\<^sub>2 = Inr n\<^sub>2'"
      "rehash E (merged (new_block n\<^sub>2) (new_block n\<^sub>1)) = Inr (new_block n\<^sub>2')"
      using first_block_received [OF e2(2) b(2) val(2) h(1) [symmetric] False wf(3,4), of p\<^sub>1] len uniq
      by (auto simp: Un_commute add.commute)
    have "new_block n\<^sub>1' = new_block n\<^sub>2'"
      using merged_commute [OF h(1) [symmetric] h(2,3) wf agree, of E] r1(2) r2(2) by simp
    moreover have "transactions (new_block n\<^sub>1') = transactions (merged (new_block n\<^sub>1) (new_block n\<^sub>2))"
      "creations (new_block n\<^sub>1') = creations (merged (new_block n\<^sub>1) (new_block n\<^sub>2))"
      using rehash_total [of E "merged (new_block n\<^sub>1) (new_block n\<^sub>2)"] unfolding r1(2) by auto
    ultimately show ?thesis using r1(1) r2(1) by (simp add: merged_def)
  qed
qed

subsection \<open>Two nodes on the small chain\<close>

definition empty_block :: "bool \<Rightarrow> CollectionBlock" where
  "empty_block nd = next_block (sample_env nd) (Baseline (sample_root (sample_env nd))) [] []"


lemma length_saves:
  "length (save_size le n) = 8" "length (save_hash le h) = 32" "length (save_GenericHeader le g) = 65"
  "length (save_string le s) = 8 + length s" "length (save_BlockHeader le bh) = 73"
  "length (save_TransactionSubBlock le t) = 97 + length (short_string (pre_owner t)) + length (short_string (post_owner t)) + length (tx_signature t)"
  by (simp_all add: save_size_def save_hash_def save_GenericHeader_def save_string_def save_BlockHeader_def
      save_TransactionSubBlock_def save_SubBlockHeader_def save_key_def saveBinary_def)

lemma sample_hash_length:
  assumes "hash_of (next_block (sample_env nd) newest ts cs) = hash_of (next_block (sample_env nd) newest ts' cs')"
  shows "(of_nat (length (save_map save_hash save_TransactionSubBlock True ts @ save_map save_hash save_CreationSubBlock True cs)) :: byte) =
    of_nat (length (save_map save_hash save_TransactionSubBlock True ts' @ save_map save_hash save_CreationSubBlock True cs'))"
proof -
  let ?E = "sample_env nd" and ?b = "\<lambda>ts cs. (set_prev (hash_b newest) (set_uid (uid_b newest + 1) new_CollectionBlock))
          \<lparr>transactions := ts, creations := cs\<rparr>"
  let ?bytes = "\<lambda>ts cs. out_archive True @ save_CollectionBlock True (?b ts cs)"
  have h0: "hash_of (?b ts cs) = 0" for ts cs
    by (simp add: set_prev_def set_uid_def new_CollectionBlock_def new_BlockHeader_def new_GenericHeader_def)
  have h: "hash_of (next_block ?E newest ts cs) = fromArray (sample_digest (?bytes ts cs))" for ts cs
    using h0 by (simp add: next_block_def fillHash_def stream_digest_eq [OF sample_sha_stream])
      (simp add: calcHash_bytes_def sample_env_def)
  have "sample_digest (?bytes ts cs) = sample_digest (?bytes ts' cs')"
    using assms toArray_fromArray [of "replicate 32 0" "sample_digest (?bytes ts cs)"]
      toArray_fromArray [of "replicate 32 0" "sample_digest (?bytes ts' cs')"]
    unfolding h by (simp add: sample_digest_def)
  then show ?thesis by (simp add: sample_digest_def save_CollectionBlock_def length_saves)
qed

lemma hashes_differ: "hash_of (sample_block nd 400000) \<noteq> hash_of (empty_block nd)"
proof
  obtain data where "tx_signature (sample_payment nd 400000) = calcSignature (sample_env nd) ''K'' data"
    using signed_tx_signature unfolding sample_payment_def by blast
  moreover assume "hash_of (sample_block nd 400000) = hash_of (empty_block nd)"
  ultimately show False
    using sample_hash_length [of nd _ "[(tx_hash (sample_payment nd 400000), sample_payment nd 400000)]" "[]" "[]" "[]"]
    by (simp add: sample_block_def empty_block_def save_map_def length_saves save_pair_def sample_payment_facts
      sample_signature_length alice_def bob_def)
qed

text \<open>A node of the small chain with the given candidate.\<close>

definition sample_candidate ::
    "(hash_t \<times> TransactionSubBlock) list \<Rightarrow> (hash_t \<times> CreationSubBlock) list \<Rightarrow> byte list BlockchainManager" where
  "sample_candidate ts cs = sample_manager\<lparr>new_block := new_CollectionBlock\<lparr>transactions := ts, creations := cs\<rparr>\<rparr>"

lemma sample_candidate_chain [simp]: "bm_blockchain (sample_candidate ts cs) = sample_chain (sample_env True)"
  by (simp add: sample_candidate_def)

lemma sample_candidate_enters:
  "\<exists>n. introduce_onEnter (sample_env True) now ((sample_candidate ts cs)\<lparr>current_state := s\<rparr>) = Inr n \<and>
     new_block n = next_block (sample_env True) (Baseline (sample_root (sample_env True))) ts cs"
proof -
  let ?E = "sample_env True" and ?r = "sample_root (sample_env True)" and ?bc = "sample_chain (sample_env True)"
  have rep: "chain_rep ?E ?bc [Baseline ?r]" using sample_chain_inv [of True] by (simp add: chain_inv_def)
  have n: "newest_header ?E ?bc = Inr (header ?r)" "getNewestBlockId ?E ?bc = uid_of ?r"
    "getBlock ?E ?bc (uid_of ?r) = Inr (Some (Baseline ?r))"
    using chain_rep_newest [OF rep] by (simp_all add: getNewestBlockId_def getNewestBlock_def getMetaData_rep [OF rep])
  let ?nb = "set_uid (uid_of ?r + 1) (set_prev (hash_of ?r) (new_CollectionBlock\<lparr>transactions := ts, creations := cs\<rparr>))"
  have "set_hash 0 ?nb = (set_prev (hash_of ?r) (set_uid (uid_of ?r + 1) new_CollectionBlock))\<lparr>transactions := ts, creations := cs\<rparr>"
    by (simp add: set_hash_def set_prev_def set_uid_def new_CollectionBlock_def new_BlockHeader_def new_GenericHeader_def)
  moreover obtain h where "rehash ?E ?nb = Inr (set_hash h ?nb)" using rehash_total by blast
  ultimately have "rehash ?E ?nb = Inr (next_block ?E (Baseline ?r) ts cs)" by (simp add: next_block_def rehash_def)
  then show ?thesis using n
    by (auto simp: introduce_onEnter_def restartCheckCycle_def Let_def bm_call_def sample_candidate_def)
qed

lemma empty_block_accepted:
  "validateBlock_collection (sample_env nd) (sample_chain (sample_env nd)) (empty_block nd) = Inr (True, sample_chain (sample_env nd))"
proof -
  have "check_balances (wallet_diffs [] (map snd [])) [(bob, 1000000)] = (True, [(bob, 1000000)])"
    by (simp add: wallet_diffs_def)
  from sample_validate [OF _ _ this, of nd] show ?thesis
    by (simp add: empty_block_def) (simp add: sample_chain_baseline)
qed

section \<open>A verdict is kept by the hash in the header\<close>

lemma rehash_verified: "verifyHash_collection E nb \<Longrightarrow> rehash E nb = Inr nb"
  by (simp add: rehash_def collection_hash.verify_eq_fill)

text \<open>
  The state in which a block with the header hash \<open>h\<close> counts as valid and is not ignored, and the
  transaction \<open>k\<close> has been counted \<open>i\<close> times.
\<close>

definition counting :: "'ctx env \<Rightarrow> hash_t \<Rightarrow> hash_t \<Rightarrow> u32 \<Rightarrow> 'ctx BlockchainManager \<Rightarrow> bool" where
  "counting E h k i m \<longleftrightarrow> verifyHash_collection E (new_block m) \<and>
     map_find (processed_blocks (cycle_state_introduce_block m)) h = Some True \<and>
     transaction_sub_block_counter (cycle_state_introduce_block m) \<noteq> [] \<and>
     map_lookup0 0 (transaction_sub_block_counter (cycle_state_introduce_block m)) k = i"

lemma map_put_not_Nil [simp]: "map_put k v m \<noteq> []"
  by (induction k v m rule: map_put.induct) simp_all

lemma map_modify_not_Nil [simp]: "map_modify k d f m \<noteq> []"
  by (simp add: map_modify_def split: prod.split)

lemma counted_again:
  assumes c: "counting E (hash_of b) k i m" and b: "transactions b = [(k, t)]" "creations b = []"
    and new: "uid_of b = uid_of (new_block m)" "hash_of b \<noteq> hash_of (new_block m)" "map_find (transactions (new_block m)) k = None"
    and i: "i + 1 < necessary_peers (num_propagations_in_current_cycle (cycle_state_introduce_block m))"
  shows "\<exists>m'. introduce_blockReceived E p b False m = Inr m' \<and> counting E (hash_of b) k (i + 1) m' \<and>
    new_block m' = new_block m \<and> num_propagations_in_current_cycle (cycle_state_introduce_block m') =
      num_propagations_in_current_cycle (cycle_state_introduce_block m)"
proof -
  have mt: "merge_transaction (num_propagations_in_current_cycle (cycle_state_introduce_block m)) (k, t)
      (transactions (new_block m), transaction_sub_block_counter (cycle_state_introduce_block m)) =
      (transactions (new_block m), map_modify k 0 (\<lambda>n. n + 1) (transaction_sub_block_counter (cycle_state_introduce_block m)))"
    using c new(3) i by (simp add: merge_transaction_eq Let_def map_lookup0_modify counting_def not_le [symmetric])
  show ?thesis
    using c b new mt rehash_verified [of E "new_block m"]
    by (simp add: counting_def introduce_blockReceived_def process_block_def merge_block_def Let_def map_lookup0_modify map_find_put)
qed

lemma counted_last:
  assumes c: "counting E (hash_of b) k i m" and b: "transactions b = [(k, t)]" "creations b = []"
    and new: "uid_of b = uid_of (new_block m)" "hash_of b \<noteq> hash_of (new_block m)" "map_find (transactions (new_block m)) k = None"
    and wf: "map_wf (transactions (new_block m))" "length (transactions (new_block m)) < 10000"
    and i: "i + 1 = necessary_peers (num_propagations_in_current_cycle (cycle_state_introduce_block m))"
  shows "\<exists>m'. introduce_blockReceived E p b False m = Inr m' \<and> map_find (transactions (new_block m')) k = Some t"
proof -
  have "put_limited k t (ucast max_num_transactions) (transactions (new_block m)) = map_put k t (transactions (new_block m))"
    using wf by (intro put_limited_facts(4)) (simp_all add: max_num_transactions_def)
  then have mt: "merge_transaction (num_propagations_in_current_cycle (cycle_state_introduce_block m)) (k, t)
      (transactions (new_block m), transaction_sub_block_counter (cycle_state_introduce_block m)) =
      (map_put k t (transactions (new_block m)), map_erase k (map_modify k 0 (\<lambda>n. n + 1) (transaction_sub_block_counter (cycle_state_introduce_block m))))"
    using c new(3) i by (simp add: merge_transaction_eq Let_def map_lookup0_modify counting_def)
  let ?nb = "(new_block m)\<lparr>transactions := map_put k t (transactions (new_block m))\<rparr>"
  obtain h where "rehash E ?nb = Inr (set_hash h ?nb)" using rehash_total by blast
  then show ?thesis
    using c b new mt by (simp add: counting_def introduce_blockReceived_def process_block_def merge_block_def Let_def map_find_put)
qed

lemma counted_enough:
  assumes "counting E (hash_of b) k i m" "transactions b = [(k, t)]" "creations b = []"
    and "uid_of b = uid_of (new_block m)" "hash_of b \<noteq> hash_of (new_block m)" "map_find (transactions (new_block m)) k = None"
    and "map_wf (transactions (new_block m))" "length (transactions (new_block m)) < 10000"
    and "i + of_nat (Suc j) = necessary_peers (num_propagations_in_current_cycle (cycle_state_introduce_block m))"
    and "unat i + Suc j < 2 ^ 32"
  shows "\<exists>m'. receive_all E (replicate (Suc j) (p, b, False)) m = Inr m' \<and> map_find (transactions (new_block m')) k = Some t"
  using assms
proof (induction j arbitrary: i m)
  case 0
  then show ?case using counted_last [of E b k i m t p] by auto
next
  case (Suc j)
  have "unat (i + 1) = unat i + 1" "unat (i + of_nat (Suc (Suc j))) = unat i + Suc (Suc j)"
    using Suc.prems(10) by (simp_all add: unat_word_ariths unat_of_nat)
  then have "i + 1 < i + of_nat (Suc (Suc j))" by (simp only: word_less_nat_alt)
  then have i: "i + 1 < necessary_peers (num_propagations_in_current_cycle (cycle_state_introduce_block m))"
    using Suc.prems(9) by simp
  obtain m' where m': "introduce_blockReceived E p b False m = Inr m'" "counting E (hash_of b) k (i + 1) m'"
    "new_block m' = new_block m" "num_propagations_in_current_cycle (cycle_state_introduce_block m') =
      num_propagations_in_current_cycle (cycle_state_introduce_block m)"
    using counted_again [OF Suc.prems(1-6) i, of p] by blast
  have "\<exists>m''. receive_all E (replicate (Suc j) (p, b, False)) m' = Inr m'' \<and> map_find (transactions (new_block m'')) k = Some t"
    using Suc.prems \<open>unat (i + 1) = _\<close> by (intro Suc.IH [OF m'(2)]) (simp_all add: m'(3,4) algebra_simps)
  then show ?case using m'(1) by simp
qed

lemma valid_block_counted:
  assumes "processed_blocks (cycle_state_introduce_block m) = []"
    "transaction_sub_block_counter (cycle_state_introduce_block m) = []"
    and "2 \<le> necessary_peers (num_propagations_in_current_cycle (cycle_state_introduce_block m))"
    and "verifyHash_collection E (new_block m)" and inv: "baseline_inv E (current_baseline (bm_blockchain m))"
    and val: "validateBlock_collection E (bm_blockchain m) b = Inr (True, bc)"
    and "uid_of b = uid_of (new_block m)" "hash_of b \<noteq> hash_of (new_block m)"
    and "transactions b = [(k, t)]" "creations b = []" "map_find (transactions (new_block m)) k = None" "k' \<noteq> k"
  shows "\<exists>m'. introduce_blockReceived E p b False m = Inr m' \<and> counting E (hash_of b) k' 0 m' \<and> new_block m' = new_block m \<and>
    num_propagations_in_current_cycle (cycle_state_introduce_block m') =
      num_propagations_in_current_cycle (cycle_state_introduce_block m)"
proof -
  let ?n = "num_propagations_in_current_cycle (cycle_state_introduce_block m)"
  have "\<not> necessary_peers ?n \<le> 1" using assms(3) by (simp add: word_le_nat_alt)
  then have mt: "merge_transaction ?n (k, t) (transactions (new_block m), []) =
      (transactions (new_block m), map_modify k 0 (\<lambda>n. n + 1) [])"
    using assms(11) by (simp add: merge_transaction_eq Let_def map_lookup0_modify)
  show ?thesis
    using assms mt rehash_verified [of E "new_block m"] validateBlock_collection_True(1) [OF val inv]
    by (simp add: counting_def introduce_blockReceived_def process_block_def merge_block_def Let_def map_lookup0_modify map_find_put)
qed

text \<open>
  C31: \<open>processed_blocks_\<close> keeps the verdict on a block under the hash its header claims, and counts
  messages, not peers. After one valid block, while a counter is not empty, a block with the same
  header and any transaction \<open>t'\<close> in it is taken for valid; if the same peer repeats it as often as
  peers are necessary, the transaction is in the node's new block, whatever it is.
\<close>

theorem forged_block_merged:
  assumes "processed_blocks (cycle_state_introduce_block m) = []"
    "transaction_sub_block_counter (cycle_state_introduce_block m) = []"
    and "2 \<le> necessary_peers (num_propagations_in_current_cycle (cycle_state_introduce_block m))"
    and "verifyHash_collection E (new_block m)" "baseline_inv E (current_baseline (bm_blockchain m))"
    and "validateBlock_collection E (bm_blockchain m) b = Inr (True, bc)"
    and "uid_of b = uid_of (new_block m)" "hash_of b \<noteq> hash_of (new_block m)"
    and "transactions b = [(k, t)]" "creations b = []" "map_find (transactions (new_block m)) k = None" "k' \<noteq> k"
    and "map_find (transactions (new_block m)) k' = None" "map_wf (transactions (new_block m))"
      "length (transactions (new_block m)) < 10000"
  shows "\<exists>m'. receive_all E ((p, b, False) #
      replicate (unat (necessary_peers (num_propagations_in_current_cycle (cycle_state_introduce_block m))))
        (p, b\<lparr>transactions := [(k', t')]\<rparr>, False)) m = Inr m' \<and>
    map_find (transactions (new_block m')) k' = Some t'"
proof -
  let ?r = "necessary_peers (num_propagations_in_current_cycle (cycle_state_introduce_block m))"
  let ?b = "b\<lparr>transactions := [(k', t')]\<rparr>"
  obtain m' where m': "introduce_blockReceived E p b False m = Inr m'" "counting E (hash_of b) k' 0 m'"
    "new_block m' = new_block m" "num_propagations_in_current_cycle (cycle_state_introduce_block m') =
      num_propagations_in_current_cycle (cycle_state_introduce_block m)"
    using valid_block_counted [OF assms(1-12), of p] by blast
  have r0: "unat ?r \<noteq> 0" using assms(3) by (auto simp: word_le_nat_alt)
  then obtain j where j: "unat ?r = Suc j" using not0_implies_Suc by blast
  then have r: "0 + of_nat (Suc j) = ?r" by (simp flip: j)
  have "Suc j < 2 ^ 32" using unsigned_less [of ?r, where 'a = nat] by (simp add: j)
  then have "\<exists>m''. receive_all E (replicate (Suc j) (p, ?b, False)) m' = Inr m'' \<and>
      map_find (transactions (new_block m'')) k' = Some t'"
    using assms m' r by (intro counted_enough [of E ?b k' 0 m']) simp_all
  then show ?thesis using m'(1) by (simp add: j)
qed

definition forged_payment :: TransactionSubBlock where
  "forged_payment = new_TransactionSubBlock\<lparr>pre_owner := bob, post_owner := alice, fraction := 1000000\<rparr>"

theorem forged_block_merged_witness:
  "\<exists>m m'. new_block m = empty_block True \<and> bm_blockchain m = sample_chain (sample_env True) \<and>
    receive_all (sample_env True) ((''p'', sample_block True 400000, False) #
      replicate 2 (''p'', (sample_block True 400000)\<lparr>transactions := [(tx_hash (sample_payment True 400000) + 1, forged_payment)]\<rparr>, False)) m = Inr m' \<and>
    map_find (transactions (new_block m')) (tx_hash (sample_payment True 400000) + 1) = Some forged_payment \<and>
    \<not> tx_accepted (sample_env True) (header (sample_root (sample_env True))) forged_payment"
proof -
  let ?E = "sample_env True" and ?k = "tx_hash (sample_payment True 400000)"
  obtain n where n: "introduce_onEnter ?E 7 (sample_candidate [] []) = Inr n" "new_block n = empty_block True"
    using sample_candidate_enters [of 7 "current_state (sample_candidate [] [])" "[]" "[]"] by (auto simp: empty_block_def)
  let ?m = "n\<lparr>cycle_state_introduce_block := (cycle_state_introduce_block n)\<lparr>num_propagations_in_current_cycle := 12\<rparr>\<rparr>"
  have r: "necessary_peers 12 = 2" by (simp add: necessary_peers_def peers_necessary_for_granting_def)
  have m: "bm_blockchain ?m = sample_chain ?E" "processed_blocks (cycle_state_introduce_block ?m) = []"
    "transaction_sub_block_counter (cycle_state_introduce_block ?m) = []" "new_block ?m = empty_block True"
    using introduce_entered [OF n(1)] n(2) by simp_all
  have inv: "baseline_inv ?E (current_baseline (bm_blockchain ?m))" "verifyHash_collection ?E (new_block ?m)"
    using sample_chain_inv [of True] m(1) by (simp_all add: chain_inv_def m(4) empty_block_def next_block_facts)
  have b: "uid_of (sample_block True 400000) = uid_of (new_block ?m)" "hash_of (sample_block True 400000) \<noteq> hash_of (new_block ?m)"
    "transactions (sample_block True 400000) = [(?k, sample_payment True 400000)]" "creations (sample_block True 400000) = []"
    "transactions (new_block ?m) = []"
    using hashes_differ by (simp_all add: m(4) sample_block_def empty_block_def next_block_facts)
  have "verifySignature_tx ?E forged_payment bob \<noteq> Inr True"
    by (simp add: forged_payment_def new_TransactionSubBlock_def verifySignature_def Let_def verifySignature_data_def decode64_empty)
  then have "\<not> tx_accepted ?E (header (sample_root ?E)) forged_payment"
    by (simp add: tx_accepted_def) (simp add: forged_payment_def)
  moreover obtain m' where "receive_all ?E ((''p'', sample_block True 400000, False) #
      replicate (unat (2 :: u32)) (''p'', (sample_block True 400000)\<lparr>transactions := [(?k + 1, forged_payment)]\<rparr>, False)) ?m = Inr m'"
    "map_find (transactions (new_block m')) (?k + 1) = Some forged_payment"
    using forged_block_merged [OF m(2,3) _ inv(2,1) _ b(1-4), of "sample_chain ?E" "?k + 1" "''p''" forged_payment]
      m(1) r b(5) sample_block_accepted [of True] by auto
  ultimately show ?thesis using m(1,4) by (intro exI [of _ ?m] exI [of _ m']) simp
qed

end
