(* ===== verification/Cycle_Fetch.thy ===== *)
theory Cycle_Fetch
  imports Cycle_Introduce_Block
begin

text \<open>
  The state that fetches the chain from the peers
  (src/src/scn/BlockchainManager/CycleStateFetchBlockchain.cpp). Its thread \<open>fetchBlocksThread\<close> is a
  step function: a step is one iteration of the loop it is in, with one reading of the clock.
\<close>

section \<open>Definitions\<close>

definition max_parallel_block_fetchers :: nat where "max_parallel_block_fetchers = 50"

definition fetch_onEnter :: "'ctx env \<Rightarrow> 'ctx BlockchainManager \<Rightarrow> 'ctx BlockchainManager res" where
  "fetch_onEnter E m =
     bind_res (initEmptyChain E (bm_blockchain m)) (\<lambda>bc.
       Inr (m\<lparr>bm_blockchain := bc, cycle_state_fetch := (cycle_state_fetch m)
              \<lparr>global_blockchain_newest_block_id := 0, fetch_running := True, fetch_blocks_thread := FT_WaitPeers\<rparr>\<rparr>))"

fun cycle_agents ::
    "blockchain_time_t \<Rightarrow> (block_uid_t, CollectionBlock BlockFetchAgent) std_map \<Rightarrow>
     p2p_call list \<times> (block_uid_t, CollectionBlock BlockFetchAgent) std_map" where
  "cycle_agents now [] = ([], [])"
| "cycle_agents now ((uid, a) # agents) =
     (case agent_onCycle_collection now a of (calls, a') \<Rightarrow>
      case cycle_agents now agents of (calls', agents') \<Rightarrow> (calls @ calls', (uid, a') # agents'))"

definition fetch_onCycle :: "blockchain_time_t \<Rightarrow> 'ctx BlockchainManager \<Rightarrow> bool \<times> 'ctx BlockchainManager" where
  "fetch_onCycle now m =
     (let st = cycle_state_fetch m;
          (calls, b) = (case baseline_block_fetch_agent st of None \<Rightarrow> ([], None)
            | Some a \<Rightarrow> (case agent_onCycle_baseline now a of (calls, a) \<Rightarrow> (calls, Some a)));
          (calls', agents) = cycle_agents now (block_fetch_agent_map st)
      in (False, bm_call (calls @ calls')
            (m\<lparr>cycle_state_fetch := st\<lparr>baseline_block_fetch_agent := b, block_fetch_agent_map := agents\<rparr>\<rparr>)))"

definition fetch_blockReceived_baseline ::
    "peer_id_t \<Rightarrow> BaselineBlock \<Rightarrow> bool \<Rightarrow> 'ctx BlockchainManager \<Rightarrow> 'ctx BlockchainManager" where
  "fetch_blockReceived_baseline peer block reply m =
     (if reply then
        m\<lparr>cycle_state_fetch := (cycle_state_fetch m)\<lparr>baseline_block_fetch_agent :=
          map_option (agent_blockReceivedCallback peer block) (baseline_block_fetch_agent (cycle_state_fetch m))\<rparr>\<rparr>
      else m)"

definition fetch_blockReceived_collection ::
    "peer_id_t \<Rightarrow> CollectionBlock \<Rightarrow> bool \<Rightarrow> 'ctx BlockchainManager \<Rightarrow> 'ctx BlockchainManager" where
  "fetch_blockReceived_collection peer block reply m =
     (let st = cycle_state_fetch m; agents = block_fetch_agent_map st
      in if reply then
           (case map_find agents (uid_of block) of
              None \<Rightarrow> m
            | Some a \<Rightarrow> m\<lparr>cycle_state_fetch :=
                st\<lparr>block_fetch_agent_map := map_put (uid_of block) (agent_blockReceivedCallback peer block a) agents\<rparr>\<rparr>)
         else m)"

text \<open>Unsigned arithmetic of 32 bits, as the casts have it.\<close>

definition percentSynchronizationDone :: "'ctx env \<Rightarrow> 'ctx BlockchainManager \<Rightarrow> u8 res" where
  "percentSynchronizationDone E m =
     (let global = global_blockchain_newest_block_id (cycle_state_fetch m);
          root = getRootBlockId E (bm_blockchain m);
          newest = getNewestBlockId E (bm_blockchain m);
          current_block_to_ask_for = newest + 1
      in if global = 0 then Inr 0
         else if current_block_to_ask_for \<le> root \<or> global < root \<or> root = newest then Inr 0
         else if global - root + 1 \<noteq> 0 then
           (let d = (ucast (global - root + 1) :: u32)
            in if d = 0 then Inl DivByZero
               else Inr (ucast (min ((100 * ucast (current_block_to_ask_for - root)) div d) (100 :: u32))))
         else Inr 100)"

definition isSynchronized :: "'ctx env \<Rightarrow> 'ctx BlockchainManager \<Rightarrow> bool res" where
  "isSynchronized E m = bind_res (percentSynchronizationDone E m) (\<lambda>p. Inr (p = 100))"

subsection \<open>The thread\<close>

definition fetchBaseline_begin :: "blockchain_time_t \<Rightarrow> 'ctx BlockchainManager \<Rightarrow> 'ctx BlockchainManager" where
  "fetchBaseline_begin now m =
     m\<lparr>cycle_state_fetch := (cycle_state_fetch m)
         \<lparr>baseline_block_fetch_agent := Some (BlockFetchAgent_new now 0 60000), fetch_blocks_thread := FT_Baseline\<rparr>\<rparr>"

definition fetchBaseline_restart ::
    "blockchain_time_t \<Rightarrow> BaselineBlock BlockFetchAgent \<Rightarrow> 'ctx BlockchainManager \<Rightarrow> 'ctx BlockchainManager" where
  "fetchBaseline_restart now a m =
     m\<lparr>cycle_state_fetch := (cycle_state_fetch m)
         \<lparr>baseline_block_fetch_agent := Some (agent_restart now a), global_blockchain_newest_block_id := getBlockId now\<rparr>\<rparr>"

definition fetchBaseline_iteration :: "'ctx env \<Rightarrow> blockchain_time_t \<Rightarrow> 'ctx BlockchainManager \<Rightarrow> 'ctx BlockchainManager res" where
  "fetchBaseline_iteration E now m =
     (case baseline_block_fetch_agent (cycle_state_fetch m) of
        None \<Rightarrow> Inl NullDeref
      | Some a \<Rightarrow>
          (case getReceivedBlock a of
             None \<Rightarrow> Inr (m\<lparr>cycle_state_fetch := (cycle_state_fetch m)\<lparr>global_blockchain_newest_block_id := getBlockId now\<rparr>\<rparr>)
           | Some (peer, block) \<Rightarrow>
               if getNewestBlockId E (bm_blockchain m) \<le> uid_of block then
                 (if validateBlockWithoutContext E block then
                    bind_res (setRootBlock E block (bm_blockchain m)) (\<lambda>bc.
                      Inr (m\<lparr>bm_blockchain := bc, cycle_state_fetch := (cycle_state_fetch m)
                             \<lparr>baseline_block_fetch_agent := None, fetch_blocks_thread := FT_Blocks (uid_of block + 1)\<rparr>\<rparr>))
                  else Inr (fetchBaseline_restart now a (bm_report peer m)))
               else Inr (fetchBaseline_restart now a m)))"

function refillAgentMap ::
    "blockchain_time_t \<Rightarrow> block_uid_t \<Rightarrow> (block_uid_t, CollectionBlock BlockFetchAgent) std_map \<Rightarrow>
     block_uid_t \<times> (block_uid_t, CollectionBlock BlockFetchAgent) std_map" where
  "refillAgentMap now next_id agents =
     (if length agents < max_parallel_block_fetchers \<and> \<not> isBaselineBlock next_id
      then refillAgentMap now (next_id + 1)
             (map_emplace next_id (BlockFetchAgent_new now next_id default_fetch_timeout_ms) agents)
      else (next_id, agents))"
  by pat_completeness auto

text \<open>How many ids lie before the next baseline: the loop ends there at the latest.\<close>

definition until_baseline :: "block_uid_t \<Rightarrow> nat" where
  "until_baseline u = (if isBaselineBlock u then 0 else 720 - unat ((u - 1) mod 720))"

lemma until_baseline_step:
  assumes "\<not> isBaselineBlock u"
  shows "until_baseline (u + 1) < until_baseline u"
proof (cases "u = 0")
  case True
  then show ?thesis by (simp add: until_baseline_def isBaselineBlock_def max_num_blocks_after_baseline_def)
next
  case False
  let ?n = "unat u - 1"
  have m: "unat ((u - 1) mod 720) = ?n mod 720" "unat (u mod 720) = unat u mod 720"
    using False by (simp_all add: unat_mod_distrib unat_pred)
  have u: "unat u = Suc ?n" using False by (simp add: unat_gt_0)
  show ?thesis
  proof (cases "isBaselineBlock (u + 1)")
    case True
    then show ?thesis using assms m by (simp add: until_baseline_def)
  next
    case b: False
    then have "unat u mod 720 \<noteq> 0"
      by (simp add: isBaselineBlock_def max_num_blocks_after_baseline_def word_unat_eq_iff unat_mod_distrib)
    then have "unat u mod 720 = Suc (?n mod 720)" using u mod_Suc [of ?n 720] by (simp split: if_splits)
    moreover have "unat u mod 720 < 720" by simp
    ultimately show ?thesis using assms b m by (simp add: until_baseline_def) linarith
  qed
qed

termination refillAgentMap
  by (relation "measure (\<lambda>(now, u, agents). until_baseline u)") (auto simp: until_baseline_step)

declare refillAgentMap.simps [simp del]

text \<open>The loop of \<open>processFinishedAgents\<close> at the agents that are left.\<close>

fun process_agents ::
    "'ctx env \<Rightarrow> (block_uid_t, CollectionBlock BlockFetchAgent) std_map \<Rightarrow> 'ctx BlockchainManager \<Rightarrow>
     ((block_uid_t, CollectionBlock BlockFetchAgent) std_map \<times> 'ctx BlockchainManager) res" where
  "process_agents E [] m = Inr ([], m)"
| "process_agents E ((uid, a) # agents) m =
     (case getReceivedBlock a of
        None \<Rightarrow> Inr ((uid, a) # agents, m)
      | Some (peer, block) \<Rightarrow>
          bind_res (validateBlock_collection E (bm_blockchain m) block) (\<lambda>(block_valid, bc).
            if block_valid then
              bind_res (addBlock_collection E block bc) (\<lambda>(_, bc). process_agents E agents (m\<lparr>bm_blockchain := bc\<rparr>))
            else process_agents E agents (bm_report peer (m\<lparr>bm_blockchain := bc\<rparr>))))"

definition processFinishedAgents :: "'ctx env \<Rightarrow> 'ctx BlockchainManager \<Rightarrow> 'ctx BlockchainManager res" where
  "processFinishedAgents E m =
     bind_res (process_agents E (block_fetch_agent_map (cycle_state_fetch m)) m) (\<lambda>(agents, m).
       Inr (m\<lparr>cycle_state_fetch := (cycle_state_fetch m)\<lparr>block_fetch_agent_map := agents\<rparr>\<rparr>))"

definition fetchBlocks_iteration ::
    "'ctx env \<Rightarrow> blockchain_time_t \<Rightarrow> block_uid_t \<Rightarrow> 'ctx BlockchainManager \<Rightarrow> 'ctx BlockchainManager res" where
  "fetchBlocks_iteration E now next_id m =
     bind_res (processFinishedAgents E m) (\<lambda>m.
       let st = cycle_state_fetch m;
           (next_id, agents) = refillAgentMap now next_id (block_fetch_agent_map st);
           global = getBlockId now;
           m = m\<lparr>cycle_state_fetch := st\<lparr>block_fetch_agent_map := agents, global_blockchain_newest_block_id := global,
                   fetch_blocks_thread := FT_Blocks next_id\<rparr>\<rparr>
       in if getNextBaselineBlock next_id \<le> global then Inr (fetchBaseline_begin now m) else Inr m)"

definition fetch_thread_step ::
    "'ctx env \<Rightarrow> blockchain_time_t \<Rightarrow> u32 \<Rightarrow> 'ctx BlockchainManager \<Rightarrow> 'ctx BlockchainManager res" where
  "fetch_thread_step E now num_connected_peers m =
     (let st = cycle_state_fetch m
      in case fetch_blocks_thread st of
           FT_WaitPeers \<Rightarrow>
             if fetch_running st \<and> num_connected_peers = 0 then Inr m else Inr (fetchBaseline_begin now m)
         | FT_Baseline \<Rightarrow>
             if fetch_running st then fetchBaseline_iteration E now m
             else Inr (m\<lparr>cycle_state_fetch := st\<lparr>baseline_block_fetch_agent := None, fetch_blocks_thread := FT_Ended\<rparr>\<rparr>)
         | FT_Blocks next_id \<Rightarrow>
             if fetch_running st then fetchBlocks_iteration E now next_id m
             else Inr (m\<lparr>cycle_state_fetch := st\<lparr>fetch_blocks_thread := FT_Ended\<rparr>\<rparr>)
         | _ \<Rightarrow> Inr m)"

text \<open>Once \<open>running_\<close> is false two steps end the thread, which is what \<open>join\<close> waits for.\<close>

definition fetch_onExit :: "'ctx env \<Rightarrow> blockchain_time_t \<Rightarrow> u32 \<Rightarrow> 'ctx BlockchainManager \<Rightarrow> 'ctx BlockchainManager res" where
  "fetch_onExit E now num_connected_peers m =
     (let m = m\<lparr>new_block := new_CollectionBlock\<lparr>transactions := [], creations := []\<rparr>\<rparr>
      in bind_res (restartCheckCycle E now (bm_blockchain m) (out_of_sync_detector m)) (\<lambda>d.
         let m = m\<lparr>out_of_sync_detector := d, cycle_state_fetch := (cycle_state_fetch m)\<lparr>fetch_running := False\<rparr>\<rparr>
         in bind_res (fetch_thread_step E now num_connected_peers m) (fetch_thread_step E now num_connected_peers)))"

end
