(* ===== verification/Fetch_Sync.thy ===== *)
theory Fetch_Sync
  imports Cycle_Fetch
begin

text \<open>
  Lemmas on the fetch state: what \<open>refillAgentMap\<close> and \<open>percentSynchronizationDone\<close> compute, the
  replay of a chain from its baseline, and the invariant of a node that is catching up.
\<close>

section \<open>refillAgentMap\<close>

lemma until_baseline_le: "until_baseline u \<le> 720"
  by (simp add: until_baseline_def)

lemma refill_spec:
  assumes "refillAgentMap now u agents = (u', agents')" "map_wf agents" "unat u + until_baseline u < 2 ^ 64"
  shows "(length agents' \<ge> max_parallel_block_fetchers \<or> isBaselineBlock u') \<and> map_wf agents' \<and> u \<le> u' \<and>
    unat u' + until_baseline u' \<le> unat u + until_baseline u \<and> (\<forall>v. u \<le> v \<and> v < u' \<longrightarrow> \<not> isBaselineBlock v) \<and>
    (\<forall>v. map_find agents' v = (case map_find agents v of Some a \<Rightarrow> Some a
       | None \<Rightarrow> if u \<le> v \<and> v < u' then Some (BlockFetchAgent_new now v default_fetch_timeout_ms) else None))"
  using assms
proof (induction now u agents arbitrary: u' agents' rule: refillAgentMap.induct)
  case (1 now u agents)
  show ?case
  proof (cases "length agents < max_parallel_block_fetchers \<and> \<not> isBaselineBlock u")
    case True
    let ?ag = "map_emplace u (BlockFetchAgent_new now u default_fetch_timeout_ms) agents"
    have run: "refillAgentMap now (u + 1) ?ag = (u', agents')"
      using 1(2) True by (subst (asm) refillAgentMap.simps) simp
    have dec: "until_baseline (u + 1) < until_baseline u" using True until_baseline_step by blast
    then have "unat u + 1 < 2 ^ 64" using 1(4) by linarith
    then have u: "unat (u + 1) = unat u + 1" by (simp add: unat_word_ariths)
    then have "unat (u + 1) + until_baseline (u + 1) < 2 ^ 64" using dec 1(4) by linarith
    note IH = 1(1) [OF True run map_wf_emplace [OF 1(3)] this]
    have le: "u + 1 \<le> v \<longleftrightarrow> u \<le> v \<and> v \<noteq> u" for v
      using u by (auto simp: word_le_nat_alt word_unat_eq_iff)
    have lt: "u < u'" using IH le [of u'] by auto
    have find: "map_find ?ag v = (if v = u \<and> map_find agents u = None
        then Some (BlockFetchAgent_new now u default_fetch_timeout_ms) else map_find agents v)" for v
      by (rule smap.find_emplace [OF 1(3)])
    have "map_find agents' v = (case map_find agents v of Some a \<Rightarrow> Some a
       | None \<Rightarrow> if u \<le> v \<and> v < u' then Some (BlockFetchAgent_new now v default_fetch_timeout_ms) else None)" for v
      using IH lt by (auto simp: le find split: option.splits)
    moreover have "\<forall>v. u \<le> v \<and> v < u' \<longrightarrow> \<not> isBaselineBlock v"
      using IH True by (auto simp: le)
    ultimately show ?thesis using IH lt u dec by auto
  next
    case False
    then show ?thesis using 1(2-) by (subst (asm) refillAgentMap.simps) (auto split: option.split)
  qed
qed

section \<open>percentSynchronizationDone\<close>

lemma unat_ucast_u32_small: "unat (x :: u64) < 2 ^ 32 \<Longrightarrow> unat (ucast x :: u32) = unat x"
  by (simp add: unsigned_ucast_eq take_bit_nat_eq_self)

text \<open>In chains of ordinary length the 32-bit arithmetic is exact.\<close>

lemma percent_quotient:
  fixes newest global r :: block_uid_t
  assumes r: "r \<le> newest" "r \<le> global" and len: "unat newest - unat r < 40000000" "unat global < unat r + 40000000"
    and room: "unat newest + 1 < 2 ^ 64"
  defines "d \<equiv> ucast (global - r + 1) :: u32"
  shows "global - r + 1 \<noteq> 0" "d \<noteq> 0" "(100 * ucast (newest + 1 - r)) div d \<ge> 100 \<longleftrightarrow> global \<le> newest"
    "unat ((100 * ucast (newest + 1 - r)) div d) = (100 * (unat newest + 1 - unat r)) div (unat global - unat r + 1)"
proof -
  let ?x = "newest + 1 - r"
  have n1: "unat (newest + 1) = unat newest + 1" using room by (simp add: unat_word_ariths)
  have "r \<le> newest + 1" using r(1) n1 by (simp add: word_le_nat_alt)
  then have x: "unat ?x = unat newest + 1 - unat r" using n1 by (simp only: unat_sub)
  have gr: "unat (global - r) = unat global - unat r" using r(2) by (simp add: unat_sub)
  have g: "unat (global - r + 1) = unat global - unat r + 1" using gr len(2) by (simp add: unat_word_ariths)
  have ux: "unat (ucast ?x :: u32) = unat newest + 1 - unat r"
    using x len(1) by (simp add: unat_ucast_u32_small)
  have ud: "unat d = unat global - unat r + 1"
    unfolding d_def using g len(2) by (simp add: unat_ucast_u32_small)
  show "global - r + 1 \<noteq> 0" "d \<noteq> 0" using g ud by auto
  have "unat (100 * ucast ?x :: u32) = 100 * (unat newest + 1 - unat r)"
    using ux len(1) by (simp add: unat_word_ariths)
  then show q: "unat ((100 * ucast ?x) div d) = (100 * (unat newest + 1 - unat r)) div (unat global - unat r + 1)"
    by (simp add: unat_div_distrib ud)
  have "(100 * ucast ?x) div d \<ge> 100 \<longleftrightarrow> 100 * (unat global - unat r + 1) \<le> 100 * (unat newest + 1 - unat r)"
    unfolding word_le_nat_alt q by (simp add: less_eq_div_iff_mult_less_eq)
  also have "\<dots> \<longleftrightarrow> unat global \<le> unat newest" using r by (simp add: word_le_nat_alt) linarith
  finally show "(100 * ucast ?x) div d \<ge> 100 \<longleftrightarrow> global \<le> newest" by (simp add: word_le_nat_alt)
qed

lemma percent_min:
  fixes q :: u32
  shows "unat (ucast (min q 100) :: u8) = min 100 (unat q)" "ucast (min q 100) = (100 :: u8) \<longleftrightarrow> 100 \<le> q"
proof -
  have le: "unat (min q 100) \<le> 100" by (simp add: min_def word_le_nat_alt)
  then have p: "unat (ucast (min q 100) :: u8) = unat (min q 100)" by (simp add: unsigned_ucast_eq take_bit_nat_eq_self)
  then show "unat (ucast (min q 100) :: u8) = min 100 (unat q)" by (simp add: min_def word_le_nat_alt)
  show "ucast (min q 100) = (100 :: u8) \<longleftrightarrow> 100 \<le> q"
    unfolding word_unat_eq_iff p by (auto simp: min_def word_le_nat_alt)
qed

lemma percent_spec:
  assumes "newest_block_id (current_meta_data (bm_blockchain m)) = newest" "current_meta_data_initialized (bm_blockchain m)"
    "root_block_id (current_meta_data (bm_blockchain m)) = r"
    "global_blockchain_newest_block_id (cycle_state_fetch m) = global"
    and r: "r \<noteq> 0" "r \<le> newest" and len: "unat newest - unat r < 40000000" "unat global < unat r + 40000000"
    and room: "unat newest + 1 < 2 ^ 64"
  shows "\<exists>p. percentSynchronizationDone E m = Inr p \<and>
    unat p = (if r < newest \<and> r \<le> global then min 100 (100 * (unat newest + 1 - unat r) div (unat global - unat r + 1)) else 0) \<and>
    (p = 100 \<longleftrightarrow> r < newest \<and> r \<le> global \<and> global \<le> newest)"
proof -
  have meta: "getRootBlockId E (bm_blockchain m) = r" "getNewestBlockId E (bm_blockchain m) = newest"
    using assms by (simp_all add: getRootBlockId_def getNewestBlockId_def getMetaData_def)
  show ?thesis
  proof (cases "global = 0 \<or> global < r \<or> r = newest")
    case True
    then show ?thesis
      using assms meta by (auto simp: percentSynchronizationDone_def Let_def)
  next
    case False
    let ?q = "(100 * ucast (newest + 1 - r)) div ucast (global - r + 1) :: u32"
    have g: "r \<le> global" "r < newest" using False r(2) by auto
    note q = percent_quotient [OF r(2) g(1) len room]
    have "\<not> newest + 1 \<le> r" using room r(2) by (simp add: word_le_nat_alt unat_word_ariths)
    then have "percentSynchronizationDone E m = Inr (ucast (min ?q 100))"
      using False assms(4) q(1,2) by (simp add: percentSynchronizationDone_def Let_def meta)
    then show ?thesis using g q(3,4) percent_min [of ?q] by auto
  qed
qed

section \<open>Replaying a chain\<close>

text \<open>The blocks are accepted one after another, and within the machine's limits.\<close>

fun accepts :: "'ctx env \<Rightarrow> Blockchain \<Rightarrow> CollectionBlock list \<Rightarrow> bool" where
  "accepts E bc [] = True"
| "accepts E bc (c # cs) =
     (within_capacity bc c \<and> collision_free E c \<and>
      (case validateBlock_collection E bc c of
         Inl _ \<Rightarrow> False
       | Inr (ok, bc1) \<Rightarrow> ok \<and> (case addBlock_collection E c bc1 of Inl _ \<Rightarrow> False | Inr (_, bc2) \<Rightarrow> accepts E bc2 cs)))"

lemma accepts_Cons:
  assumes inv: "chain_inv E bc bs" and acc: "accepts E bc (c # cs)"
  obtains bc' where "validateBlock_collection E bc c = Inr (True, bc)" "addBlock_collection E c bc = Inr (uid_of c, bc')"
    "chain_inv E bc' (bs @ [Collection c])" "accepts E bc' cs"
    "updateBaseline E (uid_of c) c (current_baseline bc) = Inr (current_baseline bc')"
proof -
  obtain ok bc1 where v0: "validateBlock_collection E bc c = Inr (ok, bc1)"
    using acc by (cases "validateBlock_collection E bc c") auto
  obtain i bc2 where add: "addBlock_collection E c bc1 = Inr (i, bc2)"
    using acc v0 by (cases "addBlock_collection E c bc1") auto
  have v: "validateBlock_collection E bc c = Inr (True, bc1)" and rest: "accepts E bc2 cs"
    and cap: "within_capacity bc c" and cf: "collision_free E c"
    using acc v0 add by simp_all
  have b: "baseline_inv E (current_baseline bc)" using inv by (simp add: chain_inv_def)
  note val = validateBlock_collection_True [OF v b]
  have i: "i = uid_of c"
  proof -
    have "i = next_free_block_id (chain_cache bc1)"
      using add by (auto simp: addBlock_collection_def cache_addBlock_def Let_def res_simps)
    then show ?thesis
      using val chain_rep_newest [of E bc bs] inv by (auto simp: chain_inv_def chain_rep_def)
  qed
  have upd: "updateBaseline E (uid_of c) c (current_baseline bc) = Inr (current_baseline bc2)"
    using addBlock_collection_baseline [OF add] by (simp add: i val(1))
  from accepted_add_chain_inv [OF inv v cap cf this] have "chain_inv E bc2 (bs @ [Collection c])"
    using add by auto
  with v add rest upd show ?thesis using that [of bc2] by (simp add: i val(1))
qed

text \<open>Two objects that hold the same blocks and the same running baseline accept the same blocks.\<close>

lemma validateBlock_collection_same:
  assumes "newest_header E bc = newest_header E bc'" "current_baseline bc = current_baseline bc'"
  shows "map_sum id fst (validateBlock_collection E bc c) = map_sum id fst (validateBlock_collection E bc' c)"
  using assms
  by (simp add: validateBlock_collection_def getMiningState_def hashes_of_epoch_def bind_res_def Let_def
      split: sum.splits prod.splits)

lemma accepts_same:
  assumes "chain_inv E bc bs" "chain_inv E bc' bs" "current_baseline bc = current_baseline bc'" "accepts E bc cs"
  shows "accepts E bc' cs"
  using assms
proof (induction cs arbitrary: bc bc' bs)
  case (Cons c cs)
  obtain bc1 where c: "validateBlock_collection E bc c = Inr (True, bc)" "addBlock_collection E c bc = Inr (uid_of c, bc1)"
    "chain_inv E bc1 (bs @ [Collection c])" "accepts E bc1 cs"
    "updateBaseline E (uid_of c) c (current_baseline bc) = Inr (current_baseline bc1)"
    by (rule accepts_Cons [OF Cons.prems(1,4)])
  have cap: "within_capacity bc' c" "collision_free E c" using Cons.prems(3,4) by (auto simp: within_capacity_def)
  have "newest_header E bc = newest_header E bc'"
    using Cons.prems(1,2) chain_rep_newest(2) [of E _ bs] by (auto simp: chain_inv_def)
  from validateBlock_collection_same [OF this Cons.prems(3), of c] c(1)
  obtain x where v: "validateBlock_collection E bc' c = Inr (True, x)"
    by (cases "validateBlock_collection E bc' c") auto
  have "baseline_inv E (current_baseline bc')" using Cons.prems(2) by (simp add: chain_inv_def)
  then have x: "x = bc'" using validateBlock_collection_True(1) [OF v] by simp
  obtain bc1' where c': "addBlock_collection E c bc' = Inr (uid_of c, bc1')" "chain_inv E bc1' (bs @ [Collection c])"
    "current_baseline bc1' = current_baseline bc1"
    using accepted_add_chain_inv [OF Cons.prems(2) v cap] c(5) Cons.prems(3) x by auto
  have "accepts E bc1' cs" by (rule Cons.IH [OF c(3) c'(2) _ c(4)]) (simp add: c'(3))
  with v c' cap show ?case by (simp add: x)
qed simp

lemma process_ready:
  assumes "chain_inv E (bm_blockchain m) bs" "accepts E (bm_blockchain m) (cs @ cs')"
    and "list_all2 (\<lambda>(_, a) c. \<exists>p. received_block a = Some (p, c)) ags cs"
    and "rest = [] \<or> received_block (snd (hd rest)) = None"
  shows "\<exists>bc. process_agents E (ags @ rest) m = Inr (rest, m\<lparr>bm_blockchain := bc\<rparr>) \<and>
    chain_inv E bc (bs @ map Collection cs) \<and> accepts E bc cs'"
  using assms
proof (induction cs arbitrary: ags m bs)
  case Nil
  then have "process_agents E (ags @ rest) m = Inr (rest, m)"
    by (cases rest) (auto simp: getReceivedBlock_def)
  with Nil show ?case by (intro exI [of _ "bm_blockchain m"]) simp
next
  case (Cons c cs)
  obtain v a ags' p where ags: "ags = (v, a) # ags'" "received_block a = Some (p, c)"
    and rest': "list_all2 (\<lambda>(_, a) c. \<exists>p. received_block a = Some (p, c)) ags' cs"
    using Cons.prems(3) by (auto simp: list_all2_Cons2)
  obtain bc' where c: "validateBlock_collection E (bm_blockchain m) c = Inr (True, bm_blockchain m)"
    "addBlock_collection E c (bm_blockchain m) = Inr (uid_of c, bc')"
    "chain_inv E bc' (bs @ [Collection c])" "accepts E bc' (cs @ cs')"
    using accepts_Cons [OF Cons.prems(1), of c "cs @ cs'"] Cons.prems(2) by auto
  obtain bc where "process_agents E (ags' @ rest) (m\<lparr>bm_blockchain := bc'\<rparr>) = Inr (rest, m\<lparr>bm_blockchain := bc\<rparr>)"
    "chain_inv E bc (bs @ map Collection (c # cs))" "accepts E bc cs'"
    using Cons.IH [of "m\<lparr>bm_blockchain := bc'\<rparr>" "bs @ [Collection c]" ags'] c rest' Cons.prems(4) by auto
  with ags c show ?case by (auto simp: getReceivedBlock_def)
qed

section \<open>The agents while blocks arrive\<close>

lemma map_put_present:
  "map_wf m \<Longrightarrow> map_find m k = Some x \<Longrightarrow> map_put k v m = map (\<lambda>(k', y). (k', if k' = k then v else y)) m"
proof (induction k v m rule: map_put.induct)
  case (2 k v a b m)
  show ?case
  proof (cases "k = a")
    case True
    then have "map (\<lambda>(k', y). (k', if k' = k then v else y)) m = m"
      using 2(2) by (intro map_idI) force
    with True show ?thesis by simp
  next
    case False
    with 2(3) have "map_find m k = Some x" by simp
    moreover from this have "a < k" using 2(2) map_find_in_set [of m k x] by force
    ultimately show ?thesis using 2 False by (simp add: not_less_iff_gr_or_eq)
  qed
qed simp

definition deliver :: "(peer_id_t \<times> CollectionBlock) list \<Rightarrow> 'ctx BlockchainManager \<Rightarrow> 'ctx BlockchainManager" where
  "deliver msgs m = fold (\<lambda>(p, b). fetch_blockReceived_collection p b True) msgs m"

definition take_in :: "block_uid_t \<Rightarrow> (peer_id_t \<times> CollectionBlock) list \<Rightarrow> CollectionBlock BlockFetchAgent \<Rightarrow> CollectionBlock BlockFetchAgent" where
  "take_in v msgs a = fold (\<lambda>(p, b) a. if uid_of b = v then agent_blockReceivedCallback p b a else a) msgs a"

lemma deliver_agents:
  assumes "map_wf (block_fetch_agent_map (cycle_state_fetch m))"
  shows "deliver msgs m = m\<lparr>cycle_state_fetch := (cycle_state_fetch m)
    \<lparr>block_fetch_agent_map := map (\<lambda>(v, a). (v, take_in v msgs a)) (block_fetch_agent_map (cycle_state_fetch m))\<rparr>\<rparr>"
  using assms
proof (induction msgs arbitrary: m)
  case Nil
  then show ?case by (simp add: deliver_def take_in_def)
next
  case (Cons pb msgs)
  obtain p b where pb: "pb = (p, b)" by (cases pb)
  let ?st = "cycle_state_fetch m"
  let ?ag = "map (\<lambda>(v, a). (v, if uid_of b = v then agent_blockReceivedCallback p b a else a)) (block_fetch_agent_map ?st)"
  have step: "fetch_blockReceived_collection p b True m = m\<lparr>cycle_state_fetch := ?st\<lparr>block_fetch_agent_map := ?ag\<rparr>\<rparr>"
  proof (cases "map_find (block_fetch_agent_map ?st) (uid_of b)")
    case None
    then have "?ag = block_fetch_agent_map ?st" by (intro map_idI) (force simp: map_find_eq_None)
    with None show ?thesis by (simp add: fetch_blockReceived_collection_def)
  next
    case (Some a)
    have "map_put (uid_of b) (agent_blockReceivedCallback p b a) (block_fetch_agent_map ?st) = ?ag"
    proof -
      have "a' = a" if "(uid_of b, a') \<in> set (block_fetch_agent_map ?st)" for a'
        using that Some map_find_eq_Some [OF Cons.prems, of "uid_of b" a'] by simp
      then show ?thesis using Some Cons.prems by (auto simp: map_put_present)
    qed
    with Some show ?thesis by (simp add: fetch_blockReceived_collection_def Let_def)
  qed
  have wf: "map_wf ?ag" using Cons.prems by (simp add: map_wf_def case_prod_unfold comp_def)
  show ?case
    using Cons.IH [of "m\<lparr>cycle_state_fetch := ?st\<lparr>block_fetch_agent_map := ?ag\<rparr>\<rparr>"] wf
    by (simp add: deliver_def pb step take_in_def case_prod_unfold comp_def)
qed

lemma cycle_agents_eq:
  "snd (cycle_agents now agents) = map (\<lambda>(v, a). (v, snd (agent_onCycle_collection now a))) agents"
  by (induction now agents rule: cycle_agents.induct) (auto split: prod.splits)

lemma until_baseline_Suc:
  assumes "\<not> isBaselineBlock u" "u \<noteq> 0"
  shows "until_baseline u = Suc (until_baseline (u + 1))"
proof -
  let ?n = "unat u - 1"
  have m: "unat ((u - 1) mod 720) = ?n mod 720" "unat (u mod 720) = unat u mod 720"
    using assms by (simp_all add: unat_mod_distrib unat_pred)
  have b: "isBaselineBlock (u + 1) \<longleftrightarrow> unat u mod 720 = 0"
    by (simp add: isBaselineBlock_def max_num_blocks_after_baseline_def word_unat_eq_iff unat_mod_distrib)
  have "unat u = Suc ?n" using assms by (simp add: unat_gt_0)
  then have "unat u mod 720 = (if Suc (?n mod 720) = 720 then 0 else Suc (?n mod 720))"
    using mod_Suc [of ?n 720] by simp
  moreover have "?n mod 720 < 720" by simp
  ultimately show ?thesis
    using assms m b by (simp add: until_baseline_def split: if_splits) linarith
qed

lemma refill_list:
  assumes "u \<noteq> 0" "map_wf agents" "\<forall>v \<in> fst ` set agents. v < u" "unat u + until_baseline u < 2 ^ 64"
  shows "\<exists>c. refillAgentMap now u agents = (u + of_nat c,
      agents @ map (\<lambda>i. (u + of_nat i, BlockFetchAgent_new now (u + of_nat i) default_fetch_timeout_ms)) [0..<c]) \<and>
    c \<le> until_baseline u \<and> (max_parallel_block_fetchers \<le> length agents + c \<or> c = until_baseline u)"
  using assms
proof (induction now u agents rule: refillAgentMap.induct)
  case (1 now u agents)
  show ?case
  proof (cases "length agents < max_parallel_block_fetchers \<and> \<not> isBaselineBlock u")
    case True
    let ?new = "BlockFetchAgent_new now u default_fetch_timeout_ms :: CollectionBlock BlockFetchAgent"
    have "map_find agents u = None" using 1(4) by (auto simp: map_find_eq_None)
    then have app: "map_emplace u ?new agents = agents @ [(u, ?new)]"
      using 1(3,4) by (simp add: map_emplace_def map_put_greatest)
    have dec: "until_baseline (u + 1) < until_baseline u" using True until_baseline_step by blast
    then have "unat u + 1 < 2 ^ 64" using 1(5) by linarith
    then have u: "unat (u + 1) = unat u + 1" by (simp add: unat_word_ariths)
    have nz: "u + 1 \<noteq> 0" using u by auto
    have "\<forall>v \<in> fst ` set (map_emplace u ?new agents). v < u + 1"
      using 1(4) u by (auto simp: app word_less_nat_alt less_SucI)
    moreover have "unat (u + 1) + until_baseline (u + 1) < 2 ^ 64" using dec 1(5) u by linarith
    ultimately obtain c where c: "refillAgentMap now (u + 1) (agents @ [(u, ?new)]) = (u + 1 + of_nat c,
        (agents @ [(u, ?new)]) @ map (\<lambda>i. (u + 1 + of_nat i, BlockFetchAgent_new now (u + 1 + of_nat i) default_fetch_timeout_ms)) [0..<c])"
      "c \<le> until_baseline (u + 1)"
      "max_parallel_block_fetchers \<le> length agents + Suc c \<or> c = until_baseline (u + 1)"
      using 1(1) [OF True nz map_wf_emplace [OF 1(3)]] by (auto simp: app)
    have "[0..<Suc c] = 0 # map Suc [0..<c]" by (simp add: upt_conv_Cons map_Suc_upt del: upt_Suc)
    then have "map (\<lambda>i. (u + of_nat i, BlockFetchAgent_new now (u + of_nat i) default_fetch_timeout_ms)) [0..<Suc c] =
      (u, ?new) # map (\<lambda>i. (u + 1 + of_nat i, BlockFetchAgent_new now (u + 1 + of_nat i) default_fetch_timeout_ms)) [0..<c]"
      by (simp add: comp_def algebra_simps)
    moreover have "Suc c \<le> until_baseline u" using c(2) dec by linarith
    moreover have "max_parallel_block_fetchers \<le> length agents + Suc c \<or> Suc c = until_baseline u"
      using c(3) until_baseline_Suc [of u] True 1(2) by auto
    ultimately show ?thesis
      using c(1) True by (intro exI [of _ "Suc c"], subst refillAgentMap.simps) (simp add: app algebra_simps del: upt_Suc)
  next
    case False
    then show ?thesis by (intro exI [of _ 0], subst refillAgentMap.simps) (auto simp: until_baseline_def)
  qed
qed

section \<open>Rounds of fetching\<close>

text \<open>A round: the state's cycle asks, the replies arrive, the thread runs once.\<close>

definition fetch_round :: "'ctx env \<Rightarrow> blockchain_time_t \<times> (peer_id_t \<times> CollectionBlock) list \<Rightarrow>
    'ctx BlockchainManager \<Rightarrow> 'ctx BlockchainManager res" where
  "fetch_round E = (\<lambda>(now, msgs) m. fetch_thread_step E now 1 (deliver msgs (snd (fetch_onCycle now m))))"

fun fetch_rounds :: "'ctx env \<Rightarrow> (blockchain_time_t \<times> (peer_id_t \<times> CollectionBlock) list) list \<Rightarrow>
    'ctx BlockchainManager \<Rightarrow> 'ctx BlockchainManager res" where
  "fetch_rounds E [] m = Inr m"
| "fetch_rounds E (r # rs) m = bind_res (fetch_round E r m) (fetch_rounds E rs)"

lemma accepts_uids:
  assumes "chain_inv E bc bs" "accepts E bc cs" "i < length cs"
  shows "uid_of (cs ! i) = uid_b (last bs) + of_nat (Suc i)"
  using assms
proof (induction cs arbitrary: bc bs i)
  case (Cons c cs)
  obtain bc' where c: "validateBlock_collection E bc c = Inr (True, bc)"
    "chain_inv E bc' (bs @ [Collection c])" "accepts E bc' cs"
    by (rule accepts_Cons [OF Cons.prems(1,2)])
  have b: "baseline_inv E (current_baseline bc)" using Cons.prems(1) by (simp add: chain_inv_def)
  have u: "uid_of c = uid_b (last bs) + 1"
    using validateBlock_collection_True(2) [OF c(1) b] chain_rep_newest(2) [of E bc bs] Cons.prems(1)
    by (auto simp: chain_inv_def)
  show ?case
  proof (cases i)
    case 0
    then show ?thesis using u by simp
  next
    case (Suc j)
    then show ?thesis using Cons.IH [OF c(2,3), of j] Cons.prems(3) u by simp
  qed
qed simp

text \<open>
  \<open>k\<close> blocks of the chain are stored, agents wait for the blocks \<open>k + 1\<close> to \<open>n\<close> after the root, and what they
  have received are blocks of the chain.
\<close>

definition agent_sound :: "block_uid_t \<Rightarrow> CollectionBlock list \<Rightarrow> nat \<Rightarrow> CollectionBlock BlockFetchAgent \<Rightarrow> bool" where
  "agent_sound u cols j a \<longleftrightarrow> agent_block_id a = u + of_nat j \<and>
     (\<forall>p c. received_block a = Some (p, c) \<longrightarrow> 0 < j \<and> j \<le> length cols \<and> c = cols ! (j - 1))"

definition sync_inv :: "'ctx env \<Rightarrow> BaselineBlock \<Rightarrow> CollectionBlock list \<Rightarrow> nat \<Rightarrow> nat \<Rightarrow> 'ctx BlockchainManager \<Rightarrow> bool" where
  "sync_inv E rt cols k n m \<longleftrightarrow>
     fetch_running (cycle_state_fetch m) \<and> fetch_blocks_thread (cycle_state_fetch m) = FT_Blocks (uid_of rt + of_nat (Suc n)) \<and>
     k \<le> n \<and> k \<le> length cols \<and> n \<le> 719 \<and>
     chain_inv E (bm_blockchain m) (Baseline rt # map Collection (take k cols)) \<and>
     accepts E (bm_blockchain m) (drop k cols) \<and>
     (\<exists>f. block_fetch_agent_map (cycle_state_fetch m) = map (\<lambda>j. (uid_of rt + of_nat j, f j)) [Suc k..<Suc n] \<and>
        (\<forall>j. agent_sound (uid_of rt) cols j (f j)))"

lemma agents_wf:
  assumes "unat (u :: u64) + n < 2 ^ 64"
  shows "map_wf (map (\<lambda>j. (u + of_nat j, f j)) [Suc k..<Suc n])"
proof -
  have "u + of_nat i < u + of_nat j" if "i < j" "j \<le> n" for i j
    using that assms by (simp add: word_less_nat_alt unat_add_small)
  then show ?thesis by (auto simp: map_wf_def comp_def sorted_wrt_map intro!: sorted_wrt_mono_rel [OF _ sorted_wrt_upt] simp del: upt_Suc)
qed

lemma agent_sound_cycle: "agent_sound u cols j a \<Longrightarrow> agent_sound u cols j (snd (agent_onCycle_collection now a))"
  by (simp add: agent_sound_def agent_onCycle_collection_def)

lemma take_in_sound:
  assumes "agent_sound u cols j a" "unat u + 719 < 2 ^ 64" "j \<le> 719" "length cols \<le> 719"
    and "\<forall>i < length cols. uid_of (cols ! i) = u + of_nat (Suc i)" "snd ` set msgs \<subseteq> set cols"
  shows "agent_sound u cols j (take_in (u + of_nat j) msgs a)"
  using assms(1,6)
proof (induction msgs arbitrary: a)
  case (Cons pb msgs)
  obtain p b where pb: "pb = (p, b)" by (cases pb)
  obtain i where i: "i < length cols" "b = cols ! i"
    using Cons.prems(2) by (auto simp: pb in_set_conv_nth)
  have "Suc i = j" if "u + of_nat (Suc i) = u + of_nat j"
  proof -
    have "unat (u + of_nat (Suc i)) = unat (u + of_nat j)" using that by (simp only:)
    then show ?thesis using unat_add_small [of u "Suc i"] unat_add_small [of u j] assms(2,3,4) i(1) by simp
  qed
  then have j: "uid_of b = u + of_nat j \<Longrightarrow> Suc i = j" using assms(5) i by metis
  have sub: "snd ` set msgs \<subseteq> set cols" using Cons.prems(2) by simp
  show ?case
  proof (cases "uid_of b = u + of_nat j")
    case True
    have "agent_sound u cols j (agent_blockReceivedCallback p b a)"
      using Cons.prems(1) i(1) j [OF True] unfolding agent_sound_def agent_blockReceivedCallback_def i(2) by auto
    from Cons.IH [OF this sub] True show ?thesis by (simp add: pb take_in_def)
  next
    case False
    with Cons.IH [OF Cons.prems(1) sub] show ?thesis by (simp add: pb take_in_def)
  qed
qed (simp add: take_in_def)

lemma take_in_received:
  assumes "agent_block_id a = v" "\<exists>p b. (p, b) \<in> set msgs \<and> uid_of b = v"
  shows "received_block (take_in v msgs a) \<noteq> None"
proof -
  have keep: "received_block a \<noteq> None \<Longrightarrow> received_block (take_in v msgs a) \<noteq> None" for msgs and a :: "CollectionBlock BlockFetchAgent"
    by (induction msgs arbitrary: a) (auto simp: take_in_def agent_blockReceivedCallback_def split: prod.splits)
  show ?thesis using assms
  proof (induction msgs arbitrary: a)
    case (Cons pb msgs)
    obtain p b where pb: "pb = (p, b)" by (cases pb)
    show ?case
    proof (cases "uid_of b = v")
      case True
      then have "received_block (agent_blockReceivedCallback p b a) \<noteq> None"
        using Cons.prems(1) by (auto simp: agent_blockReceivedCallback_def)
      from keep [OF this, of msgs] show ?thesis using True by (simp add: pb take_in_def)
    next
      case False
      then have "\<exists>p b. (p, b) \<in> set msgs \<and> uid_of b = v" using Cons.prems(2) by (auto simp: pb)
      from Cons.IH [OF Cons.prems(1) this] show ?thesis using False by (simp add: pb take_in_def)
    qed
  qed simp
qed

lemma baseline_id:
  assumes "isBaselineBlock u" "u \<noteq> 0"
  obtains q where "unat u = 720 * q + 1"
proof -
  obtain q where "unat u - 1 = 720 * q" using assms by (auto simp: isBaselineBlock_nat)
  moreover have "0 < unat u" using assms(2) by (simp add: unat_gt_0)
  ultimately show ?thesis using that [of q] by linarith
qed

lemma until_baseline_after:
  assumes "isBaselineBlock u" "u \<noteq> 0" "unat u + 720 < 2 ^ 64" "n \<le> 719"
  shows "until_baseline (u + of_nat (Suc n)) = 719 - n"
proof -
  obtain q where q: "unat u = 720 * q + 1" by (rule baseline_id [OF assms(1,2)])
  have "unat (u + of_nat n) = unat u + n" using assms by (intro unat_add_small) simp
  moreover note q
  ultimately have "unat (u + of_nat n) mod 720 = (n + 1) mod 720" by (simp add: mod_simps)
  then have m: "unat ((u + of_nat n) mod 720) = (n + 1) mod 720" by (simp add: unat_mod_distrib)
  moreover have mod: "(n + 1) mod 720 = (if n = 719 then 0 else n + 1)" using assms(4) by auto
  ultimately have "isBaselineBlock (u + of_nat (Suc n)) \<longleftrightarrow> n = 719"
    by (simp add: isBaselineBlock_def max_num_blocks_after_baseline_def word_unat_eq_iff)
  with m mod show ?thesis by (simp add: until_baseline_def)
qed

lemma next_baseline_after:
  assumes "isBaselineBlock u" "u \<noteq> 0" "unat u + 1440 < 2 ^ 64" "n \<le> 719"
  shows "unat u + 720 \<le> unat (getNextBaselineBlock (u + of_nat (Suc n)))"
proof -
  obtain q where u: "unat u = 720 * q + 1" by (rule baseline_id [OF assms(1,2)])
  have un: "unat (u + of_nat (Suc n)) = unat u + Suc n" using assms by (intro unat_add_small) simp
  then have "u + of_nat (Suc n) \<noteq> 0" using u by auto
  moreover have "unat (u + of_nat (Suc n)) + 720 < 2 ^ 64" using un assms(3,4) by simp
  ultimately have "unat (getNextBaselineBlock (u + of_nat (Suc n))) = ((unat u + Suc n - 1) div 720 + 1) * 720 + 1"
    using getNextBaselineBlock_nat un by simp
  moreover have "q \<le> (unat u + Suc n - 1) div 720" using u by (simp add: less_eq_div_iff_mult_less_eq)
  ultimately show ?thesis using u by simp
qed

lemma agents_map:
  assumes "block_fetch_agent_map (cycle_state_fetch m) = map (\<lambda>j. (u + of_nat j, f j)) [Suc k..<Suc n]"
    and "unat (u :: u64) + n < 2 ^ 64"
  shows "deliver msgs (snd (fetch_onCycle now m)) =
    (snd (fetch_onCycle now m))\<lparr>cycle_state_fetch := (cycle_state_fetch (snd (fetch_onCycle now m)))
      \<lparr>block_fetch_agent_map := map (\<lambda>j. (u + of_nat j, take_in (u + of_nat j) msgs (snd (agent_onCycle_collection now (f j))))) [Suc k..<Suc n]\<rparr>\<rparr>"
proof -
  have "block_fetch_agent_map (cycle_state_fetch (snd (fetch_onCycle now m))) =
      map (\<lambda>j. (u + of_nat j, snd (agent_onCycle_collection now (f j)))) [Suc k..<Suc n]"
    using cycle_agents_eq [of now "block_fetch_agent_map (cycle_state_fetch m)"]
    by (simp add: fetch_onCycle_def Let_def assms(1) bm_call_def comp_def case_prod_unfold del: upt_Suc)
  moreover from this have "map_wf (block_fetch_agent_map (cycle_state_fetch (snd (fetch_onCycle now m))))"
    using agents_wf [OF assms(2)] by (simp only:)
  ultimately show ?thesis by (simp add: deliver_agents comp_def del: upt_Suc)
qed

lemma sync_process:
  assumes inv: "chain_inv E (bm_blockchain m) (Baseline rt # map Collection (take k cols))"
    and acc: "accepts E (bm_blockchain m) (drop k cols)" and k: "k \<le> n" "k \<le> length cols"
    and f: "\<forall>j. agent_sound u cols j (f j)" "\<forall>j. 0 < j \<and> j \<le> length cols \<longrightarrow> received_block (f j) \<noteq> None"
  shows "\<exists>bc. process_agents E (map (\<lambda>j. (u + of_nat j, f j)) [Suc k..<Suc n]) m =
      Inr (map (\<lambda>j. (u + of_nat j, f j)) [Suc (min n (length cols))..<Suc n], m\<lparr>bm_blockchain := bc\<rparr>) \<and>
    chain_inv E bc (Baseline rt # map Collection (take (min n (length cols)) cols)) \<and>
    accepts E bc (drop (min n (length cols)) cols)"
proof -
  let ?k = "min n (length cols)" and ?ag = "\<lambda>j. (u + of_nat j, f j)"
  let ?cs = "take (?k - k) (drop k cols)" and ?rest = "map ?ag [Suc ?k..<Suc n]"
  have cols: "take k cols @ ?cs = take ?k cols" "?cs @ drop ?k cols = drop k cols"
    using k by (simp_all add: take_add [symmetric] append_take_drop_id drop_drop [symmetric] del: drop_drop)
      (metis add_diff_cancel_right' append_take_drop_id drop_drop le_add_diff_inverse2 min.bounded_iff)
  have "[Suc k..<Suc n] = [Suc k..<Suc ?k] @ [Suc ?k..<Suc n]"
    using k upt_add_eq_append [of "Suc k" "Suc ?k" "n - ?k"] by (simp del: upt_Suc)
  then have split: "map ?ag [Suc k..<Suc n] = map ?ag [Suc k..<Suc ?k] @ ?rest" by (simp only: map_append)
  have all: "list_all2 (\<lambda>(_, a) c. \<exists>p. received_block a = Some (p, c)) (map ?ag [Suc k..<Suc ?k]) ?cs"
  proof (rule list_all2_all_nthI)
    show "length (map ?ag [Suc k..<Suc ?k]) = length ?cs" using k by (auto simp: min_def simp del: upt_Suc)
    fix i assume "i < length (map ?ag [Suc k..<Suc ?k])"
    then have i: "Suc (k + i) \<le> n" "Suc (k + i) \<le> length cols" "i < ?k - k" by (auto simp del: upt_Suc)
    then obtain p c where pc: "received_block (f (Suc (k + i))) = Some (p, c)" using f(2) by fastforce
    then have "c = cols ! (k + i)" using f(1) unfolding agent_sound_def by fastforce
    with pc i show "(case map ?ag [Suc k..<Suc ?k] ! i of (_, a) \<Rightarrow> \<lambda>c. \<exists>p. received_block a = Some (p, c)) (?cs ! i)"
      by (simp del: upt_Suc)
  qed
  have rest: "?rest = [] \<or> received_block (snd (hd ?rest)) = None"
  proof (cases "?k < n")
    case True
    then have "received_block (f (Suc ?k)) = None"
      using f(1) unfolding agent_sound_def by (metis Suc_n_not_le_n min_def not_None_eq not_less order_less_imp_le surj_pair)
    with True show ?thesis by (simp add: hd_map upt_rec del: upt_Suc)
  qed simp
  show ?thesis
    using process_ready [OF inv _ all rest, of "drop ?k cols"] acc cols
    by (simp add: split map_append [symmetric] del: upt_Suc map_append)
qed

lemma sync_deliver:
  assumes f: "block_fetch_agent_map (cycle_state_fetch m) = map (\<lambda>j. (u + of_nat j, f j)) [Suc k..<Suc n]"
      "\<forall>j. agent_sound u cols j (f j)"
    and u: "unat u + 719 < 2 ^ 64" and n: "n \<le> 719"
    and cols: "length cols \<le> 719" "\<forall>i < length cols. uid_of (cols ! i) = u + of_nat (Suc i)"
    and msgs: "snd ` set msgs = set cols"
  obtains g where "block_fetch_agent_map (cycle_state_fetch (deliver msgs (snd (fetch_onCycle now m)))) =
      map (\<lambda>j. (u + of_nat j, g j)) [Suc k..<Suc n]"
    "\<forall>j. agent_sound u cols j (g j)" "\<forall>j. 0 < j \<and> j \<le> length cols \<longrightarrow> received_block (g j) \<noteq> None"
proof -
  define g where "g = (\<lambda>j. if j \<le> 719 then take_in (u + of_nat j) msgs (snd (agent_onCycle_collection now (f j))) else f j)"
  have sound: "agent_sound u cols j (g j)" for j
    using take_in_sound [of u cols j "snd (agent_onCycle_collection now (f j))" msgs] agent_sound_cycle [of u cols j "f j" now]
      f(2) u cols msgs by (simp add: g_def)
  have received: "received_block (g j) \<noteq> None" if j: "0 < j" "j \<le> length cols" for j
  proof -
    have "cols ! (j - 1) \<in> snd ` set msgs" using j by (simp add: msgs)
    then have "\<exists>p b. (p, b) \<in> set msgs \<and> uid_of b = u + of_nat j" using cols(2) j by force
    moreover have "agent_block_id (snd (agent_onCycle_collection now (f j))) = u + of_nat j"
      using f(2) by (simp add: agent_onCycle_collection_def agent_sound_def)
    ultimately show ?thesis using j cols(1) take_in_received by (simp add: g_def)
  qed
  have "map (\<lambda>j. (u + of_nat j, take_in (u + of_nat j) msgs (snd (agent_onCycle_collection now (f j))))) [Suc k..<Suc n] =
      map (\<lambda>j. (u + of_nat j, g j)) [Suc k..<Suc n]"
    using n by (simp add: g_def del: upt_Suc)
  then have "block_fetch_agent_map (cycle_state_fetch (deliver msgs (snd (fetch_onCycle now m)))) =
      map (\<lambda>j. (u + of_nat j, g j)) [Suc k..<Suc n]"
    using agents_map [OF f(1), of msgs now] u n by (simp del: upt_Suc)
  with sound received show ?thesis using that [of g] by blast
qed

lemma sync_refill:
  assumes g: "\<forall>j. agent_sound u cols j (g j)" and n: "k \<le> n" "n \<le> 719"
    and u: "isBaselineBlock u" "u \<noteq> 0" "unat u + 1440 < 2 ^ 64"
  obtains n' h where "refillAgentMap now (u + of_nat (Suc n)) (map (\<lambda>j. (u + of_nat j, g j)) [Suc k..<Suc n]) =
      (u + of_nat (Suc n'), map (\<lambda>j. (u + of_nat j, h j)) [Suc k..<Suc n'])"
    "\<forall>j. agent_sound u cols j (h j)" "k \<le> n'" "n' \<le> 719" "k + 50 \<le> n' \<or> n' = 719"
proof -
  let ?rest = "map (\<lambda>j. (u + of_nat j, g j)) [Suc k..<Suc n]" and ?next = "u + of_nat (Suc n)"
  have un: "unat (u + of_nat j) = unat u + j" if "j \<le> 720" for j using that u(3) by (intro unat_add_small) simp
  have lt: "\<forall>v \<in> fst ` set ?rest. v < ?next"
    using un [of "Suc n"] un n(2) by (auto simp: word_less_nat_alt simp del: upt_Suc of_nat_Suc)
  have nx: "unat ?next = unat u + Suc n" using un [of "Suc n"] n(2) by simp
  then have nz: "?next \<noteq> 0" by (metis add_Suc_right nat.distinct(1) unat_0)
  have ub: "until_baseline ?next = 719 - n" using until_baseline_after [OF u(1,2) _ n(2)] u(3) by simp
  have room: "unat ?next + until_baseline ?next < 2 ^ 64" unfolding nx ub using u(3) n(2) by simp
  have wf: "map_wf ?rest" using agents_wf [of u n g k] u(3) n(2) by simp
  from refill_list [OF nz wf lt room, of now] obtain c where c: "refillAgentMap now ?next ?rest = (?next + of_nat c,
      ?rest @ map (\<lambda>i. (?next + of_nat i, BlockFetchAgent_new now (?next + of_nat i) default_fetch_timeout_ms)) [0..<c])"
    "c \<le> 719 - n" "max_parallel_block_fetchers \<le> length ?rest + c \<or> c = 719 - n"
    unfolding ub by blast
  define h where "h j = (if j \<le> n then g j else BlockFetchAgent_new now (u + of_nat j) default_fetch_timeout_ms)" for j
  have "map (\<lambda>j. (u + of_nat j, h j)) [Suc k..<Suc (n + c)] =
      map (\<lambda>j. (u + of_nat j, h j)) [Suc k..<Suc n] @ map (\<lambda>j. (u + of_nat j, h j)) [Suc n..<Suc n + c]"
    using n(1) upt_add_eq_append [of "Suc k" "Suc n" c] by (simp del: upt_Suc)
  also have "map (\<lambda>j. (u + of_nat j, h j)) [Suc k..<Suc n] = ?rest" by (simp add: h_def del: upt_Suc)
  also have "[Suc n..<Suc n + c] = map (\<lambda>i. i + Suc n) [0..<c]" using map_add_upt [of "Suc n" c] by (simp add: add.commute)
  finally have eq: "map (\<lambda>j. (u + of_nat j, h j)) [Suc k..<Suc (n + c)] =
      ?rest @ map (\<lambda>i. (?next + of_nat i, BlockFetchAgent_new now (?next + of_nat i) default_fetch_timeout_ms)) [0..<c]"
    by (simp add: h_def comp_def algebra_simps del: upt_Suc)
  have "agent_sound u cols j (h j)" for j
    using g by (simp add: h_def agent_sound_def BlockFetchAgent_new_def)
  moreover have "?next + of_nat c = u + of_nat (Suc (n + c))" by (simp add: algebra_simps)
  moreover have "k + 50 \<le> n + c \<or> n + c = 719"
    using c(2,3) n by (auto simp: max_parallel_block_fetchers_def simp del: upt_Suc)
  ultimately show ?thesis using c(1,2) n eq by (intro that [of "n + c" h]) auto
qed

lemma sync_round:
  assumes inv: "sync_inv E rt cols k n m"
    and rt: "isBaselineBlock (uid_of rt)" "uid_of rt \<noteq> 0" "unat (uid_of rt) + 1440 < 2 ^ 64"
    and cols: "length cols \<le> 719" "\<forall>i < length cols. uid_of (cols ! i) = uid_of rt + of_nat (Suc i)"
    and msgs: "snd ` set msgs = set cols" and now: "unat (getBlockId now) \<le> unat (uid_of rt) + length cols"
  shows "\<exists>m' n'. fetch_round E (now, msgs) m = Inr m' \<and> sync_inv E rt cols (min n (length cols)) n' m' \<and>
    min (min n (length cols) + 50) (length cols) \<le> n' \<and>
    global_blockchain_newest_block_id (cycle_state_fetch m') = getBlockId now \<and> peers_monitor m' = peers_monitor m"
proof -
  let ?u = "uid_of rt" and ?k = "min n (length cols)"
  define m1 where "m1 = deliver msgs (snd (fetch_onCycle now m))"
  obtain f where f: "block_fetch_agent_map (cycle_state_fetch m) = map (\<lambda>j. (?u + of_nat j, f j)) [Suc k..<Suc n]"
    "\<forall>j. agent_sound ?u cols j (f j)" and n: "k \<le> n" "k \<le> length cols" "n \<le> 719"
    using inv by (auto simp: sync_inv_def)
  have "unat ?u + 719 < 2 ^ 64" using rt(3) by simp
  from sync_deliver [OF f this n(3) cols msgs, of now]
  obtain g where g: "block_fetch_agent_map (cycle_state_fetch m1) = map (\<lambda>j. (?u + of_nat j, g j)) [Suc k..<Suc n]"
      "\<forall>j. agent_sound ?u cols j (g j)" "\<forall>j. 0 < j \<and> j \<le> length cols \<longrightarrow> received_block (g j) \<noteq> None"
    unfolding m1_def by blast
  have m1: "bm_blockchain m1 = bm_blockchain m" "fetch_running (cycle_state_fetch m1)"
    "fetch_blocks_thread (cycle_state_fetch m1) = FT_Blocks (?u + of_nat (Suc n))" "peers_monitor m1 = peers_monitor m"
    using agents_map [OF f(1), of msgs now] inv rt(3) n(3)
    by (simp_all add: m1_def sync_inv_def fetch_onCycle_def Let_def case_prod_unfold bm_call_def del: upt_Suc)
  obtain bc where bc: "process_agents E (block_fetch_agent_map (cycle_state_fetch m1)) m1 =
      Inr (map (\<lambda>j. (?u + of_nat j, g j)) [Suc ?k..<Suc n], m1\<lparr>bm_blockchain := bc\<rparr>)"
    "chain_inv E bc (Baseline rt # map Collection (take ?k cols))" "accepts E bc (drop ?k cols)"
    using sync_process [of E m1 rt k cols n ?u g] g m1(1) inv n by (auto simp: sync_inv_def)
  obtain n' h where h: "refillAgentMap now (?u + of_nat (Suc n)) (map (\<lambda>j. (?u + of_nat j, g j)) [Suc ?k..<Suc n]) =
      (?u + of_nat (Suc n'), map (\<lambda>j. (?u + of_nat j, h j)) [Suc ?k..<Suc n'])"
    "\<forall>j. agent_sound ?u cols j (h j)" "?k \<le> n'" "n' \<le> 719" "?k + 50 \<le> n' \<or> n' = 719"
    by (rule sync_refill [OF g(2) _ n(3) rt, of ?k now]) auto
  have "\<not> getNextBaselineBlock (?u + of_nat (Suc n')) \<le> getBlockId now"
    using next_baseline_after [OF rt h(4)] now cols(1) by (simp add: word_le_nat_alt)
  then have "fetch_round E (now, msgs) m = Inr (m1\<lparr>bm_blockchain := bc, cycle_state_fetch := (cycle_state_fetch m1)
      \<lparr>block_fetch_agent_map := map (\<lambda>j. (?u + of_nat j, h j)) [Suc ?k..<Suc n'],
       global_blockchain_newest_block_id := getBlockId now, fetch_blocks_thread := FT_Blocks (?u + of_nat (Suc n'))\<rparr>\<rparr>)"
    using bc(1) h(1) m1
    by (simp add: fetch_round_def m1_def [symmetric] fetch_thread_step_def fetchBlocks_iteration_def processFinishedAgents_def
        Let_def del: upt_Suc of_nat_Suc)
  then show ?thesis
    using bc(2,3) h(2-) m1(2,4) cols(1) by (auto simp: sync_inv_def simp del: upt_Suc of_nat_Suc)
qed

text \<open>Replies from honest peers, at a time when the network has not gone past the chain.\<close>

definition honest_round :: "BaselineBlock \<Rightarrow> CollectionBlock list \<Rightarrow> blockchain_time_t \<times> (peer_id_t \<times> CollectionBlock) list \<Rightarrow> bool" where
  "honest_round rt cols = (\<lambda>(now, msgs). snd ` set msgs = set cols \<and>
     unat (uid_of rt) \<le> unat (getBlockId now) \<and> unat (getBlockId now) \<le> unat (uid_of rt) + length cols)"

lemma sync_rounds:
  assumes inv: "sync_inv E rt cols k n m" "min (k + 50) (length cols) \<le> n"
    and rt: "isBaselineBlock (uid_of rt)" "uid_of rt \<noteq> 0" "unat (uid_of rt) + 1440 < 2 ^ 64"
    and cols: "length cols \<le> 719" "\<forall>i < length cols. uid_of (cols ! i) = uid_of rt + of_nat (Suc i)"
    and rs: "\<forall>r \<in> set rs. honest_round rt cols r"
    and gl: "unat (uid_of rt) \<le> unat (global_blockchain_newest_block_id (cycle_state_fetch m))"
      "unat (global_blockchain_newest_block_id (cycle_state_fetch m)) \<le> unat (uid_of rt) + length cols"
  shows "\<exists>m' k' n'. fetch_rounds E rs m = Inr m' \<and> sync_inv E rt cols k' n' m' \<and>
    min (k + 50 * length rs) (length cols) \<le> k' \<and> peers_monitor m' = peers_monitor m \<and>
    unat (uid_of rt) \<le> unat (global_blockchain_newest_block_id (cycle_state_fetch m')) \<and>
    unat (global_blockchain_newest_block_id (cycle_state_fetch m')) \<le> unat (uid_of rt) + length cols"
  using inv rs gl
proof (induction rs arbitrary: k n m)
  case Nil
  then show ?case by (intro exI [of _ m] exI [of _ k] exI [of _ n]) auto
next
  case (Cons r rs)
  obtain now msgs where r: "r = (now, msgs)" by (cases r)
  have h: "snd ` set msgs = set cols" "unat (getBlockId now) \<le> unat (uid_of rt) + length cols"
    "unat (uid_of rt) \<le> unat (getBlockId now)" "\<forall>r \<in> set rs. honest_round rt cols r"
    using Cons.prems(3) by (simp_all add: r honest_round_def)
  let ?k = "min n (length cols)"
  obtain m' n' where m': "fetch_round E r m = Inr m'" "sync_inv E rt cols ?k n' m'" "min (?k + 50) (length cols) \<le> n'"
    "global_blockchain_newest_block_id (cycle_state_fetch m') = getBlockId now" "peers_monitor m' = peers_monitor m"
    using sync_round [OF Cons.prems(1) rt cols h(1,2)] unfolding r by blast
  obtain m2 k2 n2 where "fetch_rounds E rs m' = Inr m2" "sync_inv E rt cols k2 n2 m2"
    "min (?k + 50 * length rs) (length cols) \<le> k2" "peers_monitor m2 = peers_monitor m"
    "unat (uid_of rt) \<le> unat (global_blockchain_newest_block_id (cycle_state_fetch m2))"
    "unat (global_blockchain_newest_block_id (cycle_state_fetch m2)) \<le> unat (uid_of rt) + length cols"
    using Cons.IH [OF m'(2,3) h(4)] h m'(4,5) by auto
  moreover have "min (k + 50 * length (r # rs)) (length cols) \<le> min (?k + 50 * length rs) (length cols)"
    using Cons.prems(2) by auto
  ultimately show ?case using m'(1) by (intro exI [of _ m2] exI [of _ k2] exI [of _ n2]) auto
qed

lemma chain_rep_ids:
  assumes "chain_rep E bc bs"
  shows "getRootBlockId E bc = uid_b (hd bs)" "getNewestBlockId E bc = uid_b (last bs)"
    "unat (uid_b (last bs)) + 1 = unat (uid_b (hd bs)) + length bs"
proof -
  let ?r = "root_block_id (current_meta_data bc)"
  have ne: "bs \<noteq> []" and all: "\<forall>i < length bs. uid_b (bs ! i) = ?r + of_nat i"
    and n: "unat (newest_block_id (current_meta_data bc)) + 1 = unat ?r + length bs"
    using assms by (simp_all add: chain_rep_def)
  from all [rule_format, of 0] ne have "?r = uid_b (hd bs)" by (simp add: hd_conv_nth)
  moreover note chain_rep_newest(3) [OF assms]
  ultimately show "getRootBlockId E bc = uid_b (hd bs)" "getNewestBlockId E bc = uid_b (last bs)"
    "unat (uid_b (last bs)) + 1 = unat (uid_b (hd bs)) + length bs"
    using n by (simp_all add: getRootBlockId_def getNewestBlockId_def getMetaData_rep [OF assms])
qed

lemma synchronized_iff:
  assumes rep: "chain_rep E (bm_blockchain m) bs" and len: "length bs \<le> 40000000"
    and global: "unat (global_blockchain_newest_block_id (cycle_state_fetch m)) < unat (uid_b (hd bs)) + 40000000"
  shows "\<exists>p. percentSynchronizationDone E m = Inr p \<and>
    unat p = (if 1 < length bs \<and> uid_b (hd bs) \<le> global_blockchain_newest_block_id (cycle_state_fetch m)
      then min 100 (100 * length bs div (unat (global_blockchain_newest_block_id (cycle_state_fetch m)) - unat (uid_b (hd bs)) + 1)) else 0) \<and>
    isSynchronized E m = Inr (1 < length bs \<and> uid_b (hd bs) \<le> global_blockchain_newest_block_id (cycle_state_fetch m) \<and>
      global_blockchain_newest_block_id (cycle_state_fetch m) \<le> uid_b (last bs))"
proof -
  note ids = chain_rep_ids [OF rep]
  have r: "root_block_id (current_meta_data (bm_blockchain m)) = uid_b (hd bs)"
    "newest_block_id (current_meta_data (bm_blockchain m)) = uid_b (last bs)"
    using ids(1,2) by (simp_all add: getRootBlockId_def getNewestBlockId_def getMetaData_rep [OF rep])
  have c: "uid_b (hd bs) \<noteq> 0" "unat (uid_b (hd bs)) + length bs < 2 ^ 64" "bs \<noteq> []"
    "current_meta_data_initialized (bm_blockchain m)"
    using rep by (simp_all add: chain_rep_def r)
  have o: "uid_b (hd bs) \<le> uid_b (last bs)" "uid_b (hd bs) < uid_b (last bs) \<longleftrightarrow> 1 < length bs"
    using ids(3) c(3) by (cases bs; auto simp: word_le_nat_alt word_less_nat_alt)+
  have l: "unat (uid_b (last bs)) + 1 - unat (uid_b (hd bs)) = length bs" "unat (uid_b (last bs)) - unat (uid_b (hd bs)) < 40000000"
    "unat (uid_b (last bs)) + 1 < 2 ^ 64"
    using ids(3) c(2,3) len by (cases bs; simp)+
  let ?g = "global_blockchain_newest_block_id (cycle_state_fetch m)"
  obtain p where p: "percentSynchronizationDone E m = Inr p"
    "unat p = (if 1 < length bs \<and> uid_b (hd bs) \<le> ?g then min 100 (100 * length bs div (unat ?g - unat (uid_b (hd bs)) + 1)) else 0)"
    "p = 100 \<longleftrightarrow> 1 < length bs \<and> uid_b (hd bs) \<le> ?g \<and> ?g \<le> uid_b (last bs)"
    using percent_spec [where E = E, OF r(2) c(4) r(1) refl c(1) o(1) l(2) global l(3), unfolded l(1) o(2)] by blast
  then show ?thesis by (simp add: isSynchronized_def)
qed

lemma accepted_root_chain_inv:
  assumes "validateBlockWithoutContext E rt" "baseline_ok rt" "data_value_hashes rt \<noteq> []" "uid_of rt \<noteq> - 1"
  shows "\<exists>bc'. setRootBlock E rt bc = Inr bc' \<and> chain_inv E bc' [Baseline rt] \<and> current_baseline bc' = set_hash 0 rt"
proof -
  have "baseline_inv E rt \<and> uid_of rt \<noteq> 0 \<and> verifyHash_baseline E rt"
    using assms validateBlockWithoutContext_iff [of rt E] by (simp add: baseline_ok_def)
  moreover from this have "block_ok (Baseline rt)" using assms(2) by (simp add: baseline_inv_def)
  ultimately show ?thesis
    using setRootBlock_chain_inv [of rt E bc] setRootBlock_rep [of rt E bc] assms by auto
qed

text \<open>A block can only be added after a root with an epoch.\<close>

lemma accepting_root_epochs:
  assumes "setRootBlock E rt bc = Inr A" "uid_of rt \<noteq> 0" "accepts E A cols" "cols \<noteq> []"
  shows "data_value_hashes rt \<noteq> []"
proof
  assume "data_value_hashes rt = []"
  then have A: "data_value_hashes (current_baseline A) = []"
    using assms(1,2) by (auto simp: setRootBlock_def addBlock_baseline_def setMetaData_def Let_def res_simps)
  obtain c cs where "cols = c # cs" using assms(4) by (cases cols) auto
  with assms(3) obtain bc1 where v: "validateBlock_collection E A c = Inr (True, bc1)" "\<not> isl (addBlock_collection E c bc1)"
    by (cases "validateBlock_collection E A c"; cases "addBlock_collection E c (snd (projr (validateBlock_collection E A c)))") auto
  then obtain i bc2 where b: "validateBlock_collection E A c = Inr (True, bc1)" "addBlock_collection E c bc1 = Inr (i, bc2)"
    by (cases "addBlock_collection E c bc1") auto
  have "data_value_hashes (current_baseline bc1) = []" using validateBlock_collection_wallets [OF b(1)] A by auto
  then show False
    using addBlock_collection_baseline [OF b(2)] by (auto simp: updateBaseline_def Let_def res_simps)
qed

lemma sync_start:
  assumes root: "validateBlockWithoutContext E rt" "baseline_ok rt" "data_value_hashes rt \<noteq> []" "uid_of rt \<noteq> - 1"
    and peer: "setRootBlock E rt bc\<^sub>0 = Inr A" "accepts E A cols"
    and node: "fetch_running (cycle_state_fetch m)" "fetch_blocks_thread (cycle_state_fetch m) = FT_Baseline"
      "baseline_block_fetch_agent (cycle_state_fetch m) = Some a" "getReceivedBlock a = Some (p, rt)"
      "block_fetch_agent_map (cycle_state_fetch m) = []" "getNewestBlockId E (bm_blockchain m) \<le> uid_of rt"
  shows "\<exists>m'. fetch_thread_step E now peers m = Inr m' \<and> sync_inv E rt cols 0 0 m' \<and> peers_monitor m' = peers_monitor m \<and>
    (\<forall>i < length cols. uid_of (cols ! i) = uid_of rt + of_nat (Suc i))"
proof -
  obtain bc where bc: "setRootBlock E rt (bm_blockchain m) = Inr bc" "chain_inv E bc [Baseline rt]"
    "current_baseline bc = set_hash 0 rt"
    using accepted_root_chain_inv [OF root] by blast
  have A: "chain_inv E A [Baseline rt]" "current_baseline A = set_hash 0 rt"
    using accepted_root_chain_inv [OF root, of bc\<^sub>0] peer(1) by auto
  have "accepts E bc cols" by (rule accepts_same [OF A(1) bc(2) _ peer(2)]) (simp add: A(2) bc(3))
  moreover have "\<exists>f. \<forall>j. agent_sound (uid_of rt) cols j (f j)"
    by (rule exI [of _ "\<lambda>j. BlockFetchAgent_new 0 (uid_of rt + of_nat j) 0"]) (simp add: agent_sound_def BlockFetchAgent_new_def)
  ultimately show ?thesis
    using bc root(1) node accepts_uids [OF bc(2)]
    by (auto simp: fetch_thread_step_def fetchBaseline_iteration_def sync_inv_def)
qed

end
