(* ===== verification/Fetch_Properties.thy ===== *)
theory Fetch_Properties
  imports Fetch_Sync Chain_Properties
begin

text \<open>
  The properties of the fetch state: it catches up with honest peers, its loops end, the percentage is
  exact, and what one invalid reply does.
\<close>

section \<open>A lost block\<close>

inductive fetch_step :: "'ctx env \<Rightarrow> 'ctx BlockchainManager \<Rightarrow> 'ctx BlockchainManager \<Rightarrow> bool" for E where
  cycle: "fetch_blocks_thread (cycle_state_fetch m) = FT_Blocks next_id \<Longrightarrow> fetch_step E m (snd (fetch_onCycle now m))"
| reply: "fetch_blocks_thread (cycle_state_fetch m) = FT_Blocks next_id \<Longrightarrow>
    fetch_step E m (fetch_blockReceived_collection p b r m)"
| thread: "fetch_blocks_thread (cycle_state_fetch m) = FT_Blocks next_id \<Longrightarrow> fetch_thread_step E now peers m = Inr m' \<Longrightarrow>
    fetch_step E m m'"

definition not_for :: "block_uid_t \<Rightarrow> block_uid_t \<times> CollectionBlock BlockFetchAgent \<Rightarrow> bool" where
  "not_for k = (\<lambda>(v, a). v \<noteq> k \<and> (case received_block a of None \<Rightarrow> True | Some (p, b) \<Rightarrow> uid_of b \<noteq> k))"

definition no_agent_for :: "block_uid_t \<Rightarrow> (block_uid_t, CollectionBlock BlockFetchAgent) std_map \<Rightarrow> bool" where
  "no_agent_for k agents \<longleftrightarrow> list_all (not_for k) agents"

definition stuck_at :: "'ctx env \<Rightarrow> block list \<Rightarrow> block_uid_t \<Rightarrow> 'ctx BlockchainManager \<Rightarrow> bool" where
  "stuck_at E bs k m \<longleftrightarrow>
     chain_inv E (bm_blockchain m) bs \<and> uid_b (last bs) + 1 = k \<and>
     map_wf (block_fetch_agent_map (cycle_state_fetch m)) \<and> no_agent_for k (block_fetch_agent_map (cycle_state_fetch m)) \<and>
     (\<forall>next_id. fetch_blocks_thread (cycle_state_fetch m) = FT_Blocks next_id \<longrightarrow>
        k < next_id \<and> unat next_id + until_baseline next_id < 2 ^ 64)"

lemma validate_other_id:
  assumes inv: "chain_inv E bc bs" and uid: "uid_of b \<noteq> uid_b (last bs) + 1"
    and val: "validateBlock_collection E bc b = Inr (ok, bc')"
  shows "\<not> ok" "chain_inv E bc' bs"
proof -
  have b: "baseline_inv E (current_baseline bc)" and rep: "chain_rep E bc bs" using inv by (simp_all add: chain_inv_def)
  show "\<not> ok"
  proof
    assume ok
    then have "validateBlock_collection E bc b = Inr (True, bc')" using val by simp
    from validateBlock_collection_True(2) [OF this b] chain_rep_newest(2) [OF rep] uid show False by auto
  qed
  show "chain_inv E bc' bs" using validateBlock_collection_frame [OF val b] inv by (fastforce simp: chain_inv_def)
qed

lemma no_agent_for_append [simp]: "no_agent_for k (xs @ ys) \<longleftrightarrow> no_agent_for k xs \<and> no_agent_for k ys"
  by (simp add: no_agent_for_def)

lemma stuck_process:
  assumes "process_agents E agents m = Inr (agents', m')" "chain_inv E (bm_blockchain m) bs"
    and "no_agent_for (uid_b (last bs) + 1) agents"
  shows "chain_inv E (bm_blockchain m') bs \<and> (\<exists>pre. agents = pre @ agents') \<and>
    cycle_state_fetch m' = cycle_state_fetch m"
  using assms
proof (induction agents arbitrary: m)
  case (Cons va agents)
  obtain v a where va: "va = (v, a)" by (cases va)
  show ?case
  proof (cases "received_block a")
    case None
    then show ?thesis using Cons.prems by (auto simp: va getReceivedBlock_def)
  next
    case (Some pb)
    obtain p b where pb: "pb = (p, b)" by (cases pb)
    let ?m = "\<lambda>bc. bm_report p (m\<lparr>bm_blockchain := bc\<rparr>)"
    have uid: "uid_of b \<noteq> uid_b (last bs) + 1" using Cons.prems(3) Some by (simp add: no_agent_for_def not_for_def va pb)
    obtain ok bc where val: "validateBlock_collection E (bm_blockchain m) b = Inr (ok, bc)"
      using Cons.prems(1) Some by (auto simp: va getReceivedBlock_def pb res_simps)
    note bad = validate_other_id [OF Cons.prems(2) uid val]
    have "process_agents E agents (?m bc) = Inr (agents', m')"
      using Cons.prems(1) Some bad(1) val by (simp add: va getReceivedBlock_def pb)
    moreover have "chain_inv E (bm_blockchain (?m bc)) bs" using bad(2) by (simp add: bm_report_def)
    moreover have "no_agent_for (uid_b (last bs) + 1) agents" using Cons.prems(3) by (simp add: no_agent_for_def)
    ultimately obtain pre where "chain_inv E (bm_blockchain m') bs" "agents = pre @ agents'"
      "cycle_state_fetch m' = cycle_state_fetch (?m bc)"
      using Cons.IH by blast
    then show ?thesis by (auto simp: bm_report_def intro!: exI [of _ "va # pre"])
  qed
qed simp

lemma stuck_refill:
  assumes "refillAgentMap now u agents = (u', agents')" "map_wf agents" "unat u + until_baseline u < 2 ^ 64"
    and "no_agent_for k agents" "k < u"
  shows "map_wf agents' \<and> no_agent_for k agents' \<and> k < u' \<and> unat u' + until_baseline u' < 2 ^ 64"
proof -
  note spec = refill_spec [OF assms(1-3)]
  then have wf: "map_wf agents'" by blast
  have "not_for k (v, a)" if "(v, a) \<in> set agents'" for v a
  proof (cases "map_find agents v")
    have f: "map_find agents' v = Some a" using that map_find_eq_Some [OF wf] by blast
    case None
    then have "u \<le> v" "a = BlockFetchAgent_new now v default_fetch_timeout_ms"
      using f spec by (auto split: if_splits)
    with assms(5) show ?thesis by (auto simp: not_for_def BlockFetchAgent_new_def)
  next
    have f: "map_find agents' v = Some a" using that map_find_eq_Some [OF wf] by blast
    case (Some a')
    then have "(v, a) \<in> set agents" using f spec map_find_in_set [of agents v a'] by auto
    with assms(4) show ?thesis by (auto simp: no_agent_for_def list_all_iff)
  qed
  then have "no_agent_for k agents'" by (auto simp: no_agent_for_def list_all_iff)
  with spec assms(3,5) show ?thesis by auto
qed

lemma map_wf_suffix: "map_wf (pre @ m) \<Longrightarrow> map_wf m"
  by (simp add: map_wf_def sorted_wrt_append)

text \<open>An iteration after which no agent is left for the needed id.\<close>

lemma stuck_iteration:
  assumes p: "process_agents E (block_fetch_agent_map (cycle_state_fetch m)) m = Inr (agents, m\<^sub>1)"
    and m1: "chain_inv E (bm_blockchain m\<^sub>1) bs" "map_wf agents" "no_agent_for k agents"
    and t: "fetch_running (cycle_state_fetch m)" "fetch_blocks_thread (cycle_state_fetch m) = FT_Blocks next_id"
    and k: "uid_b (last bs) + 1 = k" "k < next_id" "unat next_id + until_baseline next_id < 2 ^ 64"
    and step: "fetch_thread_step E now peers m = Inr m'"
  shows "stuck_at E bs k m'"
proof -
  obtain u' agents' where r: "refillAgentMap now next_id agents = (u', agents')" by fastforce
  have "map_wf agents' \<and> no_agent_for k agents' \<and> k < u' \<and> unat u' + until_baseline u' < 2 ^ 64"
    by (rule stuck_refill [OF r m1(2) k(3) m1(3) k(2)])
  with step t p r m1(1) k(1) show ?thesis
    by (auto simp: fetch_thread_step_def Let_def fetchBlocks_iteration_def processFinishedAgents_def stuck_at_def
        fetchBaseline_begin_def split: if_splits)
qed

lemma stuck_thread:
  assumes inv: "stuck_at E bs k m" and t: "fetch_blocks_thread (cycle_state_fetch m) = FT_Blocks next_id"
    and step: "fetch_thread_step E now peers m = Inr m'"
  shows "stuck_at E bs k m'"
proof (cases "fetch_running (cycle_state_fetch m)")
  case False
  then show ?thesis using inv t step by (auto simp: stuck_at_def fetch_thread_step_def Let_def)
next
  case True
  note i = inv [unfolded stuck_at_def]
  obtain agents m1 where p: "process_agents E (block_fetch_agent_map (cycle_state_fetch m)) m = Inr (agents, m1)"
    using step True t by (auto simp: fetch_thread_step_def Let_def fetchBlocks_iteration_def processFinishedAgents_def res_simps)
  obtain pre where m1: "chain_inv E (bm_blockchain m1) bs" "block_fetch_agent_map (cycle_state_fetch m) = pre @ agents"
    using stuck_process [OF p, of bs] i by auto
  then have ag: "map_wf agents" "no_agent_for k agents" using i map_wf_suffix [of pre agents] by simp_all
  show ?thesis using i t by (intro stuck_iteration [OF p m1(1) ag True t _ _ _ step]) simp_all
qed

lemma stuck_cycle:
  assumes "stuck_at E bs k m"
  shows "stuck_at E bs k (snd (fetch_onCycle now m))"
proof -
  let ?ag = "block_fetch_agent_map (cycle_state_fetch m)"
  have "received_block (snd (agent_onCycle_collection now a)) = received_block a" for a
    by (simp add: agent_onCycle_collection_def)
  then have "no_agent_for k (snd (cycle_agents now ?ag)) = no_agent_for k ?ag"
    by (simp add: cycle_agents_eq no_agent_for_def not_for_def list_all_iff case_prod_unfold)
  moreover have "map_wf (snd (cycle_agents now ?ag)) = map_wf ?ag"
    by (simp add: cycle_agents_eq map_wf_def comp_def case_prod_unfold)
  ultimately show ?thesis
    using assms by (simp add: stuck_at_def fetch_onCycle_def Let_def bm_call_def case_prod_unfold)
qed

lemma stuck_reply:
  assumes inv: "stuck_at E bs k m"
  shows "stuck_at E bs k (fetch_blockReceived_collection p b r m)"
proof (cases "map_find (block_fetch_agent_map (cycle_state_fetch m)) (uid_of b)")
  case None
  then show ?thesis using inv by (simp add: fetch_blockReceived_collection_def Let_def)
next
  case (Some a)
  let ?ag = "block_fetch_agent_map (cycle_state_fetch m)" and ?a = "agent_blockReceivedCallback p b a"
  have "not_for k (uid_of b, a)"
    using inv map_find_in_set [OF Some] by (auto simp: stuck_at_def no_agent_for_def list_all_iff)
  then have "not_for k (uid_of b, ?a)" by (auto simp: not_for_def agent_blockReceivedCallback_def split: option.splits)
  then have "no_agent_for k (map_put (uid_of b) ?a ?ag)"
    using inv set_map_put_subset [of "uid_of b" ?a ?ag] by (auto simp: stuck_at_def no_agent_for_def list_all_iff)
  moreover have "map_wf (map_put (uid_of b) ?a ?ag)" using inv by (simp add: stuck_at_def map_wf_put)
  ultimately show ?thesis using inv Some by (simp add: fetch_blockReceived_collection_def Let_def stuck_at_def)
qed

lemma stuck_reachable: "(fetch_step E)\<^sup>*\<^sup>* m m' \<Longrightarrow> stuck_at E bs k m \<Longrightarrow> stuck_at E bs k m'"
  by (induction rule: rtranclp_induct) (auto elim!: fetch_step.cases simp: stuck_cycle stuck_reply stuck_thread)

section \<open>Properties\<close>

text \<open>
  C7: a node that fetches catches up. Let a peer have built its chain of up to 719 blocks after a
  baseline \<open>rt\<close> by blocks it accepted, and let the fetching node have just received that baseline, with no
  agents left from an earlier fetch. (A fetch leaves agents for ids that do not exist yet, and entering the
  state does not remove them.) Each round is one pass of the state and of its thread in which the replies
  are all blocks of that chain and nothing else, in any order and from any peers, while the clock's block id
  lies within the chain. Then after \<open>length cols div 50 + 2\<close> rounds the node holds the same chain, linked and
  with a consistent baseline, is synchronized, and has reported nobody.
\<close>

theorem fetching_node_catches_up:
  assumes "validateBlockWithoutContext E rt" "baseline_ok rt"
    and "isBaselineBlock (uid_of rt)" "uid_of rt \<noteq> 0" "unat (uid_of rt) + 1440 < 2 ^ 64"
    and "setRootBlock E rt bc\<^sub>0 = Inr A" "accepts E A cols" "cols \<noteq> []" "length cols \<le> 719"
    and "fetch_running (cycle_state_fetch m)" "fetch_blocks_thread (cycle_state_fetch m) = FT_Baseline"
    and "baseline_block_fetch_agent (cycle_state_fetch m) = Some a" "getReceivedBlock a = Some (p, rt)"
    and "block_fetch_agent_map (cycle_state_fetch m) = []" "getNewestBlockId E (bm_blockchain m) \<le> uid_of rt"
    and "\<forall>r \<in> set rounds. honest_round rt cols r" "length cols div 50 + 2 \<le> length rounds"
  shows "\<exists>m\<^sub>1 m\<^sub>2. fetch_thread_step E now peers m = Inr m\<^sub>1 \<and> fetch_rounds E rounds m\<^sub>1 = Inr m\<^sub>2 \<and>
    chain_inv E (bm_blockchain m\<^sub>2) (Baseline rt # map Collection cols) \<and> isSynchronized E m\<^sub>2 = Inr True \<and>
    peers_monitor m\<^sub>2 = peers_monitor m"
proof -
  note rt = assms(3-5)
  have "uid_of rt \<noteq> - 1" using rt(3) by (auto simp: unsigned_minus_1_eq_mask mask_eq_exp_minus_1)
  from sync_start [OF assms(1,2) accepting_root_epochs [OF assms(6) rt(2) assms(7,8)] this assms(6,7,10-15), of now peers]
  obtain m\<^sub>1 where m1: "fetch_thread_step E now peers m = Inr m\<^sub>1" "sync_inv E rt cols 0 0 m\<^sub>1"
    "peers_monitor m\<^sub>1 = peers_monitor m"
    and uids: "\<forall>i < length cols. uid_of (cols ! i) = uid_of rt + of_nat (Suc i)" by blast
  obtain t msgs rs where rs: "rounds = (t, msgs) # rs" using assms(17) by (cases rounds) auto
  have h: "snd ` set msgs = set cols" "unat (uid_of rt) \<le> unat (getBlockId t)"
    "unat (getBlockId t) \<le> unat (uid_of rt) + length cols" "\<forall>r \<in> set rs. honest_round rt cols r"
    using assms(16) by (simp_all add: rs honest_round_def)
  obtain m' n' where m': "fetch_round E (t, msgs) m\<^sub>1 = Inr m'" "sync_inv E rt cols 0 n' m'" "min 50 (length cols) \<le> n'"
    "global_blockchain_newest_block_id (cycle_state_fetch m') = getBlockId t" "peers_monitor m' = peers_monitor m"
    using sync_round [OF m1(2) rt assms(9) uids h(1,3)] m1(3) by auto
  obtain m\<^sub>2 k n where m2: "fetch_rounds E rs m' = Inr m\<^sub>2" "sync_inv E rt cols k n m\<^sub>2"
    "min (50 * length rs) (length cols) \<le> k" "peers_monitor m\<^sub>2 = peers_monitor m"
    "unat (uid_of rt) \<le> unat (global_blockchain_newest_block_id (cycle_state_fetch m\<^sub>2))"
    "unat (global_blockchain_newest_block_id (cycle_state_fetch m\<^sub>2)) \<le> unat (uid_of rt) + length cols"
    using sync_rounds [OF m'(2) _ rt assms(9) uids h(4)] m'(3-5) h(2,3) by auto
  have "length cols \<le> 50 * length rs"
  proof -
    have "length cols div 50 + 1 \<le> length rs" using assms(17) by (simp add: rs)
    then show ?thesis by linarith
  qed
  with m2(2,3) have k: "k = length cols" by (simp add: sync_inv_def)
  then have chain: "chain_inv E (bm_blockchain m\<^sub>2) (Baseline rt # map Collection cols)"
    using m2(2) by (simp add: sync_inv_def)
  then have rep: "chain_rep E (bm_blockchain m\<^sub>2) (Baseline rt # map Collection cols)" by (simp add: chain_inv_def)
  have "isSynchronized E m\<^sub>2 = Inr True"
    using synchronized_iff [OF rep] chain_rep_ids(3) [OF rep] assms(8,9) m2(5,6) by (auto simp: word_le_nat_alt)
  with m1(1) m'(1) m2(1,4) chain show ?thesis by (simp add: rs)
qed

definition sample_fetch :: "byte list BlockchainManager" where
  "sample_fetch = sample_manager\<lparr>cycle_state_fetch := \<lparr>global_blockchain_newest_block_id = 0,
     baseline_block_fetch_agent = Some ((BlockFetchAgent_new 0 0 60000)\<lparr>received_block := Some (''p'', sample_root (sample_env True))\<rparr>),
     block_fetch_agent_map = [], fetch_running = True, fetch_blocks_thread = FT_Baseline\<rparr>\<rparr>"

lemma sample_block_accepts: "accepts (sample_env True) (sample_chain (sample_env True)) [sample_block True 400000]"
proof -
  let ?E = "sample_env True"
  have b: "baseline_inv ?E (current_baseline (sample_chain ?E))" using sample_chain_inv [of True] by (simp add: chain_inv_def)
  have v: "validateBlock_collection ?E (sample_chain ?E) (sample_block True 400000) = Inr (True, sample_chain ?E)"
    by (rule sample_block_accepted)
  have nd: "NDEBUG ?E" by (simp add: sample_env_def)
  from updateBaseline_release [OF b nd] obtain b' where
    "updateBaseline ?E (uid_of (sample_block True 400000)) (sample_block True 400000) (current_baseline (sample_chain ?E)) = Inr b'"
    by blast
  from accepted_add_chain_inv [OF sample_chain_inv v sample_block_capacity sample_block_collision_free this]
  show ?thesis using v sample_block_capacity sample_block_collision_free by auto
qed

theorem fetching_node_catches_up_witness:
  "\<exists>m\<^sub>1 m\<^sub>2. fetch_thread_step (sample_env True) 0 1 sample_fetch = Inr m\<^sub>1 \<and>
    fetch_rounds (sample_env True) [(1547155560000, [(''p'', sample_block True 400000)]),
      (1547155560000, [(''q'', sample_block True 400000)])] m\<^sub>1 = Inr m\<^sub>2 \<and>
    chain_inv (sample_env True) (bm_blockchain m\<^sub>2)
      [Baseline (sample_root (sample_env True)), Collection (sample_block True 400000)] \<and>
    isSynchronized (sample_env True) m\<^sub>2 = Inr True"
proof -
  let ?E = "sample_env True" and ?rt = "sample_root (sample_env True)"
  have root: "validateBlockWithoutContext ?E ?rt" "baseline_ok ?rt"
    using validateBlockWithoutContext_iff [of ?rt ?E] sample_root_facts(2,3) [of ?E] sample_baseline_inv [of True]
      sample_root_ok [of ?E]
    by (auto simp: baseline_inv_header baseline_ok_def)
  obtain A where A: "setRootBlock ?E ?rt blank_chain = Inr A"
    using setRootBlock_rep [of ?rt ?E blank_chain] sample_root_ok [of ?E] by auto
  then have acc: "accepts ?E A [sample_block True 400000]" using sample_block_accepts by (simp add: sample_chain_def)
  have id: "isBaselineBlock 1" "unat (getBlockId 1547155560000) = 2"
    by (simp_all add: isBaselineBlock_def unat_getBlockId)
  have newest: "getNewestBlockId ?E (sample_chain ?E) = 1"
    using chain_rep_ids(2) [of ?E "sample_chain ?E"] sample_chain_inv [of True] by (auto simp: chain_inv_def)
  show ?thesis
    using fetching_node_catches_up [OF root _ _ _ A acc, of sample_fetch _ "''p''" "[(1547155560000, [(''p'', sample_block True 400000)]),
      (1547155560000, [(''q'', sample_block True 400000)])]" 0 1] id newest
    by (simp add: sample_fetch_def getReceivedBlock_def honest_round_def) blast
qed

text \<open>
  C32: one invalid reply stops the synchronisation. When the block the node needs next has been answered
  with an invalid block, the thread erases the agent and does not ask for that id again: whatever is
  asked and answered afterwards, not one block is added until the thread starts over with a new baseline.
\<close>

theorem invalid_reply_stops_fetching:
  assumes "chain_inv E (bm_blockchain m) bs" "fetch_running (cycle_state_fetch m)"
    and "fetch_blocks_thread (cycle_state_fetch m) = FT_Blocks next_id" "unat next_id + 720 < 2 ^ 64"
    and "block_fetch_agent_map (cycle_state_fetch m) = (k, a) # agents" "map_wf ((k, a) # agents)"
    and "\<forall>(v, a) \<in> set agents. \<forall>p b. received_block a = Some (p, b) \<longrightarrow> uid_of b = v"
    and "k = uid_b (last bs) + 1" "k < next_id"
    and "getReceivedBlock a = Some (p, b)" "validateBlock_collection E (bm_blockchain m) b = Inr (False, bc)"
    and "fetch_thread_step E now peers m = Inr m\<^sub>1" "(fetch_step E)\<^sup>*\<^sup>* m\<^sub>1 m\<^sub>2"
  shows "chain_inv E (bm_blockchain m\<^sub>2) bs \<and> map_find (block_fetch_agent_map (cycle_state_fetch m\<^sub>2)) k = None"
proof -
  let ?m = "bm_report p (m\<lparr>bm_blockchain := bc\<rparr>)"
  have b: "baseline_inv E (current_baseline (bm_blockchain m))" using assms(1) by (simp add: chain_inv_def)
  have chain: "chain_inv E (bm_blockchain ?m) bs"
    using validateBlock_collection_frame [OF assms(11) b] assms(1) by (fastforce simp: chain_inv_def bm_report_def)
  have none: "no_agent_for k agents" using assms(6,7) by (fastforce simp: no_agent_for_def not_for_def list_all_iff split: option.splits)
  obtain ag x where p: "process_agents E (block_fetch_agent_map (cycle_state_fetch m)) m = Inr (ag, x)"
    using assms(2,3,12) by (auto simp: fetch_thread_step_def Let_def fetchBlocks_iteration_def processFinishedAgents_def res_simps)
  then have "process_agents E agents ?m = Inr (ag, x)" using assms(5,10,11) by simp
  then obtain pre where x: "chain_inv E (bm_blockchain x) bs" "agents = pre @ ag"
    using stuck_process [of E agents ?m ag x bs] chain none assms(8) by blast
  have ag: "map_wf ag" "no_agent_for k ag" using assms(6) none x(2) map_wf_suffix [of pre ag] by simp_all
  have "unat next_id + until_baseline next_id < 2 ^ 64" using assms(4) until_baseline_le [of next_id] by simp
  from stuck_iteration [OF p x(1) ag assms(2,3) assms(8) [symmetric] assms(9) this assms(12)] stuck_reachable [OF assms(13)]
  have "stuck_at E bs k m\<^sub>2" by blast
  then show ?thesis by (auto simp: stuck_at_def no_agent_for_def not_for_def list_all_iff map_find_eq_None)
qed

definition sample_bad_block :: CollectionBlock where
  "sample_bad_block = set_uid 2 (set_prev (hash_of (sample_root (sample_env True)) + 1) new_CollectionBlock)"

definition sample_stalling :: "byte list BlockchainManager" where
  "sample_stalling = sample_manager\<lparr>cycle_state_fetch := \<lparr>global_blockchain_newest_block_id = 0,
     baseline_block_fetch_agent = None,
     block_fetch_agent_map = [(2, (BlockFetchAgent_new 0 2 2000)\<lparr>received_block := Some (''x'', sample_bad_block)\<rparr>)],
     fetch_running = True, fetch_blocks_thread = FT_Blocks 3\<rparr>\<rparr>"

lemma sample_stalling_simps:
  "bm_blockchain sample_stalling = sample_chain (sample_env True)"
  "fetch_running (cycle_state_fetch sample_stalling)"
  "fetch_blocks_thread (cycle_state_fetch sample_stalling) = FT_Blocks 3"
  "block_fetch_agent_map (cycle_state_fetch sample_stalling) =
     [(2, (BlockFetchAgent_new 0 2 2000)\<lparr>received_block := Some (''x'', sample_bad_block)\<rparr>)]"
  by (simp_all add: sample_stalling_def)

theorem invalid_reply_stops_fetching_witness:
  "\<exists>m\<^sub>1. fetch_thread_step (sample_env True) 0 1 sample_stalling = Inr m\<^sub>1 \<and>
    chain_inv (sample_env True) (bm_blockchain m\<^sub>1) [Baseline (sample_root (sample_env True))] \<and>
    map_find (block_fetch_agent_map (cycle_state_fetch m\<^sub>1)) 2 = None"
proof -
  let ?E = "sample_env True" and ?m = sample_stalling
  have chain: "chain_inv ?E (sample_chain ?E) [Baseline (sample_root ?E)]" by (rule sample_chain_inv)
  have "signatures_present sample_bad_block"
    by (simp add: signatures_present_def sample_bad_block_def new_CollectionBlock_def)
  from validateBlock_collection_total [OF sample_chain_newest this]
  obtain ok bc where v: "validateBlock_collection ?E (sample_chain ?E) sample_bad_block = Inr (ok, bc)" by blast
  have "\<not> ok"
  proof
    assume ok
    then have "validateBlock_collection ?E (sample_chain ?E) sample_bad_block = Inr (True, bc)" using v by simp
    from validateBlock_collection_True(2) [OF this] chain sample_chain_newest [of True] show False
      by (auto simp: chain_inv_def sample_bad_block_def)
  qed
  with v have bad: "validateBlock_collection ?E (sample_chain ?E) sample_bad_block = Inr (False, bc)" by simp
  have "\<exists>m\<^sub>1. fetch_thread_step ?E 0 1 ?m = Inr m\<^sub>1"
    using bad by (simp add: sample_stalling_simps fetch_thread_step_def fetchBlocks_iteration_def processFinishedAgents_def
        getReceivedBlock_def Let_def case_prod_unfold)
  then obtain m\<^sub>1 where step: "fetch_thread_step ?E 0 1 ?m = Inr m\<^sub>1" by blast
  have "chain_inv ?E (bm_blockchain m\<^sub>1) [Baseline (sample_root ?E)] \<and>
      map_find (block_fetch_agent_map (cycle_state_fetch m\<^sub>1)) 2 = None"
    by (rule invalid_reply_stops_fetching [where m = ?m and agents = "[]" and p = "''x''" and b = sample_bad_block, OF _ _ _ _ _ _ _ _ _ _ _ step])
      (use chain bad in \<open>simp_all add: sample_stalling_simps getReceivedBlock_def\<close>, simp_all)
  with step show ?thesis by blast
qed

text \<open>
  C29: \<open>refillAgentMap\<close> ends for every input, with at least 50 agents or in front of a baseline id; it
  passes no baseline id, keeps every agent there was, and adds exactly one fresh agent for each id it
  passes that had none.
\<close>

theorem refillAgentMap_fills:
  assumes "map_wf agents" "unat u + 720 < 2 ^ 64"
  shows "case refillAgentMap now u agents of (u', agents') \<Rightarrow>
    (50 \<le> length agents' \<or> isBaselineBlock u') \<and> u \<le> u' \<and> (\<forall>v. u \<le> v \<and> v < u' \<longrightarrow> \<not> isBaselineBlock v) \<and>
    (\<forall>v. map_find agents' v = (case map_find agents v of Some a \<Rightarrow> Some a
       | None \<Rightarrow> if u \<le> v \<and> v < u' then Some (BlockFetchAgent_new now v 2000) else None))"
proof -
  obtain u' agents' where r: "refillAgentMap now u agents = (u', agents')" by fastforce
  have "unat u + until_baseline u < 2 ^ 64" using assms(2) until_baseline_le [of u] by simp
  from refill_spec [OF r assms(1) this, unfolded max_parallel_block_fetchers_def default_fetch_timeout_ms_def]
  show ?thesis unfolding r prod.case by blast
qed

theorem refillAgentMap_fills_witness:
  "case refillAgentMap 5 719 [] of (u', agents') \<Rightarrow> 719 \<le> u' \<and> (50 \<le> length agents' \<or> isBaselineBlock u')"
  using refillAgentMap_fills [of "[]" 719 5] by (simp add: case_prod_unfold)

text \<open>
  C28: the 32-bit percentage is exact. For chains of up to 40 million blocks, and a network that is ahead
  of the root by less than that, it neither divides by zero nor wraps: once the node has a block after its
  root and the network's newest id is not before the root, it is the number of the node's blocks in percent
  of the network's, rounded down and at most 100, and before that it is 0. So the node counts as
  synchronized exactly if it has a block after its root, the network's id is not before the root, and the
  newest block has at least the network's id.
\<close>

theorem synchronization_exact:
  assumes "chain_inv E (bm_blockchain m) bs" "length bs \<le> 40000000"
    and "unat (global_blockchain_newest_block_id (cycle_state_fetch m)) < unat (uid_b (hd bs)) + 40000000"
  shows "\<exists>p. percentSynchronizationDone E m = Inr p \<and>
    unat p = (if 1 < length bs \<and> uid_b (hd bs) \<le> global_blockchain_newest_block_id (cycle_state_fetch m)
      then min 100 (100 * length bs div (unat (global_blockchain_newest_block_id (cycle_state_fetch m)) - unat (uid_b (hd bs)) + 1)) else 0) \<and>
    isSynchronized E m = Inr (1 < length bs \<and> uid_b (hd bs) \<le> global_blockchain_newest_block_id (cycle_state_fetch m) \<and>
      global_blockchain_newest_block_id (cycle_state_fetch m) \<le> uid_b (last bs))"
  using assms synchronized_iff [of E m bs] by (simp add: chain_inv_def)

text \<open>A chain of two blocks in a network that has four.\<close>

theorem synchronization_exact_witness:
  "\<exists>bc. let m = sample_fetch\<lparr>bm_blockchain := bc, cycle_state_fetch := (cycle_state_fetch sample_fetch)\<lparr>global_blockchain_newest_block_id := 4\<rparr>\<rparr>
     in percentSynchronizationDone (sample_env True) m = Inr 50 \<and> isSynchronized (sample_env True) m = Inr False"
proof -
  let ?E = "sample_env True" and ?bs = "[Baseline (sample_root (sample_env True)), Collection (sample_block True 400000)]"
  have b: "baseline_inv ?E (current_baseline (sample_chain ?E))" using sample_chain_inv [of True] by (simp add: chain_inv_def)
  have nd: "NDEBUG ?E" by (simp add: sample_env_def)
  from updateBaseline_release [OF b nd] obtain b' where
    "updateBaseline ?E (uid_of (sample_block True 400000)) (sample_block True 400000) (current_baseline (sample_chain ?E)) = Inr b'"
    by blast
  from accepted_add_chain_inv [OF sample_chain_inv sample_block_accepted sample_block_capacity sample_block_collision_free this]
  obtain bc where bc: "chain_inv ?E bc ?bs" by auto
  have uids: "uid_of (sample_root ?E) = 1" "uid_of (sample_block True 400000) = 2"
    using sample_root_facts(3) [of ?E] by (auto simp: sample_baseline_def empty_baseline_def sample_block_def next_block_facts)
  let ?m = "sample_fetch\<lparr>bm_blockchain := bc, cycle_state_fetch := (cycle_state_fetch sample_fetch)\<lparr>global_blockchain_newest_block_id := 4\<rparr>\<rparr>"
  obtain p where p: "percentSynchronizationDone ?E ?m = Inr p" "unat p = 50" "isSynchronized ?E ?m = Inr False"
    using synchronization_exact [of ?E ?m ?bs] bc uids by auto
  have "p = 50" using p(2) by (simp add: word_unat_eq_iff)
  with p show ?thesis by (auto simp: Let_def)
qed

end
