(* ===== verification/Blockchain_Manager.thy ===== *)
theory Blockchain_Manager
  imports Cycle_Fetch
begin

text \<open>
  The class \<open>BlockchainManager\<close> (src/src/scn/BlockchainManager/BlockchainManager.cpp): the dispatch of
  received blocks to the current cycle state, and the thread \<open>updateStateThread\<close> that switches the
  states by the clock. The thread is a step function over its program counter; a step is one iteration
  of the loop it is in, or a state change. What a step reads from its surroundings (clock, number of
  peers, random seeds, measured durations) is its input.
\<close>

section \<open>Definitions\<close>

record step_input =
  in_now :: blockchain_time_t
  in_num_peers :: u32
  in_rnd :: "nat \<Rightarrow> u32"
  in_duration :: u32

subsection \<open>Callbacks\<close>

definition baselineBlockReceivedCallback ::
    "peer_id_t \<Rightarrow> BaselineBlock \<Rightarrow> bool \<Rightarrow> 'ctx BlockchainManager \<Rightarrow> 'ctx BlockchainManager" where
  "baselineBlockReceivedCallback peer block reply m =
     (case current_state m of
        FetchBlockchain \<Rightarrow> fetch_blockReceived_baseline peer block reply m
      | _ \<Rightarrow> m)"

definition collectionBlockReceivedCallback ::
    "'ctx env \<Rightarrow> blockchain_time_t \<Rightarrow> peer_id_t \<Rightarrow> CollectionBlock \<Rightarrow> bool \<Rightarrow> 'ctx BlockchainManager \<Rightarrow> 'ctx BlockchainManager res" where
  "collectionBlockReceivedCallback E now peer block reply m =
     bind_res (case current_state m of
        FetchBlockchain \<Rightarrow> Inr (fetch_blockReceived_collection peer block reply m)
      | IntroduceBlock \<Rightarrow> introduce_blockReceived E peer block reply m
      | _ \<Rightarrow> Inr m) (\<lambda>m.
     Inr (m\<lparr>peers_monitor := pm_blockReceivedCallback now peer block reply (peers_monitor m)\<rparr>))"

definition percentBlockchainSynchronized :: "'ctx env \<Rightarrow> 'ctx BlockchainManager \<Rightarrow> u8 res" where
  "percentBlockchainSynchronized E m =
     (case current_state m of
        FetchBlockchain \<Rightarrow> percentSynchronizationDone E m
      | Unassigned \<Rightarrow> Inr 0
      | _ \<Rightarrow> Inr 100)"

subsection \<open>State changes\<close>

text \<open>The virtual functions of \<open>ICycleState\<close>; \<open>onExit\<close> of the collect and baseline states only logs.\<close>

definition state_onEnter ::
    "'ctx env \<Rightarrow> (ActivePeersList \<Rightarrow> u64) \<Rightarrow> step_input \<Rightarrow> State \<Rightarrow> 'ctx BlockchainManager \<Rightarrow> 'ctx BlockchainManager res" where
  "state_onEnter E est i s m =
     (case s of
        Unassigned \<Rightarrow> Inr m
      | FetchBlockchain \<Rightarrow> fetch_onEnter E m
      | Collect \<Rightarrow> Inr (collect_onEnter E est m)
      | IntroduceBlock \<Rightarrow> introduce_onEnter E (in_now i) m
      | IntroduceBaseline \<Rightarrow> baseline_onEnter E (in_rnd i) m)"

definition state_onExit :: "'ctx env \<Rightarrow> step_input \<Rightarrow> State \<Rightarrow> 'ctx BlockchainManager \<Rightarrow> 'ctx BlockchainManager res" where
  "state_onExit E i s m =
     (case s of
        FetchBlockchain \<Rightarrow> fetch_onExit E (in_now i) (in_num_peers i) m
      | IntroduceBlock \<Rightarrow> introduce_onExit E (in_rnd i) m
      | _ \<Rightarrow> Inr m)"

definition state_onCycle :: "'ctx env \<Rightarrow> step_input \<Rightarrow> State \<Rightarrow> 'ctx BlockchainManager \<Rightarrow> 'ctx BlockchainManager res" where
  "state_onCycle E i s m =
     (case s of
        FetchBlockchain \<Rightarrow> Inr (snd (fetch_onCycle (in_now i) m))
      | Collect \<Rightarrow> bind_res (collect_onCycle E (in_duration i) m) (\<lambda>(_, m). Inr m)
      | IntroduceBlock \<Rightarrow> Inr (snd (introduce_onCycle (in_now i) m))
      | _ \<Rightarrow> Inr m)"

definition setState ::
    "'ctx env \<Rightarrow> (ActivePeersList \<Rightarrow> u64) \<Rightarrow> step_input \<Rightarrow> State \<Rightarrow> 'ctx BlockchainManager \<Rightarrow> 'ctx BlockchainManager res" where
  "setState E est i new_state m =
     (if new_state \<noteq> current_state m then
        bind_res (state_onExit E i (current_state m) m) (\<lambda>m.
          state_onEnter E est i new_state (m\<lparr>current_state := new_state\<rparr>))
      else Inr m)"

subsection \<open>The thread\<close>

datatype update_pc =
  Begin                     \<comment> \<open>before the first statement\<close>
| FetchLoop bool            \<comment> \<open>in \<open>fetchBlockchain\<close>, called first or from the loop\<close>
| LoopHead                  \<comment> \<open>at \<open>while(running_)\<close>\<close>
| CycleIntroduce | CycleBaseline | CycleCollect  \<comment> \<open>in \<open>cycleUntil\<close>\<close>
| Ended

record 'ctx node =
  manager :: "'ctx BlockchainManager"
  update_pc :: update_pc
  time_next_state_change :: blockchain_time_t
  time_violation_detected :: bool

definition slot_start :: "blockchain_time_t \<Rightarrow> blockchain_time_t" where
  "slot_start now = now div cycle_length_ms * cycle_length_ms + cycle_length_ms div 4"

definition after_fetch :: "(ActivePeersList \<Rightarrow> u64) \<Rightarrow> step_input \<Rightarrow> 'ctx BlockchainManager \<Rightarrow> 'ctx node \<Rightarrow> 'ctx node" where
  "after_fetch est i m n =
     n\<lparr>manager := m\<lparr>active_peers_collector := restartListBuilding est (active_peers_collector m)\<rparr>,
       time_next_state_change := slot_start (in_now i), update_pc := LoopHead\<rparr>"

definition thread_end :: "'ctx env \<Rightarrow> step_input \<Rightarrow> 'ctx node \<Rightarrow> 'ctx node res" where
  "thread_end E i n =
     bind_res (state_onExit E i (current_state (manager n)) (manager n)) (\<lambda>m.
       Inr (n\<lparr>manager := m\<lparr>current_state := Unassigned\<rparr>, update_pc := Ended\<rparr>))"

text \<open>A state change of the loop: the duration is checked, and the next time is set.\<close>

definition enter_phase ::
    "'ctx env \<Rightarrow> (ActivePeersList \<Rightarrow> u64) \<Rightarrow> step_input \<Rightarrow> State \<Rightarrow> blockchain_time_t \<Rightarrow> update_pc \<Rightarrow> 'ctx node \<Rightarrow> 'ctx node res" where
  "enter_phase E est i s wait pc n =
     bind_res (setState E est i s (manager n)) (\<lambda>m.
       Inr (n\<lparr>manager := m, time_violation_detected := time_violation_detected n \<or> ucast (in_duration i) > cycle_length_ms,
              time_next_state_change := time_next_state_change n + wait, update_pc := pc\<rparr>))"

text \<open>An iteration of \<open>cycleUntil\<close>, or what follows it.\<close>

definition cycle_or ::
    "'ctx env \<Rightarrow> step_input \<Rightarrow> ('ctx node \<Rightarrow> 'ctx node res) \<Rightarrow> 'ctx node \<Rightarrow> 'ctx node res" where
  "cycle_or E i rest n =
     (if bm_running (manager n) \<and> in_now i < time_next_state_change n then
        bind_res (state_onCycle E i (current_state (manager n)) (manager n)) (\<lambda>m. Inr (n\<lparr>manager := m\<rparr>))
      else if \<not> bm_running (manager n) then thread_end E i n
      else rest n)"

definition enter_collect :: "'ctx env \<Rightarrow> (ActivePeersList \<Rightarrow> u64) \<Rightarrow> step_input \<Rightarrow> 'ctx node \<Rightarrow> 'ctx node res" where
  "enter_collect E est i = enter_phase E est i Collect (cycle_length_ms div 4) CycleCollect"

definition begin_fetch ::
    "'ctx env \<Rightarrow> (ActivePeersList \<Rightarrow> u64) \<Rightarrow> step_input \<Rightarrow> bool \<Rightarrow> 'ctx node \<Rightarrow> 'ctx node res" where
  "begin_fetch E est i first n =
     bind_res (setState E est i FetchBlockchain (manager n)) (\<lambda>m. Inr (n\<lparr>manager := m, update_pc := FetchLoop first\<rparr>))"

definition fetchBlockchain_iteration ::
    "'ctx env \<Rightarrow> (ActivePeersList \<Rightarrow> u64) \<Rightarrow> step_input \<Rightarrow> bool \<Rightarrow> 'ctx node \<Rightarrow> 'ctx node res" where
  "fetchBlockchain_iteration E est i first n =
     bind_res (if bm_running (manager n) then isSynchronized E (manager n) else Inr True) (\<lambda>leave.
       if leave then
         Inr (after_fetch est i (if first then resumeMiner E (in_rnd i) (manager n) else manager n) n)
       else bind_res (state_onCycle E i (current_state (manager n)) (manager n)) (\<lambda>m. Inr (n\<lparr>manager := m\<rparr>)))"

definition updateStateThread_step ::
    "'ctx env \<Rightarrow> (ActivePeersList \<Rightarrow> u64) \<Rightarrow> bool \<Rightarrow> step_input \<Rightarrow> 'ctx node \<Rightarrow> 'ctx node res" where
  "updateStateThread_step E est initial_fetch i n =
     (case update_pc n of
        Begin \<Rightarrow>
          if initial_fetch then begin_fetch E est i True n
          else Inr (after_fetch est i (resumeMiner E (in_rnd i) (manager n)) n)
      | FetchLoop first \<Rightarrow> fetchBlockchain_iteration E est i first n
      | LoopHead \<Rightarrow>
          if bm_running (manager n) then
            enter_phase E est i IntroduceBlock (cycle_length_ms * 3 div 4) CycleIntroduce (n\<lparr>time_violation_detected := False\<rparr>)
          else thread_end E i n
      | CycleIntroduce \<Rightarrow>
          cycle_or E i (\<lambda>n.
            if isBaselineBlock (getNewestBlockId E (bm_blockchain (manager n)) + 2)
            then enter_phase E est i IntroduceBaseline cycle_length_ms CycleBaseline n
            else enter_collect E est i n) n
      | CycleBaseline \<Rightarrow> cycle_or E i (enter_collect E est i) n
      | CycleCollect \<Rightarrow>
          cycle_or E i (\<lambda>n.
            if isOutOfSync (out_of_sync_detector (manager n)) \<or> time_violation_detected n then begin_fetch E est i False n
            else Inr (n\<lparr>update_pc := LoopHead\<rparr>)) n
      | Ended \<Rightarrow> Inr n)"

text \<open>The destructor's part before it joins the thread.\<close>

definition stop_manager :: "'ctx BlockchainManager \<Rightarrow> 'ctx BlockchainManager" where
  "stop_manager m = m\<lparr>bm_running := False\<rparr>"

end
