(* ===== verification/Node_Steps.thy ===== *)
theory Node_Steps
  imports Blockchain_Manager
begin

text \<open>
  A node as a whole: the thread that switches the states, interleaved with the callbacks of the connector,
  the miner, the fetch thread, the cache thread and the user. The invariant \<open>in_step\<close> says that the chain
  is readable and that the newest block and the next state change fit the clock; \<open>state_matches\<close> says which
  state belongs to which phase.
\<close>

section \<open>What only passes through\<close>

definition calm :: "'ctx BlockchainManager \<Rightarrow> 'ctx BlockchainManager \<Rightarrow> bool" where
  "calm m m' \<longleftrightarrow>
     (\<exists>w. bm_blockchain m' = (bm_blockchain m)\<lparr>current_baseline := (current_baseline (bm_blockchain m))\<lparr>wallets := w\<rparr>\<rparr>) \<and>
     current_state m' = current_state m \<and> bm_running m' = bm_running m \<and>
     uid_of (new_block m') = uid_of (new_block m) \<and> type_of (new_block m') = type_of (new_block m) \<and>
     fetch_blocks_thread (cycle_state_fetch m') = fetch_blocks_thread (cycle_state_fetch m)"

lemma same_wallets: "bc\<lparr>current_baseline := (current_baseline bc)\<lparr>wallets := wallets (current_baseline bc)\<rparr>\<rparr> = (bc :: Blockchain)"
  by simp

lemma calmI [intro]:
  assumes "bm_blockchain m' = bm_blockchain m" "current_state m' = current_state m" "bm_running m' = bm_running m"
    "uid_of (new_block m') = uid_of (new_block m)" "type_of (new_block m') = type_of (new_block m)"
    "fetch_blocks_thread (cycle_state_fetch m') = fetch_blocks_thread (cycle_state_fetch m)"
  shows "calm m m'"
  using assms same_wallets [of "bm_blockchain m"] unfolding calm_def by metis

lemma calm_trans: "calm a b \<Longrightarrow> calm b c \<Longrightarrow> calm a c"
  by (auto simp: calm_def)

lemma calm_updates [simp]:
  "calm m m" "calm m (m\<lparr>out_of_sync_detector := d\<rparr>)" "calm m (m\<lparr>peers_monitor := pm\<rparr>)" "calm m (m\<lparr>bm_miner := mi\<rparr>)"
  "calm m (m\<lparr>found_hash_queue := q\<rparr>)" "calm m (m\<lparr>transaction_queue := t\<rparr>)" "calm m (m\<lparr>cycle_state_collect := cs\<rparr>)"
  by auto

lemma collect_onCycle_calm:
  assumes "collect_onCycle E d m = Inr (r, m')"
  shows "calm m m'"
proof -
  obtain newest dat f m1 where p: "pop_found m = (dat, f, m1)" by (cases "pop_found m") auto
  have 1: "calm m m1" using p by (auto simp: pop_found_def split: list.splits)
  have cr: "calm a b" if "collect_creation E nw ms x a = Inr b" for a b nw ms x
    using that by (auto simp: collect_creation_def res_simps Let_def split: if_splits option.splits)
  have tx: "calm a b" if "collect_transaction E nw x y a = Inr b" for a b nw x y
    using that by (auto simp: collect_transaction_def res_simps Let_def split: if_splits option.splits)
  have pt: "calm a (snd (snd (snd (pop_transaction a))))" for a :: "'a BlockchainManager"
    by (auto simp: pop_transaction_def split: list.splits prod.splits)
  obtain nw m2 m3 where c: "collect_creation E nw (getMiningState (bm_blockchain m)) dat m1 = Inr m2"
    and t: "collect_transaction E nw (fst (pop_transaction m2)) (fst (snd (pop_transaction m2))) (snd (snd (snd (pop_transaction m2)))) = Inr m3"
    and m': "m' = m3 \<or> (\<exists>x. m' = m3\<lparr>cycle_state_collect := x\<rparr>)"
    using assms by (auto simp: collect_onCycle_def res_simps Let_def p case_prod_unfold split: if_splits)
  from m' have m': "calm m3 m'" by auto
  show ?thesis
    using calm_trans [OF calm_trans [OF calm_trans [OF 1 cr [OF c]] pt] calm_trans [OF tx [OF t] m']] .
qed

lemma introduce_onCycle_calm: "calm m (snd (introduce_onCycle now m))"
  by (auto simp: introduce_onCycle_def Let_def bm_call_def)

lemma rehash_uid: "rehash E nb = Inr nb' \<Longrightarrow> uid_of nb' = uid_of nb \<and> type_of nb' = type_of nb"
  by (auto simp: rehash_def fillHash_def res_simps)

lemma introduce_blockReceived_calm:
  assumes "introduce_blockReceived E p b r m = Inr m'"
  shows "calm m m'"
proof -
  have mb: "calm a c" if "merge_block E b a = Inr c" for a c
    using that rehash_uid [of E] by (auto simp: merge_block_def Let_def res_simps case_prod_unfold)
  have "calm m m1" if pb: "process_block E p b m = Inr m1" for m1
  proof -
    let ?st = "cycle_state_introduce_block m"
    let ?v = "(case map_find (processed_blocks ?st) (hash_of b) of Some v \<Rightarrow> Inr (v, bm_blockchain m)
      | None \<Rightarrow> validateBlock_collection E (bm_blockchain m) b)"
    obtain ok bc where v: "?v = Inr (ok, bc)" if "\<not> (uid_of b \<noteq> uid_of (new_block m) \<or>
        map_find (processed_blocks ?st) (hash_of b) \<noteq> None \<and> creation_sub_block_counter ?st = [] \<and> transaction_sub_block_counter ?st = [])"
      using pb by (fastforce simp: process_block_def Let_def res_simps)
    have wal: "\<exists>w. bc = (bm_blockchain m)\<lparr>current_baseline := (current_baseline (bm_blockchain m))\<lparr>wallets := w\<rparr>\<rparr>"
      if "?v = Inr (ok, bc)"
    proof (cases "map_find (processed_blocks ?st) (hash_of b)")
      case None
      then show ?thesis using that validateBlock_collection_wallets [of E "bm_blockchain m" b ok bc] by simp
    next
      case (Some v)
      then show ?thesis using that by (intro exI [of _ "wallets (current_baseline (bm_blockchain m))"]) simp
    qed
    let ?m = "m\<lparr>bm_blockchain := bc, cycle_state_introduce_block := ?st\<lparr>processed_blocks := map_put (hash_of b) ok (processed_blocks ?st)\<rparr>\<rparr>"
    have "m1 = m \<or> ?v = Inr (ok, bc) \<and> (m1 = ?m \<or> m1 = bm_report p ?m \<or> merge_block E b ?m = Inr m1)"
      using pb v by (auto simp: process_block_def Let_def split: if_splits)
    moreover have "calm m ?m" if "?v = Inr (ok, bc)" using wal [OF that] by (simp add: calm_def)
    moreover have "calm ?m (bm_report p ?m)" by (auto simp: bm_report_def)
    ultimately show ?thesis using mb [of ?m m1] calm_trans by blast
  qed
  then have pc: "process_block E p b m = Inr m1 \<Longrightarrow> calm m m1" for m1 .
  show ?thesis
  proof (cases r)
    case True
    then show ?thesis using assms by (auto simp: introduce_blockReceived_def bm_report_def)
  next
    case False
    then obtain m1 where m1: "process_block E p b m = Inr m1"
      "m' = m1\<lparr>out_of_sync_detector := oos_blockReceivedCallback p b r (out_of_sync_detector m1)\<rparr>"
      using assms by (auto simp: introduce_blockReceived_def res_simps)
    show ?thesis unfolding m1(2) by (rule calm_trans [OF pc [OF m1(1)]]) simp
  qed
qed

section \<open>A node\<close>

text \<open>
  Everything that runs beside the state thread: callbacks of the connector, the worker threads of the
  miner, the user's transactions, the fetch thread, and the cache thread.
\<close>

inductive node_event :: "'ctx env \<Rightarrow> 'ctx BlockchainManager \<Rightarrow> 'ctx BlockchainManager \<Rightarrow> bool" for E where
  baseline: "node_event E m (baselineBlockReceivedCallback p bl r m)"
| collection: "collectionBlockReceivedCallback E now p c r m = Inr m' \<Longrightarrow> node_event E m m'"
| mine: "node_event E m (bm_mine E j m)"
| transaction: "node_event E m (triggerTransaction key amount m)"
| fetch_thread: "fetch_thread_step E now peers m = Inr m' \<Longrightarrow> node_event E m m'"
| cache_thread: "cacheThread_iteration E (chain_cache (bm_blockchain m)) = Inr c \<Longrightarrow>
    node_event E m (m\<lparr>bm_blockchain := (bm_blockchain m)\<lparr>chain_cache := c\<rparr>\<rparr>)"

text \<open>
  The chain of a node outside of the fetch state, and the block it introduces: it has the next number.
\<close>

definition store_ok :: "'ctx env \<Rightarrow> block list \<Rightarrow> 'ctx BlockchainManager \<Rightarrow> bool" where
  "store_ok E bs m \<longleftrightarrow>
     chain_rep E (bm_blockchain m) bs \<and> hash_of (current_baseline (bm_blockchain m)) = 0 \<and>
     type_of (current_baseline (bm_blockchain m)) = BaselineBlock_type \<and>
     type_of (new_block m) = CollectionBlock_type \<and>
     fetch_blocks_thread (cycle_state_fetch m) \<in> {FT_Absent, FT_Ended}"

definition node_chain :: "'ctx env \<Rightarrow> block list \<Rightarrow> 'ctx BlockchainManager \<Rightarrow> bool" where
  "node_chain E bs m \<longleftrightarrow> store_ok E bs m \<and> current_state m \<noteq> FetchBlockchain \<and>
     (current_state m = IntroduceBlock \<longrightarrow> uid_of (new_block m) = uid_b (last bs) + 1)"

lemma calm_node_chain:
  "calm m m' \<Longrightarrow> node_chain E bs m \<Longrightarrow>
   node_chain E bs m' \<and> current_state m' = current_state m \<and> bm_running m' = bm_running m"
  by (auto simp: calm_def node_chain_def store_ok_def)

lemma fold_found_calm: "calm m (fold (\<lambda>(ep, d). foundHashCallback ep d) xs m)"
proof (induction xs arbitrary: m)
  case (Cons x xs)
  obtain ep d where x: "x = (ep, d)" by (cases x)
  have "calm m (foundHashCallback ep d m)" by (simp add: foundHashCallback_def)
  from calm_trans [OF this Cons] show ?case by (simp add: x)
qed simp

lemma node_event_chain:
  assumes "node_event E m m'" "node_chain E bs m"
  shows "node_chain E bs m' \<and> current_state m' = current_state m \<and> bm_running m' = bm_running m"
  using assms
proof cases
  case (baseline p bl r)
  then show ?thesis using assms(2) by (auto simp: baselineBlockReceivedCallback_def node_chain_def store_ok_def split: State.splits)
next
  case (collection now p c r)
  then obtain m1 where m1: "m1 = m \<or> introduce_blockReceived E p c r m = Inr m1"
    "m' = m1\<lparr>peers_monitor := pm_blockReceivedCallback now p c r (peers_monitor m1)\<rparr>"
    using assms(2) by (auto simp: collectionBlockReceivedCallback_def node_chain_def store_ok_def res_simps split: State.splits)
  have "calm m m1" using m1(1) introduce_blockReceived_calm [of E p c r m m1] by auto
  then have "calm m m'" unfolding m1(2) by (rule calm_trans) simp
  then show ?thesis using assms(2) by (rule calm_node_chain)
next
  case (mine j)
  have "calm m m'" unfolding mine bm_mine_def Let_def
    by (rule calm_trans [OF _ fold_found_calm]) auto
  then show ?thesis using assms(2) by (rule calm_node_chain)
next
  case (transaction key amount)
  then have "calm m m'" by (auto simp: triggerTransaction_def)
  then show ?thesis using assms(2) by (rule calm_node_chain)
next
  case (fetch_thread now peers)
  then show ?thesis using assms(2) by (auto simp: node_chain_def store_ok_def fetch_thread_step_def Let_def)
next
  case (cache_thread c)
  then show ?thesis using assms(2) cacheThread_rep [of E "bm_blockchain m" bs] by (auto simp: node_chain_def store_ok_def)
qed

section \<open>State changes\<close>

lemma introduce_onExit_store:
  assumes inv: "node_chain E bs m" "current_state m = IntroduceBlock" and ok: "collection_ok (new_block m)"
    and room: "unat (uid_b (last bs)) + 2 < 2 ^ 64" and exit: "introduce_onExit E rnd m = Inr m'"
  shows "\<exists>c. store_ok E (bs @ [Collection c]) m' \<and> uid_of c = uid_b (last bs) + 1 \<and>
    uid_of (current_baseline (bm_blockchain m')) = uid_of c + 1 \<and> bm_running m' = bm_running m"
proof -
  obtain nb i bc where nb: "rehash E (new_block m) = Inr nb" "addBlock_collection E nb (bm_blockchain m) = Inr (i, bc)"
    and m': "bm_blockchain m' = bc" "type_of (new_block m') = type_of nb" "bm_running m' = bm_running m"
      "fetch_blocks_thread (cycle_state_fetch m') = fetch_blocks_thread (cycle_state_fetch m)"
    using exit by (auto simp: introduce_onExit_def res_simps Let_def pauseMiner_def resumeMiner_def split: if_splits)
  have rep: "chain_rep E (bm_blockchain m) bs" using inv(1) by (simp add: node_chain_def store_ok_def)
  have uid: "uid_of nb = uid_b (last bs) + 1" "type_of nb = CollectionBlock_type"
    using rehash_uid [OF nb(1)] inv by (simp_all add: node_chain_def store_ok_def)
  have "collection_ok nb"
    using nb(1) ok by (auto simp: rehash_def fillHash_def res_simps collection_ok_def)
  then have blk: "block_ok (Collection nb)" using uid(2) by simp
  have "i = next_free_block_id (chain_cache (bm_blockchain m))"
    using nb(2) by (auto simp: addBlock_collection_def cache_addBlock_def Let_def res_simps)
  then have i: "i = uid_of nb"
    using rep chain_rep_newest(3) [OF rep] uid(1) by (simp add: chain_rep_def)
  have upd: "updateBaseline E (uid_of nb) nb (current_baseline (bm_blockchain m)) = Inr (current_baseline bc)"
    using addBlock_collection_baseline [OF nb(2)] by (simp add: i)
  have "chain_rep E bc (bs @ [Collection nb])"
    using addBlock_collection_rep [OF rep blk uid(1) room upd] nb(2) by auto
  with updateBaseline_frame [OF upd] uid inv m' show ?thesis
    by (intro exI [of _ nb]) (simp add: node_chain_def store_ok_def)
qed

lemma baseline_onEnter_store:
  assumes st: "store_ok E bs m" and ok: "baseline_ok (current_baseline (bm_blockchain m'))"
    and u: "uid_of (current_baseline (bm_blockchain m)) \<noteq> 0" "uid_of (current_baseline (bm_blockchain m)) \<noteq> - 1"
    and enter: "baseline_onEnter E rnd m = Inr m'"
  shows "\<exists>b. store_ok E [Baseline b] m' \<and> uid_of b = uid_of (current_baseline (bm_blockchain m)) \<and>
    bm_running m' = bm_running m \<and> current_state m' = current_state m"
proof -
  let ?cb = "current_baseline (bm_blockchain m)"
  obtain i bc where est: "establishBaseline E (bm_blockchain m) = Inr (i, bc)"
    and m': "bm_blockchain m' = bc" "new_block m' = new_block m" "bm_running m' = bm_running m"
      "current_state m' = current_state m" "cycle_state_fetch m' = cycle_state_fetch m"
    using enter by (auto simp: baseline_onEnter_def res_simps Let_def pauseMiner_def resumeMiner_def)
  have h0: "hash_of ?cb = 0" "type_of ?cb = BaselineBlock_type" using st by (simp_all add: store_ok_def)
  have "current_baseline bc = set_hash 0 ?cb"
    using est by (auto simp: establishBaseline_def res_simps Let_def setMetaData_def fillHash_def)
  then have "baseline_ok ?cb" using ok m'(1) by (simp add: baseline_ok_def)
  then have "block_ok (Baseline ?cb)" using h0(2) by simp
  from establishBaseline_rep [OF u this h0(1), of E] est
  obtain b where b: "fillHash_baseline E ?cb = Inr b" "chain_rep E bc [Baseline b]" "current_baseline bc = ?cb" by auto
  moreover have "uid_of b = uid_of ?cb" using b(1) by (auto simp: fillHash_def res_simps)
  ultimately show ?thesis using st m' by (intro exI [of _ b]) (simp add: store_ok_def)
qed

lemma introduce_onEnter_store:
  assumes st: "store_ok E bs m" and enter: "introduce_onEnter E now m = Inr m'"
  shows "store_ok E bs m' \<and> uid_of (new_block m') = uid_b (last bs) + 1 \<and> bm_running m' = bm_running m \<and>
    current_state m' = current_state m \<and>
    time_out_of_sync (out_of_sync_detector m') = (getBlockId now \<noteq> uid_b (last bs))"
proof -
  have rep: "chain_rep E (bm_blockchain m) bs" using st by (simp add: store_ok_def)
  have n: "newest_header E (bm_blockchain m) = Inr (base_header (last bs))" "getNewestBlockId E (bm_blockchain m) = uid_b (last bs)"
    using chain_rep_newest [OF rep] by (simp_all add: getNewestBlockId_def getMetaData_rep [OF rep])
  obtain b nb d where "rehash E (set_uid (uid_b (last bs) + 1) (set_prev (hash_b b) (new_block m))) = Inr nb"
    "restartCheckCycle E now (bm_blockchain m) (out_of_sync_detector m) = Inr d"
    "new_block m' = nb" "bm_blockchain m' = bm_blockchain m" "bm_running m' = bm_running m" "current_state m' = current_state m"
    "cycle_state_fetch m' = cycle_state_fetch m" "out_of_sync_detector m' = d"
    using enter n(2) by (auto simp: introduce_onEnter_def res_simps Let_def bm_call_def split: option.splits)
  moreover from this(1) have "uid_of nb = uid_b (last bs) + 1" "type_of nb = type_of (new_block m)"
    using rehash_uid by force+
  ultimately show ?thesis using st n(1) by (auto simp: store_ok_def restartCheckCycle_def Let_def)
qed

lemma collect_onEnter_store:
  assumes "store_ok E bs m"
  shows "store_ok E bs (collect_onEnter E est m) \<and> bm_running (collect_onEnter E est m) = bm_running m \<and>
    current_state (collect_onEnter E est m) = current_state m"
  using assms by (simp add: collect_onEnter_def Let_def bm_call_def store_ok_def) (simp add: new_CollectionBlock_def)

lemma store_ok_state [simp]: "store_ok E bs (m\<lparr>current_state := s\<rparr>) = store_ok E bs m"
  by (simp add: store_ok_def)

section \<open>The schedule\<close>

definition phase_ok :: "update_pc \<Rightarrow> State \<Rightarrow> block_uid_t \<Rightarrow> blockchain_time_t \<Rightarrow> bool" where
  "phase_ok pc s newest t =
     (case pc of
        LoopHead \<Rightarrow> s \<in> {Collect, Unassigned} \<and> unat t mod 120000 = 30000 \<and> newest \<noteq> 0 \<and> getBlockId t = newest \<and> unat t < 2 ^ 63
      | CycleIntroduce \<Rightarrow> s = IntroduceBlock \<and> unat t mod 120000 = 0 \<and> newest \<noteq> 0 \<and> getBlockId t = newest + 1 \<and> unat t < 2 ^ 63 + 120000
      | CycleBaseline \<Rightarrow> s = IntroduceBaseline \<and> unat t mod 120000 = 0 \<and> newest \<noteq> 0 \<and> getBlockId t = newest \<and> unat t < 2 ^ 63 + 120000
      | CycleCollect \<Rightarrow> s = Collect \<and> unat t mod 120000 = 30000 \<and> newest \<noteq> 0 \<and> getBlockId t = newest \<and> unat t < 2 ^ 63 + 120000
      | Ended \<Rightarrow> s = Unassigned
      | _ \<Rightarrow> False)"

definition in_step :: "'ctx env \<Rightarrow> 'ctx node \<Rightarrow> bool" where
  "in_step E n \<longleftrightarrow> (\<exists>bs. node_chain E bs (manager n) \<and>
     phase_ok (update_pc n) (current_state (manager n)) (uid_b (last bs)) (time_next_state_change n))"

lemma getBlockId_add:
  assumes "unat t + unat d < 2 ^ 64" "getBlockId t \<noteq> 0"
  shows "unat (t + d) = unat t + unat d"
    "unat t mod 120000 + unat d < 120000 \<Longrightarrow> getBlockId (t + d) = getBlockId t"
    "120000 \<le> unat t mod 120000 + unat d \<Longrightarrow> unat t mod 120000 + unat d < 240000 \<Longrightarrow> getBlockId (t + d) = getBlockId t + 1"
proof -
  show sum: "unat (t + d) = unat t + unat d" using assms(1) by (simp add: unat_word_ariths)
  have big: "12892961 < unat t div 120000"
  proof -
    have "unat (getBlockId t) \<noteq> 0" using assms(2) by (simp add: unat_gt_0)
    then show ?thesis by (simp add: unat_getBlockId)
  qed
  have dv: "(unat t + unat d) div 120000 = unat t div 120000 + (unat t mod 120000 + unat d) div 120000"
  proof -
    have "unat t + unat d = (unat t mod 120000 + unat d) + unat t div 120000 * 120000"
      using div_mult_mod_eq [of "unat t" 120000] by linarith
    then show ?thesis by (simp only: div_mult_self1 zero_neq_numeral not_False_eq_True)
  qed
  show "getBlockId (t + d) = getBlockId t" if "unat t mod 120000 + unat d < 120000"
    using that dv by (simp add: word_unat_eq_iff unat_getBlockId sum)
  assume a: "120000 \<le> unat t mod 120000 + unat d" "unat t mod 120000 + unat d < 240000"
  then have "(unat t mod 120000 + unat d) div 120000 = 1" by linarith
  then have "unat (getBlockId (t + d)) = unat (getBlockId t) + 1" using dv big by (simp add: unat_getBlockId sum)
  moreover have "unat (getBlockId t) + 1 < 2 ^ 64"
    using big unsigned_less [of t, where 'a = nat] by (simp add: unat_getBlockId)
  ultimately show "getBlockId (t + d) = getBlockId t + 1" by (simp add: word_unat_eq_iff unat_word_ariths)
qed

text \<open>A step of the thread with a clock below \<open>2 ^ 63\<close> and containers that fit, that does not start to fetch.\<close>

definition fits_limits :: "'ctx BlockchainManager \<Rightarrow> bool" where
  "fits_limits m \<longleftrightarrow> collection_ok (new_block m) \<and> baseline_ok (current_baseline (bm_blockchain m))"

lemma state_onCycle_calm:
  assumes "state_onCycle E i s m = Inr m'" "s \<noteq> FetchBlockchain"
  shows "calm m m'"
  using assms introduce_onCycle_calm [of m "in_now i"] collect_onCycle_calm [of E "in_duration i" m]
  by (auto simp: state_onCycle_def res_simps split: State.splits)

lemma in_step_manager:
  assumes "in_step E n" "\<And>bs. node_chain E bs (manager n) \<Longrightarrow> node_chain E bs m \<and> current_state m = current_state (manager n)"
  shows "in_step E (n\<lparr>manager := m\<rparr>)"
  using assms by (fastforce simp: in_step_def)

lemma node_event_in_step: "in_step E n \<Longrightarrow> node_event E (manager n) m \<Longrightarrow> in_step E (n\<lparr>manager := m\<rparr>)"
  using in_step_manager node_event_chain by blast

lemma id_bound:
  assumes "getBlockId t = u" "unat t < 2 ^ 63 + 120000"
  shows "unat u + 2 < 2 ^ 63"
  using assms by (auto simp: unat_getBlockId)

lemma thread_end_in_step:
  assumes inv: "node_chain E bs (manager n)" and room: "unat (uid_b (last bs)) + 2 < 2 ^ 64"
    and ok: "collection_ok (new_block (manager n))" and step: "thread_end E i n = Inr n'"
  shows "in_step E n'"
proof -
  obtain m where m: "state_onExit E i (current_state (manager n)) (manager n) = Inr m"
    "n' = n\<lparr>manager := m\<lparr>current_state := Unassigned\<rparr>, update_pc := Ended\<rparr>"
    using step by (auto simp: thread_end_def res_simps)
  have "\<exists>bs. store_ok E bs m"
  proof (cases "current_state (manager n) = IntroduceBlock")
    case True
    then show ?thesis using introduce_onExit_store [OF inv True ok room] m(1) by (auto simp: state_onExit_def)
  next
    case False
    then have "m = manager n" using m(1) inv by (auto simp: state_onExit_def node_chain_def split: State.splits)
    then show ?thesis using inv by (auto simp: node_chain_def)
  qed
  then show ?thesis by (auto simp: m(2) in_step_def node_chain_def phase_ok_def)
qed

lemma mod_shift: "unat t' = unat t + d \<Longrightarrow> unat t mod 120000 = r \<Longrightarrow> unat t' mod 120000 = (r + d) mod 120000"
  by (metis mod_add_left_eq)

lemma enter_introduce_in_step:
  assumes n: "node_chain E bs (manager n)" "phase_ok LoopHead (current_state (manager n)) (uid_b (last bs)) (time_next_state_change n)"
    and step: "enter_phase E est i IntroduceBlock (cycle_length_ms * 3 div 4) CycleIntroduce n = Inr n'"
  shows "in_step E n' \<and> time_out_of_sync (out_of_sync_detector (manager n')) = (getBlockId (in_now i) \<noteq> uid_b (last bs))"
proof -
  let ?m = "(manager n)\<lparr>current_state := IntroduceBlock\<rparr>" and ?t = "time_next_state_change n"
  have p: "current_state (manager n) \<in> {Collect, Unassigned}" "unat ?t mod 120000 = 30000" "uid_b (last bs) \<noteq> 0"
    "getBlockId ?t = uid_b (last bs)" "unat ?t < 2 ^ 63"
    using n(2) by (simp_all add: phase_ok_def)
  obtain m where m: "introduce_onEnter E (in_now i) ?m = Inr m" and n': "update_pc n' = CycleIntroduce" "manager n' = m"
    "time_next_state_change n' = ?t + 90000"
    using step p(1) by (auto simp: enter_phase_def setState_def state_onExit_def state_onEnter_def res_simps cycle_length_ms_def)
  have "store_ok E bs ?m" using n(1) by (simp add: node_chain_def)
  note st = introduce_onEnter_store [OF this m]
  have "getBlockId (?t + 90000) = uid_b (last bs) + 1" "unat (?t + 90000) = unat ?t + 90000"
    using getBlockId_add [of ?t 90000] p by simp_all
  moreover from mod_shift [OF this(2) p(2)] have "unat (?t + 90000) mod 120000 = 0" by simp
  ultimately have "phase_ok CycleIntroduce IntroduceBlock (uid_b (last bs)) (?t + 90000)"
    using p by (simp add: phase_ok_def)
  with st n' show ?thesis by (auto simp: in_step_def node_chain_def)
qed

lemma leave_introduce:
  assumes n: "node_chain E bs (manager n)" "phase_ok CycleIntroduce (current_state (manager n)) (uid_b (last bs)) (time_next_state_change n)"
    and ok: "collection_ok (new_block (manager n))"
  shows "current_state (manager n) = IntroduceBlock" "unat (uid_b (last bs)) + 3 < 2 ^ 63"
    "introduce_onExit E rnd (manager n) = Inr m' \<Longrightarrow> \<exists>c. store_ok E (bs @ [Collection c]) m' \<and> uid_of c = uid_b (last bs) + 1 \<and>
      uid_of (current_baseline (bm_blockchain m')) = uid_of c + 1 \<and> bm_running m' = bm_running (manager n)"
proof -
  let ?t = "time_next_state_change n" and ?u = "uid_b (last bs)"
  have p: "getBlockId ?t = ?u + 1" "unat ?t < 2 ^ 63 + 120000" and s: "current_state (manager n) = IntroduceBlock"
    using n(2) by (simp_all add: phase_ok_def)
  then show "current_state (manager n) = IntroduceBlock" by simp
  have rep: "chain_rep E (bm_blockchain (manager n)) bs" using n(1) by (simp add: node_chain_def store_ok_def)
  then have "unat ?u + 1 < 2 ^ 64" using chain_rep_newest(3) [OF rep] by (simp add: chain_rep_def)
  then have "unat (?u + 1) = unat ?u + 1" by (simp add: unat_word_ariths)
  with id_bound [OF p] show room: "unat ?u + 3 < 2 ^ 63" by linarith
  assume exit: "introduce_onExit E rnd (manager n) = Inr m'"
  have "unat ?u + 2 < 2 ^ 64" using room by simp
  from introduce_onExit_store [OF n(1) s ok this exit]
  show "\<exists>c. store_ok E (bs @ [Collection c]) m' \<and> uid_of c = ?u + 1 \<and>
      uid_of (current_baseline (bm_blockchain m')) = uid_of c + 1 \<and> bm_running m' = bm_running (manager n)" .
qed

lemma introduce_to_collect_in_step:
  assumes n: "node_chain E bs (manager n)" "phase_ok CycleIntroduce (current_state (manager n)) (uid_b (last bs)) (time_next_state_change n)"
    and ok: "collection_ok (new_block (manager n))"
    and t: "unat (time_next_state_change n) < 2 ^ 63" and step: "enter_collect E est i n = Inr n'"
  shows "in_step E n'"
proof -
  let ?t = "time_next_state_change n"
  note l = leave_introduce [OF n ok]
  obtain m where m: "introduce_onExit E (in_rnd i) (manager n) = Inr m" and n': "update_pc n' = CycleCollect"
    "manager n' = collect_onEnter E est (m\<lparr>current_state := Collect\<rparr>)" "time_next_state_change n' = ?t + 30000"
    using step l(1)
    by (auto simp: enter_collect_def enter_phase_def setState_def state_onExit_def state_onEnter_def res_simps cycle_length_ms_def)
  obtain c where c: "store_ok E (bs @ [Collection c]) m" "uid_of c = uid_b (last bs) + 1" using l(3) [OF m] by blast
  have u: "unat (uid_b (last bs) + 1) = unat (uid_b (last bs)) + 1" using l(2) by (simp add: unat_word_ariths)
  have p: "unat ?t mod 120000 = 0" "getBlockId ?t = uid_b (last bs) + 1" using n(2) by (simp_all add: phase_ok_def)
  moreover have nz: "uid_b (last bs) + 1 \<noteq> 0" using u by auto
  ultimately have "getBlockId (?t + 30000) = uid_b (last bs) + 1" "unat (?t + 30000) = unat ?t + 30000"
    using getBlockId_add [of ?t 30000] t by simp_all
  moreover from mod_shift [OF this(2) p(1)] have "unat (?t + 30000) mod 120000 = 30000" by simp
  ultimately have "phase_ok CycleCollect Collect (uid_of c) (?t + 30000)"
    using nz t c(2) by (simp add: phase_ok_def)
  with n' collect_onEnter_store [of E "bs @ [Collection c]" "m\<lparr>current_state := Collect\<rparr>" est] c(1)
  show ?thesis by (auto simp: in_step_def node_chain_def intro!: exI [of _ "bs @ [Collection c]"])
qed

lemma introduce_to_baseline_in_step:
  assumes n: "node_chain E bs (manager n)" "phase_ok CycleIntroduce (current_state (manager n)) (uid_b (last bs)) (time_next_state_change n)"
    and ok: "collection_ok (new_block (manager n))" "baseline_ok (current_baseline (bm_blockchain (manager n')))"
    and t: "unat (time_next_state_change n) < 2 ^ 63" and step: "enter_phase E est i IntroduceBaseline cycle_length_ms CycleBaseline n = Inr n'"
  shows "in_step E n'"
proof -
  let ?t = "time_next_state_change n" and ?u = "uid_b (last bs)"
  note l = leave_introduce [OF n ok(1)]
  obtain m m' where m: "introduce_onExit E (in_rnd i) (manager n) = Inr m" "baseline_onEnter E (in_rnd i) (m\<lparr>current_state := IntroduceBaseline\<rparr>) = Inr m'"
    and n': "update_pc n' = CycleBaseline" "manager n' = m'" "time_next_state_change n' = ?t + 120000"
    using step l(1)
    by (auto simp: enter_phase_def setState_def state_onExit_def state_onEnter_def res_simps cycle_length_ms_def)
  obtain c where c: "store_ok E (bs @ [Collection c]) m" "uid_of c = ?u + 1"
    "uid_of (current_baseline (bm_blockchain m)) = uid_of c + 1" using l(3) [OF m(1)] by blast
  have u: "unat (?u + 1) = unat ?u + 1" "unat (?u + 1 + 1) = unat ?u + 2"
    using l(2) unat_add_lem [of ?u 1] unat_add_lem [of ?u 2] by (simp_all add: unat_word_ariths)
  have "?u + 1 \<noteq> 0" using u(1) by (metis Suc_eq_plus1 nat.distinct(1) unat_0)
  moreover have "?u + 1 + 1 \<noteq> 0" using u(2) by (metis add_2_eq_Suc' nat.distinct(1) unat_0)
  moreover have "?u + 1 + 1 \<noteq> - 1"
  proof
    assume "?u + 1 + 1 = - 1"
    then have "unat ?u + 2 = unat (- 1 :: u64)" using u(2) by (simp only:)
    then show False using l(2) by (simp add: unsigned_minus_1_eq_mask mask_eq_exp_minus_1)
  qed
  ultimately have nz: "?u + 1 \<noteq> 0" "?u + 1 + 1 \<noteq> 0" "?u + 1 + 1 \<noteq> - 1" by blast+
  obtain b where b: "store_ok E [Baseline b] m'" "uid_of b = uid_of c + 1" "current_state m' = IntroduceBaseline"
    using baseline_onEnter_store [of E "bs @ [Collection c]" "m\<lparr>current_state := IntroduceBaseline\<rparr>" m' "in_rnd i"] c m(2) ok(2) n'(2) nz
    by auto
  have p: "unat ?t mod 120000 = 0" "getBlockId ?t = ?u + 1" using n(2) by (simp_all add: phase_ok_def)
  then have "getBlockId (?t + 120000) = ?u + 1 + 1" "unat (?t + 120000) = unat ?t + 120000"
    using getBlockId_add [of ?t 120000] t nz by simp_all
  moreover from mod_shift [OF this(2) p(1)] have "unat (?t + 120000) mod 120000 = 0" by simp
  ultimately have "phase_ok CycleBaseline IntroduceBaseline (uid_of b) (?t + 120000)"
    using nz t b(2) c(2) by (simp add: phase_ok_def)
  with n' b show ?thesis by (auto simp: in_step_def node_chain_def intro!: exI [of _ "[Baseline b]"])
qed

lemma baseline_to_collect_in_step:
  assumes n: "node_chain E bs (manager n)" "phase_ok CycleBaseline (current_state (manager n)) (uid_b (last bs)) (time_next_state_change n)"
    and t: "unat (time_next_state_change n) < 2 ^ 63" and step: "enter_collect E est i n = Inr n'"
  shows "in_step E n'"
proof -
  let ?t = "time_next_state_change n"
  have p: "unat ?t mod 120000 = 0" "getBlockId ?t = uid_b (last bs)" "uid_b (last bs) \<noteq> 0" "current_state (manager n) = IntroduceBaseline"
    using n(2) by (simp_all add: phase_ok_def)
  have n': "update_pc n' = CycleCollect"
    "manager n' = collect_onEnter E est ((manager n)\<lparr>current_state := Collect\<rparr>)" "time_next_state_change n' = ?t + 30000"
    using step p(4)
    by (auto simp: enter_collect_def enter_phase_def setState_def state_onExit_def state_onEnter_def res_simps cycle_length_ms_def)
  have "getBlockId (?t + 30000) = uid_b (last bs)" "unat (?t + 30000) = unat ?t + 30000"
    using getBlockId_add [of ?t 30000] t p by simp_all
  moreover from mod_shift [OF this(2) p(1)] have "unat (?t + 30000) mod 120000 = 30000" by simp
  ultimately have "phase_ok CycleCollect Collect (uid_b (last bs)) (?t + 30000)"
    using p(3) t by (simp add: phase_ok_def)
  with n' collect_onEnter_store [of E bs "(manager n)\<lparr>current_state := Collect\<rparr>" est] n(1)
  show ?thesis by (auto simp: in_step_def node_chain_def)
qed

lemma phase_bound:
  assumes "node_chain E bs m" "phase_ok pc s (uid_b (last bs)) t" "pc \<noteq> Ended"
  shows "unat (uid_b (last bs)) + 2 < 2 ^ 64"
proof -
  have rep: "chain_rep E (bm_blockchain m) bs" using assms(1) by (simp add: node_chain_def store_ok_def)
  then have "unat (uid_b (last bs)) + 1 < 2 ^ 64" using chain_rep_newest(3) [OF rep] by (simp add: chain_rep_def)
  then have "unat (uid_b (last bs) + 1) = unat (uid_b (last bs)) + 1" by (simp add: unat_word_ariths)
  then show ?thesis
    using assms(2,3) id_bound [of t "uid_b (last bs)"] id_bound [of t "uid_b (last bs) + 1"]
    by (auto simp: phase_ok_def split: update_pc.splits)
qed

lemma cycle_or_in_step:
  assumes n: "node_chain E bs (manager n)" "phase_ok (update_pc n) (current_state (manager n)) (uid_b (last bs)) (time_next_state_change n)"
    and pc: "update_pc n \<noteq> Ended" and ok: "collection_ok (new_block (manager n))" and now: "unat (in_now i) < 2 ^ 63"
    and step: "cycle_or E i rest n = Inr n'"
    and rest: "unat (time_next_state_change n) < 2 ^ 63 \<Longrightarrow> rest n = Inr n' \<Longrightarrow> in_step E n'"
  shows "in_step E n'"
proof -
  consider (cycle) "bm_running (manager n)" "in_now i < time_next_state_change n"
    | (stop) "\<not> bm_running (manager n)" | (go) "bm_running (manager n)" "\<not> in_now i < time_next_state_change n" by blast
  then show ?thesis
  proof cases
    case cycle
    then obtain m where m: "state_onCycle E i (current_state (manager n)) (manager n) = Inr m" "n' = n\<lparr>manager := m\<rparr>"
      using step by (auto simp: cycle_or_def res_simps)
    have "in_step E n" using n by (auto simp: in_step_def)
    then show ?thesis unfolding m(2)
      by (rule in_step_manager) (use calm_node_chain [OF state_onCycle_calm [OF m(1)]] n(1) in \<open>auto simp: node_chain_def\<close>)
  next
    case stop
    then show ?thesis using step thread_end_in_step [OF n(1) phase_bound [OF n pc] ok] by (simp add: cycle_or_def)
  next
    case go
    then have "unat (time_next_state_change n) < 2 ^ 63" using now by (simp add: word_less_nat_alt)
    with go step rest show ?thesis by (simp add: cycle_or_def)
  qed
qed

lemma thread_step_in_step:
  assumes inv: "in_step E n" and step: "updateStateThread_step E est initial_fetch i n = Inr n'"
    and now: "unat (in_now i) < 2 ^ 63" and ok: "fits_limits (manager n)" "fits_limits (manager n')"
    and nf: "\<forall>first. update_pc n' \<noteq> FetchLoop first"
  shows "in_step E n'"
proof -
  obtain bs where n: "node_chain E bs (manager n)"
    "phase_ok (update_pc n) (current_state (manager n)) (uid_b (last bs)) (time_next_state_change n)"
    using inv by (auto simp: in_step_def)
  have c: "collection_ok (new_block (manager n))" "baseline_ok (current_baseline (bm_blockchain (manager n')))"
    using ok by (simp_all add: fits_limits_def)
  show ?thesis
  proof (cases "update_pc n")
    case LoopHead
    show ?thesis
    proof (cases "bm_running (manager n)")
      case True
      then show ?thesis
        using step LoopHead n enter_introduce_in_step [of E bs "n\<lparr>time_violation_detected := False\<rparr>" est i n']
        by (simp add: updateStateThread_step_def)
    next
      case False
      then show ?thesis
        using step LoopHead thread_end_in_step [OF n(1) phase_bound [OF n] c(1)] by (simp add: updateStateThread_step_def)
    qed
  next
    case CycleIntroduce
    show ?thesis
      by (rule cycle_or_in_step [OF n _ c(1) now step [unfolded updateStateThread_step_def CycleIntroduce update_pc.case]])
        (use CycleIntroduce introduce_to_collect_in_step [OF n(1) _ c(1), of est i n']
          introduce_to_baseline_in_step [OF n(1) _ c, of est i] n(2) in \<open>auto split: if_splits\<close>)
  next
    case CycleBaseline
    show ?thesis
      by (rule cycle_or_in_step [OF n _ c(1) now step [unfolded updateStateThread_step_def CycleBaseline update_pc.case]])
        (use CycleBaseline baseline_to_collect_in_step [OF n(1), of est i n'] n(2) in auto)
  next
    case CycleCollect
    have head: "in_step E (n\<lparr>update_pc := LoopHead\<rparr>)" if "unat (time_next_state_change n) < 2 ^ 63"
      using that n CycleCollect by (auto simp: in_step_def phase_ok_def)
    have no_fetch: "begin_fetch E est i False n \<noteq> Inr n'"
    proof
      assume "begin_fetch E est i False n = Inr n'"
      then have "update_pc n' = FetchLoop False" by (auto simp: begin_fetch_def res_simps)
      with nf show False by blast
    qed
    show ?thesis
    proof (rule cycle_or_in_step [OF n _ c(1) now step [unfolded updateStateThread_step_def CycleCollect update_pc.case]])
      show "update_pc n \<noteq> Ended" using CycleCollect by simp
      assume t: "unat (time_next_state_change n) < 2 ^ 63"
        and go: "(if isOutOfSync (out_of_sync_detector (manager n)) \<or> time_violation_detected n then begin_fetch E est i False n
          else Inr (n\<lparr>update_pc := LoopHead\<rparr>)) = Inr n'"
      then have "n' = n\<lparr>update_pc := LoopHead\<rparr>" using no_fetch by (simp split: if_splits)
      with head [OF t] show "in_step E n'" by simp
    qed
  next
    case Ended
    then show ?thesis using step inv by (simp add: updateStateThread_step_def)
  qed (use n in \<open>auto simp: phase_ok_def\<close>)
qed

inductive node_step :: "'ctx env \<Rightarrow> (ActivePeersList \<Rightarrow> u64) \<Rightarrow> bool \<Rightarrow> 'ctx node \<Rightarrow> 'ctx node \<Rightarrow> bool" for E est initial_fetch where
  thread: "updateStateThread_step E est initial_fetch i n = Inr n' \<Longrightarrow> unat (in_now i) < 2 ^ 63 \<Longrightarrow>
    fits_limits (manager n) \<Longrightarrow> fits_limits (manager n') \<Longrightarrow> \<forall>first. update_pc n' \<noteq> FetchLoop first \<Longrightarrow>
    node_step E est initial_fetch n n'"
| event: "node_event E (manager n) m \<Longrightarrow> node_step E est initial_fetch n (n\<lparr>manager := m\<rparr>)"

lemma node_steps_in_step: "(node_step E est initial_fetch)\<^sup>*\<^sup>* n n' \<Longrightarrow> in_step E n \<Longrightarrow> in_step E n'"
  by (induction rule: rtranclp_induct) (auto elim!: node_step.cases simp: node_event_in_step intro: thread_step_in_step)

lemma same_slot:
  assumes "unat t mod 120000 = 30000" "t \<le> now" "unat now < unat t + 90000" "getBlockId t \<noteq> 0"
  shows "getBlockId now = getBlockId t"
proof -
  have d: "unat (now - t) = unat now - unat t" using assms(2) by (simp add: unat_sub)
  have le: "unat t \<le> unat now" using assms(2) by (simp add: word_le_nat_alt)
  have "unat t + unat (now - t) < 2 ^ 64" using d le unsigned_less [of now, where 'a = nat] by simp
  moreover have "unat t mod 120000 + unat (now - t) < 120000" using assms(1,3) d le by linarith
  ultimately show ?thesis using getBlockId_add(2) [of t "now - t"] assms(4) by simp
qed

section \<open>The order of the states\<close>

lemma process_agents_state:
  "process_agents E agents m = Inr (agents', m') \<Longrightarrow> current_state m' = current_state m \<and> bm_running m' = bm_running m"
proof (induction agents arbitrary: m)
  case (Cons va agents)
  obtain v a where va: "va = (v, a)" by (cases va)
  show ?case
  proof (cases "getReceivedBlock a")
    case None
    then show ?thesis using Cons.prems by (auto simp: va)
  next
    case (Some pb)
    obtain p b where pb: "pb = (p, b)" by (cases pb)
    obtain ok bc where v: "validateBlock_collection E (bm_blockchain m) b = Inr (ok, bc)"
      using Cons.prems Some by (auto simp: va pb res_simps)
    have "\<exists>bc'. process_agents E agents (m\<lparr>bm_blockchain := bc'\<rparr>) = Inr (agents', m') \<or>
        process_agents E agents (bm_report p (m\<lparr>bm_blockchain := bc'\<rparr>)) = Inr (agents', m')"
      using Cons.prems Some v by (auto simp: va pb res_simps split: if_splits)
    then show ?thesis by (fastforce simp: bm_report_def dest: Cons.IH)
  qed
qed simp

lemma fetch_thread_step_state:
  "fetch_thread_step E now peers m = Inr m' \<Longrightarrow> current_state m' = current_state m \<and> bm_running m' = bm_running m"
  using process_agents_state [of E "block_fetch_agent_map (cycle_state_fetch m)" m]
  by (auto simp: fetch_thread_step_def Let_def fetchBlocks_iteration_def processFinishedAgents_def fetchBaseline_begin_def
      fetchBaseline_iteration_def fetchBaseline_restart_def bm_report_def res_simps case_prod_unfold
      split: fetch_thread.splits if_splits option.splits)

lemma node_event_state:
  assumes "node_event E m m'"
  shows "current_state m' = current_state m"
  using assms
proof cases
  case (collection now p c r)
  then show ?thesis
    using introduce_blockReceived_calm [of E p c r m]
    by (auto simp: collectionBlockReceivedCallback_def res_simps fetch_blockReceived_collection_def Let_def calm_def
        split: State.splits option.splits if_splits)
next
  case (mine j)
  have "calm m m'" unfolding mine bm_mine_def Let_def by (rule calm_trans [OF _ fold_found_calm]) auto
  then show ?thesis by (simp add: calm_def)
qed (auto simp: baselineBlockReceivedCallback_def fetch_blockReceived_baseline_def triggerTransaction_def fetch_thread_step_state split: State.splits)

subsection \<open>The interface of the cycle states\<close>

text \<open>
  What the manager relies on of an \<open>ICycleState\<close>: its functions do not change which state is current and
  whether the manager runs.
\<close>

locale cycle_state =
  fixes onEnter onCycle onExit :: "step_input \<Rightarrow> 'ctx BlockchainManager \<Rightarrow> 'ctx BlockchainManager res"
  assumes enter_frame: "onEnter i m = Inr m' \<Longrightarrow> current_state m' = current_state m \<and> bm_running m' = bm_running m"
    and cycle_frame: "onCycle i m = Inr m' \<Longrightarrow> current_state m' = current_state m \<and> bm_running m' = bm_running m"
    and exit_frame: "onExit i m = Inr m' \<Longrightarrow> current_state m' = current_state m \<and> bm_running m' = bm_running m"
begin

lemma enter_as: "onEnter i (m\<lparr>current_state := s\<rparr>) = Inr m' \<Longrightarrow> current_state m' = s \<and> bm_running m' = bm_running m"
  by (drule enter_frame) simp

end

interpretation fetch_state: cycle_state "\<lambda>i. state_onEnter E est i FetchBlockchain" "\<lambda>i. state_onCycle E i FetchBlockchain"
  "\<lambda>i. state_onExit E i FetchBlockchain" for E est
proof
  have step: "current_state m' = current_state m \<and> bm_running m' = bm_running m"
    if "fetch_thread_step E now peers m = Inr m'" for now peers and m m' :: "'a BlockchainManager"
    using fetch_thread_step_state [OF that] .
  show "state_onExit E i FetchBlockchain m = Inr m' \<Longrightarrow> current_state m' = current_state m \<and> bm_running m' = bm_running m" for i m m'
    by (auto simp: state_onExit_def fetch_onExit_def Let_def res_simps dest!: step)
qed (auto simp: state_onEnter_def fetch_onEnter_def state_onCycle_def fetch_onCycle_def Let_def bm_call_def res_simps case_prod_unfold)

interpretation collect_state: cycle_state "\<lambda>i. state_onEnter E est i Collect" "\<lambda>i. state_onCycle E i Collect"
  "\<lambda>i. state_onExit E i Collect" for E est
  by unfold_locales
    (auto simp: state_onEnter_def collect_onEnter_def state_onCycle_def state_onExit_def Let_def bm_call_def res_simps calm_def
      dest!: collect_onCycle_calm)

interpretation introduce_state: cycle_state "\<lambda>i. state_onEnter E est i IntroduceBlock" "\<lambda>i. state_onCycle E i IntroduceBlock"
  "\<lambda>i. state_onExit E i IntroduceBlock" for E est
  by unfold_locales
    (auto simp: state_onEnter_def introduce_onEnter_def state_onCycle_def introduce_onCycle_def state_onExit_def introduce_onExit_def
      pauseMiner_def resumeMiner_def Let_def bm_call_def res_simps case_prod_unfold split: option.splits if_splits)

interpretation baseline_state: cycle_state "\<lambda>i. state_onEnter E est i IntroduceBaseline" "\<lambda>i. state_onCycle E i IntroduceBaseline"
  "\<lambda>i. state_onExit E i IntroduceBaseline" for E est
  by unfold_locales
    (auto simp: state_onEnter_def baseline_onEnter_def state_onCycle_def state_onExit_def pauseMiner_def resumeMiner_def Let_def
      res_simps case_prod_unfold)

lemmas enter_as = fetch_state.enter_as collect_state.enter_as introduce_state.enter_as baseline_state.enter_as
lemmas cycle_frames = fetch_state.cycle_frame collect_state.cycle_frame introduce_state.cycle_frame baseline_state.cycle_frame
lemmas exit_frames = fetch_state.exit_frame collect_state.exit_frame introduce_state.exit_frame baseline_state.exit_frame

lemma state_onCycle_state:
  "state_onCycle E i s m = Inr m' \<Longrightarrow> current_state m' = current_state m \<and> bm_running m' = bm_running m"
  by (cases s) (use cycle_frames [of E i m m'] in \<open>auto simp: state_onCycle_def [of E i Unassigned]\<close>)

lemma state_onExit_state:
  "state_onExit E i s m = Inr m' \<Longrightarrow> current_state m' = current_state m \<and> bm_running m' = bm_running m"
  by (cases s) (use exit_frames [of E i m m'] in \<open>auto simp: state_onExit_def [of E i Unassigned]\<close>)

lemma state_onEnter_state:
  "state_onEnter E est i s (m\<lparr>current_state := s'\<rparr>) = Inr m' \<Longrightarrow> current_state m' = s' \<and> bm_running m' = bm_running m"
  by (cases s) (use enter_as [where i = i and m = m and s = s'] in \<open>auto simp: state_onEnter_def [of E est i Unassigned]\<close>)

lemma setState_state: "setState E est i s m = Inr m' \<Longrightarrow> current_state m' = s \<and> bm_running m' = bm_running m"
  by (auto simp: setState_def res_simps dest!: state_onEnter_state state_onExit_state split: if_splits)

definition state_matches :: "update_pc \<Rightarrow> State \<Rightarrow> bool" where
  "state_matches pc s =
     (case pc of
        Begin \<Rightarrow> s = Unassigned
      | FetchLoop _ \<Rightarrow> s = FetchBlockchain
      | LoopHead \<Rightarrow> s \<noteq> IntroduceBlock \<and> s \<noteq> IntroduceBaseline
      | CycleIntroduce \<Rightarrow> s = IntroduceBlock
      | CycleBaseline \<Rightarrow> s = IntroduceBaseline
      | CycleCollect \<Rightarrow> s = Collect
      | Ended \<Rightarrow> s = Unassigned)"

fun follows :: "State \<Rightarrow> State \<Rightarrow> bool" where
  "follows Unassigned s = (s \<in> {FetchBlockchain, IntroduceBlock})"
| "follows FetchBlockchain s = (s \<in> {IntroduceBlock, Unassigned})"
| "follows IntroduceBlock s = (s \<in> {IntroduceBaseline, Collect, Unassigned})"
| "follows IntroduceBaseline s = (s \<in> {Collect, Unassigned})"
| "follows Collect s = (s \<in> {IntroduceBlock, FetchBlockchain, Unassigned})"

lemma cycle_or_state:
  assumes "cycle_or E i rest n = Inr n'"
  shows "(update_pc n' = update_pc n \<and> current_state (manager n') = current_state (manager n)) \<or>
    (update_pc n' = Ended \<and> current_state (manager n') = Unassigned) \<or> rest n = Inr n'"
  using assms by (auto simp: cycle_or_def thread_end_def res_simps state_onCycle_state split: if_splits)

lemma enter_phase_state:
  "enter_phase E est i s wait pc n = Inr n' \<Longrightarrow> update_pc n' = pc \<and> current_state (manager n') = s"
  by (auto simp: enter_phase_def res_simps setState_state)

lemma begin_fetch_state:
  "begin_fetch E est i first n = Inr n' \<Longrightarrow> update_pc n' = FetchLoop first \<and> current_state (manager n') = FetchBlockchain"
  by (auto simp: begin_fetch_def res_simps setState_state)

lemma after_fetch_state:
  "update_pc (after_fetch est i m n) = LoopHead" "current_state (manager (after_fetch est i m n)) = current_state m"
  by (simp_all add: after_fetch_def)

lemma thread_step_state:
  assumes m: "state_matches (update_pc n) (current_state (manager n))"
    and step: "updateStateThread_step E est initial_fetch i n = Inr n'"
  shows "state_matches (update_pc n') (current_state (manager n')) \<and>
    (current_state (manager n') = current_state (manager n) \<or> follows (current_state (manager n)) (current_state (manager n')))"
proof (cases "update_pc n")
  case Begin
  with m step show ?thesis
    by (auto simp: updateStateThread_step_def state_matches_def after_fetch_state resumeMiner_def Let_def
        dest!: begin_fetch_state split: if_splits)
next
  case (FetchLoop first)
  with m step show ?thesis
    by (auto simp: updateStateThread_step_def fetchBlockchain_iteration_def state_matches_def after_fetch_state resumeMiner_def
        Let_def res_simps state_onCycle_state split: if_splits)
next
  case LoopHead
  with m step show ?thesis
    by (auto simp: updateStateThread_step_def state_matches_def thread_end_def res_simps
        dest!: enter_phase_state split: if_splits State.splits) (cases "current_state (manager n)"; simp)+
next
  case CycleIntroduce
  with m step show ?thesis
    by (auto simp: updateStateThread_step_def state_matches_def enter_collect_def
        dest!: cycle_or_state enter_phase_state split: if_splits)
next
  case CycleBaseline
  with m step show ?thesis
    by (auto simp: updateStateThread_step_def state_matches_def enter_collect_def
        dest!: cycle_or_state enter_phase_state split: if_splits)
next
  case CycleCollect
  with m step show ?thesis
    by (auto simp: updateStateThread_step_def state_matches_def enter_collect_def
        dest!: cycle_or_state begin_fetch_state split: if_splits)
next
  case Ended
  with m step show ?thesis by (simp add: updateStateThread_step_def)
qed

inductive free_step :: "'ctx env \<Rightarrow> (ActivePeersList \<Rightarrow> u64) \<Rightarrow> bool \<Rightarrow> 'ctx node \<Rightarrow> 'ctx node \<Rightarrow> bool" for E est initial_fetch where
  thread: "updateStateThread_step E est initial_fetch i n = Inr n' \<Longrightarrow> free_step E est initial_fetch n n'"
| event: "node_event E (manager n) m \<Longrightarrow> free_step E est initial_fetch n (n\<lparr>manager := m\<rparr>)"

lemma free_step_state:
  assumes "free_step E est initial_fetch n n'" "state_matches (update_pc n) (current_state (manager n))"
  shows "state_matches (update_pc n') (current_state (manager n')) \<and>
    (current_state (manager n') = current_state (manager n) \<or> follows (current_state (manager n)) (current_state (manager n')))"
  using assms by cases (auto simp: thread_step_state node_event_state)

lemma free_steps_state:
  "(free_step E est initial_fetch)\<^sup>*\<^sup>* n n' \<Longrightarrow> state_matches (update_pc n) (current_state (manager n)) \<Longrightarrow>
   state_matches (update_pc n') (current_state (manager n'))"
  by (induction rule: rtranclp_induct) (auto dest: free_step_state)

definition new_node :: "'ctx BlockchainManager \<Rightarrow> 'ctx node" where
  "new_node m = \<lparr>manager = m, update_pc = Begin, time_next_state_change = 0, time_violation_detected = False\<rparr>"

end
