(* ===== verification/Node_Properties.thy ===== *)
theory Node_Properties
  imports Node_Steps Chain_Properties
begin

text \<open>The properties of a whole node: its schedule, the order of its states, and how it stops.\<close>

section \<open>Properties\<close>

text \<open>
  C6: a node keeps in step with the clock. Take a node that is not fetching, with its newest block the one
  the clock asks for. Whatever blocks it receives, whatever its miner, its cache thread and its user do in
  between, as long as its thread does not start to fetch: the stored chain stays readable, the newest block
  and the time of the next state change fit together in every phase (one block every two minutes, two when a
  baseline is due), and when the thread enters the introduce state in its time slot the clock does not report
  the node out of sync.
\<close>

theorem node_in_step_with_clock:
  assumes "in_step E n" "(node_step E est initial_fetch)\<^sup>*\<^sup>* n n'"
  shows "(\<exists>bs. chain_rep E (bm_blockchain (manager n')) bs \<and>
      phase_ok (update_pc n') (current_state (manager n')) (uid_b (last bs)) (time_next_state_change n')) \<and>
    (update_pc n' = LoopHead \<and> bm_running (manager n') \<and> updateStateThread_step E est initial_fetch i n' = Inr n'' \<and>
     time_next_state_change n' \<le> in_now i \<and> unat (in_now i) < unat (time_next_state_change n') + 90000 \<longrightarrow>
       \<not> time_out_of_sync (out_of_sync_detector (manager n'')))"
proof -
  have "in_step E n'" by (rule node_steps_in_step [OF assms(2,1)])
  then obtain bs where bs: "node_chain E bs (manager n')"
    "phase_ok (update_pc n') (current_state (manager n')) (uid_b (last bs)) (time_next_state_change n')"
    by (auto simp: in_step_def)
  have "\<not> time_out_of_sync (out_of_sync_detector (manager n''))"
    if "update_pc n' = LoopHead" "bm_running (manager n')" "updateStateThread_step E est initial_fetch i n' = Inr n''"
      "time_next_state_change n' \<le> in_now i" "unat (in_now i) < unat (time_next_state_change n') + 90000"
  proof -
    have p: "unat (time_next_state_change n') mod 120000 = 30000" "getBlockId (time_next_state_change n') = uid_b (last bs)"
      "uid_b (last bs) \<noteq> 0"
      using bs(2) that(1) by (simp_all add: phase_ok_def)
    have "getBlockId (in_now i) = uid_b (last bs)" using same_slot [OF p(1) that(4,5)] p(2,3) by simp
    then show ?thesis
      using enter_introduce_in_step [of E bs "n'\<lparr>time_violation_detected := False\<rparr>" est i n''] bs that(1-3)
      by (simp add: updateStateThread_step_def)
  qed
  with bs show ?thesis by (auto simp: node_chain_def store_ok_def)
qed

definition sample_node :: "byte list node" where
  "sample_node = \<lparr>manager = sample_manager, update_pc = LoopHead, time_next_state_change = 1547155470000,
     time_violation_detected = False\<rparr>"

theorem node_in_step_with_clock_witness:
  "\<exists>bs. chain_rep (sample_env True) (bm_blockchain (triggerTransaction alice 5 sample_manager)) bs \<and>
     phase_ok LoopHead Unassigned (uid_b (last bs)) 1547155470000"
proof -
  let ?E = "sample_env True"
  have "store_ok ?E [Baseline (sample_root ?E)] sample_manager"
    using sample_chain_inv [of True] sample_chain_baseline [of ?E]
    by (simp add: store_ok_def chain_inv_def) (simp add: sample_manager_def BlockchainManager_new_def new_CollectionBlock_def)
  moreover have "getBlockId 1547155470000 = 1" by (simp add: getBlockId_def cycle_length_ms_def)
  ultimately have inv: "in_step ?E sample_node"
    by (auto simp: in_step_def node_chain_def sample_node_def phase_ok_def intro!: exI [of _ "[Baseline (sample_root ?E)]"])
  have "node_step ?E (\<lambda>_. 0) True sample_node (sample_node\<lparr>manager := triggerTransaction alice 5 sample_manager\<rparr>)"
    by (rule node_step.event) (simp add: sample_node_def node_event.transaction)
  then have run: "(node_step ?E (\<lambda>_. 0) True)\<^sup>*\<^sup>* sample_node (sample_node\<lparr>manager := triggerTransaction alice 5 sample_manager\<rparr>)" ..
  from node_in_step_with_clock [OF inv run, THEN conjunct1]
  show ?thesis by (simp add: sample_node_def triggerTransaction_def)
qed

text \<open>
  C20: stopping a node that is fetching. Once \<open>running_\<close> is false the state thread ends after two more
  steps, having ended the fetch thread, for every inputs and every point the fetch thread is at. But in the
  first fetch of a node the thread starts the miner on its way out, and nothing stops it: the worker threads
  outlive the manager whose callback they hold.
\<close>

theorem stop_while_fetching:
  assumes "update_pc n = FetchLoop first" "current_state (manager n) = FetchBlockchain"
    and "chain_rep E (bm_blockchain (manager n)) bs" "fetch_blocks_thread (cycle_state_fetch (manager n)) \<noteq> FT_Absent"
  shows "\<exists>n\<^sub>1 n\<^sub>2. updateStateThread_step E est initial_fetch i (n\<lparr>manager := stop_manager (manager n)\<rparr>) = Inr n\<^sub>1 \<and>
    updateStateThread_step E est initial_fetch j n\<^sub>1 = Inr n\<^sub>2 \<and> update_pc n\<^sub>2 = Ended \<and>
    current_state (manager n\<^sub>2) = Unassigned \<and> fetch_blocks_thread (cycle_state_fetch (manager n\<^sub>2)) = FT_Ended \<and>
    (first \<longrightarrow> miner_running (bm_miner (manager n\<^sub>2)))"
proof -
  let ?m = "stop_manager (manager n)"
  let ?m1 = "if first then resumeMiner E (in_rnd i) ?m else ?m"
  let ?m2 = "?m1\<lparr>active_peers_collector := restartListBuilding est (active_peers_collector ?m1)\<rparr>"
  have m1: "bm_blockchain ?m1 = bm_blockchain (manager n)" "current_state ?m1 = FetchBlockchain" "\<not> bm_running ?m1"
    "cycle_state_fetch ?m1 = cycle_state_fetch (manager n)" "first \<longrightarrow> miner_running (bm_miner ?m1)"
    using assms(2) by (simp_all add: stop_manager_def resumeMiner_def Let_def miner_start_def case_prod_unfold)
  have 1: "updateStateThread_step E est initial_fetch i (n\<lparr>manager := ?m\<rparr>) = Inr (after_fetch est i ?m1 (n\<lparr>manager := ?m\<rparr>))"
    using assms(1) by (simp add: updateStateThread_step_def fetchBlockchain_iteration_def stop_manager_def)
  obtain d where d: "restartCheckCycle E (in_now j) (bm_blockchain ?m1) (out_of_sync_detector ?m1) = Inr d"
    using chain_rep_newest(2) [OF assms(3)] m1(1) by (auto simp: restartCheckCycle_def Let_def)
  define m3 where "m3 = (?m2\<lparr>new_block := new_CollectionBlock\<lparr>transactions := [], creations := []\<rparr>,
      out_of_sync_detector := d, cycle_state_fetch := (cycle_state_fetch ?m2)\<lparr>fetch_running := False\<rparr>\<rparr>)"
  have "\<exists>m4. bind_res (fetch_thread_step E (in_now j) (in_num_peers j) m3) (fetch_thread_step E (in_now j) (in_num_peers j)) = Inr m4 \<and>
      fetch_blocks_thread (cycle_state_fetch m4) = FT_Ended \<and> bm_miner m4 = bm_miner ?m1"
    using assms(4) m1(4)
    by (cases "fetch_blocks_thread (cycle_state_fetch (manager n))")
      (simp_all add: m3_def fetch_thread_step_def Let_def fetchBaseline_begin_def)
  then obtain m4 where m4: "fetch_onExit E (in_now j) (in_num_peers j) ?m2 = Inr m4"
    "fetch_blocks_thread (cycle_state_fetch m4) = FT_Ended" "bm_miner m4 = bm_miner ?m1"
    using d by (auto simp: fetch_onExit_def Let_def m3_def)
  show ?thesis
    using 1 m1 m4 by (simp add: updateStateThread_step_def after_fetch_def thread_end_def state_onExit_def)
qed

theorem stop_while_fetching_witness:
  "\<exists>n\<^sub>1 n\<^sub>2. updateStateThread_step (sample_env True) (\<lambda>_. 0) True \<lparr>in_now = 7, in_num_peers = 1, in_rnd = \<lambda>_. 3, in_duration = 0\<rparr>
      (sample_node\<lparr>update_pc := FetchLoop True,
         manager := stop_manager (sample_manager\<lparr>current_state := FetchBlockchain, cycle_state_fetch :=
           (cycle_state_fetch sample_manager)\<lparr>fetch_blocks_thread := FT_Blocks 2\<rparr>\<rparr>)\<rparr>) = Inr n\<^sub>1 \<and>
    updateStateThread_step (sample_env True) (\<lambda>_. 0) True \<lparr>in_now = 8, in_num_peers = 1, in_rnd = \<lambda>_. 3, in_duration = 0\<rparr> n\<^sub>1 = Inr n\<^sub>2 \<and>
    update_pc n\<^sub>2 = Ended \<and> miner_running (bm_miner (manager n\<^sub>2))"
proof -
  let ?E = "sample_env True"
  let ?n = "sample_node\<lparr>update_pc := FetchLoop True, manager := sample_manager\<lparr>current_state := FetchBlockchain,
    cycle_state_fetch := (cycle_state_fetch sample_manager)\<lparr>fetch_blocks_thread := FT_Blocks 2\<rparr>\<rparr>\<rparr>"
  have "chain_rep ?E (sample_chain ?E) [Baseline (sample_root ?E)]" using sample_chain_inv [of True] by (simp add: chain_inv_def)
  then show ?thesis
    using stop_while_fetching [of ?n True ?E "[Baseline (sample_root ?E)]" "\<lambda>_. 0" True
        "\<lparr>in_now = 7, in_num_peers = 1, in_rnd = \<lambda>_. 3, in_duration = 0\<rparr>" "\<lparr>in_now = 8, in_num_peers = 1, in_rnd = \<lambda>_. 3, in_duration = 0\<rparr>"]
    by (simp add: sample_node_def) blast
qed

text \<open>
  C21: the states follow each other in order. In every run of a new node, with callbacks, miner, fetch thread
  and cache thread interleaved in any way, the current state is the one of the phase the thread is in, and it
  only ever changes along the edges of the schedule: first to the fetch or introduce state, from introducing a
  block to a baseline or to collecting, from a baseline to collecting, from collecting to introducing or
  fetching, from fetching to introducing, and to none at the end.
\<close>

theorem states_in_order:
  assumes "(free_step E est initial_fetch)\<^sup>*\<^sup>* (new_node (BlockchainManager_new E pub priv bc mi)) n"
    and "free_step E est initial_fetch n n'"
  shows "state_matches (update_pc n) (getCurrentState (manager n)) \<and>
    (getCurrentState (manager n') = getCurrentState (manager n) \<or>
     follows (getCurrentState (manager n)) (getCurrentState (manager n')))"
proof -
  have "state_matches (update_pc n) (current_state (manager n))"
    by (rule free_steps_state [OF assms(1)]) (simp add: new_node_def BlockchainManager_new_def state_matches_def)
  with free_step_state [OF assms(2)] show ?thesis by (simp add: getCurrentState_def)
qed

theorem states_in_order_witness:
  "\<exists>n. updateStateThread_step (sample_env True) (\<lambda>_. 0) True \<lparr>in_now = 7, in_num_peers = 1, in_rnd = \<lambda>_. 3, in_duration = 0\<rparr>
      (new_node sample_manager) = Inr n \<and> follows Unassigned (getCurrentState (manager n))"
proof -
  let ?E = "sample_env True" and ?i = "\<lparr>in_now = 7, in_num_peers = 1, in_rnd = \<lambda>_. 3, in_duration = 0\<rparr>"
  obtain b where b: "fillHash_baseline ?E empty_baseline = Inr b" "uid_of b = 1" "block_ok (Baseline b)"
    using baseline_hash.fill_total [of empty_baseline ?E]
    by (force simp: empty_baseline_def new_BaselineBlock_def baseline_ok_def fits_def)
  obtain bc where "initEmptyChain ?E (sample_chain ?E) = Inr bc"
    using setRootBlock_rep [of b ?E "sample_chain ?E"] b by (auto simp: initEmptyChain_def)
  then obtain n where n: "updateStateThread_step ?E (\<lambda>_. 0) True ?i (new_node sample_manager) = Inr n"
    "current_state (manager n) = FetchBlockchain"
    by (auto simp: new_node_def updateStateThread_step_def begin_fetch_def setState_def state_onExit_def state_onEnter_def fetch_onEnter_def)
  have "free_step ?E (\<lambda>_. 0) True (new_node sample_manager) n" by (rule free_step.thread [OF n(1)])
  with states_in_order [of ?E "\<lambda>_. 0" True bob "''k''" "sample_chain ?E" "MinerLocal_new 1" "new_node sample_manager" n] n
  show ?thesis by (auto simp: sample_manager_def getCurrentState_def)
qed

end
