(* ===== verification/Network.thy ===== *)
theory Network
  imports Agreement Fetch_Properties Node_Properties P2P_Connector
begin

text \<open>
  A node with its connector, and two such nodes on one connection. The manager's calls on
  \<open>IP2PConnector\<close> are carried out by the connector, and the connector's callbacks are the functions that
  the constructors of the manager and of the active peers collector register. The connection carries the
  bytes of a peer's send buffer to the plugin at the other end.
\<close>

section \<open>A node and its connector\<close>

record 'ctx full_node =
  fn_manager :: "'ctx BlockchainManager"
  fn_connector :: P2PConnector

definition perform_call :: "'ctx env \<Rightarrow> nat \<Rightarrow> p2p_call \<Rightarrow> P2PConnector \<Rightarrow> P2PConnector" where
  "perform_call E rnd call c =
     (case call of
        askForBlock_call uid \<Rightarrow> askForBlock E rnd uid c
      | askForLastBaselineBlock_call \<Rightarrow> askForLastBaselineBlock E rnd c
      | propagateBaseline_call b \<Rightarrow> propagateBlock_baseline E b c
      | propagateCollection_call b \<Rightarrow> propagateBlock_collection E b c
      | propagateActivePeersList_call l \<Rightarrow> propagateActivePeersList E l c)"

fun perform_calls :: "'ctx env \<Rightarrow> (nat \<Rightarrow> nat) \<Rightarrow> p2p_call list \<Rightarrow> P2PConnector \<Rightarrow> P2PConnector" where
  "perform_calls E rnd [] c = c"
| "perform_calls E rnd (call # calls) c = perform_calls E (\<lambda>i. rnd (Suc i)) calls (perform_call E (rnd 0) call c)"

text \<open>What an operation of the manager has called on the connector since it started.\<close>

definition manager_op ::
    "'ctx env \<Rightarrow> (nat \<Rightarrow> nat) \<Rightarrow> ('ctx BlockchainManager \<Rightarrow> 'ctx BlockchainManager res) \<Rightarrow> 'ctx full_node \<Rightarrow> 'ctx full_node res" where
  "manager_op E rnd f n =
     bind_res (f (fn_manager n)) (\<lambda>m.
       let calls = drop (length (p2p_calls (fn_manager n))) (p2p_calls m);
           bans = drop (length (banned (peers_monitor (fn_manager n)))) (banned (peers_monitor m))
       in Inr \<lparr>fn_manager = m, fn_connector = fold banPeer bans (perform_calls E rnd calls (fn_connector n))\<rparr>)"

definition deliver_callback ::
    "'ctx env \<Rightarrow> blockchain_time_t \<Rightarrow> callback \<Rightarrow> 'ctx BlockchainManager \<Rightarrow> 'ctx BlockchainManager res" where
  "deliver_callback E now cb m =
     (case cb of
        BaselineReceived p b reply \<Rightarrow> Inr (baselineBlockReceivedCallback p b reply m)
      | CollectionReceived p b reply \<Rightarrow> collectionBlockReceivedCallback E now p b reply m
      | ActivePeersReceived p l \<Rightarrow>
          Inr (m\<lparr>active_peers_collector := activePeersListReceivedCallback p l (active_peers_collector m)\<rparr>))"

fun deliver_callbacks ::
    "'ctx env \<Rightarrow> (nat \<Rightarrow> nat) \<Rightarrow> blockchain_time_t \<Rightarrow> callback list \<Rightarrow> 'ctx full_node \<Rightarrow> 'ctx full_node res" where
  "deliver_callbacks E rnd now [] n = Inr n"
| "deliver_callbacks E rnd now (cb # cbs) n =
     bind_res (manager_op E rnd (deliver_callback E now cb) n) (deliver_callbacks E rnd now cbs)"

text \<open>A message from the plugin: the connector handles it and calls back.\<close>

definition node_receive ::
    "'ctx env \<Rightarrow> (nat \<Rightarrow> nat) \<Rightarrow> blockchain_time_t \<Rightarrow> peer_ref \<Rightarrow> byte list \<Rightarrow> 'ctx full_node \<Rightarrow> 'ctx full_node res" where
  "node_receive E rnd now ref message n =
     bind_res (receivedMessage E (bm_blockchain (fn_manager n)) ref message (fn_connector n)) (\<lambda>c.
       deliver_callbacks E rnd now (drop (length (callback_log (fn_connector n))) (callback_log c)) (n\<lparr>fn_connector := c\<rparr>))"

fun node_receive_all ::
    "'ctx env \<Rightarrow> (nat \<Rightarrow> nat) \<Rightarrow> blockchain_time_t \<Rightarrow> peer_ref \<Rightarrow> byte list list \<Rightarrow> 'ctx full_node \<Rightarrow> 'ctx full_node res" where
  "node_receive_all E rnd now ref [] n = Inr n"
| "node_receive_all E rnd now ref (message # messages) n =
     bind_res (node_receive E rnd now ref message n) (node_receive_all E rnd now ref messages)"

section \<open>The connection\<close>

text \<open>
  A tick of the peer's plugin, then the bytes of its send buffer leave; the messages in them. A
  disconnected peer sends nothing.
\<close>

definition peer_stream :: "peer_ref \<Rightarrow> 'ctx full_node \<Rightarrow> byte list list option" where
  "peer_stream ref n =
     (case map_find (connector_peers (fn_connector n)) ref of
        None \<Rightarrow> None
      | Some p \<Rightarrow> if peer_disconnected p then None else deframe (m_send_buffer (tick p)))"

definition transmitted :: "peer_ref \<Rightarrow> 'ctx full_node \<Rightarrow> 'ctx full_node" where
  "transmitted ref n = n\<lparr>fn_connector := at_peer ref (\<lambda>p. (tick p)\<lparr>m_send_buffer := []\<rparr>) (fn_connector n)\<rparr>"

text \<open>All that one node has for the other reaches it.\<close>

definition transfer ::
    "'ctx env \<Rightarrow> (nat \<Rightarrow> nat) \<Rightarrow> blockchain_time_t \<Rightarrow> peer_ref \<Rightarrow> peer_ref \<Rightarrow> 'ctx full_node \<Rightarrow> 'ctx full_node \<Rightarrow>
     ('ctx full_node \<times> 'ctx full_node) res" where
  "transfer E rnd now ref\<^sub>1 ref\<^sub>2 n\<^sub>1 n\<^sub>2 =
     (case peer_stream ref\<^sub>1 n\<^sub>1 of
        None \<Rightarrow> Inl Uncaught
      | Some messages \<Rightarrow>
          bind_res (node_receive_all E rnd now ref\<^sub>2 messages n\<^sub>2) (\<lambda>n\<^sub>2. Inr (transmitted ref\<^sub>1 n\<^sub>1, n\<^sub>2)))"

section \<open>Lemmas\<close>

text \<open>An idle connection, on which the blocks of the peer \<open>pid\<close> arrive.\<close>

definition linked_to :: "peer_ref \<Rightarrow> peer_id_t \<Rightarrow> 'ctx full_node \<Rightarrow> bool" where
  "linked_to ref pid n \<longleftrightarrow> block_callbacks_registered (fn_connector n) \<and>
     (\<exists>p. idle_peer ref p (fn_connector n) \<and> getId p = pid \<and> \<not> peer_disconnected p)"

text \<open>A connection on which just \<open>messages\<close> is on the way.\<close>

definition sending :: "peer_ref \<Rightarrow> peer_id_t \<Rightarrow> byte list list \<Rightarrow> 'ctx full_node \<Rightarrow> bool" where
  "sending ref pid messages n \<longleftrightarrow> block_callbacks_registered (fn_connector n) \<and>
     (\<exists>p. map_find (connector_peers (fn_connector n)) ref = Some p \<and> getId p = pid) \<and>
     peer_stream ref n = Some messages"

lemma sending_manager [simp]: "sending ref pid ms (n\<lparr>fn_manager := m\<rparr>) = sending ref pid ms n"
  by (simp add: sending_def peer_stream_def)

lemma peer_disconnected_send [simp]: "peer_disconnected (sendMessage own m p) = peer_disconnected p"
  "getId (sendMessage own m p) = getId p"
  by (simp_all add: sendMessage_def sendMessageWithinSingleThread_def getId_def)

text \<open>An operation of the manager that only makes one call.\<close>

lemma manager_op_calls:
  assumes "f (fn_manager n) = Inr m" "p2p_calls m = p2p_calls (fn_manager n) @ calls"
    and "banned (peers_monitor m) = banned (peers_monitor (fn_manager n))"
  shows "manager_op E rnd f n = Inr \<lparr>fn_manager = m, fn_connector = perform_calls E rnd calls (fn_connector n)\<rparr>"
  using assms by (simp add: manager_op_def)

lemma propagate_sending:
  assumes "linked_to ref pid n" "collection_ok b" "length (msg_CollectionBlock (host_le E) b False) + 2 < 2 ^ 31"
    and "fn_connector n' = propagateBlock_collection E b (fn_connector n)"
  shows "sending ref pid [msg_CollectionBlock (host_le E) b False] n'"
proof -
  let ?m = "msg_CollectionBlock (host_le E) b False"
  obtain p where p: "idle_peer ref p (fn_connector n)" "getId p = pid" "\<not> peer_disconnected p"
    using assms(1) by (auto simp: linked_to_def)
  then have "map_find (connector_peers (fn_connector n')) ref = Some (sendMessage False ?m p)"
    by (auto simp: assms(4) propagateBlock_collection_def send_to_all_def map_find_map_snd idle_peer_def)
  moreover have "deframe (m_send_buffer (tick (sendMessage False ?m p))) = Some [?m]"
    using p(1) assms(3) by (intro deframe_single) (simp_all add: idle_peer_def)
  moreover have "block_callbacks_registered (fn_connector n')"
    using assms(1) by (simp add: assms(4) linked_to_def propagateBlock_collection_def send_to_all_def)
  ultimately show ?thesis using p by (simp add: sending_def peer_stream_def)
qed

text \<open>The introduce state is entered from the collect state: the candidate is propagated.\<close>

lemma introduce_started:
  assumes "current_state m = Collect" "setState E est i IntroduceBlock m = Inr m'"
  shows "introduce_onEnter E (in_now i) (m\<lparr>current_state := IntroduceBlock\<rparr>) = Inr m'"
    "p2p_calls m' = p2p_calls m @ [propagateCollection_call (new_block m')]" "current_state m' = IntroduceBlock"
    "peers_monitor m' = peers_monitor m"
  using assms by (auto simp: setState_def state_onExit_def state_onEnter_def introduce_onEnter_def Let_def bm_call_def
      res_simps split: option.splits)

lemma introduce_started_node:
  assumes "current_state (fn_manager n) = Collect" "manager_op E rnd (setState E est i IntroduceBlock) n = Inr n'"
  shows "setState E est i IntroduceBlock (fn_manager n) = Inr (fn_manager n')"
    "fn_connector n' = propagateBlock_collection E (new_block (fn_manager n')) (fn_connector n)"
proof -
  obtain m where m: "setState E est i IntroduceBlock (fn_manager n) = Inr m"
    using assms(2) by (auto simp: manager_op_def res_simps)
  note s = introduce_started [OF assms(1) m]
  have "n' = \<lparr>fn_manager = m, fn_connector = perform_calls E rnd [propagateCollection_call (new_block m)] (fn_connector n)\<rparr>"
    using assms(2) manager_op_calls [where f = "setState E est i IntroduceBlock" and n = n, OF m s(2)] by (simp add: s(4))
  with m show "setState E est i IntroduceBlock (fn_manager n) = Inr (fn_manager n')"
    "fn_connector n' = propagateBlock_collection E (new_block (fn_manager n')) (fn_connector n)"
    by (simp_all add: perform_call_def)
qed

lemma merge_block_frame:
  "merge_block E b m = Inr m' \<Longrightarrow> p2p_calls m' = p2p_calls m \<and> peers_monitor m' = peers_monitor m"
  by (auto simp: merge_block_def Let_def res_simps split: prod.splits)

lemma introduce_blockReceived_frame:
  assumes "introduce_blockReceived E p b False m = Inr m'" "processed_blocks (cycle_state_introduce_block m) = []"
    and "validateBlock_collection E (bm_blockchain m) b = Inr (True, bc)"
  shows "p2p_calls m' = p2p_calls m" "peers_monitor m' = peers_monitor m"
  using assms
  by (auto simp: introduce_blockReceived_def process_block_def Let_def res_simps dest!: merge_block_frame split: if_splits)

lemma received_in_time:
  "\<not> too_fast (push_history now (map_lookup0 [] (peer_message_history pm) p)) \<Longrightarrow>
     banned (pm_blockReceivedCallback now p b r pm) = banned pm"
  by (simp add: pm_blockReceivedCallback_def Let_def)

text \<open>A block message is dispatched to the introduce state; the connection is as before.\<close>

lemma node_receive_collection:
  assumes "sending r pid ms n" "collection_ok b" "current_state (fn_manager n) = IntroduceBlock"
    and r: "introduce_blockReceived E pid b False (fn_manager n) = Inr m" "p2p_calls m = p2p_calls (fn_manager n)"
      "peers_monitor m = peers_monitor (fn_manager n)"
    and "\<not> too_fast (push_history now (map_lookup0 [] (peer_message_history (peers_monitor (fn_manager n))) pid))"
  shows "\<exists>n'. node_receive E rnd now r (msg_CollectionBlock le b False) n = Inr n' \<and>
    new_block (fn_manager n') = new_block m \<and> sending r pid ms n'"
proof -
  let ?c = "(fn_connector n)\<lparr>callback_log := callback_log (fn_connector n) @ [CollectionReceived pid b False]\<rparr>"
  let ?m = "m\<lparr>peers_monitor := pm_blockReceivedCallback now pid b False (peers_monitor m)\<rparr>"
  obtain p where p: "map_find (connector_peers (fn_connector n)) r = Some p" "getId p = pid"
    using assms(1) by (auto simp: sending_def)
  then have "receivedMessage E (bm_blockchain (fn_manager n)) r (msg_CollectionBlock le b False) (fn_connector n) = Inr ?c"
    using assms(1,2) received_CollectionBlock [OF p(1)] by (simp add: sending_def)
  moreover have "deliver_callback E now (CollectionReceived pid b False) (fn_manager n) = Inr ?m"
    using assms(3) r by (simp add: deliver_callback_def collectionBlockReceivedCallback_def)
  then have "manager_op E rnd (deliver_callback E now (CollectionReceived pid b False)) (n\<lparr>fn_connector := ?c\<rparr>) =
      Inr \<lparr>fn_manager = ?m, fn_connector = ?c\<rparr>"
    using r(2,3) received_in_time [OF assms(7)] by (subst manager_op_calls [where calls = "[]"]) simp_all
  ultimately have "node_receive E rnd now r (msg_CollectionBlock le b False) n = Inr \<lparr>fn_manager = ?m, fn_connector = ?c\<rparr>"
    by (simp add: node_receive_def)
  with assms(1) show ?thesis by (simp add: sending_def peer_stream_def)
qed

lemma transmitted_sending: "sending r pid ms n \<Longrightarrow> sending r pid [] (transmitted r n)"
  by (auto simp: sending_def transmitted_def peer_stream_def tick_frames at_peer_def map_find_put getId_def split: if_splits)

lemma transmitted_manager [simp]: "fn_manager (transmitted r n) = fn_manager n"
  by (simp add: transmitted_def)

lemma transfer_single:
  assumes "sending r\<^sub>1 pid [message] n\<^sub>1" "node_receive E rnd now r\<^sub>2 message n\<^sub>2 = Inr n\<^sub>2'"
  shows "transfer E rnd now r\<^sub>1 r\<^sub>2 n\<^sub>1 n\<^sub>2 = Inr (transmitted r\<^sub>1 n\<^sub>1, n\<^sub>2')"
  using assms by (simp add: transfer_def sending_def)

section \<open>Agreement over the network\<close>

text \<open>
  The candidates of two nodes that can be merged: each is valid for the other node, both fit into one
  block, the maps do not contradict each other and no two coins claim the same value.
\<close>

definition mergeable :: "'ctx env \<Rightarrow> 'ctx BlockchainManager \<Rightarrow> 'ctx BlockchainManager \<Rightarrow> bool" where
  "mergeable E m\<^sub>1 m\<^sub>2 \<longleftrightarrow>
     (let b\<^sub>1 = new_block m\<^sub>1; b\<^sub>2 = new_block m\<^sub>2
      in (\<exists>bc. validateBlock_collection E (bm_blockchain m\<^sub>1) b\<^sub>2 = Inr (True, bc)) \<and>
         (\<exists>bc. validateBlock_collection E (bm_blockchain m\<^sub>2) b\<^sub>1 = Inr (True, bc)) \<and>
         maps_agree (transactions b\<^sub>1) (transactions b\<^sub>2) \<and> maps_agree (creations b\<^sub>1) (creations b\<^sub>2) \<and>
         length (transactions b\<^sub>1) + length (transactions b\<^sub>2) \<le> 10000 \<and>
         length (creations b\<^sub>1) + length (creations b\<^sub>2) \<le>
           min (unat (creation_room (getMiningState (bm_blockchain m\<^sub>1)))) (unat (creation_room (getMiningState (bm_blockchain m\<^sub>2)))) \<and>
         values_unique (set (creations b\<^sub>1) \<union> set (creations b\<^sub>2)) \<and> (hash_of b\<^sub>1 = hash_of b\<^sub>2 \<longrightarrow> b\<^sub>1 = b\<^sub>2))"

text \<open>A block that is sent as one message: serializable, its maps sorted, its length within the 31 bits that the reader accepts.\<close>

definition sendable :: "'ctx env \<Rightarrow> CollectionBlock \<Rightarrow> bool" where
  "sendable E b \<longleftrightarrow> collection_ok b \<and> length (msg_CollectionBlock (host_le E) b False) + 2 < 2 ^ 31"

text \<open>The next block of the peer does not count as a violation.\<close>

definition in_time :: "blockchain_time_t \<Rightarrow> peer_id_t \<Rightarrow> 'ctx BlockchainManager \<Rightarrow> bool" where
  "in_time now pid m \<longleftrightarrow> \<not> too_fast (push_history now (map_lookup0 [] (peer_message_history (peers_monitor m)) pid))"

lemma collection_ok_wf: "collection_ok b \<Longrightarrow> map_wf (transactions b) \<and> map_wf (creations b)"
  by (simp add: collection_ok_def)

lemma mergeable_agree:
  assumes "chain_inv E (bm_blockchain m\<^sub>1) bs" "chain_inv E (bm_blockchain m\<^sub>2) bs"
    and "introduce_onEnter E t\<^sub>1 m\<^sub>1 = Inr n\<^sub>1" "introduce_onEnter E t\<^sub>2 m\<^sub>2 = Inr n\<^sub>2"
    and "mergeable E n\<^sub>1 n\<^sub>2" "sendable E (new_block n\<^sub>1)" "sendable E (new_block n\<^sub>2)"
  shows "\<exists>n\<^sub>1' n\<^sub>2'. introduce_blockReceived E p\<^sub>2 (new_block n\<^sub>2) False n\<^sub>1 = Inr n\<^sub>1' \<and>
    introduce_blockReceived E p\<^sub>1 (new_block n\<^sub>1) False n\<^sub>2 = Inr n\<^sub>2' \<and> new_block n\<^sub>1' = new_block n\<^sub>2' \<and>
    transactions (new_block n\<^sub>1') = map_union (transactions (new_block n\<^sub>1)) (transactions (new_block n\<^sub>2)) \<and>
    creations (new_block n\<^sub>1') = map_union (creations (new_block n\<^sub>1)) (creations (new_block n\<^sub>2))"
proof -
  obtain bc\<^sub>1 bc\<^sub>2 where "validateBlock_collection E (bm_blockchain n\<^sub>1) (new_block n\<^sub>2) = Inr (True, bc\<^sub>1)"
    "validateBlock_collection E (bm_blockchain n\<^sub>2) (new_block n\<^sub>1) = Inr (True, bc\<^sub>2)"
    using assms(5) by (auto simp: mergeable_def Let_def)
  from two_nodes_agree [OF assms(1-4) this] assms(5-7) show ?thesis
    by (simp add: mergeable_def Let_def sendable_def collection_ok_wf)
qed

text \<open>The block of one node arrives at the other, which has just entered the state.\<close>

lemma candidate_transferred:
  assumes "sending r\<^sub>1 pid\<^sub>2 [msg_CollectionBlock (host_le E) b False] n\<^sub>1" "sending r\<^sub>2 pid\<^sub>1 ms n\<^sub>2" "collection_ok b"
    and "introduce_onEnter E t m = Inr (fn_manager n\<^sub>2)" "current_state (fn_manager n\<^sub>2) = IntroduceBlock"
    and "validateBlock_collection E (bm_blockchain (fn_manager n\<^sub>2)) b = Inr (True, bc)"
    and "introduce_blockReceived E pid\<^sub>1 b False (fn_manager n\<^sub>2) = Inr m'" "in_time now pid\<^sub>1 (fn_manager n\<^sub>2)"
  shows "\<exists>n\<^sub>2'. transfer E rnd now r\<^sub>1 r\<^sub>2 n\<^sub>1 n\<^sub>2 = Inr (transmitted r\<^sub>1 n\<^sub>1, n\<^sub>2') \<and>
    new_block (fn_manager n\<^sub>2') = new_block m' \<and> sending r\<^sub>2 pid\<^sub>1 ms n\<^sub>2'"
proof -
  have "processed_blocks (cycle_state_introduce_block (fn_manager n\<^sub>2)) = []"
    by (simp add: introduce_entered(2) [OF assms(4)])
  note f = introduce_blockReceived_frame [OF assms(7) this assms(6)]
  obtain n' where n': "node_receive E rnd now r\<^sub>2 (msg_CollectionBlock (host_le E) b False) n\<^sub>2 = Inr n'"
    "new_block (fn_manager n') = new_block m'" "sending r\<^sub>2 pid\<^sub>1 ms n'"
    using node_receive_collection [OF assms(2,3,5,7) f, of now rnd "host_le E"] assms(8) by (auto simp: in_time_def)
  with transfer_single [OF assms(1) n'(1)] show ?thesis by blast
qed

text \<open>
  C5: two connected nodes on the same chain agree on the next block. When both enter the introduce
  state, each propagates its candidate; the bytes of each connection, taken apart and read by the other
  node and dispatched to its manager, leave both nodes with the same block, hash included, which holds
  the sub blocks of both candidates. This holds for candidates that can be merged (\<open>mergeable\<close>): each passes
  the validation of the other node, the two do not hold different sub blocks under one key, no two coins of
  them claim the same data value, together they keep the limits of a block, and if their hashes are equal so
  are they. (\<open>Double_Spend\<close> and \<open>Agreement\<close> show what else can happen.) The candidates have less than
  \<open>2 ^ 31\<close> bytes as messages, nothing else is on its way on the connection, and neither peer has sent blocks
  so often that the monitor reports it.
\<close>

theorem nodes_agree_over_network:
  assumes chain: "chain_inv E (bm_blockchain (fn_manager n\<^sub>1)) bs" "chain_inv E (bm_blockchain (fn_manager n\<^sub>2)) bs"
    and link: "linked_to r\<^sub>1 pid\<^sub>2 n\<^sub>1" "linked_to r\<^sub>2 pid\<^sub>1 n\<^sub>2"
    and state: "current_state (fn_manager n\<^sub>1) = Collect" "current_state (fn_manager n\<^sub>2) = Collect"
    and enter: "manager_op E rnd\<^sub>1 (setState E est i\<^sub>1 IntroduceBlock) n\<^sub>1 = Inr m\<^sub>1"
      "manager_op E rnd\<^sub>2 (setState E est i\<^sub>2 IntroduceBlock) n\<^sub>2 = Inr m\<^sub>2"
    and merge: "mergeable E (fn_manager m\<^sub>1) (fn_manager m\<^sub>2)"
    and send: "sendable E (new_block (fn_manager m\<^sub>1))" "sendable E (new_block (fn_manager m\<^sub>2))"
    and time: "in_time now\<^sub>1 pid\<^sub>2 (fn_manager m\<^sub>1)" "in_time now\<^sub>2 pid\<^sub>1 (fn_manager m\<^sub>2)"
  shows "\<exists>m\<^sub>1' m\<^sub>2' e\<^sub>1 e\<^sub>2. transfer E rnd\<^sub>2 now\<^sub>2 r\<^sub>1 r\<^sub>2 m\<^sub>1 m\<^sub>2 = Inr (m\<^sub>1', m\<^sub>2') \<and>
    transfer E rnd\<^sub>1 now\<^sub>1 r\<^sub>2 r\<^sub>1 m\<^sub>2' m\<^sub>1' = Inr (e\<^sub>2, e\<^sub>1) \<and> new_block (fn_manager e\<^sub>1) = new_block (fn_manager e\<^sub>2) \<and>
    transactions (new_block (fn_manager e\<^sub>1)) =
      map_union (transactions (new_block (fn_manager m\<^sub>1))) (transactions (new_block (fn_manager m\<^sub>2))) \<and>
    creations (new_block (fn_manager e\<^sub>1)) =
      map_union (creations (new_block (fn_manager m\<^sub>1))) (creations (new_block (fn_manager m\<^sub>2)))"
proof -
  note s1 = introduce_started_node [OF state(1) enter(1)] and s2 = introduce_started_node [OF state(2) enter(2)]
  note i1 = introduce_started [OF state(1) s1(1)] and i2 = introduce_started [OF state(2) s2(1)]
  have q: "sending r\<^sub>1 pid\<^sub>2 [msg_CollectionBlock (host_le E) (new_block (fn_manager m\<^sub>1)) False] m\<^sub>1"
    "sending r\<^sub>2 pid\<^sub>1 [msg_CollectionBlock (host_le E) (new_block (fn_manager m\<^sub>2)) False] m\<^sub>2"
    using propagate_sending [OF link(1) _ _ s1(2)] propagate_sending [OF link(2) _ _ s2(2)] send
    by (simp_all add: sendable_def)
  obtain bc\<^sub>1 bc\<^sub>2 where val:
    "validateBlock_collection E (bm_blockchain (fn_manager m\<^sub>1)) (new_block (fn_manager m\<^sub>2)) = Inr (True, bc\<^sub>1)"
    "validateBlock_collection E (bm_blockchain (fn_manager m\<^sub>2)) (new_block (fn_manager m\<^sub>1)) = Inr (True, bc\<^sub>2)"
    using merge by (auto simp: mergeable_def Let_def)
  obtain k\<^sub>1 k\<^sub>2 where r: "introduce_blockReceived E pid\<^sub>2 (new_block (fn_manager m\<^sub>2)) False (fn_manager m\<^sub>1) = Inr k\<^sub>1"
    "introduce_blockReceived E pid\<^sub>1 (new_block (fn_manager m\<^sub>1)) False (fn_manager m\<^sub>2) = Inr k\<^sub>2"
    and k: "new_block k\<^sub>1 = new_block k\<^sub>2"
      "transactions (new_block k\<^sub>1) = map_union (transactions (new_block (fn_manager m\<^sub>1))) (transactions (new_block (fn_manager m\<^sub>2)))"
      "creations (new_block k\<^sub>1) = map_union (creations (new_block (fn_manager m\<^sub>1))) (creations (new_block (fn_manager m\<^sub>2)))"
    using mergeable_agree [OF _ _ i1(1) i2(1) merge send, of bs pid\<^sub>2 pid\<^sub>1] chain by auto
  obtain m\<^sub>2' where t2: "transfer E rnd\<^sub>2 now\<^sub>2 r\<^sub>1 r\<^sub>2 m\<^sub>1 m\<^sub>2 = Inr (transmitted r\<^sub>1 m\<^sub>1, m\<^sub>2')"
    "new_block (fn_manager m\<^sub>2') = new_block k\<^sub>2"
    "sending r\<^sub>2 pid\<^sub>1 [msg_CollectionBlock (host_le E) (new_block (fn_manager m\<^sub>2)) False] m\<^sub>2'"
    using candidate_transferred [OF q _ i2(1,3) val(2) r(2) time(2)] send by (auto simp: sendable_def)
  obtain m\<^sub>1' where t1: "transfer E rnd\<^sub>1 now\<^sub>1 r\<^sub>2 r\<^sub>1 m\<^sub>2' (transmitted r\<^sub>1 m\<^sub>1) = Inr (transmitted r\<^sub>2 m\<^sub>2', m\<^sub>1')"
    "new_block (fn_manager m\<^sub>1') = new_block k\<^sub>1"
    using candidate_transferred [OF t2(3) transmitted_sending [OF q(1)], of "in_now i\<^sub>1"
        "(fn_manager n\<^sub>1)\<lparr>current_state := IntroduceBlock\<rparr>" bc\<^sub>1 k\<^sub>1 now\<^sub>1 rnd\<^sub>1] i1(1,3) val(1) r(1) time(1) send(2)
    by (auto simp: sendable_def)
  show ?thesis using t2(1,2) t1 k by auto
qed

lemma sample_connector_linked:
  "fn_connector n = sample_connector \<Longrightarrow> linked_to 5 ''P'' n" "map_wf (connector_peers sample_connector)"
proof -
  have "\<not> peer_disconnected (FcoinPeerPlugin_new ''P'')" by (simp add: FcoinPeerPlugin_new_def)
  then show "fn_connector n = sample_connector \<Longrightarrow> linked_to 5 ''P'' n"
    using sample_connector_facts(1,2) getId_new by (auto simp: linked_to_def)
  show "map_wf (connector_peers sample_connector)"
    by (simp add: sample_connector_def registerBlockCallbacks_def registerPeer_def P2PConnector_new_def map_emplace_def map_wf_def)
qed

definition sample_input :: step_input where
  "sample_input = \<lparr>in_now = 60, in_num_peers = 1, in_rnd = (\<lambda>_. 0), in_duration = 0\<rparr>"

definition sample_full_node :: "(hash_t \<times> TransactionSubBlock) list \<Rightarrow> byte list full_node" where
  "sample_full_node ts =
     \<lparr>fn_manager = (sample_candidate ts [])\<lparr>current_state := Collect\<rparr>, fn_connector = sample_connector\<rparr>"

lemma sample_full_node_facts:
  "fn_manager (sample_full_node ts) = (sample_candidate ts [])\<lparr>current_state := Collect\<rparr>"
  "linked_to 5 ''P'' (sample_full_node ts)"
  by (simp_all add: sample_full_node_def sample_connector_linked)

lemma sample_enters:
  "\<exists>m. manager_op (sample_env True) rnd (setState (sample_env True) est i IntroduceBlock) (sample_full_node ts) = Inr m \<and>
     new_block (fn_manager m) = next_block (sample_env True) (Baseline (sample_root (sample_env True))) ts [] \<and>
     bm_blockchain (fn_manager m) = sample_chain (sample_env True) \<and> in_time now pid (fn_manager m)"
proof -
  obtain m where m: "introduce_onEnter (sample_env True) (in_now i) ((sample_candidate ts [])\<lparr>current_state := IntroduceBlock\<rparr>) = Inr m"
    "new_block m = next_block (sample_env True) (Baseline (sample_root (sample_env True))) ts []"
    using sample_candidate_enters by blast
  then have set: "setState (sample_env True) est i IntroduceBlock (fn_manager (sample_full_node ts)) = Inr m"
    by (simp add: setState_def state_onExit_def state_onEnter_def sample_full_node_facts)
  note s = introduce_started [OF _ set]
  have c: "current_state (fn_manager (sample_full_node ts)) = Collect" by (simp add: sample_full_node_facts)
  have "in_time now pid m"
    by (simp add: in_time_def s(4) [OF c] sample_full_node_facts sample_candidate_def sample_manager_def BlockchainManager_new_def PeersMonitor_new_def
        too_fast_def push_history_def message_history_size_def map_lookup0_def)
  then show ?thesis
    using manager_op_calls [where f = "setState (sample_env True) est i IntroduceBlock" and n = "sample_full_node ts", OF set s(2) [OF c]]
      m(2) introduce_entered(1) [OF m(1)] by (simp add: s(4) [OF c])
qed

lemma sample_sendable:
  "sendable (sample_env True) (sample_block True 400000)" "sendable (sample_env True) (empty_block True)"
proof -
  obtain data where "tx_signature (sample_payment True 400000) = calcSignature (sample_env True) ''K'' data"
    using signed_tx_signature unfolding sample_payment_def by blast
  then show "sendable (sample_env True) (sample_block True 400000)"
    using sample_block_capacity [of "sample_env True" True 400000]
    by (simp add: sendable_def within_capacity_def)
      (simp add: msg_CollectionBlock_def msg_head_def out_archive_def saveBinary_def save_CollectionBlock_def save_bool_def
        sample_block_def next_block_facts save_map_def length_saves save_pair_def sample_payment_facts sample_signature_length
        alice_def bob_def)
  show "sendable (sample_env True) (empty_block True)"
    by (simp add: sendable_def collection_ok_def fits_def msg_CollectionBlock_def msg_head_def out_archive_def saveBinary_def
        save_CollectionBlock_def save_bool_def empty_block_def next_block_facts save_map_def length_saves)
qed

theorem nodes_agree_over_network_witness:
  "\<exists>m\<^sub>1 m\<^sub>2 m\<^sub>1' m\<^sub>2' e\<^sub>1 e\<^sub>2.
    manager_op (sample_env True) (\<lambda>_. 0) (setState (sample_env True) (\<lambda>_. 0) sample_input IntroduceBlock)
      (sample_full_node [(tx_hash (sample_payment True 400000), sample_payment True 400000)]) = Inr m\<^sub>1 \<and>
    manager_op (sample_env True) (\<lambda>_. 0) (setState (sample_env True) (\<lambda>_. 0) sample_input IntroduceBlock) (sample_full_node []) = Inr m\<^sub>2 \<and>
    transfer (sample_env True) (\<lambda>_. 0) 70 5 5 m\<^sub>1 m\<^sub>2 = Inr (m\<^sub>1', m\<^sub>2') \<and>
    transfer (sample_env True) (\<lambda>_. 0) 80 5 5 m\<^sub>2' m\<^sub>1' = Inr (e\<^sub>2, e\<^sub>1) \<and>
    new_block (fn_manager e\<^sub>1) = new_block (fn_manager e\<^sub>2) \<and>
    transactions (new_block (fn_manager e\<^sub>2)) = [(tx_hash (sample_payment True 400000), sample_payment True 400000)]"
proof -
  let ?E = "sample_env True" and ?p = "sample_payment True 400000"
  let ?start = "\<lambda>ts. manager_op ?E (\<lambda>_. 0) (setState ?E (\<lambda>_. 0) sample_input IntroduceBlock) (sample_full_node ts)"
  obtain m\<^sub>1 where m1: "?start [(tx_hash ?p, ?p)] = Inr m\<^sub>1" "new_block (fn_manager m\<^sub>1) = sample_block True 400000"
    "bm_blockchain (fn_manager m\<^sub>1) = sample_chain ?E" "in_time 80 ''P'' (fn_manager m\<^sub>1)"
    using sample_enters [of "\<lambda>_. 0" "\<lambda>_. 0" sample_input "[(tx_hash ?p, ?p)]" 80 "''P''"] unfolding sample_block_def by blast
  obtain m\<^sub>2 where m2: "?start [] = Inr m\<^sub>2" "new_block (fn_manager m\<^sub>2) = empty_block True"
    "bm_blockchain (fn_manager m\<^sub>2) = sample_chain ?E" "in_time 70 ''P'' (fn_manager m\<^sub>2)"
    using sample_enters [of "\<lambda>_. 0" "\<lambda>_. 0" sample_input "[]" 70 "''P''"] unfolding empty_block_def by blast
  have "mergeable ?E (fn_manager m\<^sub>1) (fn_manager m\<^sub>2)"
    using hashes_differ [of True] empty_block_accepted [of True] sample_block_accepted [of True]
    by (simp add: mergeable_def Let_def m1 m2)
      (simp add: sample_block_def empty_block_def next_block_facts maps_agree_def values_unique_def)
  from nodes_agree_over_network [OF _ _ _ _ _ _ m1(1) m2(1) this _ _ m1(4) m2(4), of "[Baseline (sample_root ?E)]" 5 5]
  obtain m\<^sub>1' m\<^sub>2' e\<^sub>1 e\<^sub>2 where "transfer ?E (\<lambda>_. 0) 70 5 5 m\<^sub>1 m\<^sub>2 = Inr (m\<^sub>1', m\<^sub>2')"
    "transfer ?E (\<lambda>_. 0) 80 5 5 m\<^sub>2' m\<^sub>1' = Inr (e\<^sub>2, e\<^sub>1)" "new_block (fn_manager e\<^sub>1) = new_block (fn_manager e\<^sub>2)"
    "transactions (new_block (fn_manager e\<^sub>1)) = map_union (transactions (sample_block True 400000)) (transactions (empty_block True))"
    using sample_sendable sample_chain_inv [of True] by (auto simp: sample_full_node_facts m1(2) m2(2))
  moreover have "map_union (transactions (sample_block True 400000)) (transactions (empty_block True)) = [(tx_hash ?p, ?p)]"
    by (simp add: map_union_def sample_block_def empty_block_def next_block_facts)
  ultimately show ?thesis using m1(1) m2(1) by auto
qed

section \<open>Requests and answers\<close>

text \<open>Some messages given to the peer at \<open>r\<close>, and nothing else changed.\<close>

definition sent_to :: "peer_ref \<Rightarrow> bool \<Rightarrow> byte list list \<Rightarrow> P2PConnector \<Rightarrow> P2PConnector \<Rightarrow> bool" where
  "sent_to r own ms c c' \<longleftrightarrow> map_wf (connector_peers c') \<and>
     connector_peers c' = map (\<lambda>(k, p). (k, if k = r then fold (sendMessage own) ms p else p)) (connector_peers c) \<and>
     peer_sending_baseline_to c' = peer_sending_baseline_to c \<and> callback_log c' = callback_log c \<and>
     block_callbacks_registered c' = block_callbacks_registered c"

lemma getId_fold_send [simp]: "getId (fold (sendMessage own) ms p) = getId p"
  "peer_disconnected (fold (sendMessage own) ms p) = peer_disconnected p"
  by (induction ms arbitrary: p) simp_all

lemma isConnected_fold_send [simp]: "isConnected (fold (sendMessage own) ms p) = isConnected p"
  by (simp add: isConnected_def)

lemma sent_to_Nil: "map_wf (connector_peers c) \<Longrightarrow> sent_to r own [] c c"
  by (auto simp: sent_to_def intro!: map_idI [symmetric])

lemma sent_to_connected: "sent_to r own ms c c' \<Longrightarrow> getConnectedPeers c' = getConnectedPeers c"
  by (auto simp: sent_to_def getConnectedPeers_def filter_map comp_def case_prod_unfold intro!: arg_cong [where f = "map fst"] filter_cong)

lemma sent_to_find:
  "sent_to r own ms c c' \<Longrightarrow> map_find (connector_peers c') r = map_option (fold (sendMessage own) ms) (map_find (connector_peers c) r)"
  using map_find_map_snd [of "\<lambda>k p. if k = r then fold (sendMessage own) ms p else p"] by (simp add: sent_to_def)

lemma sent_to_snoc:
  assumes "sent_to r own ms c c'" "map_find (connector_peers c) r = Some p"
  shows "sent_to r own (ms @ [m]) c (at_peer r (sendMessage own m) c')"
proof -
  have f: "map_find (connector_peers c') r = Some (fold (sendMessage own) ms p)"
    using sent_to_find [OF assms(1)] assms(2) by simp
  have wf: "map_wf (connector_peers c')" using assms(1) unfolding sent_to_def by blast
  then have u: "y = fold (sendMessage own) ms p" if "(r, y) \<in> set (connector_peers c')" for y
    using that f map_find_eq_Some [OF wf, of r y] by simp
  let ?c = "at_peer r (sendMessage own m) c'"
  have "connector_peers ?c = map (\<lambda>(k, p). (k, if k = r then sendMessage own m p else p)) (connector_peers c')"
    using f u by (auto simp: at_peer_def map_put_present [OF wf f])
  moreover have "map_wf (connector_peers ?c)" using wf f by (simp add: at_peer_def wf_intros)
  moreover have "peer_sending_baseline_to ?c = peer_sending_baseline_to c'" "callback_log ?c = callback_log c'"
    "block_callbacks_registered ?c = block_callbacks_registered c'"
    using f by (simp_all add: at_peer_def)
  moreover have "map (\<lambda>(k, p). (k, if k = r then sendMessage own m p else p)) (connector_peers c') =
      map (\<lambda>(k, p). (k, if k = r then fold (sendMessage own) (ms @ [m]) p else p)) (connector_peers c)"
    using assms(1) by (auto simp: sent_to_def)
  ultimately show ?thesis using assms(1) unfolding sent_to_def by simp
qed

text \<open>After a tick the stream of an idle peer holds the messages in their order.\<close>

lemma fold_send_False: "fold (sendMessage False) ms p = p\<lparr>buffered_msgs := buffered_msgs p @ ms\<rparr>"
  by (induction ms arbitrary: p) (simp_all add: sendMessage_def)

lemma fold_send_True: "fold (sendMessage True) ms p = p\<lparr>m_send_buffer := m_send_buffer p @ concat (map frame ms)\<rparr>"
  by (induction ms arbitrary: p) (simp_all add: sendMessage_def sendMessageWithinSingleThread_frame)

lemma sent_stream:
  assumes "sendBufferEmpty p" "\<forall>m \<in> set ms. length m + 2 < 2 ^ 31"
  shows "deframe (m_send_buffer (tick (fold (sendMessage own) ms p))) = Some ms"
  using assms deframe_frames [OF assms(2)]
  by (cases own) (simp_all add: fold_send_True fold_send_False tick_frames sendBufferEmpty_def)

lemma sent_to_sending:
  assumes "sent_to r own ms (fn_connector n) (fn_connector n')" "linked_to r pid n" "\<forall>m \<in> set ms. length m + 2 < 2 ^ 31"
  shows "sending r pid ms n'"
proof -
  obtain p where p: "idle_peer r p (fn_connector n)" "getId p = pid" "\<not> peer_disconnected p"
    using assms(2) by (auto simp: linked_to_def)
  with sent_to_find [OF assms(1)] sent_stream [of p ms own] assms show ?thesis
    by (simp add: sending_def peer_stream_def idle_peer_def linked_to_def sent_to_def)
qed

text \<open>Asking when only one peer is connected.\<close>

lemma perform_asks:
  assumes "sent_to r False ms c c'" "getConnectedPeers c = [r]" "idle_peer r p c"
  shows "sent_to r False (ms @ map (msg_AskForBlock (host_le E)) uids) c (perform_calls E rnd (map askForBlock_call uids) c')"
  using assms
proof (induction uids arbitrary: ms c' rnd)
  case (Cons uid uids)
  have s: "peer_sending_baseline_to c' \<noteq> Some r" "map_find (connector_peers c) r = Some p"
    using Cons.prems(1,3) by (auto simp: sent_to_def idle_peer_def)
  have "askForBlock E (rnd 0) uid c' = at_peer r (sendMessage False (msg_AskForBlock (host_le E) uid)) c'"
    using s(1) Cons.prems(2) by (auto simp: askForBlock_def ask_random_def sent_to_connected [OF Cons.prems(1)])
  then have "sent_to r False (ms @ [msg_AskForBlock (host_le E) uid]) c (askForBlock E (rnd 0) uid c')"
    using sent_to_snoc [OF Cons.prems(1) s(2)] by simp
  from Cons.IH [OF this Cons.prems(2,3)] show ?case by (simp add: perform_call_def)
qed simp

text \<open>The asked node answers from its chain; its manager takes no part.\<close>

lemma node_receive_request:
  assumes "map_find (connector_peers (fn_connector n)) r = Some p" "peer_sending_baseline_to (fn_connector n) \<noteq> Some r"
    and "getBlock E (bm_blockchain (fn_manager n)) uid = Inr (Some b)" "block_ok b"
  shows "node_receive E rnd now r (msg_AskForBlock le uid) n =
    Inr (n\<lparr>fn_connector := at_peer r (sendMessage True (msg_block (host_le E) b True)) (fn_connector n)\<rparr>)"
proof -
  let ?c = "at_peer r (sendMessage True (msg_block (host_le E) b True)) (fn_connector n)"
  have "receivedMessage E (bm_blockchain (fn_manager n)) r (msg_AskForBlock le uid) (fn_connector n) = Inr ?c"
  proof (rule receivedMessage_parsed [OF assms(1)])
    show "parse_message E (bm_blockchain (fn_manager n)) r p (msg_AskForBlock le uid) (fn_connector n) = Inr ?c"
      unfolding msg_AskForBlock_def parse_message_head
      using assms(2-4) by (subst handle_AskForBlock) (auto simp: answer_block_msg)
  qed
  moreover have "callback_log ?c = callback_log (fn_connector n)" by (simp add: at_peer_def split: option.split)
  ultimately show ?thesis by (simp add: node_receive_def)
qed

lemma node_receive_requests:
  assumes "sent_to r True ms c (fn_connector n)" "idle_peer r p c"
    and "\<forall>uid \<in> set uids. getBlock E (bm_blockchain (fn_manager n)) uid = Inr (Some (blk uid)) \<and> block_ok (blk uid)"
  shows "\<exists>n'. node_receive_all E rnd now r (map (msg_AskForBlock le) uids) n = Inr n' \<and> fn_manager n' = fn_manager n \<and>
    sent_to r True (ms @ map (\<lambda>uid. msg_block (host_le E) (blk uid) True) uids) c (fn_connector n')"
  using assms
proof (induction uids arbitrary: ms n)
  case (Cons uid uids)
  let ?n = "n\<lparr>fn_connector := at_peer r (sendMessage True (msg_block (host_le E) (blk uid) True)) (fn_connector n)\<rparr>"
  have c: "map_find (connector_peers c) r = Some p" "peer_sending_baseline_to (fn_connector n) \<noteq> Some r"
    using Cons.prems(1,2) by (auto simp: idle_peer_def sent_to_def)
  then have f: "map_find (connector_peers (fn_connector n)) r = Some (fold (sendMessage True) ms p)"
    using sent_to_find [OF Cons.prems(1)] by simp
  have "node_receive E rnd now r (msg_AskForBlock le uid) n = Inr ?n"
    using Cons.prems(3) by (intro node_receive_request [OF f c(2)]) simp_all
  then show ?case
    using Cons.IH [of "ms @ [msg_block (host_le E) (blk uid) True]" ?n] sent_to_snoc [OF Cons.prems(1) c(1)] Cons.prems(2,3)
    by simp
qed auto

text \<open>The fetching node hands the answers to its agents.\<close>

lemma node_receive_answers:
  assumes "map_find (connector_peers (fn_connector n)) r = Some p" "getId p = pid" "block_callbacks_registered (fn_connector n)"
    and "current_state (fn_manager n) = FetchBlockchain" "\<forall>b \<in> set bs. collection_ok b"
  shows "\<exists>n'. node_receive_all E rnd now r (map (\<lambda>b. msg_CollectionBlock le b True) bs) n = Inr n' \<and>
    fn_manager n' = deliver (map (Pair pid) bs) (fn_manager n)"
  using assms
proof (induction bs arbitrary: n)
  case (Cons b bs)
  let ?c = "(fn_connector n)\<lparr>callback_log := callback_log (fn_connector n) @ [CollectionReceived pid b True]\<rparr>"
  let ?m = "fetch_blockReceived_collection pid b True (fn_manager n)"
  have "receivedMessage E (bm_blockchain (fn_manager n)) r (msg_CollectionBlock le b True) (fn_connector n) = Inr ?c"
    using Cons.prems received_CollectionBlock [OF Cons.prems(1,3), of b E "bm_blockchain (fn_manager n)" le True] by simp
  moreover have m: "p2p_calls ?m = p2p_calls (fn_manager n)" "peers_monitor ?m = peers_monitor (fn_manager n)"
    "current_state ?m = current_state (fn_manager n)"
    by (simp_all add: fetch_blockReceived_collection_def Let_def split: option.split)
  have "deliver_callback E now (CollectionReceived pid b True) (fn_manager n) = Inr ?m"
    using Cons.prems(4)
    by (simp add: deliver_callback_def collectionBlockReceivedCallback_def pm_blockReceivedCallback_def)
  then have "manager_op E rnd (deliver_callback E now (CollectionReceived pid b True)) (n\<lparr>fn_connector := ?c\<rparr>) =
      Inr \<lparr>fn_manager = ?m, fn_connector = ?c\<rparr>"
    using m by (subst manager_op_calls [where calls = "[]"]) simp_all
  ultimately have "node_receive E rnd now r (msg_CollectionBlock le b True) n = Inr \<lparr>fn_manager = ?m, fn_connector = ?c\<rparr>"
    by (simp add: node_receive_def)
  then show ?case
    using Cons.IH [of "\<lparr>fn_manager = ?m, fn_connector = ?c\<rparr>"] Cons.prems m(3) by (simp add: deliver_def)
qed (simp add: deliver_def)

section \<open>Fetching over the network\<close>

definition due_ids :: "blockchain_time_t \<Rightarrow> (block_uid_t, CollectionBlock BlockFetchAgent) std_map \<Rightarrow> block_uid_t list" where
  "due_ids now agents = map (\<lambda>(v, a). agent_block_id a) (filter (\<lambda>(v, a). next_fetch_time a \<le> now) agents)"

lemma cycle_agents_calls: "fst (cycle_agents now agents) = map askForBlock_call (due_ids now agents)"
  by (induction now agents rule: cycle_agents.induct)
    (simp_all add: due_ids_def agent_onCycle_collection_def case_prod_unfold)

definition agents_of :: "'ctx full_node \<Rightarrow> (block_uid_t, CollectionBlock BlockFetchAgent) std_map" where
  "agents_of n = block_fetch_agent_map (cycle_state_fetch (fn_manager n))"

text \<open>A cycle of the fetch state with its requests, when one peer is connected.\<close>

lemma fetch_cycle_asks:
  assumes "current_state (fn_manager n) = FetchBlockchain" "baseline_block_fetch_agent (cycle_state_fetch (fn_manager n)) = None"
    and "linked_to r pid n" "getConnectedPeers (fn_connector n) = [r]" "map_wf (connector_peers (fn_connector n))"
  shows "\<exists>n'. manager_op E rnd (\<lambda>m. state_onCycle E i (current_state m) m) n = Inr n' \<and>
    current_state (fn_manager n') = FetchBlockchain \<and>
    agents_of n' = map (\<lambda>(v, a). (v, snd (agent_onCycle_collection (in_now i) a))) (agents_of n) \<and>
    sent_to r False (map (msg_AskForBlock (host_le E)) (due_ids (in_now i) (agents_of n))) (fn_connector n) (fn_connector n')"
proof -
  let ?m = "snd (fetch_onCycle (in_now i) (fn_manager n))" and ?calls = "map askForBlock_call (due_ids (in_now i) (agents_of n))"
  have m: "p2p_calls ?m = p2p_calls (fn_manager n) @ ?calls" "peers_monitor ?m = peers_monitor (fn_manager n)"
    "current_state ?m = FetchBlockchain"
    "block_fetch_agent_map (cycle_state_fetch ?m) = map (\<lambda>(v, a). (v, snd (agent_onCycle_collection (in_now i) a))) (agents_of n)"
    using assms(1,2) cycle_agents_calls [of "in_now i" "agents_of n"] cycle_agents_eq [of "in_now i" "agents_of n"]
    by (simp_all add: fetch_onCycle_def Let_def bm_call_def agents_of_def case_prod_unfold)
  obtain p where p: "idle_peer r p (fn_connector n)" using assms(3) by (auto simp: linked_to_def)
  have "manager_op E rnd (\<lambda>m. state_onCycle E i (current_state m) m) n =
      Inr \<lparr>fn_manager = ?m, fn_connector = perform_calls E rnd ?calls (fn_connector n)\<rparr>"
    using assms(1) m(1,2) by (intro manager_op_calls) (simp_all add: state_onCycle_def)
  with m(3,4) perform_asks [OF sent_to_Nil [OF assms(5)] assms(4) p, of E "due_ids (in_now i) (agents_of n)" rnd]
  show ?thesis by (simp add: agents_of_def)
qed

lemma take_in_among:
  assumes "\<forall>y \<in> set msgs. uid_of (snd y) = v \<longrightarrow> y = x" "received_block a \<in> {None, Some x}"
  shows "received_block (take_in v msgs a) \<in> {None, Some x}"
  using assms
proof (induction msgs arbitrary: a)
  case (Cons y msgs)
  let ?a = "if uid_of (snd y) = v then agent_blockReceivedCallback (fst y) (snd y) a else a"
  have "received_block ?a \<in> {None, Some x}" using Cons.prems by (auto simp: agent_blockReceivedCallback_def)
  moreover have "take_in v (y # msgs) a = take_in v msgs ?a" by (simp add: take_in_def case_prod_unfold)
  ultimately show ?case using Cons.IH [of ?a] Cons.prems(1) by simp
qed (simp add: take_in_def)

lemma take_in_only:
  assumes "agent_block_id a = v" "received_block a = None" "\<forall>y \<in> set msgs. uid_of (snd y) = v \<longrightarrow> y = x"
    and "x \<in> set msgs" "uid_of (snd x) = v"
  shows "received_block (take_in v msgs a) = Some x"
proof -
  have "received_block (take_in v msgs a) \<noteq> None"
    using assms(4,5) by (intro take_in_received [OF assms(1)]) (metis prod.collapse)
  then show ?thesis using take_in_among [OF assms(3), of a] assms(2) by auto
qed

text \<open>The node stores this collection block under the id, and its answer is a message of a length that fits.\<close>

definition serves :: "'ctx env \<Rightarrow> 'ctx full_node \<Rightarrow> block_uid_t \<Rightarrow> CollectionBlock \<Rightarrow> bool" where
  "serves E n uid b \<longleftrightarrow> getBlock E (bm_blockchain (fn_manager n)) uid = Inr (Some (Collection b)) \<and> uid_of b = uid \<and>
     block_ok (Collection b) \<and> length (msg_CollectionBlock (host_le E) b True) + 2 < 2 ^ 31"

lemma due_ids_keys:
  "\<forall>(v, a) \<in> set agents. agent_block_id a = v \<Longrightarrow> set (due_ids now agents) = fst ` {(v, a) \<in> set agents. next_fetch_time a \<le> now}"
  by (force simp: due_ids_def image_iff)

text \<open>The requests reach the other node and its answers come back.\<close>

lemma answers_return:
  assumes "linked_to r\<^sub>2 pid\<^sub>1 n\<^sub>2" "map_wf (connector_peers (fn_connector n\<^sub>2))" "\<forall>uid \<in> set uids. serves E\<^sub>2 n\<^sub>2 uid (blk uid)"
    and "sending r\<^sub>1 pid\<^sub>2 (map (msg_AskForBlock le) uids) m\<^sub>1" "current_state (fn_manager m\<^sub>1) = FetchBlockchain"
  shows "\<exists>m\<^sub>2 e\<^sub>1 e\<^sub>2. transfer E\<^sub>2 rnd\<^sub>2 now\<^sub>2 r\<^sub>1 r\<^sub>2 m\<^sub>1 n\<^sub>2 = Inr (transmitted r\<^sub>1 m\<^sub>1, m\<^sub>2) \<and>
    transfer E\<^sub>1 rnd\<^sub>1 now\<^sub>1 r\<^sub>2 r\<^sub>1 m\<^sub>2 (transmitted r\<^sub>1 m\<^sub>1) = Inr (e\<^sub>2, e\<^sub>1) \<and>
    fn_manager e\<^sub>1 = deliver (map (\<lambda>uid. (pid\<^sub>2, blk uid)) uids) (fn_manager m\<^sub>1)"
proof -
  obtain q where q: "idle_peer r\<^sub>2 q (fn_connector n\<^sub>2)" using assms(1) by (auto simp: linked_to_def)
  obtain m\<^sub>2 where m2: "node_receive_all E\<^sub>2 rnd\<^sub>2 now\<^sub>2 r\<^sub>2 (map (msg_AskForBlock le) uids) n\<^sub>2 = Inr m\<^sub>2"
    "sent_to r\<^sub>2 True (map (\<lambda>uid. msg_CollectionBlock (host_le E\<^sub>2) (blk uid) True) uids) (fn_connector n\<^sub>2) (fn_connector m\<^sub>2)"
    using node_receive_requests [OF sent_to_Nil [OF assms(2)] q, where E = E\<^sub>2 and uids = uids and rnd = rnd\<^sub>2
        and now = now\<^sub>2 and le = le and blk = "\<lambda>uid. Collection (blk uid)"] assms(3)
    by (auto simp: serves_def)
  have "sending r\<^sub>2 pid\<^sub>1 (map (\<lambda>uid. msg_CollectionBlock (host_le E\<^sub>2) (blk uid) True) uids) m\<^sub>2"
    using sent_to_sending [OF m2(2) assms(1)] assms(3) by (auto simp: serves_def)
  then have s: "peer_stream r\<^sub>2 m\<^sub>2 = Some (map (\<lambda>b. msg_CollectionBlock (host_le E\<^sub>2) b True) (map blk uids))"
    by (simp add: sending_def comp_def)
  obtain p where p: "map_find (connector_peers (fn_connector (transmitted r\<^sub>1 m\<^sub>1))) r\<^sub>1 = Some p" "getId p = pid\<^sub>2"
    "block_callbacks_registered (fn_connector (transmitted r\<^sub>1 m\<^sub>1))"
    using transmitted_sending [OF assms(4)] by (auto simp: sending_def)
  obtain e\<^sub>1 where e1: "node_receive_all E\<^sub>1 rnd\<^sub>1 now\<^sub>1 r\<^sub>1 (map (\<lambda>b. msg_CollectionBlock (host_le E\<^sub>2) b True) (map blk uids))
      (transmitted r\<^sub>1 m\<^sub>1) = Inr e\<^sub>1" "fn_manager e\<^sub>1 = deliver (map (Pair pid\<^sub>2) (map blk uids)) (fn_manager m\<^sub>1)"
    using node_receive_answers [OF p, where E = E\<^sub>1 and bs = "map blk uids" and rnd = rnd\<^sub>1 and now = now\<^sub>1 and le = "host_le E\<^sub>2"]
      assms(3,5) by (auto simp: serves_def)
  from m2(1) e1 s assms(4) show ?thesis by (simp add: transfer_def sending_def comp_def)
qed

text \<open>
  C8: a fetching node gets the blocks it asks for. In a cycle of the fetch state every agent whose time
  has come asks its only connected peer; the requests arrive, the peer answers each from its chain, and
  once the answers have arrived every such agent that had no block holds the block of its id that the peer
  stores, as received from that peer, whatever the two endiannesses. The peer stores a collection block for
  the id of every agent, each of less than \<open>2 ^ 31\<close> bytes as a message (a longer one ends the connection), the
  connection is idle, and the node is not fetching a baseline at the same time.
\<close>

theorem requested_blocks_fetched:
  assumes "current_state (fn_manager n\<^sub>1) = FetchBlockchain" "baseline_block_fetch_agent (cycle_state_fetch (fn_manager n\<^sub>1)) = None"
    and "map_wf (agents_of n\<^sub>1)" "\<forall>(v, a) \<in> set (agents_of n\<^sub>1). agent_block_id a = v"
    and "linked_to r\<^sub>1 pid\<^sub>2 n\<^sub>1" "getConnectedPeers (fn_connector n\<^sub>1) = [r\<^sub>1]" "map_wf (connector_peers (fn_connector n\<^sub>1))"
    and "linked_to r\<^sub>2 pid\<^sub>1 n\<^sub>2" "map_wf (connector_peers (fn_connector n\<^sub>2))"
    and "\<forall>(v, a) \<in> set (agents_of n\<^sub>1). serves E\<^sub>2 n\<^sub>2 v (blk v)"
  shows "\<exists>m\<^sub>1 m\<^sub>1' m\<^sub>2 e\<^sub>1 e\<^sub>2. manager_op E\<^sub>1 rnd\<^sub>1 (\<lambda>m. state_onCycle E\<^sub>1 i (current_state m) m) n\<^sub>1 = Inr m\<^sub>1 \<and>
    transfer E\<^sub>2 rnd\<^sub>2 now\<^sub>2 r\<^sub>1 r\<^sub>2 m\<^sub>1 n\<^sub>2 = Inr (m\<^sub>1', m\<^sub>2) \<and> transfer E\<^sub>1 rnd\<^sub>1 now\<^sub>1 r\<^sub>2 r\<^sub>1 m\<^sub>2 m\<^sub>1' = Inr (e\<^sub>2, e\<^sub>1) \<and>
    (\<forall>(v, a) \<in> set (agents_of n\<^sub>1). next_fetch_time a \<le> in_now i \<longrightarrow> received_block a = None \<longrightarrow>
       map_option received_block (map_find (agents_of e\<^sub>1) v) = Some (Some (pid\<^sub>2, blk v)))"
proof -
  let ?uids = "due_ids (in_now i) (agents_of n\<^sub>1)" and ?msgs = "map (\<lambda>v. (pid\<^sub>2, blk v)) (due_ids (in_now i) (agents_of n\<^sub>1))"
  let ?cyc = "\<lambda>a. snd (agent_onCycle_collection (in_now i) a)"
  obtain m\<^sub>1 where m1: "manager_op E\<^sub>1 rnd\<^sub>1 (\<lambda>m. state_onCycle E\<^sub>1 i (current_state m) m) n\<^sub>1 = Inr m\<^sub>1"
    "current_state (fn_manager m\<^sub>1) = FetchBlockchain" "agents_of m\<^sub>1 = map (\<lambda>(v, a). (v, ?cyc a)) (agents_of n\<^sub>1)"
    "sent_to r\<^sub>1 False (map (msg_AskForBlock (host_le E\<^sub>1)) ?uids) (fn_connector n\<^sub>1) (fn_connector m\<^sub>1)"
    using fetch_cycle_asks [OF assms(1,2,5,6,7)] by blast
  have s: "sending r\<^sub>1 pid\<^sub>2 (map (msg_AskForBlock (host_le E\<^sub>1)) ?uids) m\<^sub>1"
    using sent_to_sending [OF m1(4) assms(5)] by auto
  note keys = due_ids_keys [OF assms(4), of "in_now i"]
  then have "\<forall>v \<in> set ?uids. serves E\<^sub>2 n\<^sub>2 v (blk v)" using assms(10) by auto
  from answers_return [OF assms(8,9) this s m1(2)]
  obtain m\<^sub>2 e\<^sub>1 e\<^sub>2 where t: "transfer E\<^sub>2 rnd\<^sub>2 now\<^sub>2 r\<^sub>1 r\<^sub>2 m\<^sub>1 n\<^sub>2 = Inr (transmitted r\<^sub>1 m\<^sub>1, m\<^sub>2)"
    "transfer E\<^sub>1 rnd\<^sub>1 now\<^sub>1 r\<^sub>2 r\<^sub>1 m\<^sub>2 (transmitted r\<^sub>1 m\<^sub>1) = Inr (e\<^sub>2, e\<^sub>1)" "fn_manager e\<^sub>1 = deliver ?msgs (fn_manager m\<^sub>1)"
    by blast
  have "map_wf (agents_of m\<^sub>1)" using assms(3) by (simp add: m1(3) map_wf_def case_prod_unfold comp_def)
  then have e: "agents_of e\<^sub>1 = map (\<lambda>(v, a). (v, take_in v ?msgs (?cyc a))) (agents_of n\<^sub>1)"
    using m1(3) by (simp add: agents_of_def t(3) deliver_agents comp_def case_prod_unfold)
  have "map_option received_block (map_find (agents_of e\<^sub>1) v) = Some (Some (pid\<^sub>2, blk v))"
    if va: "(v, a) \<in> set (agents_of n\<^sub>1)" "next_fetch_time a \<le> in_now i" "received_block a = None" for v a
  proof -
    have "uid_of (blk w) = w" if "w \<in> set ?uids" for w using that keys assms(10) by (auto simp: serves_def)
    moreover have "v \<in> set ?uids" using keys va(1,2) by force
    ultimately have "received_block (take_in v ?msgs (?cyc a)) = Some (pid\<^sub>2, blk v)"
      using va assms(4) by (intro take_in_only) (auto simp: agent_onCycle_collection_def)
    moreover have "map_find (agents_of n\<^sub>1) v = Some a" using va(1) map_find_eq_Some [OF assms(3)] by blast
    ultimately show ?thesis by (simp add: e map_find_map_snd)
  qed
  then show ?thesis using m1(1) t(1,2) by blast
qed

subsection \<open>A block fetched on the small chain\<close>

lemma sample_stored:
  "\<exists>bc. getBlock (sample_env True) bc 2 = Inr (Some (Collection (sample_block True 400000)))"
proof -
  let ?E = "sample_env True" and ?b = "sample_block True 400000"
  have "baseline_inv ?E (current_baseline (sample_chain ?E))" using sample_chain_inv [of True] by (simp add: chain_inv_def)
  moreover have "NDEBUG ?E" by (simp add: sample_env_def)
  ultimately obtain b' where "updateBaseline ?E (uid_of ?b) ?b (current_baseline (sample_chain ?E)) = Inr b'"
    using updateBaseline_release by blast
  from accepted_add_chain_inv [OF sample_chain_inv sample_block_accepted sample_block_capacity sample_block_collision_free this]
  obtain bc where "chain_rep ?E bc ([Baseline (sample_root ?E)] @ [Collection ?b])" by (auto simp: chain_inv_def)
  from chain_rep_newest(1,3) [OF this] getMetaData_rep [OF this] show ?thesis
    by (auto simp: getNewestBlock_def sample_block_def next_block_facts)
qed

definition sample_fetching_node :: "byte list full_node" where
  "sample_fetching_node =
     \<lparr>fn_manager = sample_manager\<lparr>current_state := FetchBlockchain,
        cycle_state_fetch := (cycle_state_fetch sample_manager)\<lparr>baseline_block_fetch_agent := None,
          block_fetch_agent_map := [(2, BlockFetchAgent_new 0 2 default_fetch_timeout_ms)]\<rparr>\<rparr>,
      fn_connector = sample_connector\<rparr>"

definition sample_serving_node :: "Blockchain \<Rightarrow> byte list full_node" where
  "sample_serving_node bc = \<lparr>fn_manager = sample_manager\<lparr>bm_blockchain := bc\<rparr>, fn_connector = sample_connector\<rparr>"

theorem requested_blocks_fetched_witness:
  "\<exists>bc m\<^sub>1 m\<^sub>1' m\<^sub>2 e\<^sub>1 e\<^sub>2. manager_op (sample_env True) (\<lambda>_. 0) (\<lambda>m. state_onCycle (sample_env True) sample_input (current_state m) m)
      sample_fetching_node = Inr m\<^sub>1 \<and>
    transfer (sample_env True) (\<lambda>_. 0) 70 5 5 m\<^sub>1 (sample_serving_node bc) = Inr (m\<^sub>1', m\<^sub>2) \<and>
    transfer (sample_env True) (\<lambda>_. 0) 80 5 5 m\<^sub>2 m\<^sub>1' = Inr (e\<^sub>2, e\<^sub>1) \<and>
    map_option received_block (map_find (agents_of e\<^sub>1) 2) = Some (Some (''P'', sample_block True 400000))"
proof -
  let ?E = "sample_env True" and ?b = "sample_block True 400000"
  obtain bc where bc: "getBlock ?E bc 2 = Inr (Some (Collection ?b))" using sample_stored by blast
  have "serves ?E (sample_serving_node bc) 2 ?b"
    using bc sample_sendable(1) by (simp add: serves_def sample_serving_node_def sendable_def msg_CollectionBlock_def save_bool_def saveBinary_def)
      (simp add: sample_block_def next_block_facts)
  then have "\<forall>(v, a) \<in> set (agents_of sample_fetching_node). serves ?E (sample_serving_node bc) v ((\<lambda>_. ?b) v)"
    by (simp add: agents_of_def sample_fetching_node_def)
  moreover have "current_state (fn_manager sample_fetching_node) = FetchBlockchain"
    "baseline_block_fetch_agent (cycle_state_fetch (fn_manager sample_fetching_node)) = None"
    "agents_of sample_fetching_node = [(2, BlockFetchAgent_new 0 2 default_fetch_timeout_ms)]"
    "fn_connector sample_fetching_node = sample_connector" "fn_connector (sample_serving_node bc) = sample_connector"
    by (simp_all add: agents_of_def sample_fetching_node_def sample_serving_node_def)
  moreover from this(4,5) have "linked_to 5 ''P'' sample_fetching_node" "linked_to 5 ''P'' (sample_serving_node bc)"
    by (auto intro: sample_connector_linked)
  ultimately have "\<exists>m\<^sub>1 m\<^sub>1' m\<^sub>2 e\<^sub>1 e\<^sub>2. manager_op ?E (\<lambda>_. 0) (\<lambda>m. state_onCycle ?E sample_input (current_state m) m)
      sample_fetching_node = Inr m\<^sub>1 \<and> transfer ?E (\<lambda>_. 0) 70 5 5 m\<^sub>1 (sample_serving_node bc) = Inr (m\<^sub>1', m\<^sub>2) \<and>
    transfer ?E (\<lambda>_. 0) 80 5 5 m\<^sub>2 m\<^sub>1' = Inr (e\<^sub>2, e\<^sub>1) \<and>
    map_option received_block (map_find (agents_of e\<^sub>1) 2) = Some (Some (''P'', ?b))"
    using requested_blocks_fetched [of sample_fetching_node 5 "''P''" 5 "''P''" "sample_serving_node bc" ?E "\<lambda>_. ?b" ?E "\<lambda>_. 0" sample_input
        "\<lambda>_. 0" 70 80] sample_connector_linked(2) sample_connector_facts(3)
    by (simp add: map_wf_def BlockFetchAgent_new_def)
  then show ?thesis by blast
qed

end
