(* ===== verification/Message_Safety.thy ===== *)
theory Message_Safety
  imports Network
begin

text \<open>
  No message stops a node. \<open>receivedMessage\<close> of src/src/scn/P2PConnector/P2PConnector.cpp together with
  the callbacks it runs: those of src/src/scn/BlockchainManager/BlockchainManager.cpp and of its states,
  of the peers monitor and of the active peers collector. In the source the callbacks run inside the
  \<open>try\<close> block. None of them has an exception in the model (their failures are memory errors, which no
  handler catches), so that \<open>node_receive\<close> runs them after it.
\<close>

section \<open>The files of a chain stay readable\<close>

lemma files_readable_disk: "disk c' = disk c \<Longrightarrow> files_readable E c' = files_readable E c"
  by (simp add: files_readable_def)

lemma files_readable_empty: "files_readable E (Cache_new Map.empty)"
  by (simp add: files_readable_def Cache_new_def)

lemma files_readable_reset:
  assumes "files_readable E c"
  shows "files_readable E (resetCache r c)"
proof -
  have "unat r < 2 ^ 64" using unsigned_less [of r, where 'a = nat] by simp
  with assms show ?thesis by (auto simp: files_readable_def resetCache_def remove_files_eq split: if_splits)
qed

lemma files_readable_add: "cache_addBlock E b c = Inr (i, c') \<Longrightarrow> files_readable E c' = files_readable E c"
  by (rule files_readable_disk) (auto simp: cache_addBlock_def Let_def res_simps)

lemma files_readable_write: "block_ok b \<Longrightarrow> files_readable E c \<Longrightarrow> files_readable E (writeBlockToDisk E b c)"
  by (simp add: files_readable_def writeBlockToDisk_def parseBlock_block_file)

lemma files_readable_thread:
  assumes "cache_inv c" "files_readable E c" "cacheThread_iteration E c = Inr c'"
  shows "files_readable E c'"
proof (cases "ct_select c")
  case (Some b)
  have "block_ok b" using ct_select_cached [OF assms(1) Some] cache_inv_find [OF assms(1)] by blast
  then show ?thesis
    using Some assms(2,3) ct_write_ok [of b E c] files_readable_write [of b E c]
    by (auto simp: cacheThread_iteration_def ct_erase_def cong: files_readable_disk)
qed (use assms in \<open>simp add: cacheThread_iteration_def\<close>)

lemma chain_cache_setMetaData [simp]: "chain_cache (setMetaData E meta bc) = chain_cache bc"
  by (simp add: setMetaData_def)

lemma chain_cache_add: "addBlock_collection E block bc = Inr (i, bc') \<Longrightarrow>
    cache_addBlock E (Collection block) (chain_cache bc) = Inr (i, chain_cache bc')"
  by (auto simp: addBlock_collection_def updateCurrentBaseline_def Let_def res_simps)

lemma setRootBlock_files:
  assumes "setRootBlock E b bc = Inr bc'" "files_readable E (chain_cache bc)"
  shows "files_readable E (chain_cache bc')"
  using assms files_readable_reset [OF assms(2)]
  by (auto simp: setRootBlock_def addBlock_baseline_def Let_def res_simps files_readable_add split: if_splits)

lemma establishBaseline_files:
  assumes "establishBaseline E bc = Inr (i, bc')" "files_readable E (chain_cache bc)"
  shows "files_readable E (chain_cache bc')"
  using assms files_readable_reset [OF assms(2)]
  by (auto simp: establishBaseline_def Let_def res_simps files_readable_add)

lemma chain_step_files:
  assumes "chain_step E bc bc'" "stored_inv E bc bs" "files_readable E (chain_cache bc)"
  shows "files_readable E (chain_cache bc')"
  using assms
proof (cases rule: chain_step.cases)
  case (accept block bc1 i)
  with assms(3) show ?thesis
    using files_readable_add [OF chain_cache_add [OF accept(4)]] validateBlock_collection_wallets [OF accept(1)] by auto
next
  case (reject block)
  then show ?thesis using validateBlock_collection_wallets [OF reject] assms(3) by auto
next
  case (cache_thread c)
  then show ?thesis using assms(2,3) files_readable_thread [of "chain_cache bc"] by (simp add: stored_inv_def chain_rep_def)
qed (use assms(3) setRootBlock_files establishBaseline_files in blast)+

lemma reachable_files:
  assumes "(chain_step E)\<^sup>*\<^sup>* bc bc'" "stored_inv E bc bs" "files_readable E (chain_cache bc)"
  shows "files_readable E (chain_cache bc')"
  using assms
proof (induction rule: rtranclp_induct)
  case (step y z)
  obtain bs' where "stored_inv E y bs'" using reachable_chain_inv [OF step.hyps(1)] step.prems(1) by blast
  with step show ?case using chain_step_files by blast
qed

lemma Blockchain_new_files:
  assumes "Blockchain_new E Map.empty meta = Inr bc"
  shows "files_readable E (chain_cache bc)"
  using assms by (auto simp: Blockchain_new_def initEmptyChain_def res_simps files_readable_empty elim!: setRootBlock_files)

section \<open>The callbacks return\<close>

text \<open>What a callback for a block of the peer \<open>pid\<close> leaves as it is.\<close>

definition settled :: "'ctx env \<Rightarrow> block list \<Rightarrow> peer_id_t \<Rightarrow> 'ctx BlockchainManager \<Rightarrow> 'ctx BlockchainManager \<Rightarrow> bool" where
  "settled E bs pid m m' \<longleftrightarrow> chain_inv E (bm_blockchain m') bs \<and>
     chain_cache (bm_blockchain m') = chain_cache (bm_blockchain m) \<and> current_state m' = current_state m \<and>
     p2p_calls m' = p2p_calls m \<and>
     (\<exists>k. banned (peers_monitor m') = banned (peers_monitor m) @ replicate k pid)"

lemma settled_refl: "chain_inv E (bm_blockchain m) bs \<Longrightarrow> settled E bs pid m m"
  by (auto simp: settled_def intro: exI [of _ 0])

lemma settled_trans: "settled E bs pid m m' \<Longrightarrow> settled E bs pid m' m'' \<Longrightarrow> settled E bs pid m m''"
  by (auto simp: settled_def simp flip: replicate_add)

lemma reported_once: "\<exists>k. banned (reportViolation pid pm) = banned pm @ replicate k pid"
  by (cases "violations pid pm + 1 > 3") (auto simp: reportViolation_banned intro: exI [of _ 0] exI [of _ 1])

lemma settled_report: "settled E bs pid m m' \<Longrightarrow> settled E bs pid m (bm_report pid m')"
  using reported_once [of pid "peers_monitor m'"]
  by (auto simp: settled_def bm_report_def simp flip: replicate_add)

lemma settled_monitor:
  assumes "settled E bs pid m m'"
  shows "settled E bs pid m (m'\<lparr>peers_monitor := pm_blockReceivedCallback now pid b r (peers_monitor m')\<rparr>)"
proof -
  have "\<exists>k. banned (pm_blockReceivedCallback now pid b r (peers_monitor m')) = banned (peers_monitor m') @ replicate k pid"
    using reported_once [of pid "(peers_monitor m')\<lparr>peer_message_history := map_put pid [] (peer_message_history (peers_monitor m'))\<rparr>"]
    by (auto simp: pm_blockReceivedCallback_def Let_def intro: exI [of _ 0])
  with assms show ?thesis by (auto simp: settled_def simp flip: replicate_add)
qed

lemma merge_block_total: "\<exists>m'. merge_block E b m = Inr m' \<and> bm_blockchain m' = bm_blockchain m \<and> current_state m' = current_state m"
proof -
  obtain ts tc where ts: "fold (merge_transaction (num_propagations_in_current_cycle (cycle_state_introduce_block m))) (transactions b)
      (transactions (new_block m), transaction_sub_block_counter (cycle_state_introduce_block m)) = (ts, tc)" by fastforce
  obtain cs cc where cs: "fold (merge_creation (getMiningState (bm_blockchain m)) (num_propagations_in_current_cycle (cycle_state_introduce_block m)))
      (creations b) (creations (new_block m), creation_sub_block_counter (cycle_state_introduce_block m)) = (cs, cc)" by fastforce
  obtain h where "rehash E ((new_block m)\<lparr>transactions := ts, creations := cs\<rparr>) =
      Inr (set_hash h ((new_block m)\<lparr>transactions := ts, creations := cs\<rparr>))" using rehash_total by blast
  then show ?thesis by (simp add: merge_block_def Let_def ts cs)
qed

lemma verdict_total:
  assumes "chain_inv E bc bs" "signatures_present b"
  shows "\<exists>v w. (case x of Some v \<Rightarrow> Inr (v, bc) | None \<Rightarrow> validateBlock_collection E bc b) =
      Inr (v, bc\<lparr>current_baseline := (current_baseline bc)\<lparr>wallets := w\<rparr>\<rparr>) \<and>
    chain_inv E (bc\<lparr>current_baseline := (current_baseline bc)\<lparr>wallets := w\<rparr>\<rparr>) bs"
proof (cases x)
  case None
  have i: "baseline_inv E (current_baseline bc)" and n: "newest_header E bc = Inr (base_header (last bs))"
    using assms(1) chain_rep_newest(2) [of E bc bs] by (auto simp: chain_inv_def)
  obtain v bc' where v: "validateBlock_collection E bc b = Inr (v, bc')"
    using validateBlock_collection_total [OF n assms(2)] by blast
  from validateBlock_collection_frame [OF v i] show ?thesis using None v assms(1) by (auto simp: chain_inv_def)
next
  case (Some v)
  with assms(1) show ?thesis by (intro exI [of _ v] exI [of _ "wallets (current_baseline bc)"]) simp
qed

lemma process_block_total:
  assumes chain: "chain_inv E (bm_blockchain m) bs" and sig: "signatures_present b"
  shows "\<exists>m'. process_block E pid b m = Inr m' \<and> settled E bs pid m m'"
proof -
  let ?st = "cycle_state_introduce_block m" and ?bc = "bm_blockchain m"
  obtain v w where v: "(case map_find (processed_blocks ?st) (hash_of b) of Some v \<Rightarrow> Inr (v, ?bc)
      | None \<Rightarrow> validateBlock_collection E ?bc b) = Inr (v, ?bc\<lparr>current_baseline := (current_baseline ?bc)\<lparr>wallets := w\<rparr>\<rparr>)"
    "chain_inv E (?bc\<lparr>current_baseline := (current_baseline ?bc)\<lparr>wallets := w\<rparr>\<rparr>) bs"
    using verdict_total [OF chain sig] by blast
  let ?m = "m\<lparr>bm_blockchain := ?bc\<lparr>current_baseline := (current_baseline ?bc)\<lparr>wallets := w\<rparr>\<rparr>,
      cycle_state_introduce_block := ?st\<lparr>processed_blocks := map_put (hash_of b) v (processed_blocks ?st)\<rparr>\<rparr>"
  have c: "settled E bs pid m ?m" using v(2) by (auto simp: settled_def intro: exI [of _ 0])
  obtain k where k: "merge_block E b ?m = Inr k" "bm_blockchain k = bm_blockchain ?m" "current_state k = current_state ?m"
    using merge_block_total by blast
  with c merge_block_frame [OF k(1)] have "settled E bs pid m k" by (auto simp: settled_def)
  with k(1) c settled_report [OF c] settled_refl [OF chain] show ?thesis
    by (auto simp: process_block_def Let_def v(1))
qed

text \<open>Only the introduce state validates what it receives.\<close>

fun callback_signed :: "callback \<Rightarrow> bool" where
  "callback_signed (CollectionReceived p b reply) = signatures_present b"
| "callback_signed _ = True"

lemma deliver_callback_settled:
  assumes chain: "chain_inv E (bm_blockchain m) bs"
    and sig: "current_state m = IntroduceBlock \<longrightarrow> callback_signed cb"
  shows "\<exists>m'. deliver_callback E now cb m = Inr m' \<and> settled E bs (callback_peer cb) m m'"
proof (cases cb)
  case (BaselineReceived p b reply)
  then show ?thesis
    using settled_refl [OF chain, of p]
    by (auto simp: deliver_callback_def baselineBlockReceivedCallback_def fetch_blockReceived_baseline_def settled_def split: State.split)
next
  case (CollectionReceived p b reply)
  obtain m' where m': "(case current_state m of FetchBlockchain \<Rightarrow> Inr (fetch_blockReceived_collection p b reply m)
      | IntroduceBlock \<Rightarrow> introduce_blockReceived E p b reply m | _ \<Rightarrow> Inr m) = Inr m'" "settled E bs p m m'"
  proof (cases "current_state m = IntroduceBlock \<and> \<not> reply")
    case True
    then obtain k where k: "process_block E p b m = Inr k" "settled E bs p m k"
      using process_block_total [OF chain, of b p] sig CollectionReceived by auto
    from k(2) have "settled E bs p m (k\<lparr>out_of_sync_detector := d\<rparr>)" for d by (simp add: settled_def)
    with k(1) True show ?thesis by (intro that) (auto simp: introduce_blockReceived_def)
  next
    case False
    have f: "settled E bs p m (fetch_blockReceived_collection p b reply m)"
      using settled_refl [OF chain, of p] by (auto simp: fetch_blockReceived_collection_def Let_def settled_def split: option.split)
    note r = settled_refl [OF chain, of p] and i = settled_report [OF settled_refl [OF chain, of p]]
    show ?thesis
      using that [OF _ r] that [OF _ i] that [OF _ f] False by (cases "current_state m") (auto simp: introduce_blockReceived_def)
  qed
  with settled_monitor [OF m'(2), of now b reply] CollectionReceived show ?thesis
    by (simp add: deliver_callback_def collectionBlockReceivedCallback_def)
next
  case (ActivePeersReceived p l)
  then show ?thesis using settled_refl [OF chain, of p] by (simp add: deliver_callback_def settled_def)
qed

section \<open>A message and its callbacks\<close>

text \<open>A connection to another peer than the one with this id.\<close>

definition spared :: "peer_id_t \<Rightarrow> P2PConnector \<Rightarrow> P2PConnector \<Rightarrow> bool" where
  "spared pid c c' \<longleftrightarrow>
     (\<forall>q p. map_find (connector_peers c) q = Some p \<longrightarrow> getId p \<noteq> pid \<longrightarrow> map_find (connector_peers c') q = Some p)"

lemma spared_bans: "spared pid c (fold banPeer (replicate k pid) c)"
proof (induction k arbitrary: c)
  case (Suc k)
  have "spared pid c (banPeer pid c)"
    by (auto simp: spared_def banPeer_def map_find_map_snd)
  with Suc show ?case by (simp add: spared_def)
qed (simp add: spared_def)

lemma manager_op_settled:
  assumes "f (fn_manager n) = Inr m" "settled E bs pid (fn_manager n) m"
  shows "\<exists>c'. manager_op E rnd f n = Inr \<lparr>fn_manager = m, fn_connector = c'\<rparr> \<and> spared pid (fn_connector n) c'"
  using assms spared_bans by (auto simp: manager_op_def Let_def settled_def)

lemma deliver_callbacks_settled:
  assumes "chain_inv E (bm_blockchain (fn_manager n)) bs" "\<forall>cb \<in> set cbs. callback_peer cb = pid"
    and "current_state (fn_manager n) = IntroduceBlock \<longrightarrow> list_all callback_signed cbs"
  shows "\<exists>n'. deliver_callbacks E rnd now cbs n = Inr n' \<and> settled E bs pid (fn_manager n) (fn_manager n') \<and>
    spared pid (fn_connector n) (fn_connector n')"
  using assms
proof (induction cbs arbitrary: n)
  case Nil
  then show ?case by (simp add: settled_refl spared_def)
next
  case (Cons cb cbs)
  obtain m where m: "deliver_callback E now cb (fn_manager n) = Inr m" "settled E bs pid (fn_manager n) m"
    using deliver_callback_settled [OF Cons.prems(1), of cb now] Cons.prems(2,3) by auto
  obtain c where c: "manager_op E rnd (deliver_callback E now cb) n = Inr \<lparr>fn_manager = m, fn_connector = c\<rparr>"
    "spared pid (fn_connector n) c"
    using manager_op_settled [of "deliver_callback E now cb", OF m] by blast
  obtain n' where n': "deliver_callbacks E rnd now cbs \<lparr>fn_manager = m, fn_connector = c\<rparr> = Inr n'"
    "settled E bs pid m (fn_manager n')" "spared pid c (fn_connector n')"
    using Cons.IH [of "\<lparr>fn_manager = m, fn_connector = c\<rparr>"] Cons.prems(2,3) m(2) by (auto simp: settled_def)
  have "spared pid (fn_connector n) (fn_connector n')" using c(2) n'(3) by (simp add: spared_def)
  with c(1) n'(1) settled_trans [OF m(2) n'(2)] show ?case by auto
qed

text \<open>
  The message does not hand a collection block with a signature of less than two characters to the
  introduce state: decoding such a signature can read before its first character.
\<close>

definition signed_message :: "'ctx env \<Rightarrow> peer_ref \<Rightarrow> byte list \<Rightarrow> 'ctx full_node \<Rightarrow> bool" where
  "signed_message E ref message n \<longleftrightarrow>
     (case receivedMessage E (bm_blockchain (fn_manager n)) ref message (fn_connector n) of
        Inl e \<Rightarrow> True
      | Inr c \<Rightarrow> current_state (fn_manager n) = IntroduceBlock \<longrightarrow>
          list_all callback_signed (drop (length (callback_log (fn_connector n))) (callback_log c)))"

lemma node_receive_settled:
  assumes chain: "chain_inv E (bm_blockchain (fn_manager n)) bs" and files: "files_readable E (chain_cache (bm_blockchain (fn_manager n)))"
    and sig: "signed_message E ref message n" and peer: "map_find (connector_peers (fn_connector n)) ref = Some p"
  shows "\<exists>n'. node_receive E rnd now ref message n = Inr n' \<and> settled E bs (getId p) (fn_manager n) (fn_manager n') \<and>
    spared (getId p) (fn_connector n) (fn_connector n')"
proof -
  have "chain_readable E (bm_blockchain (fn_manager n))"
    using chain files by (intro chain_readable_files) (simp_all add: chain_inv_def chain_rep_def)
  from receivedMessage_tame [OF this, of ref message "fn_connector n"] peer
  obtain c cbs where c: "receivedMessage E (bm_blockchain (fn_manager n)) ref message (fn_connector n) = Inr c"
    "\<forall>q. q \<noteq> ref \<longrightarrow> map_find (connector_peers c) q = map_find (connector_peers (fn_connector n)) q"
    "callback_log c = callback_log (fn_connector n) @ cbs" "\<forall>cb \<in> set cbs. callback_peer cb = getId p"
    by auto
  then have "spared (getId p) (fn_connector n) c" using peer by (auto simp: spared_def) (metis option.inject)
  moreover obtain n' where "deliver_callbacks E rnd now cbs (n\<lparr>fn_connector := c\<rparr>) = Inr n'"
    "settled E bs (getId p) (fn_manager n) (fn_manager n')" "spared (getId p) c (fn_connector n')"
    using deliver_callbacks_settled [of E "n\<lparr>fn_connector := c\<rparr>" bs cbs "getId p" rnd now] chain c sig
    by (auto simp: signed_message_def)
  ultimately show ?thesis using c(1,3) by (auto simp: node_receive_def spared_def)
qed

section \<open>Property\<close>

text \<open>
  C35: no message stops a node. Whatever bytes a registered peer sends, reading and answering them and the
  callbacks of the manager, the monitor and the collector return; the chain is still consistent, with the
  same blocks and the same files, the cycle state is the same, and no peer with another id is touched (the sender can
  be banned). A message of another protocol version does nothing but ban the peer that sent it. Two things
  are required: the files in the folder of the chain are readable, which an empty folder is and all
  operations of the chain keep (\<open>Blockchain_new_files\<close>, \<open>reachable_files\<close>), and, in the introduce state,
  a collection block in the message has signatures of at least two characters.
\<close>

theorem messages_never_stop_node:
  assumes "chain_inv E (bm_blockchain (fn_manager n)) bs" "files_readable E (chain_cache (bm_blockchain (fn_manager n)))"
    and "map_find (connector_peers (fn_connector n)) ref = Some p" "signed_message E ref message n"
  shows "(\<exists>n'. node_receive E rnd now ref message n = Inr n' \<and> chain_inv E (bm_blockchain (fn_manager n')) bs \<and>
      chain_cache (bm_blockchain (fn_manager n')) = chain_cache (bm_blockchain (fn_manager n)) \<and>
      current_state (fn_manager n') = current_state (fn_manager n) \<and>
      (\<forall>q p'. map_find (connector_peers (fn_connector n)) q = Some p' \<longrightarrow> getId p' \<noteq> getId p \<longrightarrow>
        map_find (connector_peers (fn_connector n')) q = Some p')) \<and>
    (v \<noteq> protocol_version \<longrightarrow> node_receive E rnd now ref (out_archive le @ save_int le v @ rest) n =
      Inr (n\<lparr>fn_connector := at_peer ref ban (fn_connector n)\<rparr>))"
proof -
  have "node_receive E rnd now ref (out_archive le @ save_int le v @ rest) n =
      Inr (n\<lparr>fn_connector := at_peer ref ban (fn_connector n)\<rparr>)" if "v \<noteq> protocol_version"
    using that by (simp add: node_receive_def receivedMessage_version)
  with node_receive_settled [OF assms(1,2,4,3), of rnd now] show ?thesis by (auto simp: settled_def spared_def)
qed

text \<open>A node in the introduce state receives the block with a payment.\<close>

theorem messages_never_stop_node_witness:
  "\<exists>n n'. current_state (fn_manager n) = IntroduceBlock \<and>
     node_receive (sample_env True) (\<lambda>_. 0) 70 5 (msg_CollectionBlock True (sample_block True 400000) False) n = Inr n' \<and>
     chain_inv (sample_env True) (bm_blockchain (fn_manager n')) [Baseline (sample_root (sample_env True))]"
proof -
  let ?E = "sample_env True" and ?b = "sample_block True 400000"
  let ?n = "\<lparr>fn_manager = (sample_candidate [] [])\<lparr>current_state := IntroduceBlock\<rparr>, fn_connector = sample_connector\<rparr>"
  have chain: "chain_inv ?E (bm_blockchain (fn_manager ?n)) [Baseline (sample_root ?E)]"
    using sample_chain_inv [of True] by simp
  obtain bc where "setRootBlock ?E (sample_root ?E) blank_chain = Inr bc"
    using setRootBlock_rep [of "sample_root ?E" ?E blank_chain] sample_root_ok [of ?E] by auto
  then have f: "files_readable ?E (chain_cache (bm_blockchain (fn_manager ?n)))"
    using setRootBlock_files [of ?E "sample_root ?E" blank_chain bc] files_readable_empty [of ?E]
    by (simp add: sample_chain_def blank_chain_def)
  have "signatures_present ?b"
  proof -
    obtain data where "tx_signature (sample_payment True 400000) = calcSignature ?E ''K'' data"
      using signed_tx_signature unfolding sample_payment_def by blast
    then show ?thesis by (simp add: signatures_present_def sample_block_def next_block_facts sample_signature_length)
  qed
  moreover have "collection_ok ?b" using sample_sendable(1) unfolding sendable_def by blast
  note received_CollectionBlock [OF sample_connector_facts(5,2) this, of ?E "sample_chain ?E" True False]
  ultimately have "signed_message ?E 5 (msg_CollectionBlock True ?b False) ?n"
    unfolding signed_message_def by (simp add: sample_connector_facts(4))
  note this f
  moreover have "map_find (connector_peers (fn_connector ?n)) 5 = Some (FcoinPeerPlugin_new ''P'')"
    by (simp add: sample_connector_facts(5))
  ultimately obtain n' where n': "node_receive ?E (\<lambda>_. 0) 70 5 (msg_CollectionBlock True ?b False) ?n = Inr n'"
    "chain_inv ?E (bm_blockchain (fn_manager n')) [Baseline (sample_root ?E)]"
    using messages_never_stop_node [OF chain, of 5 "FcoinPeerPlugin_new ''P''" "msg_CollectionBlock True ?b False" "\<lambda>_. 0" 70 0] by blast
  show ?thesis by (intro exI [of _ ?n] exI [of _ n'] conjI n') simp
qed

end
