(* ===== verification/Double_Spend.thy ===== *)
theory Double_Spend
  imports Network
begin

text \<open>
  What the merge of blocks does not check: the balances. Each of two candidates may be valid while their
  union spends more than there is; leaving the introduce state (CycleStateIntroduceBlock.cpp,
  \<open>onExit\<close>) adds the union to the chain without validating it.
\<close>

section \<open>Leaving the introduce state\<close>

lemma received_keeps_chain:
  assumes "introduce_blockReceived E p b False m = Inr m'" "processed_blocks (cycle_state_introduce_block m) = []"
    and "validateBlock_collection E (bm_blockchain m) b = Inr (True, bc)" "baseline_inv E (current_baseline (bm_blockchain m))"
  shows "bm_blockchain m' = bm_blockchain m" "bm_miner m' = bm_miner m"
  using assms validateBlock_collection_True(1) [OF assms(3,4)]
  by (auto simp: introduce_blockReceived_def process_block_def merge_block_def Let_def res_simps split: if_splits prod.splits)

lemma onEnter_keeps_miner: "introduce_onEnter E now m = Inr m' \<Longrightarrow> bm_miner m' = bm_miner m"
  by (auto simp: introduce_onEnter_def Let_def bm_call_def res_simps split: option.splits)

text \<open>In a release build the block is booked, whatever it spends; the sums are those of the machine.\<close>

lemma onExit_books:
  assumes "chain_inv E (bm_blockchain m) bs" "NDEBUG E" "\<not> miner_running (bm_miner m)"
    and "collection_ok (new_block m)" "type_of (new_block m) = CollectionBlock_type"
    and "uid_of (new_block m) = uid_b (last bs) + 1" "unat (uid_b (last bs)) + 2 < 2 ^ 64"
  shows "\<exists>m'. introduce_onExit E rnd m = Inr m' \<and> (\<forall>k. getBalance (bm_blockchain m') k =
    getBalance (bm_blockchain m) k + of_nat (coins_of k (map snd (creations (new_block m)))) * ucast fraction_per_coin
      + received k (map snd (transactions (new_block m))) - sent k (map snd (transactions (new_block m))))"
proof -
  let ?bc = "bm_blockchain m"
  obtain h where h: "rehash E (new_block m) = Inr (set_hash h (new_block m))" using rehash_total by blast
  let ?nb = "set_hash h (new_block m)"
  have b: "baseline_inv E (current_baseline ?bc)" and rep: "chain_rep E ?bc bs" using assms(1) by (simp_all add: chain_inv_def)
  obtain b' where b': "updateBaseline E (uid_of ?nb) ?nb (current_baseline ?bc) = Inr b'"
    using updateBaseline_release [OF b assms(2)] by blast
  have ok: "block_ok (Collection ?nb)" using assms(4,5) by (simp add: collection_ok_def)
  have uid: "uid_of ?nb = uid_b (last bs) + 1" using assms(6) by simp
  from addBlock_collection_rep [OF rep ok uid assms(7) b']
  obtain bc' where bc': "addBlock_collection E ?nb ?bc = Inr (uid_of ?nb, bc')" "current_baseline bc' = b'" by blast
  then have "introduce_onExit E rnd m = Inr (m\<lparr>new_block := ?nb, bm_blockchain := bc'\<rparr>)"
    using assms(3) by (simp add: introduce_onExit_def h)
  moreover have "getBalance bc' k = getBalance ?bc k + of_nat (coins_of k (map snd (creations (new_block m)))) * ucast fraction_per_coin
      + received k (map snd (transactions (new_block m))) - sent k (map snd (transactions (new_block m)))" for k
    using updateBaseline_balance [OF b', of k] by (simp add: getBalance_eq bc'(2))
  ultimately show ?thesis by simp
qed

section \<open>Two payments out of one balance\<close>

definition carol :: public_key_t where "carol = PublicKeyPEM ''CC''"

text \<open>The balance of bob is one coin; he pays 0.8 to alice in one block and 0.7 to carol in the other.\<close>

definition first_payment :: TransactionSubBlock where
  "first_payment = signed_tx (sample_env True) ''K'' (hash_of (sample_root (sample_env True))) bob alice 800000"

definition second_payment :: TransactionSubBlock where
  "second_payment = signed_tx (sample_env True) ''K'' (hash_of (sample_root (sample_env True))) bob carol 700000"

definition paying :: "TransactionSubBlock \<Rightarrow> (hash_t \<times> TransactionSubBlock) list" where
  "paying t = [(tx_hash t, t)]"

definition paying_block :: "TransactionSubBlock \<Rightarrow> CollectionBlock" where
  "paying_block t = next_block (sample_env True) (Baseline (sample_root (sample_env True))) (paying t) []"

lemma keys_distinct: "bob \<noteq> PublicKeyPEM ''''" "bob \<noteq> alice" "bob \<noteq> carol" "alice \<noteq> carol"
  "isPublicKeyValid (sample_env True) alice" "isPublicKeyValid (sample_env True) carol"
  by (simp_all add: alice_def bob_def carol_def sample_public_key)

lemmas payment_facts =
  signed_tx_accepted [OF sample_base64 [of True] sample_key_pair [OF keys_distinct(1)] keys_distinct(5,2), of 800000
    "hash_of (sample_root (sample_env True))" "header (sample_root (sample_env True))" "''K''", folded first_payment_def, simplified]
  signed_tx_accepted [OF sample_base64 [of True] sample_key_pair [OF keys_distinct(1)] keys_distinct(6,3), of 700000
    "hash_of (sample_root (sample_env True))" "header (sample_root (sample_env True))" "''K''", folded second_payment_def, simplified]

lemma sample_tx_hash:
  "\<exists>bs. tx_hash (signed_tx (sample_env nd) priv prev a b f) = fromArray (sample_digest bs) \<and>
     length bs = 102 + length (short_string a) + length (short_string b)"
proof -
  let ?E = "sample_env nd" and ?t = "(set_tx_prev prev new_TransactionSubBlock)\<lparr>pre_owner := a, post_owner := b, fraction := f\<rparr>"
  have fresh: "tx_hash ?t = 0" "tx_signature ?t = ''''"
    by (simp_all add: set_tx_prev_def new_TransactionSubBlock_def new_GenericHeader_def)
  obtain data where s: "fillSignature_tx ?E priv ?t = Inr (set_tx_sig (calcSignature ?E priv data) ?t)"
    using fresh by (simp add: fillSignature_def)
  let ?s = "set_tx_sig (calcSignature ?E priv data) ?t"
  let ?bs = "out_archive True @ save_TransactionSubBlock True ?s"
  have "tx_hash ?s = 0" using fresh(1) by simp
  then have "fillHash_tx ?E ?s = Inr (set_tx_hash (fromArray (sample_digest ?bs)) ?s)"
    by (simp add: fillHash_def stream_digest_eq [OF sample_sha_stream])
      (simp add: calcHash_bytes_def sample_env_def)
  then have "tx_hash (signed_tx ?E priv prev a b f) = fromArray (sample_digest ?bs)"
    by (simp add: signed_tx_def s)
  moreover have "length ?bs = 102 + length (short_string a) + length (short_string b)"
    by (simp add: length_saves out_archive_def saveBinary_def sample_signature_length)
  ultimately show ?thesis by blast
qed

lemma payment_hashes: "tx_hash first_payment \<noteq> tx_hash second_payment"
proof
  assume eq: "tx_hash first_payment = tx_hash second_payment"
  obtain b1 where b1: "tx_hash first_payment = fromArray (sample_digest b1)" "length b1 = 104"
    using sample_tx_hash [of True "''K''" "hash_of (sample_root (sample_env True))" bob alice 800000]
    by (auto simp: first_payment_def alice_def bob_def)
  obtain b2 where b2: "tx_hash second_payment = fromArray (sample_digest b2)" "length b2 = 105"
    using sample_tx_hash [of True "''K''" "hash_of (sample_root (sample_env True))" bob carol 700000]
    by (auto simp: second_payment_def carol_def bob_def)
  have "sample_digest b1 = sample_digest b2"
    using eq b1(1) b2(1) toArray_fromArray [of "replicate 32 0" "sample_digest b1"] toArray_fromArray [of "replicate 32 0" "sample_digest b2"]
    by (simp add: sample_digest_def)
  then show False by (simp add: sample_digest_def b1(2) b2(2))
qed

lemma payment_ok: "tx_ok first_payment" "tx_ok second_payment" "length (tx_signature first_payment) = 4"
  "length (tx_signature second_payment) = 4"
proof -
  obtain d\<^sub>1 d\<^sub>2 where "tx_signature first_payment = calcSignature (sample_env True) ''K'' d\<^sub>1"
    "tx_signature second_payment = calcSignature (sample_env True) ''K'' d\<^sub>2"
    using signed_tx_signature unfolding first_payment_def second_payment_def by metis
  then show "length (tx_signature first_payment) = 4" "length (tx_signature second_payment) = 4"
    by (simp_all add: sample_signature_length)
  then show "tx_ok first_payment" "tx_ok second_payment"
    by (simp_all add: tx_ok_def key_ok_def fits_def payment_facts alice_def bob_def carol_def)
qed

lemma paying_block_facts:
  "transactions (paying_block t) = paying t" "creations (paying_block t) = []" "type_of (paying_block t) = CollectionBlock_type"
  "uid_of (paying_block t) = uid_of (sample_root (sample_env True)) + 1" "map_wf (paying t)"
  by (simp_all add: paying_block_def next_block_facts) (simp add: paying_def map_wf_def)

lemma paying_hashes_differ: "hash_of (paying_block first_payment) \<noteq> hash_of (paying_block second_payment)"
proof
  assume "hash_of (paying_block first_payment) = hash_of (paying_block second_payment)"
  then show False
    using sample_hash_length [of True _ "paying first_payment" "[]" "paying second_payment" "[]"]
    by (simp add: paying_block_def paying_def save_map_def save_pair_def length_saves payment_facts payment_ok
        alice_def bob_def carol_def)
qed

lemma payment_diffs:
  "wallet_diffs [] [first_payment] = [(alice, 800000), (bob, - 800000)]"
  "wallet_diffs [] [second_payment] = [(bob, - 700000), (carol, 700000)]"
  by (simp_all add: wallet_diffs_def diff_transaction_def map_modify_def map_index_def payment_facts alice_def bob_def
      carol_def less_public_key_t_def key_less_def getAsShortString_def)

lemma paying_blocks_accepted:
  "validateBlock_collection (sample_env True) (sample_chain (sample_env True)) (paying_block first_payment) =
     Inr (True, sample_chain (sample_env True))"
  "validateBlock_collection (sample_env True) (sample_chain (sample_env True)) (paying_block second_payment) =
     Inr (True, sample_chain (sample_env True))"
proof -
  have "check_balances (wallet_diffs [] (map snd (paying first_payment))) [(bob, 1000000)] = (True, [(bob, 1000000)])"
    by (simp add: paying_def payment_diffs map_index_def alice_def bob_def)
  from sample_validate [OF _ _ this, of True]
  show "validateBlock_collection (sample_env True) (sample_chain (sample_env True)) (paying_block first_payment) =
     Inr (True, sample_chain (sample_env True))"
    by (simp add: paying_block_def paying_def payment_facts) (simp add: sample_chain_baseline)
  have "check_balances (wallet_diffs [] (map snd (paying second_payment))) [(bob, 1000000)] = (True, [(bob, 1000000)])"
    by (simp add: paying_def payment_diffs map_index_def carol_def bob_def)
  from sample_validate [OF _ _ this, of True]
  show "validateBlock_collection (sample_env True) (sample_chain (sample_env True)) (paying_block second_payment) =
     Inr (True, sample_chain (sample_env True))"
    by (simp add: paying_block_def paying_def payment_facts) (simp add: sample_chain_baseline)
qed

text \<open>A node that has entered the state with one payment receives the block of the other one and leaves the state.\<close>

definition double_spender :: "TransactionSubBlock \<Rightarrow> byte list BlockchainManager" where
  "double_spender t = sample_candidate (paying t) []"

lemma paying_node_enters:
  "\<exists>n. introduce_onEnter (sample_env True) now (double_spender t) = Inr n \<and> new_block n = paying_block t"
  using sample_candidate_enters [of now "current_state (double_spender t)" "paying t" "[]"]
  by (simp add: double_spender_def paying_block_def)

lemma payment_merged:
  assumes enter: "introduce_onEnter (sample_env True) now (double_spender t) = Inr n" "new_block n = paying_block t"
    and val: "validateBlock_collection (sample_env True) (sample_chain (sample_env True)) (paying_block t') =
      Inr (True, sample_chain (sample_env True))"
    and diff: "hash_of (paying_block t') \<noteq> hash_of (paying_block t)"
  shows "\<exists>n'. introduce_blockReceived (sample_env True) p (paying_block t') False n = Inr n' \<and>
    rehash (sample_env True) (merged (paying_block t) (paying_block t')) = Inr (new_block n') \<and>
    bm_blockchain n' = sample_chain (sample_env True) \<and> \<not> miner_running (bm_miner n')"
proof -
  note e = introduce_entered [OF enter(1)]
  have chain: "bm_blockchain n = sample_chain (sample_env True)" by (simp add: e(1) double_spender_def)
  have inv: "baseline_inv (sample_env True) (current_baseline (bm_blockchain n))"
    using sample_chain_inv [of True] by (simp add: chain chain_inv_def)
  obtain n' where n': "introduce_blockReceived (sample_env True) p (paying_block t') False n = Inr n'"
    "rehash (sample_env True) (merged (paying_block t) (paying_block t')) = Inr (new_block n')"
    using first_block_received [OF e(2) inv, of "paying_block t'" "sample_chain (sample_env True)" p] val diff
    by (auto simp: chain enter(2) paying_block_facts map_wf_def values_unique_def paying_def)
  have "\<not> miner_running (bm_miner n)"
    by (simp add: onEnter_keeps_miner [OF enter(1)] double_spender_def sample_candidate_def MinerLocal_new_def)
  then show ?thesis
    using n' received_keeps_chain [OF n'(1), of "sample_chain (sample_env True)"] e(2) inv val by (simp add: chain)
qed

text \<open>The balances after both payments; bob had one coin, a million fractions.\<close>

definition booked_both :: "Blockchain \<Rightarrow> bool" where
  "booked_both bc \<longleftrightarrow> getBalance bc alice = 800000 \<and> getBalance bc carol = 700000 \<and> getBalance bc bob = - 500000"

lemma union_of_payments:
  "map_union (paying first_payment) (paying second_payment) \<in>
     {paying first_payment @ paying second_payment, paying second_payment @ paying first_payment}"
  using payment_hashes by (auto simp: paying_def map_union_def map_find_def not_less_iff_gr_or_eq)

lemma merged_payments_ok:
  "transactions (merged (paying_block first_payment) (paying_block second_payment)) =
     map_union (paying first_payment) (paying second_payment)"
  "creations (merged (paying_block first_payment) (paying_block second_payment)) = []"
  "type_of (merged (paying_block first_payment) (paying_block second_payment)) = CollectionBlock_type"
  "uid_of (merged (paying_block first_payment) (paying_block second_payment)) = 2"
  "collection_ok (merged (paying_block first_payment) (paying_block second_payment))"
proof -
  let ?b = "merged (paying_block first_payment) (paying_block second_payment)"
  show b: "transactions ?b = map_union (paying first_payment) (paying second_payment)" "creations ?b = []"
    "type_of ?b = CollectionBlock_type" "uid_of ?b = 2"
    by (simp_all add: merged_def map_union_def paying_block_facts)
  have "map_wf (map_union (paying first_payment) (paying second_payment))"
    by (rule map_wf_union) (simp add: paying_block_facts)
  then show "collection_ok ?b"
    using union_of_payments payment_ok(1,2) by (auto simp: collection_ok_def b paying_def fits_def map_wf_def)
qed

lemma merged_payments_booked:
  assumes "rehash (sample_env True) (merged (paying_block first_payment) (paying_block second_payment)) = Inr (new_block n)"
    and "bm_blockchain n = sample_chain (sample_env True)" "\<not> miner_running (bm_miner n)"
  shows "\<exists>e. introduce_onExit (sample_env True) rnd n = Inr e \<and> booked_both (bm_blockchain e)"
proof -
  let ?b = "merged (paying_block first_payment) (paying_block second_payment)"
  obtain h where nb: "new_block n = set_hash h ?b" using rehash_total assms(1) by (metis sum.inject(2))
  have "chain_inv (sample_env True) (bm_blockchain n) [Baseline (sample_root (sample_env True))]"
    by (simp add: assms(2) sample_chain_inv)
  from onExit_books [OF this _ assms(3), of rnd] merged_payments_ok(3-5)
  obtain e where e: "introduce_onExit (sample_env True) rnd n = Inr e"
    "\<And>k. getBalance (bm_blockchain e) k = getBalance (bm_blockchain n) k
      + received k (map snd (transactions ?b)) - sent k (map snd (transactions ?b))"
    by (auto simp: nb merged_payments_ok(2) collection_ok_def coins_of_def)
  have old: "getBalance (bm_blockchain n) k = (if k = bob then 1000000 else 0)" for k
    by (simp add: assms(2) getBalance_eq sample_chain_baseline map_lookup0_def map_find_def)
  have "received k (map snd (transactions ?b)) = (if k = alice then 800000 else 0) + (if k = carol then 700000 else 0)"
    "sent k (map snd (transactions ?b)) = (if k = bob then 1500000 else 0)" for k
    using union_of_payments keys_distinct
    by (auto simp: merged_payments_ok(1) received_def sent_def paying_def payment_facts)
  then show ?thesis using e keys_distinct by (simp add: booked_both_def old)
qed

text \<open>
  C30: the balances of a merged block are not checked. Two nodes of the small chain start a cycle with
  one payment of bob each, 0.8 coins to alice and 0.7 coins to carol; bob has one coin. Each node finds the
  block of the other one valid, both merge them into the same block and add it to their chains when
  they leave the introduce state: both payments are booked and the balance of bob wraps around.
\<close>

theorem double_spend_booked:
  "\<exists>n\<^sub>1 n\<^sub>2 n\<^sub>1' n\<^sub>2' e\<^sub>1 e\<^sub>2. introduce_onEnter (sample_env True) t\<^sub>1 (double_spender first_payment) = Inr n\<^sub>1 \<and>
    introduce_onEnter (sample_env True) t\<^sub>2 (double_spender second_payment) = Inr n\<^sub>2 \<and>
    introduce_blockReceived (sample_env True) p\<^sub>2 (new_block n\<^sub>2) False n\<^sub>1 = Inr n\<^sub>1' \<and>
    introduce_blockReceived (sample_env True) p\<^sub>1 (new_block n\<^sub>1) False n\<^sub>2 = Inr n\<^sub>2' \<and>
    validateBlock_collection (sample_env True) (bm_blockchain n\<^sub>1) (new_block n\<^sub>2) = Inr (True, bm_blockchain n\<^sub>1) \<and>
    validateBlock_collection (sample_env True) (bm_blockchain n\<^sub>2) (new_block n\<^sub>1) = Inr (True, bm_blockchain n\<^sub>2) \<and>
    getBalance (bm_blockchain n\<^sub>1) bob = 1000000 \<and> new_block n\<^sub>1' = new_block n\<^sub>2' \<and>
    introduce_onExit (sample_env True) rnd\<^sub>1 n\<^sub>1' = Inr e\<^sub>1 \<and> introduce_onExit (sample_env True) rnd\<^sub>2 n\<^sub>2' = Inr e\<^sub>2 \<and>
    booked_both (bm_blockchain e\<^sub>1) \<and> booked_both (bm_blockchain e\<^sub>2)"
proof -
  let ?E = "sample_env True"
  obtain n\<^sub>1 where n1: "introduce_onEnter ?E t\<^sub>1 (double_spender first_payment) = Inr n\<^sub>1" "new_block n\<^sub>1 = paying_block first_payment"
    using paying_node_enters by blast
  obtain n\<^sub>2 where n2: "introduce_onEnter ?E t\<^sub>2 (double_spender second_payment) = Inr n\<^sub>2" "new_block n\<^sub>2 = paying_block second_payment"
    using paying_node_enters by blast
  obtain n\<^sub>1' where r1: "introduce_blockReceived ?E p\<^sub>2 (paying_block second_payment) False n\<^sub>1 = Inr n\<^sub>1'"
    "rehash ?E (merged (paying_block first_payment) (paying_block second_payment)) = Inr (new_block n\<^sub>1')"
    "bm_blockchain n\<^sub>1' = sample_chain ?E" "\<not> miner_running (bm_miner n\<^sub>1')"
    using payment_merged [OF n1 paying_blocks_accepted(2)] paying_hashes_differ by metis
  obtain n\<^sub>2' where r2: "introduce_blockReceived ?E p\<^sub>1 (paying_block first_payment) False n\<^sub>2 = Inr n\<^sub>2'"
    "rehash ?E (merged (paying_block second_payment) (paying_block first_payment)) = Inr (new_block n\<^sub>2')"
    "bm_blockchain n\<^sub>2' = sample_chain ?E" "\<not> miner_running (bm_miner n\<^sub>2')"
    using payment_merged [OF n2 paying_blocks_accepted(1) paying_hashes_differ] by metis
  have "rehash ?E (merged (paying_block first_payment) (paying_block second_payment)) =
      rehash ?E (merged (paying_block second_payment) (paying_block first_payment))"
    using payment_hashes
    by (intro merged_commute) (simp_all add: paying_block_facts maps_agree_def map_wf_def, simp_all add: paying_def paying_block_def next_block_facts)
  then have same: "new_block n\<^sub>1' = new_block n\<^sub>2'" using r1(2) r2(2) by simp
  moreover obtain e\<^sub>1 where "introduce_onExit ?E rnd\<^sub>1 n\<^sub>1' = Inr e\<^sub>1" "booked_both (bm_blockchain e\<^sub>1)"
    using merged_payments_booked [OF r1(2-4)] by blast
  moreover obtain e\<^sub>2 where "introduce_onExit ?E rnd\<^sub>2 n\<^sub>2' = Inr e\<^sub>2" "booked_both (bm_blockchain e\<^sub>2)"
    using merged_payments_booked [OF _ r2(3,4)] r1(2) same by metis
  moreover have "bm_blockchain n\<^sub>1 = sample_chain ?E" "bm_blockchain n\<^sub>2 = sample_chain ?E"
    using introduce_entered(1) [OF n1(1)] introduce_entered(1) [OF n2(1)] by (simp_all add: double_spender_def)
  moreover have "getBalance (sample_chain ?E) bob = 1000000"
    by (simp add: getBalance_eq sample_chain_baseline map_lookup0_def map_find_def)
  ultimately show ?thesis using n1 n2 r1(1) r2(1) paying_blocks_accepted by auto
qed

end
