(* ===== verification/Double.thy ===== *)
theory Double
  imports Complex_Main
begin

text \<open>
  The type \<open>double\<close> as src/main.cpp uses it: the finite values of IEEE 754 binary64 as rationals, and
  the rounding to nearest, ties to even, that reading, multiplying and dividing apply to their exact
  result. Infinities and NaN do not occur: a text too large is read as the largest value.
\<close>

section \<open>Definitions\<close>

fun bits :: "nat \<Rightarrow> nat" where
  "bits n = (if n = 0 then 0 else Suc (bits (n div 2)))"

declare bits.simps [simp del]

text \<open>The exponent of a positive number: \<open>2 powi lg2 x \<le> x < 2 powi (lg2 x + 1)\<close>.\<close>

definition lg2 :: "rat \<Rightarrow> int" where
  "lg2 x = (if 1 \<le> x then int (bits (nat \<lfloor>x\<rfloor>)) - 1 else - int (bits (nat (\<lceil>1 / x\<rceil> - 1))))"

definition round_even :: "rat \<Rightarrow> int" where
  "round_even x =
     (let f = \<lfloor>x\<rfloor>; d = x - of_int f
      in if d < 1 / 2 then f else if 1 / 2 < d then f + 1 else if even f then f else f + 1)"

text \<open>A mantissa of 53 bits; below \<open>2 powi (- 1022)\<close> the steps stay at the smallest.\<close>

definition round_double :: "rat \<Rightarrow> rat" where
  "round_double x =
     (if x = 0 then 0
      else (let e = max (lg2 \<bar>x\<bar> - 52) (- 1074) in of_int (round_even (x / 2 powi e)) * 2 powi e))"

definition double_max :: rat where "double_max = (2 ^ 53 - 1) * 2 ^ 971"

section \<open>The exponent\<close>

lemma bits_bounds: "0 < n \<Longrightarrow> 2 ^ (bits n - 1) \<le> n \<and> n < 2 ^ bits n"
proof (induction n rule: bits.induct)
  case (1 n)
  show ?case
  proof (cases "n div 2 = 0")
    case True
    then have "n = 1" using 1(2) by simp
    then show ?thesis by (simp add: bits.simps)
  next
    case False
    then have h: "2 ^ (bits (n div 2) - 1) \<le> n div 2" "n div 2 < 2 ^ bits (n div 2)" "0 < bits (n div 2)"
      using 1 by (simp_all add: bits.simps [of "n div 2"])
    have b: "bits n = Suc (bits (n div 2))" using 1(2) by (simp add: bits.simps [of n])
    have "2 * 2 ^ (bits (n div 2) - 1) = (2 :: nat) ^ bits (n div 2)" using h(3) by (simp flip: power_Suc)
    then have "2 ^ bits (n div 2) \<le> n" using h(1) by linarith
    moreover have "n < 2 * 2 ^ bits (n div 2)" using h(2) by linarith
    ultimately show ?thesis by (simp add: b)
  qed
qed

lemma bits_rat: "0 < n \<Longrightarrow> 2 ^ (bits n - 1) \<le> rat_of_nat n \<and> rat_of_nat n + 1 \<le> 2 ^ bits n"
proof -
  assume "0 < n"
  note b = bits_bounds [OF this]
  have "rat_of_nat (2 ^ (bits n - 1)) \<le> rat_of_nat n" using b by (simp only: of_nat_le_iff)
  moreover have "n + 1 \<le> 2 ^ bits n" using b by simp
  then have "rat_of_nat (n + 1) \<le> rat_of_nat (2 ^ bits n)" by (simp only: of_nat_le_iff)
  ultimately show ?thesis by simp
qed

lemma lg2_bounds:
  assumes "0 < x"
  shows "2 powi (lg2 x) \<le> x" "x < 2 powi (lg2 x + 1)"
proof -
  have "2 powi (lg2 x) \<le> x \<and> x < 2 powi (lg2 x + 1)"
  proof (cases "1 \<le> x")
    case True
    let ?n = "nat \<lfloor>x\<rfloor>"
    have n: "0 < ?n" "rat_of_nat ?n \<le> x" "x < rat_of_nat ?n + 1" using True by (simp_all, linarith)
    have "bits ?n \<noteq> 0" using n(1) by (simp add: bits.simps)
    then have l: "lg2 x = int (bits ?n - 1)" "lg2 x + 1 = int (bits ?n)" using True by (simp_all add: lg2_def)
    have "(2 :: rat) powi lg2 x = 2 ^ (bits ?n - 1)" unfolding l(1) by (rule power_int_of_nat)
    moreover have "(2 :: rat) powi (lg2 x + 1) = 2 ^ bits ?n" unfolding l(2) by (rule power_int_of_nat)
    ultimately show ?thesis using bits_rat [OF n(1)] n(2,3) by linarith
  next
    case False
    let ?m = "nat (\<lceil>1 / x\<rceil> - 1)"
    have i: "1 < 1 / x" using assms False by simp
    then have c: "1 < \<lceil>1 / x\<rceil>" by linarith
    then have "rat_of_nat ?m = of_int (\<lceil>1 / x\<rceil> - 1)" by (intro of_nat_nat) linarith
    then have r: "rat_of_nat ?m = of_int \<lceil>1 / x\<rceil> - 1" by (simp only: of_int_diff of_int_1)
    have m: "0 < ?m" "rat_of_nat ?m < 1 / x" "1 / x \<le> rat_of_nat ?m + 1"
      using c ceiling_correct [of "1 / x"] unfolding r by linarith+
    have "bits ?m \<noteq> 0" using m(1) by (simp add: bits.simps)
    then have l: "lg2 x = - int (bits ?m)" "lg2 x + 1 = - int (bits ?m - 1)" using False by (simp_all add: lg2_def)
    have d: "1 / x \<le> 2 ^ bits ?m" "2 ^ (bits ?m - 1) < 1 / x" using bits_rat [OF m(1)] m(2,3) by linarith+
    have p: "(2 :: rat) powi lg2 x = inverse (2 ^ bits ?m)" "(2 :: rat) powi (lg2 x + 1) = inverse (2 ^ (bits ?m - 1))"
      unfolding l by (simp add: power_int_minus) (simp only: l(2) [unfolded l(1)] power_int_minus power_int_of_nat)
    show ?thesis unfolding p using assms d by (simp add: field_simps)
  qed
  then show "2 powi (lg2 x) \<le> x" "x < 2 powi (lg2 x + 1)" by blast+
qed

lemma lg2_ge: "0 < x \<Longrightarrow> 2 powi k \<le> x \<Longrightarrow> k \<le> lg2 x"
proof (rule ccontr)
  assume x: "0 < x" "2 powi k \<le> x" and "\<not> k \<le> lg2 x"
  then have "(2 :: rat) powi (lg2 x + 1) \<le> 2 powi k" by (intro power_int_increasing) simp_all
  with x lg2_bounds(2) [OF x(1)] show False by simp
qed

lemma lg2_less: "0 < x \<Longrightarrow> x < 2 powi k \<Longrightarrow> lg2 x < k"
proof (rule ccontr)
  assume x: "0 < x" "x < 2 powi k" and "\<not> lg2 x < k"
  then have "(2 :: rat) powi k \<le> 2 powi (lg2 x)" by (intro power_int_increasing) simp_all
  with x lg2_bounds(1) [OF x(1)] show False by simp
qed

section \<open>Rounding\<close>

lemma round_even_error: "\<bar>of_int (round_even x) - x\<bar> \<le> 1 / 2"
  using floor_correct [of x] by (auto simp: round_even_def Let_def abs_le_iff)

lemma round_even_near:
  assumes "\<bar>x - of_int k\<bar> < 1 / 2"
  shows "round_even x = k"
proof -
  have "\<bar>rat_of_int (round_even x - k)\<bar> < 1" using round_even_error [of x] assms by (simp only: of_int_diff)
  then show ?thesis by linarith
qed

lemma round_even_int [simp]: "round_even (of_int k) = k"
  by (simp add: round_even_def)

lemma round_double_error:
  assumes "2 powi (- 1022) \<le> x"
  shows "\<bar>round_double x - x\<bar> \<le> x / 2 ^ 53"
proof -
  have x: "0 < x" using assms by (rule less_le_trans [rotated]) simp
  let ?e = "lg2 x - 52" and ?u = "2 powi (lg2 x - 52) :: rat"
  have "max ?e (- 1074) = ?e" using lg2_ge [OF x assms] by simp
  then have "round_double x = of_int (round_even (x / ?u)) * ?u" using x by (simp add: round_double_def Let_def)
  moreover have "\<bar>of_int (round_even (x / ?u)) * ?u - x\<bar> = \<bar>of_int (round_even (x / ?u)) - x / ?u\<bar> * ?u"
  proof -
    have "of_int (round_even (x / ?u)) * ?u - x = (of_int (round_even (x / ?u)) - x / ?u) * ?u" by (simp add: left_diff_distrib)
    then show ?thesis by (simp only: abs_mult) simp
  qed
  ultimately have "\<bar>round_double x - x\<bar> \<le> 1 / 2 * ?u"
    using mult_right_mono [OF round_even_error [of "x / ?u"], of ?u] by simp
  also have "?u = 2 powi (lg2 x) / 2 ^ 52" by (simp add: power_int_diff)
  also have "1 / 2 * (2 powi (lg2 x) / 2 ^ 52) \<le> x / 2 ^ 53" using lg2_bounds(1) [OF x] by simp
  finally show ?thesis .
qed

text \<open>With the exponent given, rounding is rounding of the mantissa.\<close>

lemma round_double_at:
  assumes "2 powi k \<le> x" "x < 2 powi (k + 1)" "- 1022 \<le> k"
  shows "round_double x = of_int (round_even (x / 2 powi (k - 52))) * 2 powi (k - 52)"
proof -
  have x: "0 < x" using assms(1) by (rule less_le_trans [rotated]) simp
  have "lg2 x = k" using lg2_ge [OF x assms(1)] lg2_less [OF x assms(2)] by simp
  then have m: "max (lg2 \<bar>x\<bar> - 52) (- 1074) = k - 52" using x assms(3) by simp
  have "x \<noteq> 0" using x by simp
  then show ?thesis by (simp only: round_double_def Let_def m if_False)
qed

lemma powi_nonpos: "e \<le> 0 \<Longrightarrow> (2 :: rat) powi e = 1 / 2 ^ nat (- e)"
  by (cases "e = 0") (simp_all add: power_int_def power_one_over inverse_eq_divide)

text \<open>Whole numbers up to \<open>2 ^ 53\<close> are represented exactly.\<close>

lemma round_double_nat:
  assumes "n < 2 ^ 53"
  shows "round_double (of_nat n) = of_nat n"
proof (cases "n = 0")
  case False
  let ?e = "max (lg2 (of_nat n) - 52) (- 1074)"
  have "rat_of_nat n < rat_of_nat (2 ^ 53)" using assms by (simp only: of_nat_less_iff)
  then have "of_nat n < (2 :: rat) powi 53" by simp
  then have "lg2 (of_nat n) < 53" using False by (intro lg2_less) simp_all
  then have e: "?e \<le> 0" by simp
  have q: "(of_nat n :: rat) / 2 powi ?e = of_int (int n * 2 ^ nat (- ?e))" by (simp add: powi_nonpos [OF e])
  have "round_even ((of_nat n :: rat) / 2 powi ?e) = int n * 2 ^ nat (- ?e)" unfolding q by (rule round_even_int)
  moreover have "(of_int (int n * 2 ^ nat (- ?e)) :: rat) * 2 powi ?e = of_nat n" by (simp add: powi_nonpos [OF e])
  ultimately show ?thesis using False by (simp only: round_double_def Let_def of_nat_eq_0_iff abs_of_nat if_False)
qed (simp add: round_double_def)

end
