(* ===== verification/Main_Program.thy ===== *)
theory Main_Program
  imports Network Double Entry_Point_Fetcher
begin

text \<open>
  The command line program (src/main.cpp): how it is started, and its loop over the commands the user
  types. \<open>std::cin\<close> is the text still to be read and the fail bit; what is printed is a list of
  the lines with the values they show, without their layout and colours. Files, the peers' addresses and
  the generated git information are arguments.
\<close>

section \<open>Input\<close>

record istream =
  in_rest :: string
  in_fail :: bool

text \<open>
  The extraction operators after blanks. \<open>None\<close>: nothing is stored, since the stream had failed before
  or has come to its end. Numbers are read as libstdc++ does: a text that is no number stores zero, one
  out of range the largest value, and both set the fail bit.
\<close>

definition get_from :: "(string \<Rightarrow> 'a \<times> bool \<times> string) \<Rightarrow> istream \<Rightarrow> 'a option \<times> istream" where
  "get_from get s =
     (if in_fail s then (None, s)
      else let r = dropWhile is_space (in_rest s)
           in if r = [] then (None, \<lparr>in_rest = [], in_fail = True\<rparr>)
              else case get r of (v, ok, rest) \<Rightarrow> (Some v, \<lparr>in_rest = rest, in_fail = \<not> ok\<rparr>))"

definition get_char :: "string \<Rightarrow> char \<times> bool \<times> string" where
  "get_char r = (hd r, True, tl r)"

definition get_word :: "string \<Rightarrow> string \<times> bool \<times> string" where
  "get_word r = (takeWhile (\<lambda>c. \<not> is_space c) r, True, dropWhile (\<lambda>c. \<not> is_space c) r)"

definition get_sign :: "string \<Rightarrow> bool \<times> string" where
  "get_sign r = (case r of [] \<Rightarrow> (False, [])
     | c # r' \<Rightarrow> if c = CHR ''-'' then (True, r') else if c = CHR ''+'' then (False, r') else (False, r))"

definition get_u32 :: "string \<Rightarrow> u32 \<times> bool \<times> string" where
  "get_u32 r =
     (let (neg, r) = get_sign r; ds = takeWhile is_digit r; rest = dropWhile is_digit r; v = digits_value ds
      in if ds = [] then (0, False, rest)
         else if v \<ge> 2 ^ 32 then (- 1, False, rest)
         else (if neg then - of_nat v else of_nat v, True, rest))"

text \<open>The characters taken for a floating point number, and its value.\<close>

record float_text =
  ft_negative :: bool
  ft_int :: string
  ft_frac :: string
  ft_exponent :: "(bool \<times> string) option"

definition float_field :: "string \<Rightarrow> float_text \<times> string" where
  "float_field r =
     (let (neg, r) = get_sign r;
          i = takeWhile is_digit r; r = dropWhile is_digit r;
          (f, r) = (case r of c # r' \<Rightarrow> if c = CHR ''.'' then (takeWhile is_digit r', dropWhile is_digit r') else ([], r)
                    | [] \<Rightarrow> ([], r));
          (e, r) = (case r of c # r' \<Rightarrow>
                      if (c = CHR ''e'' \<or> c = CHR ''E'') \<and> i @ f \<noteq> [] then
                        (let (eneg, r') = get_sign r' in (Some (eneg, takeWhile is_digit r'), dropWhile is_digit r'))
                      else (None, r)
                    | [] \<Rightarrow> (None, r))
      in (\<lparr>ft_negative = neg, ft_int = i, ft_frac = f, ft_exponent = e\<rparr>, r))"

definition float_value :: "float_text \<Rightarrow> rat option" where
  "float_value t =
     (let e = (case ft_exponent t of None \<Rightarrow> 0
               | Some (neg, ds) \<Rightarrow> if neg then - int (digits_value ds) else int (digits_value ds));
          v = of_nat (digits_value (ft_int t @ ft_frac t)) * 10 powi (e - int (length (ft_frac t)))
      in if ft_int t @ ft_frac t = [] then None
         else if \<exists>neg. ft_exponent t = Some (neg, []) then None
         else Some (if ft_negative t then - v else v))"

definition get_double :: "string \<Rightarrow> rat \<times> bool \<times> string" where
  "get_double r =
     (case float_field r of (t, rest) \<Rightarrow>
        (case float_value t of
           None \<Rightarrow> (0, False, rest)
         | Some v \<Rightarrow>
             (let d = round_double v
              in if d > double_max then (double_max, False, rest)
                 else if d < - double_max then (- double_max, False, rest)
                 else (d, True, rest))))"

section \<open>Program\<close>

record status_line =
  st_block_uid :: block_uid_t
  st_block_hash :: string
  st_balance :: rat
  st_peers :: u32
  st_miner_running :: bool
  st_threads :: u32
  st_checks :: u64
  st_percent :: u8
  st_epoch :: epoch_t
  st_coins :: u64

datatype out_line =
  Usage | Menu | AskKeyFile | InvalidKeyFile | AskAmount | Transfer rat string | MinerLine bool u32
  | Status status_line | Peers u32 "(string \<times> string) list" | GitInfo "(string \<times> bool) option"

record 'ctx app =
  app_cin :: istream
  app_node :: "'ctx full_node"
  app_cout :: "out_line list"

definition print_out :: "out_line list \<Rightarrow> 'ctx app \<Rightarrow> 'ctx app" where
  "print_out os a = a\<lparr>app_cout := app_cout a @ os\<rparr>"

definition in_manager :: "('ctx BlockchainManager \<Rightarrow> 'ctx BlockchainManager) \<Rightarrow> 'ctx app \<Rightarrow> 'ctx app" where
  "in_manager f a = a\<lparr>app_node := (app_node a)\<lparr>fn_manager := f (fn_manager (app_node a))\<rparr>\<rparr>"

text \<open>The product with \<open>fraction_per_coin\<close> and \<open>static_cast<uint64_t>\<close> of it, which truncates.\<close>

definition amount_fraction :: "rat \<Rightarrow> u64 res" where
  "amount_fraction amount =
     (let p = round_double (amount * of_nat (unat fraction_per_coin))
      in if - 1 < p \<and> p < 2 ^ 64 then Inr (word_of_int (if 0 \<le> p then \<lfloor>p\<rfloor> else \<lceil>p\<rceil>)) else Inl BadConversion)"

definition key_from_file :: "(string \<rightharpoonup> string) \<Rightarrow> string \<Rightarrow> public_key_t" where
  "key_from_file files name = initFromString (case files name of None \<Rightarrow> [] | Some text \<Rightarrow> text)"

definition command_t :: "'ctx env \<Rightarrow> (string \<rightharpoonup> string) \<Rightarrow> 'ctx app \<Rightarrow> 'ctx app res" where
  "command_t E files a =
     (let a = print_out [AskKeyFile] a;
          (word, cin) = get_from get_word (app_cin a);
          a = a\<lparr>app_cin := cin\<rparr>;
          file = (case word of None \<Rightarrow> [] | Some w \<Rightarrow> w);
          key = (if length file > 0 then key_from_file files file else default_key)
      in if \<not> isPublicKeyValid E key then Inr (print_out [InvalidKeyFile] a)
         else
           (let a = print_out [AskAmount] a;
                (amount, cin) = get_from get_double (app_cin a);
                a = a\<lparr>app_cin := cin\<rparr>
            in case amount of
                 None \<Rightarrow> Inl Uninitialized
               | Some amount \<Rightarrow>
                   bind_res (amount_fraction amount) (\<lambda>f.
                     Inr (in_manager (triggerTransaction key f) (print_out [Transfer amount (getAsShortString key)] a)))))"

definition command_m :: "'ctx env \<Rightarrow> (nat \<Rightarrow> u32) \<Rightarrow> 'ctx app \<Rightarrow> 'ctx app res" where
  "command_m E rnd a =
     (let (number, cin) = get_from get_u32 (app_cin a); a = a\<lparr>app_cin := cin\<rparr>
      in case number of
           None \<Rightarrow> Inl Uninitialized
         | Some n \<Rightarrow>
             (let a = in_manager (\<lambda>m. m\<lparr>bm_miner := changeNumWorkerThreads E rnd n (bm_miner m)\<rparr>) a
              in Inr (print_out [MinerLine (miner_running (bm_miner (fn_manager (app_node a)))) n] a)))"

definition coins_in_circulation :: "MiningState \<Rightarrow> u64" where
  "coins_in_circulation ms = scast (num_minings_in_epoch ms) + epoch ms * ucast max_num_creations"

definition shown_balance :: "u64 \<Rightarrow> rat" where
  "shown_balance b = round_double (round_double (of_nat (unat b)) / of_nat (unat fraction_per_coin))"

definition command_s :: "'ctx env \<Rightarrow> 'ctx app \<Rightarrow> 'ctx app res" where
  "command_s E a =
     (let m = fn_manager (app_node a); bc = bm_blockchain m
      in bind_res (getNewestBlock E bc) (\<lambda>block.
           let ms = getMiningState bc
           in bind_res (percentBlockchainSynchronized E m) (\<lambda>percent.
              case block of
                None \<Rightarrow> Inl NullDeref
              | Some block \<Rightarrow>
                  Inr (print_out [Status \<lparr>st_block_uid = block_uid (base_header block),
                    st_block_hash = hash_toString (block_hash (generic_header (base_header block))),
                    st_balance = shown_balance (getBalance bc (our_public_key m)),
                    st_peers = numConnectedPeers (fn_connector (app_node a)),
                    st_miner_running = miner_running (bm_miner m), st_threads = num_worker_threads (bm_miner m),
                    st_checks = stats_check_counter_per_sec (bm_miner m), st_percent = percent,
                    st_epoch = epoch ms, st_coins = coins_in_circulation ms\<rparr>] a))))"

definition printPeerInfo :: "(Peer \<Rightarrow> string) \<Rightarrow> P2PConnector \<Rightarrow> (string \<times> string) list" where
  "printPeerInfo getInfo c = map (\<lambda>(_, p). (getInfo p, getId p)) (connector_peers c)"

definition command_p :: "(Peer \<Rightarrow> string) \<Rightarrow> 'ctx app \<Rightarrow> 'ctx app" where
  "command_p getInfo a =
     (let c = fn_connector (app_node a)
      in print_out [Peers (numConnectedPeers c) (printPeerInfo getInfo c)] a)"

record surroundings =
  env_files :: "string \<rightharpoonup> string"
  env_getInfo :: "Peer \<Rightarrow> string"
  env_git :: "(string \<times> bool) option"

text \<open>An iteration of the loop; the flag says that the program returns.\<close>

definition main_iteration ::
    "'ctx env \<Rightarrow> surroundings \<Rightarrow> (nat \<Rightarrow> u32) \<Rightarrow> 'ctx app \<Rightarrow> ('ctx app \<times> bool) res" where
  "main_iteration E S rnd a =
     (let a = print_out [Menu] a;
          (control_character, cin) = get_from get_char (app_cin a);
          a = a\<lparr>app_cin := cin\<rparr>;
          again = (\<lambda>r. bind_res r (\<lambda>a. Inr (a, False)))
      in case control_character of
           None \<Rightarrow> Inl Uninitialized
         | Some c \<Rightarrow>
             if c = CHR ''t'' then again (command_t E (env_files S) a)
             else if c = CHR ''m'' then again (command_m E rnd a)
             else if c = CHR ''s'' then again (command_s E a)
             else if c = CHR ''p'' then Inr (command_p (env_getInfo S) a, False)
             else if c = CHR ''q'' then Inr (a, True)
             else if c = CHR ''v'' then Inr (print_out [GitInfo (env_git S)] a, False)
             else Inr (a, False))"

text \<open>
  What comes before the loop: the exit code, or the program's objects. \<open>chain_folder\<close> holds the block
  files and the meta file of a folder.
\<close>

definition startCommandLineApp ::
    "'ctx env \<Rightarrow> (string \<rightharpoonup> string) \<Rightarrow> (string \<Rightarrow> (block_uid_t \<Rightarrow> byte list option) \<times> byte list option) \<Rightarrow> string \<Rightarrow> string list \<Rightarrow>
     (nat + 'ctx app) res" where
  "startCommandLineApp E files chain_folder typed argv =
     (if length argv < 5 then Inr (Inl 1)
      else
        (let public_key = key_from_file files (argv ! 1);
             private_key = (case files (argv ! 2) of None \<Rightarrow> [] | Some text \<Rightarrow> text);
             (blocks, meta) = chain_folder (''./blockchains/'' @ argv ! 4 @ ''/'')
         in bind_res (Blockchain_new E blocks meta) (\<lambda>blockchain.
            case stoi (argv ! 4) of None \<Rightarrow> Inl Uncaught | Some port \<Rightarrow>
            case stoi (argv ! 3) of None \<Rightarrow> Inl Uncaught | Some threads \<Rightarrow>
              Inr (Inr \<lparr>app_cin = \<lparr>in_rest = typed, in_fail = False\<rparr>,
                app_node = \<lparr>fn_manager = BlockchainManager_new E public_key private_key blockchain (MinerLocal_new (word_of_int threads)),
                  fn_connector = registerBlockCallbacks (registerActivePeersCallback P2PConnector_new)\<rparr>,
                app_cout = []\<rparr>))))"

section \<open>Amounts\<close>

lemma small_normal: "1 / 2 ^ 30 \<le> x \<Longrightarrow> 2 powi (- 1022) \<le> (x :: rat)"
proof -
  have "(2 :: rat) powi (- 1022) \<le> 2 powi (- 30)" by (rule power_int_increasing) simp_all
  moreover assume "1 / 2 ^ 30 \<le> x"
  ultimately show ?thesis by (simp add: power_int_minus_divide)
qed

lemma rounded_bounds:
  fixes a x :: rat
  assumes "\<bar>a - x\<bar> \<le> x / 2 ^ 53" "0 \<le> x"
  shows "a \<le> 2 * x" "x / 2 \<le> a"
proof -
  have "x / 2 ^ 53 \<le> x / 2" using assms(2) by (intro divide_left_mono) simp_all
  then show "a \<le> 2 * x" "x / 2 \<le> a" using assms by (simp_all only: abs_le_iff, linarith+)
qed

text \<open>Rounding the typed amount and the product moves it by less than one fraction.\<close>

lemma product_close:
  assumes "0 < n" "n < 2 ^ 50"
  shows "\<bar>round_double (round_double (of_nat n / 1000000) * 1000000) - of_nat n\<bar> < 1"
proof -
  let ?x = "of_nat n / 1000000 :: rat" and ?n = "of_nat n :: rat"
  have n: "1 \<le> ?n" "?n < 2 ^ 50"
    using assms of_nat_less_iff [of n "2 ^ 50", where 'a = rat] by simp_all
  have "\<bar>round_double ?x - ?x\<bar> \<le> ?x / 2 ^ 53" using n(1) by (intro round_double_error small_normal) simp
  then have w: "\<bar>round_double ?x * 1000000 - ?n\<bar> \<le> ?n / 2 ^ 53" by (simp add: abs_le_iff field_simps)
  let ?w = "round_double ?x * 1000000"
  have wb: "?w \<le> 2 * ?n" "?n / 2 \<le> ?w" using rounded_bounds [OF w] n(1) by simp_all
  have w': "\<bar>round_double ?w - ?w\<bar> \<le> ?w / 2 ^ 53" using n(1) wb(2) by (intro round_double_error small_normal) simp
  have "?w / 2 ^ 53 < 1 / 4" "?n / 2 ^ 53 < 1 / 4" using n(2) wb(1) by simp_all
  with w w' show ?thesis by linarith
qed

lemma amount_fraction_nat:
  assumes "of_nat m \<le> round_double (v * 1000000)" "round_double (v * 1000000) < of_nat (m + 1)" "m < 2 ^ 63"
  shows "amount_fraction v = Inr (of_nat m)"
proof -
  let ?p = "round_double (v * 1000000)"
  have f: "\<lfloor>?p\<rfloor> = int m" using assms(1,2) by (intro floor_unique) simp_all
  have "0 \<le> ?p" using assms(1) of_nat_0_le_iff [of m, where 'a = rat] by linarith
  moreover have "?p < 2 ^ 64" using assms(2,3) of_nat_le_iff [of "m + 1" "2 ^ 63", where 'a = rat] by simp
  ultimately show ?thesis using f by (simp add: amount_fraction_def fraction_per_coin_def)
qed

lemma whole_coins:
  assumes "k * 1000000 < 2 ^ 53"
  shows "amount_fraction (of_nat k) = Inr (of_nat (k * 1000000))"
proof (rule amount_fraction_nat)
  have "round_double (of_nat k * 1000000) = of_nat (k * 1000000)"
    using round_double_nat [OF assms] by simp
  then show "of_nat (k * 1000000) \<le> round_double (of_nat k * 1000000)"
    "round_double (of_nat k * 1000000) < of_nat (k * 1000000 + 1)" by simp_all
qed (use assms in simp)

lemma get_double_value:
  assumes "float_field r = (t, rest)" "float_value t = Some (of_nat n / 1000000)" "n < 2 ^ 50"
  shows "get_double r = (round_double (of_nat n / 1000000), True, rest)"
proof -
  let ?d = "round_double (of_nat n / 1000000)"
  have "0 \<le> ?d \<and> ?d < 2 ^ 60"
  proof (cases "n = 0")
    case False
    let ?x = "of_nat n / 1000000 :: rat"
    have n: "1 \<le> (of_nat n :: rat)" "(of_nat n :: rat) < 2 ^ 50"
      using False assms(3) of_nat_less_iff [of n "2 ^ 50", where 'a = rat] by simp_all
    have "\<bar>?d - ?x\<bar> \<le> ?x / 2 ^ 53" using n(1) by (intro round_double_error small_normal) simp
    from rounded_bounds [OF this] have "?d \<le> 2 * ?x" "?x / 2 \<le> ?d" by simp_all
    moreover have "0 \<le> ?x" "?x < 2 ^ 50" using n by simp_all
    ultimately have "0 \<le> ?d" "?d < 2 * 2 ^ 50" by linarith+
    then show ?thesis by simp
  qed (simp add: round_double_def)
  moreover have "(2 :: rat) ^ 60 \<le> double_max" by (simp add: double_max_def)
  ultimately have "\<not> ?d > double_max" "\<not> ?d < - double_max" by linarith+
  then show ?thesis using assms(1,2) by (simp add: get_double_def)
qed

section \<open>Properties\<close>

text \<open>
  C37: what the user types is what is transferred, but for one fraction. An amount of up to six decimals
  below \<open>2 ^ 50\<close> fractions becomes exactly this many fractions or one less, never more; whole
  coins are exact.
\<close>

theorem typed_amount_at_most_one_less:
  assumes "dropWhile is_space (in_rest s) = r" "r \<noteq> []" "\<not> in_fail s" "float_field r = (t, rest)"
    and "float_value t = Some (of_nat n / 1000000)" "n < 2 ^ 50"
  shows "\<exists>amount. get_from get_double s = (Some amount, \<lparr>in_rest = rest, in_fail = False\<rparr>) \<and>
    (amount_fraction amount = Inr (of_nat n) \<or> 0 < n \<and> \<not> 1000000 dvd n \<and> amount_fraction amount = Inr (of_nat (n - 1)))"
proof -
  let ?d = "round_double (of_nat n / 1000000)" and ?p = "round_double (round_double (of_nat n / 1000000) * 1000000)"
  have "get_from get_double s = (Some ?d, \<lparr>in_rest = rest, in_fail = False\<rparr>)"
    using assms(1-3) get_double_value [OF assms(4-6)] by (simp add: get_from_def)
  moreover have "amount_fraction ?d = Inr (of_nat n) \<or> 0 < n \<and> \<not> 1000000 dvd n \<and> amount_fraction ?d = Inr (of_nat (n - 1))"
  proof (cases "1000000 dvd n")
    case True
    then obtain k where k: "n = k * 1000000" by (metis dvd_div_mult_self)
    then have "?d = of_nat k" using assms(6) round_double_nat [of k] by simp
    then show ?thesis using whole_coins [of k] assms(6) by (simp add: k)
  next
    case False
    then have n: "0 < n" by (cases n) simp_all
    note c = product_close [OF n assms(6)]
    show ?thesis
    proof (cases "of_nat n \<le> ?p")
      case True
      then have "amount_fraction ?d = Inr (of_nat n)"
        using c assms(6) by (intro amount_fraction_nat) simp_all
      then show ?thesis by simp
    next
      case less: False
      have "amount_fraction ?d = Inr (of_nat (n - 1))"
        using c less n assms(6) by (intro amount_fraction_nat) (simp_all add: of_nat_diff abs_less_iff)
      then show ?thesis using n False by simp
    qed
  qed
  ultimately show ?thesis by blast
qed

theorem typed_amount_at_most_one_less_witness:
  "\<exists>amount. get_from get_double \<lparr>in_rest = '' 1.5'', in_fail = False\<rparr> = (Some amount, \<lparr>in_rest = [], in_fail = False\<rparr>) \<and>
    (amount_fraction amount = Inr 1500000 \<or> amount_fraction amount = Inr 1499999)"
proof -
  let ?t = "\<lparr>ft_negative = False, ft_int = ''1'', ft_frac = ''5'', ft_exponent = None\<rparr>"
  have "(of_nat 1500000 / 1000000 :: rat) = 3 / 2" by simp
  moreover have "float_value ?t = Some (3 / 2)" by code_simp
  ultimately have v: "float_value ?t = Some (of_nat 1500000 / 1000000)" by (simp only:)
  have f: "float_field ''1.5'' = (?t, [])" and d: "dropWhile is_space '' 1.5'' = ''1.5''" by code_simp+
  show ?thesis
    using typed_amount_at_most_one_less [of "\<lparr>in_rest = '' 1.5'', in_fail = False\<rparr>" "''1.5''", OF _ _ _ f v] d by auto
qed

text \<open>An amount for which the truncation loses a fraction.\<close>

lemma read_8_2: "get_double ''8.2'' = (4616189618054758 / 2 ^ 49, True, [])"
proof -
  let ?t = "\<lparr>ft_negative = False, ft_int = ''8'', ft_frac = ''2'', ft_exponent = None\<rparr>"
  have f: "float_field ''8.2'' = (?t, [])" by code_simp
  have "(of_nat 8200000 / 1000000 :: rat) = 41 / 5" by simp
  moreover have "float_value ?t = Some (41 / 5)" by code_simp
  ultimately have v: "float_value ?t = Some (of_nat 8200000 / 1000000)" by (simp only:)
  have "round_even (41 / 5 / 2 powi (3 - 52)) = 4616189618054758"
    by (rule round_even_near) (simp add: power_int_minus_divide)
  then have "round_double (of_nat 8200000 / 1000000) = 4616189618054758 / 2 ^ 49"
    using round_double_at [of 3 "41 / 5"] by (simp add: power_int_minus_divide)
  then show ?thesis using get_double_value [OF f v] by simp
qed

lemma fraction_8_2: "amount_fraction (4616189618054758 / 2 ^ 49) = Inr 8199999"
proof -
  let ?x = "4616189618054758 / 2 ^ 49 * 1000000 :: rat"
  have "round_even (?x / 2 powi (22 - 52)) = 8804682956799999"
    by (rule round_even_near) (simp add: power_int_minus_divide)
  then have "round_double ?x = 8804682956799999 / 2 ^ 30"
    using round_double_at [of 22 ?x] by (simp add: power_int_minus_divide)
  then have "amount_fraction (4616189618054758 / 2 ^ 49) = Inr (of_nat 8199999)"
    by (intro amount_fraction_nat) simp_all
  then show ?thesis by simp
qed

definition sample_app :: "string \<Rightarrow> byte list app" where
  "sample_app typed = \<lparr>app_cin = \<lparr>in_rest = typed, in_fail = False\<rparr>,
     app_node = \<lparr>fn_manager = sample_manager, fn_connector = sample_connector\<rparr>, app_cout = []\<rparr>"

lemma sample_key_file:
  "key_from_file [''f'' \<mapsto> getAsFullString alice] ''f'' = alice" "isPublicKeyValid (sample_env True) alice"
proof -
  show "key_from_file [''f'' \<mapsto> getAsFullString alice] ''f'' = alice" unfolding key_from_file_def alice_def by code_simp
  show "isPublicKeyValid (sample_env True) alice" by (simp add: isPublicKeyValid_def sample_env_def getAsFullString_def alice_def)
qed

text \<open>
  An amount is truncated, not rounded. Who types 8.2 coins transfers 8.199999: the product with the
  fractions of a coin is rounded to a number just below the whole one.
\<close>

lemma typed_amount_loses_fraction:
  "\<exists>a. command_t (sample_env True) [''f'' \<mapsto> getAsFullString alice] (sample_app '' f 8.2'') = Inr a \<and>
     transaction_queue (fn_manager (app_node a)) = [(alice, 8199999)]"
proof -
  have "get_from get_word \<lparr>in_rest = '' f 8.2'', in_fail = False\<rparr> = (Some ''f'', \<lparr>in_rest = '' 8.2'', in_fail = False\<rparr>)" by code_simp
  moreover have "dropWhile is_space '' 8.2'' = ''8.2''" by code_simp
  then have "get_from get_double \<lparr>in_rest = '' 8.2'', in_fail = False\<rparr> =
      (Some (4616189618054758 / 2 ^ 49), \<lparr>in_rest = [], in_fail = False\<rparr>)"
    by (simp add: get_from_def read_8_2 del: power_numeral power_numeral_even power_numeral_odd)
  moreover have "transaction_queue sample_manager = []" by (simp add: sample_manager_def BlockchainManager_new_def)
  ultimately show ?thesis
    using sample_key_file fraction_8_2
    by (simp add: command_t_def Let_def sample_app_def print_out_def in_manager_def triggerTransaction_def)
qed

section \<open>Input that is no number\<close>

lemma nothing_read_stops:
  assumes "in_fail (app_cin a) \<or> dropWhile is_space (in_rest (app_cin a)) = []"
  shows "main_iteration E S rnd a = Inl Uninitialized"
proof -
  have "fst (get_from get_char (app_cin a)) = None" using assms by (auto simp: get_from_def)
  then show ?thesis by (simp add: main_iteration_def Let_def print_out_def case_prod_unfold)
qed

text \<open>
  A number that cannot be read ends the program. After the command for the number of mining threads
  with something else than a number, the miner is set to no thread and the stream has failed; the next
  iteration, whose extraction then stores nothing, switches on an uninitialised character. So does the
  first iteration after the end of the input.
\<close>

lemma malformed_number_stops_program:
  assumes "\<not> in_fail (app_cin a)" "dropWhile is_space (in_rest (app_cin a)) = CHR ''m'' # r"
    and "dropWhile is_space r = c # r'" "\<not> is_digit c" "c \<noteq> CHR ''+''" "c \<noteq> CHR ''-''"
    and "dropWhile is_space (in_rest (app_cin b)) = []"
  shows "(\<exists>a'. main_iteration E S rnd a = Inr (a', False) \<and>
      num_worker_threads (bm_miner (fn_manager (app_node a'))) = 0 \<and> main_iteration E S rnd' a' = Inl Uninitialized) \<and>
    main_iteration E S rnd b = Inl Uninitialized"
proof
  have "get_from get_char (app_cin a) = (Some (CHR ''m''), \<lparr>in_rest = r, in_fail = False\<rparr>)"
    using assms(1,2) by (simp add: get_from_def get_char_def)
  moreover have "get_u32 (c # r') = (0, False, c # r')"
    using assms(4-6) by (simp add: get_u32_def get_sign_def)
  then have "get_from get_u32 \<lparr>in_rest = r, in_fail = False\<rparr> = (Some 0, \<lparr>in_rest = c # r', in_fail = True\<rparr>)"
    using assms(3) by (simp add: get_from_def)
  ultimately obtain a' where a': "main_iteration E S rnd a = Inr (a', False)" "in_fail (app_cin a')"
    "num_worker_threads (bm_miner (fn_manager (app_node a'))) = 0"
    by (simp add: main_iteration_def command_m_def print_out_def in_manager_def changeNumWorkerThreads_def miner_start_def
        miner_stop_def Let_def case_prod_unfold)
  then show "\<exists>a'. main_iteration E S rnd a = Inr (a', False) \<and>
      num_worker_threads (bm_miner (fn_manager (app_node a'))) = 0 \<and> main_iteration E S rnd' a' = Inl Uninitialized"
    using nothing_read_stops by blast
  show "main_iteration E S rnd b = Inl Uninitialized"
    using assms(7) by (intro nothing_read_stops) simp
qed

section \<open>The status line\<close>

lemma length_concat_const: "\<forall>x \<in> set xs. length x = n \<Longrightarrow> length (concat xs) = n * length xs"
  by (induction xs) simp_all

lemma coins_counted:
  assumes "baseline_inv E b" "length (data_value_hashes b) < 2 ^ 54"
  shows "unat (coins_in_circulation (mining_state b)) = length (concat (data_value_hashes b))"
proof -
  let ?h = "data_value_hashes b" and ?e = "epoch (mining_state b)"
  have h: "?h \<noteq> []" "\<forall>x \<in> set (butlast ?h). length x = 1000" "length (last ?h) \<le> 1000" "length ?h = unat ?e + 1"
    "num_minings_in_epoch (mining_state b) = of_nat (length (last ?h))"
    using assms(1) by (auto simp: baseline_inv_def epochs_inv_def num_minings_ok_def max_num_creations_def)
  have "length (concat ?h) = length (concat (butlast ?h)) + length (last ?h)"
    using h(1) by (subst append_butlast_last_id [OF h(1), symmetric]) (simp del: append_butlast_last_id)
  also have "length (concat (butlast ?h)) = 1000 * unat ?e" using length_concat_const [OF h(2)] h(4) by simp
  finally have len: "length (concat ?h) = 1000 * unat ?e + length (last ?h)" .
  have "scast (of_nat (length (last ?h)) :: i32) = (of_nat (length (last ?h)) :: u64)"
  proof -
    have "sint (of_nat (length (last ?h)) :: i32) = int (length (last ?h))"
      using h(3) by (simp add: signed_of_nat signed_take_bit_int_eq_self)
    then show ?thesis by (metis of_int_of_nat_eq scast_eq)
  qed
  then have "coins_in_circulation (mining_state b) = of_nat (length (last ?h) + 1000 * unat ?e)"
    by (simp add: coins_in_circulation_def h(5) max_num_creations_def)
  then have "unat (coins_in_circulation (mining_state b)) = length (last ?h) + 1000 * unat ?e"
    using h(3,4) assms(2) by (simp only:) (intro unat_of_nat_small, simp)
  then show ?thesis by (simp add: len)
qed

text \<open>
  The status command never fails on a consistent chain and shows its newest block; the coins in
  circulation it shows are exactly the data values that have been mined since the first epoch.
\<close>

lemma status_shown:
  assumes "chain_inv E (bm_blockchain (fn_manager (app_node a))) bs" "percentBlockchainSynchronized E (fn_manager (app_node a)) = Inr p"
    and "length (data_value_hashes (current_baseline (bm_blockchain (fn_manager (app_node a))))) < 2 ^ 54"
  shows "\<exists>st. command_s E a = Inr (print_out [Status st] a) \<and> st_block_uid st = uid_b (last bs) \<and>
    st_block_hash st = hash_toString (hash_b (last bs)) \<and>
    unat (st_coins st) = length (concat (data_value_hashes (current_baseline (bm_blockchain (fn_manager (app_node a))))))"
proof -
  have rep: "chain_rep E (bm_blockchain (fn_manager (app_node a))) bs"
    and inv: "baseline_inv E (current_baseline (bm_blockchain (fn_manager (app_node a))))"
    using assms(1) by (simp_all add: chain_inv_def)
  then show ?thesis
    using chain_rep_newest(1) [OF rep] assms(2) coins_counted [OF inv assms(3)]
    by (simp add: command_s_def Let_def getMiningState_def) (rule exI, intro conjI, rule refl, simp_all)
qed

end
