(* ===== verification/Peer_Estimation.thy ===== *)
theory Peer_Estimation
  imports Active_Peers_Collector Double
begin

text \<open>
  The estimate of the number of peers in a Bloom filter, \<open>numHashEstimation\<close> of
  src/src/scn/Common/BloomFilter.h, with the roundings of the type \<open>float\<close>, and its conversion to
  \<open>uint64_t\<close> in src/src/scn/BlockchainManager/ActivePeersCollector.cpp. The overload of \<open>std::log\<close> for
  \<open>float\<close> is the argument \<open>L\<close> on positive arguments.
\<close>

section \<open>Definitions\<close>

text \<open>The values of a floating-point type; a zero is positive, as the program computes no other.\<close>

datatype fp = Fin rat | PInf | MInf | NaN

text \<open>A mantissa of 24 bits; below \<open>2 powi (- 126)\<close> the steps stay at the smallest.\<close>

definition round_float :: "rat \<Rightarrow> rat" where
  "round_float x =
     (if x = 0 then 0
      else (let e = max (lg2 \<bar>x\<bar> - 23) (- 149) in of_int (round_even (x / 2 powi e)) * 2 powi e))"

definition std_log :: "(rat \<Rightarrow> rat) \<Rightarrow> rat \<Rightarrow> fp" where
  "std_log L x = (if x < 0 then NaN else if x = 0 then MInf else Fin (L x))"

fun fdiv :: "fp \<Rightarrow> fp \<Rightarrow> fp" where
  "fdiv (Fin a) (Fin b) =
     (if b = 0 then if a = 0 then NaN else if 0 < a then PInf else MInf else Fin (round_float (a / b)))"
| "fdiv PInf (Fin b) = (if b < 0 then MInf else PInf)"
| "fdiv MInf (Fin b) = (if b < 0 then PInf else MInf)"
| "fdiv (Fin a) PInf = Fin 0"
| "fdiv (Fin a) MInf = Fin 0"
| "fdiv _ _ = NaN"

fun ftwice :: "fp \<Rightarrow> fp" where
  "ftwice (Fin a) = Fin (round_float (2 * a))"
| "ftwice x = x"

definition numHashEstimation :: "(rat \<Rightarrow> rat) \<Rightarrow> nat \<Rightarrow> byte list \<Rightarrow> fp" where
  "numHashEstimation L M f =
     (let c = min (countZeroBits f M) (of_nat M * 8 - 1);
          m = round_float (of_nat (M * 8))
      in fdiv (std_log L (round_float (round_float (of_nat (unat c)) / m)))
              (ftwice (std_log L (round_float (1 - round_float (1 / m))))))"

text \<open>
  The conversion to \<open>uint64_t\<close> drops the fraction; it is undefined for values that do not fit, for
  infinities and for NaN.
\<close>

fun to_u64 :: "fp \<Rightarrow> u64 option" where
  "to_u64 (Fin x) = (if - 1 < x \<and> x < 2 ^ 64 then Some (of_nat (nat \<lfloor>x\<rfloor>)) else None)"
| "to_u64 _ = None"

definition peers_estimate :: "(rat \<Rightarrow> rat) \<Rightarrow> ActivePeersList \<Rightarrow> u64 option" where
  "peers_estimate L l = to_u64 (numHashEstimation L bloom_bytes l)"

text \<open>The logarithm has a relative error of at most one unit of the last place.\<close>

definition log_accurate :: "(rat \<Rightarrow> rat) \<Rightarrow> bool" where
  "log_accurate L \<longleftrightarrow>
     (\<forall>x. 0 < x \<and> x < 1 \<longrightarrow> \<bar>real_of_rat (L x) - ln (real_of_rat x)\<bar> \<le> \<bar>ln (real_of_rat x)\<bar> / 2 ^ 23)"

section \<open>Rounding\<close>

lemma round_float_error:
  assumes "2 powi (- 126) \<le> \<bar>x\<bar>"
  shows "\<bar>round_float x - x\<bar> \<le> \<bar>x\<bar> / 2 ^ 24"
proof -
  have x: "0 < \<bar>x\<bar>" using assms by (rule less_le_trans [rotated]) simp
  let ?e = "lg2 \<bar>x\<bar> - 23" and ?u = "2 powi (lg2 \<bar>x\<bar> - 23) :: rat"
  have "max ?e (- 149) = ?e" using lg2_ge [OF x assms] by simp
  then have "round_float x = of_int (round_even (x / ?u)) * ?u" using x by (simp add: round_float_def Let_def)
  moreover have "\<bar>of_int (round_even (x / ?u)) * ?u - x\<bar> = \<bar>of_int (round_even (x / ?u)) - x / ?u\<bar> * ?u"
  proof -
    have "of_int (round_even (x / ?u)) * ?u - x = (of_int (round_even (x / ?u)) - x / ?u) * ?u" by (simp add: left_diff_distrib)
    then show ?thesis by (simp only: abs_mult) simp
  qed
  ultimately have "\<bar>round_float x - x\<bar> \<le> 1 / 2 * ?u"
    using mult_right_mono [OF round_even_error [of "x / ?u"], of ?u] by simp
  also have "?u = 2 powi (lg2 \<bar>x\<bar>) / 2 ^ 23" by (simp add: power_int_diff)
  also have "1 / 2 * (2 powi (lg2 \<bar>x\<bar>) / 2 ^ 23) \<le> \<bar>x\<bar> / 2 ^ 24" using lg2_bounds(1) [OF x] by simp
  finally show ?thesis .
qed

text \<open>Fractions of 24 bits are represented exactly.\<close>

lemma round_float_exact:
  assumes "n < 2 ^ 24" "k \<le> 149"
  shows "round_float (of_nat n / 2 ^ k) = of_nat n / 2 ^ k"
proof (cases "n = 0")
  case False
  let ?x = "of_nat n / 2 ^ k :: rat"
  let ?e = "max (lg2 ?x - 23) (- 149)"
  have x: "0 < ?x" using False by simp
  have "rat_of_nat n < rat_of_nat (2 ^ 24)" using assms(1) by (simp only: of_nat_less_iff)
  then have "?x < 2 powi (24 - int k)" by (simp add: power_int_diff field_simps)
  then have "lg2 ?x < 24 - int k" by (rule lg2_less [OF x])
  then have e: "?e \<le> - int k" using assms(2) by simp
  then have e0: "?e \<le> 0" by simp
  define j where "j = nat (- ?e) - k"
  have j: "nat (- ?e) = j + k" using e unfolding j_def by linarith
  have p: "(2 :: rat) powi ?e = 1 / (2 ^ j * 2 ^ k)" using powi_nonpos [OF e0] unfolding j by (simp only: power_add)
  have q: "?x / 2 powi ?e = of_int (int n * 2 ^ j)" unfolding p by simp
  have "round_even (?x / 2 powi ?e) = int n * 2 ^ j" unfolding q by (rule round_even_int)
  moreover have "of_int (int n * 2 ^ j) * 2 powi ?e = ?x" unfolding p by simp
  moreover have "?x \<noteq> 0" "\<bar>?x\<bar> = ?x" using x by linarith+
  ultimately show ?thesis by (simp only: round_float_def Let_def if_False)
qed (simp add: round_float_def)

lemma round_float_error_real:
  assumes "2 powi (- 126) \<le> \<bar>x\<bar>"
  shows "\<bar>real_of_rat (round_float x) - real_of_rat x\<bar> \<le> \<bar>real_of_rat x\<bar> / 2 ^ 24"
proof -
  have "real_of_rat \<bar>round_float x - x\<bar> \<le> real_of_rat (\<bar>x\<bar> / 2 ^ 24)"
    using round_float_error [OF assms] by (simp only: of_rat_less_eq)
  then show ?thesis by (simp add: of_rat_divide of_rat_power flip: of_rat_diff)
qed

section \<open>The estimate\<close>

text \<open>The number of zero bits that the estimate uses, between 0 and 65535.\<close>

definition zeros :: "ActivePeersList \<Rightarrow> nat" where
  "zeros l = unat (min (countZeroBits l bloom_bytes) (of_nat bloom_bytes * 8 - 1))"

lemma zeros_le: "zeros l \<le> 65535"
proof -
  have "min (countZeroBits l bloom_bytes) (65535 :: u32) \<le> 65535" by simp
  then show ?thesis by (simp add: zeros_def bloom_bytes_def word_le_nat_alt)
qed

lemma numHashEstimation_zeros:
  "numHashEstimation L bloom_bytes l =
     fdiv (std_log L (of_nat (zeros l) / 65536)) (ftwice (std_log L (65535 / 65536)))"
proof -
  have r: "round_float (of_nat n / 65536) = of_nat n / 65536" "round_float (of_nat n) = of_nat n" if "n < 2 ^ 24" for n
    using round_float_exact [OF that, of 16] round_float_exact [OF that, of 0] by simp_all
  have z: "zeros l < 2 ^ 24" using zeros_le [of l] by simp
  have "round_float 65536 = 65536" "round_float (1 / 65536) = 1 / 65536" "round_float (65535 / 65536) = 65535 / 65536"
    using r(2) [of 65536] r(1) [of 1] r(1) [of 65535] by simp_all
  moreover have "(1 :: rat) - 1 / 65536 = 65535 / 65536" by simp
  moreover have "rat_of_nat (bloom_bytes * 8) = 65536" by (simp add: bloom_bytes_def)
  ultimately show ?thesis using r(1,2) [OF z] by (simp only: numHashEstimation_def Let_def zeros_def [symmetric])
qed

lemma log_bounds:
  assumes "log_accurate L" "0 < x" "x < 1"
  shows "ln (real_of_rat x) < 0" "(1 + 1 / 2 ^ 23) * ln (real_of_rat x) \<le> real_of_rat (L x)"
    "real_of_rat (L x) \<le> (1 - 1 / 2 ^ 23) * ln (real_of_rat x)"
proof -
  show "ln (real_of_rat x) < 0" using assms(2,3) by simp
  moreover have "\<bar>real_of_rat (L x) - ln (real_of_rat x)\<bar> \<le> \<bar>ln (real_of_rat x)\<bar> / 2 ^ 23"
    using assms by (simp add: log_accurate_def)
  ultimately show "(1 + 1 / 2 ^ 23) * ln (real_of_rat x) \<le> real_of_rat (L x)"
    "real_of_rat (L x) \<le> (1 - 1 / 2 ^ 23) * ln (real_of_rat x)"
    by (simp_all add: abs_le_iff algebra_simps)
qed

text \<open>The quotient of two values with small relative errors.\<close>

lemma quotient_error:
  fixes a d \<alpha> \<beta> :: real
  assumes "0 < \<alpha>" "0 < \<beta>" "(1 - 2 * u) * \<alpha> \<le> a" "a \<le> (1 + 2 * u) * \<alpha>"
    and "(1 - 3 * u) * (2 * \<beta>) \<le> d" "d \<le> (1 + 4 * u) * (2 * \<beta>)" "u = 1 / 2 ^ 24"
  shows "(1 - 6 * u) * (\<alpha> / (2 * \<beta>)) \<le> a / d" "a / d \<le> (1 + 6 * u) * (\<alpha> / (2 * \<beta>))"
proof -
  have pos: "0 < (1 - 3 * u) * (2 * \<beta>)" "0 < (1 - 2 * u) * \<alpha>" using assms(1,2,7) by simp_all
  have d: "0 < d" "0 < a" using pos assms(3,5) by linarith+
  have "a / d \<le> ((1 + 2 * u) * \<alpha>) / ((1 - 3 * u) * (2 * \<beta>))" using assms(4,5) d pos by (intro frac_le) simp_all
  also have "\<dots> = ((1 + 2 * u) / (1 - 3 * u)) * (\<alpha> / (2 * \<beta>))" by simp
  also have "\<dots> \<le> (1 + 6 * u) * (\<alpha> / (2 * \<beta>))"
    using assms(1,2) by (intro mult_right_mono) (simp_all add: assms(7))
  finally show "a / d \<le> (1 + 6 * u) * (\<alpha> / (2 * \<beta>))" .
  have "(1 - 6 * u) * (\<alpha> / (2 * \<beta>)) \<le> ((1 - 2 * u) / (1 + 4 * u)) * (\<alpha> / (2 * \<beta>))"
    using assms(1,2) by (intro mult_right_mono) (simp_all add: assms(7))
  also have "\<dots> = ((1 - 2 * u) * \<alpha>) / ((1 + 4 * u) * (2 * \<beta>))" by simp
  also have "\<dots> \<le> a / d" using assms(3,6) d pos by (intro frac_le) simp_all
  finally show "(1 - 6 * u) * (\<alpha> / (2 * \<beta>)) \<le> a / d" .
qed

lemma rounded_error:
  fixes R Q X :: real
  assumes "1 / 2 \<le> X" "(1 - 6 / 2 ^ 24) * X \<le> Q" "Q \<le> (1 + 6 / 2 ^ 24) * X"
  shows "1 / 4 \<le> Q" "\<bar>R - Q\<bar> \<le> \<bar>Q\<bar> / 2 ^ 24 \<Longrightarrow> \<bar>R - X\<bar> \<le> X / 2 ^ 21"
proof -
  show Q: "1 / 4 \<le> Q" using assms(1,2) by simp
  assume e: "\<bar>R - Q\<bar> \<le> \<bar>Q\<bar> / 2 ^ 24"
  have "\<bar>Q\<bar> = Q" using Q by simp
  then have "R - Q \<le> Q / 2 ^ 24" "Q - R \<le> Q / 2 ^ 24" using e by (simp_all only: abs_le_iff) simp_all
  then show "\<bar>R - X\<bar> \<le> X / 2 ^ 21" using assms by (intro abs_leI) simp_all
qed

definition exact_estimate :: "nat \<Rightarrow> real" where
  "exact_estimate c = ln (real c / 65536) / (2 * ln (65535 / 65536))"

lemma twice_error:
  fixes x d \<beta> :: real
  assumes "0 < \<beta>" "(1 + 1 / 2 ^ 23) * - \<beta> \<le> x" "x \<le> (1 - 1 / 2 ^ 23) * - \<beta>" "\<bar>d - 2 * x\<bar> \<le> \<bar>2 * x\<bar> / 2 ^ 24"
  shows "d < 0" "(1 - 3 / 2 ^ 24) * (2 * \<beta>) \<le> - d" "- d \<le> (1 + 4 / 2 ^ 24) * (2 * \<beta>)"
proof -
  have x: "x < 0" using assms(1,3) by simp
  then have "d - 2 * x \<le> - (2 * x) / 2 ^ 24" "2 * x - d \<le> - (2 * x) / 2 ^ 24" using assms(4) by (auto simp: abs_le_iff)
  then show "d < 0" "(1 - 3 / 2 ^ 24) * (2 * \<beta>) \<le> - d" "- d \<le> (1 + 4 / 2 ^ 24) * (2 * \<beta>)"
    using x assms(1-3) by simp_all
qed

lemma twice_log:
  assumes "log_accurate L"
  shows "\<exists>d. ftwice (std_log L (65535 / 65536)) = Fin d \<and> d < 0 \<and>
    (1 - 3 / 2 ^ 24) * (2 * - ln (65535 / 65536)) \<le> - real_of_rat d \<and>
    - real_of_rat d \<le> (1 + 4 / 2 ^ 24) * (2 * - ln (65535 / 65536))"
proof -
  let ?y = "65535 / 65536 :: rat" and ?d = "round_float (2 * L (65535 / 65536))"
  have y: "real_of_rat ?y = 65535 / 65536" by (simp add: of_rat_divide)
  have "0 < ?y" "?y < 1" by simp_all
  note b = log_bounds [OF assms this, unfolded y]
  have "ln (65535 / 65536) \<le> (65535 / 65536 - 1 :: real)" by (rule ln_le_minus_one) simp
  then have "ln (65535 / 65536) \<le> (- 1 / 65536 :: real)" by simp
  then have "real_of_rat (2 * L ?y) \<le> - 1 / 65536" using b(3) by (simp add: of_rat_mult)
  then have "real_of_rat (2 * L ?y) \<le> real_of_rat (- 1 / 65536)" by (simp add: of_rat_divide of_rat_minus)
  then have l: "2 * L ?y \<le> - 1 / 65536" by (simp only: of_rat_less_eq)
  have "(2 :: rat) powi (- 126) \<le> 2 powi (- 16)" by (rule power_int_increasing) simp_all
  also have "\<dots> = 1 / 65536" by (simp add: power_int_def inverse_eq_divide power_one_over)
  finally have "2 powi (- 126) \<le> \<bar>2 * L ?y\<bar>" using l by linarith
  then have e: "\<bar>real_of_rat ?d - real_of_rat (2 * L ?y)\<bar> \<le> \<bar>real_of_rat (2 * L ?y)\<bar> / 2 ^ 24"
    by (rule round_float_error_real)
  have t: "real_of_rat (2 * L ?y) = 2 * real_of_rat (L ?y)" by (simp add: of_rat_mult)
  have "0 < - ln (65535 / 65536 :: real)" using b(1) by simp
  note d = twice_error [OF this, of "real_of_rat (L ?y)" "real_of_rat ?d", unfolded minus_minus, OF b(2,3) e [unfolded t]]
  have "ftwice (std_log L ?y) = Fin ?d" by (simp add: std_log_def)
  then show ?thesis using d by (intro exI [of _ ?d]) (simp only: of_rat_less_0_iff simp_thms)
qed

text \<open>Setting a bit of the list takes one of its zeros, unless it is set already.\<close>

lemma zero_bits_or: "k < 8 \<Longrightarrow> zero_bits (b OR push_bit k 1) + (if bit b k then 0 else 1) = zero_bits b"
proof -
  assume k: "k < 8"
  have f: "zero_bits c = card {i. i < 8 \<and> \<not> bit c i}" for c :: byte
  proof -
    have "zero_bits c = card (set (filter (\<lambda>i. \<not> bit c i) [0..<8]))"
      unfolding zero_bits_def by (intro distinct_card [symmetric]) simp
    then show ?thesis by (simp add: conj_commute)
  qed
  let ?Z = "{i. i < 8 \<and> \<not> bit b i}"
  have "{i. i < 8 \<and> \<not> bit (b OR push_bit k 1) i} = ?Z - {k}" by (auto simp: bit_simps)
  moreover have "card (?Z - {k}) + (if bit b k then 0 else 1) = card ?Z"
  proof (cases "bit b k")
    case False
    then have "Suc (card (?Z - {k})) = card ?Z" using k by (intro card_Suc_Diff1) simp_all
    then show ?thesis using False by simp
  qed simp
  ultimately show ?thesis by (simp only: f)
qed

lemma zero_bits_set:
  assumes "unat i div 8 < length f"
  shows "sum_list (map zero_bits (set_bit_at i f)) + (if bit_at f i then 0 else 1) = sum_list (map zero_bits f)"
proof -
  let ?j = "unat i div 8" and ?b = "f ! (unat i div 8)"
  have z: "zero_bits (?b OR push_bit (unat i mod 8) 1) + (if bit_at f i then 0 else 1) = zero_bits ?b"
    using zero_bits_or [of "unat i mod 8" ?b] by (simp add: bit_at_eq)
  moreover have "zero_bits ?b \<le> sum_list (map zero_bits f)" using assms by (intro member_le_sum_list) simp_all
  ultimately show ?thesis
    using assms by (simp add: set_bit_at_def Let_def unat_and_7 unat_div_distrib map_update sum_list_update)
qed

lemma zeros_eq: "length l = bloom_bytes \<Longrightarrow> zeros l = min (sum_list (map zero_bits l)) 65535"
proof -
  assume l: "length l = bloom_bytes"
  have "sum_list (map zero_bits l) \<le> sum_list (map (\<lambda>_. 8) l)"
    by (intro sum_list_mono) (auto simp: zero_bits_def intro: order_trans [OF length_filter_le])
  then have "sum_list (map zero_bits l) \<le> 65536" by (simp add: sum_list_triv l bloom_bytes_def)
  then have "unat (of_nat (sum_list (map zero_bits l)) :: u32) = sum_list (map zero_bits l)" by (simp add: unat_of_nat)
  moreover have "unat (of_nat bloom_bytes * 8 - 1 :: u32) = 65535" by (simp add: bloom_bytes_def)
  ultimately show ?thesis by (simp add: zeros_def countZeroBits_eq l min_def word_le_nat_alt)
qed

lemma exact_estimate_none: "exact_estimate 65535 = 1 / 2"
proof -
  have "ln (65535 / 65536 :: real) \<noteq> 0" by simp
  then show ?thesis by (simp add: exact_estimate_def)
qed

lemma exact_estimate_one: "1 + 1 / 2 ^ 18 \<le> exact_estimate 65534" "exact_estimate 65534 \<le> 65536 / 65534"
proof -
  define \<alpha> \<beta> :: real where "\<alpha> = - ln (65534 / 65536)" and "\<beta> = - ln (65535 / 65536)"
  have "ln (65534 / 65536 :: real) - (ln (65535 / 65536) + ln (65535 / 65536)) = ln ((65534 / 65536) / ((65535 / 65536) * (65535 / 65536)))"
    by (simp only: ln_mult ln_div) simp
  also have "\<dots> \<le> (65534 / 65536) / ((65535 / 65536) * (65535 / 65536)) - 1" by (rule ln_le_minus_one) simp
  finally have a: "1 / 65535 ^ 2 \<le> \<alpha> - 2 * \<beta>" by (simp add: \<alpha>_def \<beta>_def)
  have "\<beta> = ln (65536 / 65535)" "\<alpha> = ln (65536 / 65534)" by (simp_all add: \<alpha>_def \<beta>_def flip: ln_inverse)
  moreover have "ln (65536 / 65535 :: real) \<le> 65536 / 65535 - 1" "ln (65536 / 65534 :: real) \<le> 65536 / 65534 - 1"
    by (rule ln_le_minus_one, simp)+
  moreover have "ln (65535 / 65536 :: real) \<le> 65535 / 65536 - 1" by (rule ln_le_minus_one) simp
  ultimately have b: "\<beta> \<le> 1 / 65535" "\<alpha> \<le> 2 / 65534" "1 / 65536 \<le> \<beta>" unfolding \<beta>_def by simp_all
  have e: "exact_estimate 65534 = \<alpha> / (2 * \<beta>)" by (simp add: exact_estimate_def \<alpha>_def \<beta>_def)
  have "0 < 2 * \<beta>" using b(3) by simp
  then show "1 + 1 / 2 ^ 18 \<le> exact_estimate 65534" "exact_estimate 65534 \<le> 65536 / 65534"
    using a b by (simp_all add: e le_divide_eq divide_le_eq)
qed

text \<open>The list of a node that has started over holds its own key only.\<close>

definition own_bits :: "hash_t \<Rightarrow> u32 set" where
  "own_bits h = {bloom_idx (ucast h) (of_nat bloom_bytes), bloom_idx (ucast (drop_bit 32 h)) (of_nat bloom_bytes)}"

lemma zeros_own: "zeros (temp_active_peers_list (restartListBuilding est a)) = 65536 - card (own_bits (owner_key_hash a))"
proof -
  let ?c = "bloom_clear bloom_bytes" and ?h = "owner_key_hash a"
  let ?i = "bloom_idx (ucast ?h) (of_nat bloom_bytes)" and ?j = "bloom_idx (ucast (drop_bit 32 ?h)) (of_nat bloom_bytes)"
  have wf: "bloom_wf bloom_bytes ?c" by (simp add: bloom_wf_peers bloom_clear_def)
  note r = bloom_idx_in_range [OF wf]
  have z: "zero_bits 0 = 8" by (simp add: zero_bits_def)
  have nb: "\<not> bit_at ?c k" if "unat k div 8 < length ?c" for k
    using that by (simp add: bit_at_eq bloom_clear_def)
  have "sum_list (map zero_bits ?c) = 65536" by (simp add: bloom_clear_def sum_list_replicate z) (simp add: bloom_bytes_def)
  then have s1: "sum_list (map zero_bits (set_bit_at ?i ?c)) = 65535" using zero_bits_set [OF r, of "ucast ?h"] nb [OF r] by simp
  have "bit_at (set_bit_at ?i ?c) ?j \<longleftrightarrow> ?i = ?j" using bit_set_bit_at [OF r, of "ucast ?h" ?j] nb [OF r] by (simp add: word_unat_eq_iff)
  then have "sum_list (map zero_bits (set_bit_at ?j (set_bit_at ?i ?c))) = (if ?i = ?j then 65535 else 65534)"
    using zero_bits_set [of ?j "set_bit_at ?i ?c"] s1 r by (cases "?i = ?j") simp_all
  moreover have "temp_active_peers_list (restartListBuilding est a) = set_bit_at ?j (set_bit_at ?i ?c)"
    by (simp add: restartListBuilding_def Let_def insertHash_def setBits_def)
  moreover have "length (set_bit_at ?j (set_bit_at ?i ?c)) = bloom_bytes" by (simp add: bloom_clear_def)
  ultimately show ?thesis by (simp add: zeros_eq own_bits_def)
qed

lemma to_u64_near:
  assumes "real n \<le> real_of_rat q" "real_of_rat q < real n + 1" "n < 2 ^ 63"
  shows "to_u64 (Fin q) = Some (of_nat n)"
proof -
  have "rat_of_nat n \<le> q" "q < of_nat n + 1"
    using assms(1,2) of_rat_less_eq [where 'a = real, of "of_nat n" q] of_rat_less [where 'a = real, of q "of_nat n + 1"]
    by (simp_all add: of_rat_add)
  moreover from this have "\<lfloor>q\<rfloor> = int n" by (simp add: floor_eq_iff)
  moreover have "rat_of_nat n < rat_of_nat (2 ^ 63)" using assms(3) by (simp only: of_nat_less_iff)
  ultimately show ?thesis by simp
qed

lemma numHashEstimation_accurate:
  assumes "log_accurate L" "0 < zeros l"
  shows "\<exists>q. numHashEstimation L bloom_bytes l = Fin q \<and>
    \<bar>real_of_rat q - exact_estimate (zeros l)\<bar> \<le> exact_estimate (zeros l) / 2 ^ 21"
proof -
  let ?x = "of_nat (zeros l) / 65536 :: rat" and ?\<alpha> = "- ln (real (zeros l) / 65536)" and ?\<beta> = "- ln (65535 / 65536) :: real"
  obtain d where d: "ftwice (std_log L (65535 / 65536)) = Fin d" "d < 0"
    "(1 - 3 / 2 ^ 24) * (2 * ?\<beta>) \<le> - real_of_rat d" "- real_of_rat d \<le> (1 + 4 / 2 ^ 24) * (2 * ?\<beta>)"
    using twice_log [OF assms(1)] by blast
  have z: "real (zeros l) \<le> 65535" using zeros_le [of l] by simp
  have x: "0 < ?x" "?x < 1" "real_of_rat ?x = real (zeros l) / 65536"
    using assms(2) zeros_le [of l] by (simp_all add: of_rat_divide)
  note b = log_bounds [OF assms(1) x(1,2), unfolded x(3)]
  have "real (zeros l) / 65536 \<le> 65535 / 65536" using z by simp
  then have ab: "?\<beta> \<le> ?\<alpha>" "0 < ?\<beta>" "0 < ?\<alpha>" using assms(2) b(1) by simp_all
  let ?q = "L ?x / d" and ?X = "?\<alpha> / (2 * ?\<beta>)"
  have q: "real_of_rat ?q = (- real_of_rat (L ?x)) / (- real_of_rat d)" by (simp add: of_rat_divide)
  have a: "(1 - 2 * (1 / 2 ^ 24)) * ?\<alpha> \<le> - real_of_rat (L ?x)" "- real_of_rat (L ?x) \<le> (1 + 2 * (1 / 2 ^ 24)) * ?\<alpha>"
    using b by simp_all
  have r: "(1 - 6 / 2 ^ 24) * ?X \<le> real_of_rat ?q" "real_of_rat ?q \<le> (1 + 6 / 2 ^ 24) * ?X"
    using quotient_error [OF ab(3,2) a, of "- real_of_rat d"] d(3,4) unfolding q by simp_all
  have X: "1 / 2 \<le> ?X" using ab by (simp add: field_simps)
  have e: "exact_estimate (zeros l) = ?X" by (simp add: exact_estimate_def)
  note err = rounded_error [OF X r]
  have "1 / 4 \<le> real_of_rat ?q" by (rule err(1))
  moreover have "real_of_rat (1 / 4) = 1 / 4" by (simp add: of_rat_divide)
  ultimately have "real_of_rat (1 / 4) \<le> real_of_rat ?q" by linarith
  then have "1 / 4 \<le> ?q" by (simp only: of_rat_less_eq)
  moreover have "(2 :: rat) powi (- 126) \<le> 2 powi (- 2)" by (rule power_int_increasing) simp_all
  moreover have "(2 :: rat) powi (- 2) = 1 / 4" by (simp add: powi_nonpos)
  ultimately have "2 powi (- 126) \<le> \<bar>?q\<bar>" by linarith
  note re = round_float_error_real [OF this]
  have "\<bar>real_of_rat (round_float ?q) - ?X\<bar> \<le> ?X / 2 ^ 21" by (rule err(2) [OF re])
  moreover have "numHashEstimation L bloom_bytes l = Fin (round_float ?q)"
    using assms(2) d(2) by (simp only: numHashEstimation_zeros d(1)) (simp add: std_log_def)
  ultimately show ?thesis unfolding e by blast
qed

section \<open>Properties\<close>


text \<open>The hypothesis on the logarithm holds for the exact one, rounded down.\<close>

definition sample_log :: "rat \<Rightarrow> rat" where
  "sample_log x = (1 - x) / 2 ^ 23 * of_int \<lfloor>ln (real_of_rat x) * 2 ^ 23 / (1 - real_of_rat x)\<rfloor>"

lemma sample_log_accurate: "log_accurate sample_log"
  unfolding log_accurate_def
proof (intro allI impI)
  fix x :: rat
  assume x: "0 < x \<and> x < 1"
  let ?x = "real_of_rat x" and ?s = "(1 - real_of_rat x) / 2 ^ 23"
  have s: "0 < ?s" using x by simp
  have n: "ln ?x < 0" "1 - ?x \<le> - ln ?x" using x ln_le_minus_one [of ?x] by simp_all
  have "real_of_rat (sample_log x) = ?s * of_int \<lfloor>ln ?x / ?s\<rfloor>"
    by (simp add: sample_log_def of_rat_mult of_rat_divide of_rat_diff of_rat_power)
  moreover have "?s * of_int \<lfloor>ln ?x / ?s\<rfloor> \<le> ?s * (ln ?x / ?s)" using s by (intro mult_left_mono) simp_all
  moreover have "?s * (ln ?x / ?s - 1) \<le> ?s * of_int \<lfloor>ln ?x / ?s\<rfloor>" using s by (intro mult_left_mono) (linarith, simp)
  moreover have "?s * (ln ?x / ?s) = ln ?x" using s by (simp only: times_divide_eq_right nonzero_mult_div_cancel_left less_imp_neq [THEN not_sym] not_False_eq_True)
  ultimately have "real_of_rat (sample_log x) \<le> ln ?x" "ln ?x - ?s \<le> real_of_rat (sample_log x)"
    by (simp_all only: right_diff_distrib mult_1_right)
  moreover have "?s \<le> \<bar>ln ?x\<bar> / 2 ^ 23" using n by simp
  ultimately show "\<bar>real_of_rat (sample_log x) - ln ?x\<bar> \<le> \<bar>ln ?x\<bar> / 2 ^ 23" by linarith
qed

text \<open>
  C14: the estimate of the number of peers is accurate. As long as a bit of the list is still zero, the
  estimate of a list in which \<open>c\<close> bits count as zero differs from the exact value
  \<open>ln (c / m) / (2 * ln (1 - 1 / m))\<close> by a relative error of at most \<open>2 ^ - 21\<close>, for a logarithm that
  is exact up to the last place.
\<close>

theorem estimate_accurate:
  assumes "log_accurate L" "0 < zeros l"
  shows "\<exists>q. numHashEstimation L bloom_bytes l = Fin q \<and>
    \<bar>real_of_rat q - exact_estimate (zeros l)\<bar> \<le> exact_estimate (zeros l) / 2 ^ 21"
  using assms by (rule numHashEstimation_accurate)

theorem estimate_accurate_witness:
  "\<exists>q. numHashEstimation sample_log bloom_bytes (replicate bloom_bytes 0x0F) = Fin q \<and>
    \<bar>real_of_rat q - exact_estimate 32768\<bar> \<le> exact_estimate 32768 / 2 ^ 21"
proof -
  have "zero_bits 0x0F = 4" by (simp add: zero_bits_def upt_rec bit_simps)
  then have "zeros (replicate bloom_bytes 0x0F) = 32768"
    by (simp add: zeros_eq sum_list_replicate) (simp add: bloom_bytes_def)
  then show ?thesis using estimate_accurate [OF sample_log_accurate, of "replicate bloom_bytes 0x0F"] by simp
qed

text \<open>
  A peer that sends a list with all bits set makes the conversion of the estimate undefined: no
  bit is zero, the logarithm of zero is negative infinity and its quotient infinity, whatever the list
  was before.
\<close>

lemma full_list_estimate_undefined:
  assumes "log_accurate L" "length (temp_active_peers_list a) = bloom_bytes"
  shows "peers_estimate L (temp_active_peers_list
    (activePeersListReceivedCallback peer (replicate bloom_bytes 0xFF) a)) = None"
proof -
  have "(b :: byte) OR 0xFF = 0xFF" for b
  proof -
    have "(0xFF :: byte) = - 1" by simp
    then show ?thesis by (simp only: bit.disj_one_right)
  qed
  then have "temp_active_peers_list (activePeersListReceivedCallback peer (replicate bloom_bytes 0xFF) a) = replicate bloom_bytes 0xFF"
    using assms(2) by (simp add: activePeersListReceivedCallback_def bloom_merge_def list_eq_iff_nth_eq)
  moreover have "zero_bits 0xFF = 0" by (simp add: zero_bits_def upt_rec bit_simps)
  then have "zeros (replicate bloom_bytes 0xFF) = 0" by (simp add: zeros_eq sum_list_replicate)
  moreover obtain d where "ftwice (std_log L (65535 / 65536)) = Fin d" "d < 0" using twice_log [OF assms(1)] by blast
  ultimately show ?thesis by (simp add: peers_estimate_def numHashEstimation_zeros) (simp add: std_log_def)
qed

text \<open>A node that has started over and heard of nobody counts itself, unless both bits of its key are the same.\<close>

lemma own_key_counted:
  assumes "log_accurate L"
  shows "peers_estimate L (temp_active_peers_list (restartListBuilding est a)) =
    Some (if card (own_bits (owner_key_hash a)) = 2 then 1 else 0)"
proof -
  let ?l = "temp_active_peers_list (restartListBuilding est a)" and ?n = "card (own_bits (owner_key_hash a))"
  have n: "?n = 1 \<or> ?n = 2" by (auto simp: own_bits_def card_insert_if)
  then have "0 < zeros ?l" by (auto simp: zeros_own)
  from assms this have "\<exists>q. numHashEstimation L bloom_bytes ?l = Fin q \<and>
      \<bar>real_of_rat q - exact_estimate (zeros ?l)\<bar> \<le> exact_estimate (zeros ?l) / 2 ^ 21"
    by (rule numHashEstimation_accurate)
  then obtain q where q: "numHashEstimation L bloom_bytes ?l = Fin q"
    "\<bar>real_of_rat q - exact_estimate (65536 - ?n)\<bar> \<le> exact_estimate (65536 - ?n) / 2 ^ 21" by (auto simp: zeros_own)
  define r where "r = real_of_rat q"
  have "real (?n - 1) \<le> r \<and> r < real (?n - 1) + 1"
  proof (cases "?n = 1")
    case True
    then have "65536 - ?n = 65535" "?n - 1 = 0" by simp_all
    then show ?thesis
      using q(2) exact_estimate_none abs_ge_self [of "r - 1 / 2"] abs_ge_minus_self [of "r - 1 / 2"]
      unfolding r_def [symmetric] by simp
  next
    case False
    then have "65536 - ?n = 65534" "?n - 1 = 1" using n by auto
    then show ?thesis
      using q(2) exact_estimate_one abs_ge_self [of "r - exact_estimate 65534"] abs_ge_minus_self [of "r - exact_estimate 65534"]
      unfolding r_def [symmetric] by simp
  qed
  then have "to_u64 (Fin q) = Some (of_nat (?n - 1))" using n unfolding r_def by (intro to_u64_near) auto
  then show ?thesis using n by (auto simp: peers_estimate_def q(1))
qed

end
