(* ===== verification/System_Services.thy ===== *)
theory System_Services
  imports Scn_Prelude
begin

text \<open>
  The clock of src/src/scn/SynchronizedTime/SynchronizedTimer.cpp and the thread of
  src/src/scn/SystemMonitor/SystemMonitor.cpp that logs the free memory once a minute. The time of the
  system clock and the answer of \<open>sysinfo\<close> are arguments.
\<close>

section \<open>The clock\<close>

text \<open>Nanoseconds since the epoch, counted in milliseconds; \<open>duration_cast\<close> rounds towards zero.\<close>

definition SynchronizedTimer_now :: "int \<Rightarrow> blockchain_time_t" where
  "SynchronizedTimer_now ns = of_int (if 0 \<le> ns then ns div 1000000 else - (- ns div 1000000))"

section \<open>The memory monitor\<close>

record sysinfo =
  totalram :: u64
  totalswap :: u64
  freeram :: u64
  freeswap :: u64

text \<open>The thread is about to check \<open>running_\<close>, about to wake up for the i-th time, or has ended.\<close>

datatype monitor_pc = Checking | Sleeping nat | Ended

record SystemMonitor =
  monitor_running :: bool
  monitor_pc :: monitor_pc
  memory_log :: "sysinfo list"

definition SystemMonitor_new :: SystemMonitor where
  "SystemMonitor_new = \<lparr>monitor_running = True, monitor_pc = Checking, memory_log = []\<rparr>"

definition SystemMonitor_stop :: "SystemMonitor \<Rightarrow> SystemMonitor" where
  "SystemMonitor_stop s = s\<lparr>monitor_running := False\<rparr>"

definition systemMonitorThread_step :: "sysinfo \<Rightarrow> SystemMonitor \<Rightarrow> SystemMonitor" where
  "systemMonitorThread_step mem_info s =
     (case monitor_pc s of
        Checking \<Rightarrow>
          if monitor_running s then s\<lparr>memory_log := memory_log s @ [mem_info], monitor_pc := Sleeping 0\<rparr>
          else s\<lparr>monitor_pc := Ended\<rparr>
      | Sleeping i \<Rightarrow>
          if \<not> monitor_running s then s\<lparr>monitor_pc := Checking\<rparr>
          else s\<lparr>monitor_pc := if i + 1 < 60 * 2 then Sleeping (i + 1) else Checking\<rparr>
      | Ended \<Rightarrow> s)"

section \<open>Lemmas\<close>

text \<open>A millisecond later the clock shows one more; it never runs backwards while the system clock does not.\<close>

lemma timer_next_ms: "0 \<le> ns \<Longrightarrow> SynchronizedTimer_now (ns + 1000000) = SynchronizedTimer_now ns + 1"
proof -
  assume ns: "0 \<le> ns"
  have "(ns + 1000000) div 1000000 = ns div 1000000 + 1" by simp
  then show ?thesis using ns by (simp only: SynchronizedTimer_now_def) (simp only: of_int_add of_int_1 if_True add_increasing2 zero_le_numeral)
qed

lemma timer_mono:
  assumes "0 \<le> ns" "ns \<le> ns'" "ns' < 2 ^ 63"
  shows "SynchronizedTimer_now ns \<le> SynchronizedTimer_now ns'"
proof -
  have "ns div 1000000 \<le> ns' div 1000000" "ns' div 1000000 \<le> ns'" using assms by (simp_all add: zdiv_mono1 div_le_dividend)
  moreover from this have "uint (of_int (n div 1000000) :: u64) = n div 1000000" if "n \<in> {ns, ns'}" for n
    using assms that by (intro uint_word_of_int_eq [THEN trans] take_bit_int_eq_self) (auto simp: pos_imp_zdiv_nonneg_iff)
  ultimately have "uint (of_int (ns div 1000000) :: u64) \<le> uint (of_int (ns' div 1000000) :: u64)" by simp
  then have "(of_int (ns div 1000000) :: u64) \<le> of_int (ns' div 1000000)" by (simp only: word_less_eq_iff_unsigned [where ?'a = int])
  then show ?thesis using assms by (simp add: SynchronizedTimer_now_def)
qed

text \<open>The destructor joins a thread that ends after at most one more sleep of half a second, without logging.\<close>

lemma stopped_monitor_ends:
  "monitor_pc (systemMonitorThread_step i (systemMonitorThread_step j (SystemMonitor_stop s))) = Ended"
  "memory_log (systemMonitorThread_step i (systemMonitorThread_step j (SystemMonitor_stop s))) = memory_log s"
  by (cases "monitor_pc s"; simp add: systemMonitorThread_step_def SystemMonitor_stop_def)+

text \<open>A running thread logs in one step and sleeps in the 120 steps that follow.\<close>

lemma monitor_sleeps:
  assumes "monitor_running s" "monitor_pc s = Sleeping i" "i + n < 120"
  shows "fold systemMonitorThread_step (replicate n mem) s = s\<lparr>monitor_pc := Sleeping (i + n)\<rparr>"
  using assms
proof (induction n arbitrary: s i)
  case (Suc n)
  have "systemMonitorThread_step mem s = s\<lparr>monitor_pc := Sleeping (i + 1)\<rparr>"
    using Suc.prems by (simp add: systemMonitorThread_step_def)
  then show ?case using Suc.IH [of "s\<lparr>monitor_pc := Sleeping (i + 1)\<rparr>" "i + 1"] Suc.prems by simp
qed simp

lemma monitor_minute:
  assumes "monitor_running s" "monitor_pc s = Checking"
  shows "fold systemMonitorThread_step (replicate 121 mem) s = s\<lparr>memory_log := memory_log s @ [mem]\<rparr>"
proof -
  let ?s = "s\<lparr>memory_log := memory_log s @ [mem], monitor_pc := Sleeping 0\<rparr>"
  have "systemMonitorThread_step mem s = ?s" using assms by (simp add: systemMonitorThread_step_def)
  moreover have "fold systemMonitorThread_step (replicate 119 mem) ?s = ?s\<lparr>monitor_pc := Sleeping 119\<rparr>"
    using monitor_sleeps [of ?s 0 119 mem] assms by simp
  moreover have "systemMonitorThread_step mem (?s\<lparr>monitor_pc := Sleeping 119\<rparr>) = ?s\<lparr>monitor_pc := Checking\<rparr>"
    using assms by (simp add: systemMonitorThread_step_def)
  moreover have "replicate 121 mem = mem # replicate 119 mem @ [mem]"
    by (simp add: replicate_append_same flip: replicate_Suc)
  ultimately show ?thesis using assms by simp
qed

end
