(* ===== verification/Bdecode.thy ===== *)
theory Bdecode
  imports Scn_Prelude
begin

text \<open>
  The decoder of libtorrent (src/dep/libtorrent-rasterbar-1.2.2_extended/src/bdecode.cpp and
  include/libtorrent/bdecode.hpp), which reads the handshakes of peers: a loop with an explicit stack
  writes a flat array of tokens, each with its place in the buffer and the distance to the next item.
  A range \<open>[start, end)\<close> is the list of its bytes; \<open>start - orig_start\<close> is the length of the buffer minus
  the length of the rest. Bit fields are numbers modulo their width.
\<close>

section \<open>Numbers\<close>

datatype bdecode_error =
    no_error | expected_digit | expected_colon | unexpected_eof | expected_value | depth_exceeded | limit_exceeded | overflow

definition numeric :: "byte \<Rightarrow> bool" where
  "numeric c \<longleftrightarrow> 48 \<le> c \<and> c \<le> 57"

text \<open>The loop of \<open>check_integer\<close> over the digits; it is entered with at least one byte.\<close>

fun check_digits :: "byte list \<Rightarrow> nat \<Rightarrow> byte list \<times> nat \<times> bdecode_error" where
  "check_digits [] digits = ([], digits, unexpected_eof)"
| "check_digits (c # cs) digits =
     (if \<not> numeric c then (c # cs, digits, expected_digit)
      else if cs = [] then ([], digits + 1, unexpected_eof)
      else if hd cs \<noteq> 101 then check_digits cs (digits + 1)
      else (cs, digits + 1, no_error))"

definition check_integer :: "byte list \<Rightarrow> byte list \<times> bdecode_error" where
  "check_integer start =
     (if start = [] then (start, unexpected_eof)
      else
        (let start = (if hd start = 45 then tl start else start)
         in if start = [] then (start, unexpected_eof)
            else
              (case check_digits start 0 of (start, digits, e) \<Rightarrow> (start, if 20 < digits then overflow else e))))"

text \<open>\<open>val\<close> is never negative; it is compared before it could leave the 64 bits.\<close>

definition int64_max :: int where "int64_max = 2 ^ 63 - 1"

fun parse_int :: "byte list \<Rightarrow> byte \<Rightarrow> int \<Rightarrow> byte list \<times> int \<times> bdecode_error" where
  "parse_int [] delimiter val = ([], val, no_error)"
| "parse_int (c # cs) delimiter val =
     (if c = delimiter then (c # cs, val, no_error)
      else if \<not> numeric c then (c # cs, val, expected_digit)
      else if int64_max div 10 < val then (c # cs, val, overflow)
      else
        (let val = val * 10; digit = uint c - 48
         in if int64_max - digit < val then (c # cs, val, overflow)
            else parse_int cs delimiter (val + digit)))"

section \<open>Tokens\<close>

datatype token_type = Tk_none | Tk_dict | Tk_list | Tk_string | Tk_integer | Tk_end

record bdecode_token =
  tk_offset :: nat
  tk_type :: token_type
  tk_next :: nat
  tk_header :: nat

definition max_offset :: nat where "max_offset = 2 ^ 29 - 1"
definition max_next_item :: nat where "max_next_item = 2 ^ 29 - 1"
definition max_header :: nat where "max_header = 2 ^ 3 - 1"

definition mk_token :: "nat \<Rightarrow> nat \<Rightarrow> token_type \<Rightarrow> nat \<Rightarrow> bdecode_token" where
  "mk_token off next_item t header_size =
     \<lparr>tk_offset = off mod 2 ^ 29, tk_type = t, tk_next = next_item mod 2 ^ 29,
      tk_header = (if t = Tk_string then (header_size - 2) mod 2 ^ 3 else 0)\<rparr>"

definition start_offset :: "bdecode_token \<Rightarrow> nat" where
  "start_offset t = tk_header t + 2"

section \<open>The decoder\<close>

record stack_frame =
  fr_token :: nat
  fr_state :: bool

text \<open>The local variables of \<open>bdecode\<close>; the top of the stack is the head of the list.\<close>

record decoder =
  d_start :: "byte list"
  d_tokens :: "bdecode_token list"
  d_stack :: "stack_frame list"

datatype decoded = Fail bdecode_error nat decoder | Done decoder

definition is_dict :: "bdecode_token list \<Rightarrow> stack_frame \<Rightarrow> bool" where
  "is_dict ts f \<longleftrightarrow> tk_type (ts ! fr_token f) = Tk_dict"

text \<open>The cases of the \<open>switch\<close>; \<open>n\<close> is the length of the buffer.\<close>

definition open_container :: "nat \<Rightarrow> token_type \<Rightarrow> decoder \<Rightarrow> decoder" where
  "open_container n t s =
     s\<lparr>d_stack := \<lparr>fr_token = length (d_tokens s) mod 2 ^ 31, fr_state = False\<rparr> # d_stack s,
       d_tokens := d_tokens s @ [mk_token (n - length (d_start s)) 0 t 0],
       d_start := tl (d_start s)\<rparr>"

definition decode_integer :: "nat \<Rightarrow> decoder \<Rightarrow> decoded" where
  "decode_integer n s =
     (case check_integer (tl (d_start s)) of (start, e) \<Rightarrow>
        if e \<noteq> no_error then Fail e (n - length start) s
        else Done (s\<lparr>d_tokens := d_tokens s @ [mk_token (n - length (d_start s)) 1 Tk_integer 1], d_start := tl start\<rparr>))"

definition close_container :: "nat \<Rightarrow> decoder \<Rightarrow> decoded" where
  "close_container n s =
     (case d_stack s of
        [] \<Rightarrow> Fail unexpected_eof (n - length (d_start s)) s
      | f # fs \<Rightarrow>
          if is_dict (d_tokens s) f \<and> fr_state f then Fail expected_value (n - length (d_start s)) s
          else
            (let ts = d_tokens s @ [mk_token (n - length (d_start s)) 1 Tk_end 0]; top = fr_token f
             in if max_next_item < length ts - top then Fail limit_exceeded (n - length (d_start s)) (s\<lparr>d_tokens := ts\<rparr>)
                else Done (s\<lparr>d_tokens := ts[top := (ts ! top)\<lparr>tk_next := (length ts - top) mod 2 ^ 29\<rparr>],
                             d_stack := fs, d_start := tl (d_start s)\<rparr>)))"

definition decode_string :: "nat \<Rightarrow> decoder \<Rightarrow> decoded" where
  "decode_string n s =
     (let str_start = d_start s; t = hd str_start
      in if \<not> numeric t then Fail expected_value (n - length str_start) s
         else if tl str_start = [] then Fail unexpected_eof n (s\<lparr>d_start := []\<rparr>)
         else
           (case parse_int (tl str_start) 58 (uint t - 48) of (start, len, e) \<Rightarrow>
              let failed = (\<lambda>c start. Fail c (n - length start) (s\<lparr>d_start := start\<rparr>))
              in if e \<noteq> no_error then failed e start
                 else if start = [] then failed expected_colon start
                 else if int (length start) - 1 < len then failed unexpected_eof start
                 else if len < 0 then failed overflow start
                 else
                   (let start = tl start; header_size = length str_start - length start
                    in if max_header < header_size - 2 then failed limit_exceeded start
                       else Done (s\<lparr>d_tokens := d_tokens s @ [mk_token (n - length str_start) 1 Tk_string (header_size mod 2 ^ 8)],
                                    d_start := drop (nat len) start\<rparr>))))"

definition decode_item :: "nat \<Rightarrow> decoder \<Rightarrow> decoded" where
  "decode_item n s =
     (let t = hd (d_start s)
      in if t = 100 then Done (open_container n Tk_dict s)
         else if t = 108 then Done (open_container n Tk_list s)
         else if t = 105 then decode_integer n s
         else if t = 101 then close_container n s
         else decode_string n s)"

text \<open>
  The frame that was on top when the item began changes between key and value; \<open>sp\<close> was the height of
  the stack then. A frame that the item removed is not read again.
\<close>

definition flip_state :: "nat \<Rightarrow> decoder \<Rightarrow> decoder" where
  "flip_state sp s =
     (let i = length (d_stack s) - sp
      in if 0 < sp \<and> sp \<le> length (d_stack s) \<and> is_dict (d_tokens s) (d_stack s ! i)
         then s\<lparr>d_stack := (d_stack s)[i := (d_stack s ! i)\<lparr>fr_state := \<not> fr_state (d_stack s ! i)\<rparr>]\<rparr> else s)"

definition key_expected :: "decoder \<Rightarrow> bool" where
  "key_expected s \<longleftrightarrow> d_stack s \<noteq> [] \<and> is_dict (d_tokens s) (hd (d_stack s)) \<and> \<not> fr_state (hd (d_stack s))"

function decode_loop :: "nat \<Rightarrow> int \<Rightarrow> int \<Rightarrow> decoder \<Rightarrow> decoded" where
  "decode_loop n depth_limit token_limit s =
     (let failed = (\<lambda>c. Fail c (n - length (d_start s)) s)
      in if d_start s = [] then failed unexpected_eof
         else if depth_limit \<le> int (length (d_stack s)) then failed depth_exceeded
         else if token_limit - 1 < 0 then failed limit_exceeded
         else if key_expected s \<and> \<not> numeric (hd (d_start s)) \<and> hd (d_start s) \<noteq> 101 then failed expected_digit
         else
           (case decode_item n s of
              Fail e pos s' \<Rightarrow> Fail e pos s'
            | Done s' \<Rightarrow>
                let s' = flip_state (length (d_stack s)) s'
                in if d_stack s' = [] then Done s' else decode_loop n depth_limit (token_limit - 1) s'))"
  by pat_completeness auto
termination by (relation "measure (\<lambda>(n, d, l, s). nat l)") auto

declare decode_loop.simps [simp del]

text \<open>After a failure the open containers are closed at \<open>pos\<close>.\<close>

fun unwind :: "nat \<Rightarrow> stack_frame list \<Rightarrow> bdecode_token list \<Rightarrow> bdecode_token list" where
  "unwind pos [] ts = ts"
| "unwind pos (f # fs) ts =
     (let ts = (if is_dict ts f \<and> fr_state f then ts @ [mk_token pos 2 Tk_dict 0, mk_token pos 0 Tk_end 0] else ts);
          top = fr_token f;
          ts = ts[top := (ts ! top)\<lparr>tk_next := (length ts - top) mod 2 ^ 29\<rparr>]
      in unwind pos fs (ts @ [mk_token pos 1 Tk_end 0]))"

record bdecode_node =
  m_tokens :: "bdecode_token list"
  m_buffer :: "byte list"
  m_buffer_size :: nat
  m_token_idx :: int
  m_last_index :: int
  m_last_token :: int
  m_size :: int

text \<open>The default constructor, and the constructor of a node of an array of tokens.\<close>

definition no_node :: bdecode_node where
  "no_node = \<lparr>m_tokens = [], m_buffer = [], m_buffer_size = 0, m_token_idx = - 1, m_last_index = - 1,
     m_last_token = - 1, m_size = - 1\<rparr>"

definition node_at :: "bdecode_token list \<Rightarrow> byte list \<Rightarrow> nat \<Rightarrow> nat \<Rightarrow> bdecode_node" where
  "node_at tokens buf len idx =
     \<lparr>m_tokens = tokens, m_buffer = buf, m_buffer_size = len, m_token_idx = int idx, m_last_index = - 1,
      m_last_token = - 1, m_size = - 1\<rparr>"

text \<open>The root node, the error and its position.\<close>

definition bdecode :: "byte list \<Rightarrow> int \<Rightarrow> int \<Rightarrow> bdecode_node \<times> bdecode_error \<times> nat" where
  "bdecode buffer depth_limit token_limit =
     (if max_offset < length buffer then (no_node, limit_exceeded, 0)
      else
        (let n = length buffer; s = \<lparr>d_start = buffer, d_tokens = [], d_stack = []\<rparr>;
             (e, error_pos, s) =
               (if buffer = [] then (unexpected_eof, 0, s)
                else case decode_loop n depth_limit token_limit s of
                       Fail e p s \<Rightarrow> (e, p, s) | Done s \<Rightarrow> (no_error, 0, s));
             pos = n - length (d_start s);
             ts = unwind pos (d_stack s) (d_tokens s) @ [mk_token pos 0 Tk_end 0]
         in (node_at ts buffer pos 0, e, error_pos)))"

section \<open>Queries\<close>

text \<open>
  A read outside of the array of tokens or of the buffer is undefined and has the value \<open>None\<close>; so has
  a loop that does not advance.
\<close>

definition tok :: "bdecode_token list \<Rightarrow> nat \<Rightarrow> bdecode_token option" where
  "tok ts i = (if i < length ts then Some (ts ! i) else None)"

definition node_type :: "bdecode_node \<Rightarrow> token_type option" where
  "node_type nd = (if m_token_idx nd = - 1 then Some Tk_none else map_option tk_type (tok (m_tokens nd) (nat (m_token_idx nd))))"

definition token_source_span :: "bdecode_token list \<Rightarrow> nat \<Rightarrow> int option" where
  "token_source_span ts i =
     (case (tok ts i, tok ts (i + 1)) of
        (Some t, Some u) \<Rightarrow> Some (int (tk_offset u) - int (tk_offset t))
      | _ \<Rightarrow> None)"

definition string_at :: "bdecode_token list \<Rightarrow> byte list \<Rightarrow> nat \<Rightarrow> byte list option" where
  "string_at ts buf i =
     (case (tok ts i, token_source_span ts i) of
        (Some t, Some span) \<Rightarrow>
          (let len = span - int (start_offset t); from = tk_offset t + start_offset t
           in if len < 0 \<or> length buf < from + nat len then None else Some (take (nat len) (drop from buf)))
      | _ \<Rightarrow> None)"

definition string_value :: "bdecode_node \<Rightarrow> byte list option" where
  "string_value nd = string_at (m_tokens nd) (m_buffer nd) (nat (m_token_idx nd))"

definition int_value :: "bdecode_node \<Rightarrow> int option" where
  "int_value nd =
     (let i = nat (m_token_idx nd); buf = m_buffer nd
      in case (tok (m_tokens nd) i, token_source_span (m_tokens nd) i) of
           (Some t, Some len) \<Rightarrow>
             (let ptr = drop (tk_offset t + 1) buf
              in if ptr = [] then None
                 else
                   (let negative = (hd ptr = 45);
                        range = take (nat len - (if negative then 1 else 0)) (if negative then tl ptr else ptr)
                    in case parse_int range 101 0 of (rest, val, ec) \<Rightarrow>
                         if ec \<noteq> no_error then Some 0
                         else if rest = [] then None
                         else Some (if negative then - val else val)))
         | _ \<Rightarrow> None)"

text \<open>The loops that skip a number of items, and that count the items up to the end of a container.\<close>

fun skip_items :: "bdecode_token list \<Rightarrow> nat \<Rightarrow> nat \<Rightarrow> nat option" where
  "skip_items ts 0 i = Some i"
| "skip_items ts (Suc k) i = (case tok ts i of None \<Rightarrow> None | Some t \<Rightarrow> skip_items ts k (i + tk_next t))"

function count_items :: "bdecode_token list \<Rightarrow> nat \<Rightarrow> nat option" where
  "count_items ts i =
     (if length ts \<le> i then None
      else if tk_type (ts ! i) = Tk_end then Some 0
      else if tk_next (ts ! i) = 0 then None
      else map_option Suc (count_items ts (i + tk_next (ts ! i))))"
  by pat_completeness auto
termination by (relation "measure (\<lambda>(ts, i). length ts - i)") auto

declare count_items.simps [simp del]

text \<open>The methods of containers update the cache of the node they are called on.\<close>

definition cached_item :: "bdecode_node \<Rightarrow> int \<Rightarrow> int \<times> int" where
  "cached_item nd i =
     (if m_last_index nd \<le> i \<and> m_last_index nd \<noteq> - 1 then (m_last_index nd, m_last_token nd)
      else (0, m_token_idx nd + 1))"

definition list_at :: "bdecode_node \<Rightarrow> nat \<Rightarrow> (bdecode_node \<times> bdecode_node) option" where
  "list_at nd i =
     (case cached_item nd (int i) of (item, token) \<Rightarrow>
        case skip_items (m_tokens nd) (i - nat item) (nat token) of
          None \<Rightarrow> None
        | Some token \<Rightarrow> Some (node_at (m_tokens nd) (m_buffer nd) (m_buffer_size nd) token,
                           nd\<lparr>m_last_token := int token, m_last_index := int i\<rparr>))"

definition list_size :: "bdecode_node \<Rightarrow> (int \<times> bdecode_node) option" where
  "list_size nd =
     (if m_size nd \<noteq> - 1 then Some (m_size nd, nd)
      else
        (let (ret, token) = (if m_last_index nd \<noteq> - 1 then (m_last_index nd, m_last_token nd) else (0, m_token_idx nd + 1))
         in case count_items (m_tokens nd) (nat token) of
              None \<Rightarrow> None
            | Some k \<Rightarrow> Some (ret + int k, nd\<lparr>m_size := ret + int k\<rparr>)))"

definition dict_at :: "bdecode_node \<Rightarrow> nat \<Rightarrow> ((byte list \<times> bdecode_node) \<times> bdecode_node) option" where
  "dict_at nd i =
     (case cached_item nd (int i) of (item, token) \<Rightarrow>
        case skip_items (m_tokens nd) (2 * (i - nat item)) (nat token) of
          None \<Rightarrow> None
        | Some token \<Rightarrow>
            (case (tok (m_tokens nd) token, string_at (m_tokens nd) (m_buffer nd) token) of
               (Some t, Some key) \<Rightarrow>
                 Some ((key, node_at (m_tokens nd) (m_buffer nd) (m_buffer_size nd) (token + tk_next t)),
                       if 0 < i then nd\<lparr>m_last_token := int token, m_last_index := int i\<rparr> else nd)
             | _ \<Rightarrow> None))"

definition dict_size :: "bdecode_node \<Rightarrow> (int \<times> bdecode_node) option" where
  "dict_size nd =
     (if m_size nd \<noteq> - 1 then Some (m_size nd, nd)
      else
        (let (ret, token) = (if m_last_index nd \<noteq> - 1 then (m_last_index nd * 2, m_last_token nd) else (0, m_token_idx nd + 1))
         in case count_items (m_tokens nd) (nat token) of
              None \<Rightarrow> None
            | Some k \<Rightarrow> Some ((ret + int k) div 2, nd\<lparr>m_size := (ret + int k) div 2\<rparr>)))"

function find_key :: "bdecode_token list \<Rightarrow> byte list \<Rightarrow> byte list \<Rightarrow> nat \<Rightarrow> nat option option" where
  "find_key ts buf key i =
     (if length ts \<le> i then None
      else if tk_type (ts ! i) = Tk_end then Some None
      else
        (case string_at ts buf i of
           None \<Rightarrow> None
         | Some k \<Rightarrow>
             (let v = i + tk_next (ts ! i)
              in if k = key then Some (Some v)
                 else if length ts \<le> v \<or> v + tk_next (ts ! v) \<le> i then None
                 else find_key ts buf key (v + tk_next (ts ! v)))))"
  by pat_completeness auto
termination by (relation "measure (\<lambda>(ts, buf, key, i). length ts - i)") auto

declare find_key.simps [simp del]

definition dict_find :: "bdecode_node \<Rightarrow> byte list \<Rightarrow> bdecode_node option" where
  "dict_find nd key =
     (case find_key (m_tokens nd) (m_buffer nd) key (nat (m_token_idx nd + 1)) of
        None \<Rightarrow> None
      | Some None \<Rightarrow> Some no_node
      | Some (Some i) \<Rightarrow> Some (node_at (m_tokens nd) (m_buffer nd) (m_buffer_size nd) i))"

definition dict_find_dict :: "bdecode_node \<Rightarrow> byte list \<Rightarrow> bdecode_node option" where
  "dict_find_dict nd key =
     (case dict_find nd key of
        None \<Rightarrow> None
      | Some ret \<Rightarrow> map_option (\<lambda>t. if t = Tk_dict then ret else no_node) (node_type ret))"

definition dict_find_int_value :: "bdecode_node \<Rightarrow> byte list \<Rightarrow> int \<Rightarrow> int option" where
  "dict_find_int_value nd key default_val =
     (case dict_find nd key of
        None \<Rightarrow> None
      | Some n \<Rightarrow>
          (case node_type n of
             None \<Rightarrow> None
           | Some t \<Rightarrow> if t \<noteq> Tk_integer then Some default_val else int_value n))"

end
