(* ===== verification/Bdecode_Tree.thy ===== *)
theory Bdecode_Tree
  imports Bdecode
begin

text \<open>
  What the decoder accepts: the trees of the bencoding grammar. The loop with its stack succeeds exactly
  on the text of a tree, whatever follows it, and then has written the tokens of that tree.
\<close>

section \<open>Trees, their text and their tokens\<close>

text \<open>An integer with its digits, a string with the digits of its length, a list or dictionary.\<close>

datatype raw = RInt "byte list" | RStr "byte list" "byte list" | RCont bool "raw list"

abbreviation is_str :: "raw \<Rightarrow> bool" where "is_str r \<equiv> \<exists>ls s. r = RStr ls s"

fun enc :: "raw \<Rightarrow> byte list" and encs :: "raw list \<Rightarrow> byte list" where
  "enc (RInt ds) = 105 # ds @ [101]"
| "enc (RStr ls s) = ls @ 58 # s"
| "enc (RCont d rs) = (if d then 100 else 108) # encs rs @ [101]"
| "encs [] = []"
| "encs (r # rs) = enc r @ encs rs"

fun toks :: "nat \<Rightarrow> raw \<Rightarrow> bdecode_token list" and tokss :: "nat \<Rightarrow> raw list \<Rightarrow> bdecode_token list" where
  "toks off (RInt ds) = [mk_token off 1 Tk_integer 1]"
| "toks off (RStr ls s) = [mk_token off 1 Tk_string (length ls + 1)]"
| "toks off (RCont d rs) =
     mk_token off (length (tokss (off + 1) rs) + 2) (if d then Tk_dict else Tk_list) 0 # tokss (off + 1) rs
       @ [mk_token (off + 1 + length (encs rs)) 1 Tk_end 0]"
| "tokss off [] = []"
| "tokss off (r # rs) = toks off r @ tokss (off + length (enc r)) rs"

definition digits_ok :: "byte list \<Rightarrow> bool" where
  "digits_ok ds \<longleftrightarrow> ds \<noteq> [] \<and> list_all numeric ds"

definition int_ok :: "byte list \<Rightarrow> bool" where
  "int_ok ds \<longleftrightarrow> (let ds = (if ds \<noteq> [] \<and> hd ds = 45 then tl ds else ds) in digits_ok ds \<and> length ds \<le> 20)"

definition digits_val :: "int \<Rightarrow> byte list \<Rightarrow> int" where
  "digits_val = foldl (\<lambda>v c. v * 10 + (uint c - 48))"

text \<open>Keys and values take turns; \<open>st\<close> holds when a value comes next.\<close>

fun keys_ok :: "bool \<Rightarrow> raw list \<Rightarrow> bool" where
  "keys_ok st [] = True"
| "keys_ok st (r # rs) = ((st \<or> is_str r) \<and> keys_ok (\<not> st) rs)"

fun raw_ok :: "raw \<Rightarrow> bool" and raws_ok :: "raw list \<Rightarrow> bool" where
  "raw_ok (RInt ds) = int_ok ds"
| "raw_ok (RStr ls s) = (digits_ok ls \<and> length ls \<le> 8 \<and> digits_val 0 ls = int (length s))"
| "raw_ok (RCont d rs) = (raws_ok rs \<and> (d \<longrightarrow> keys_ok False rs \<and> even (length rs)))"
| "raws_ok [] = True"
| "raws_ok (r # rs) = (raw_ok r \<and> raws_ok rs)"

text \<open>The height of the stack that a tree needs.\<close>

fun height :: "raw \<Rightarrow> nat" and heights :: "raw list \<Rightarrow> nat" where
  "height (RCont d rs) = Suc (heights rs)"
| "height _ = 1"
| "heights [] = 1"
| "heights (r # rs) = max (height r) (heights rs)"

fun ntoks :: "raw \<Rightarrow> nat" and ntokss :: "raw list \<Rightarrow> nat" where
  "ntoks (RCont d rs) = ntokss rs + 2"
| "ntoks _ = 1"
| "ntokss [] = 0"
| "ntokss (r # rs) = ntoks r + ntokss rs"

lemma length_toks [simp]: "length (toks off r) = ntoks r" "length (tokss off rs) = ntokss rs"
  by (induction off r and off rs rule: toks_tokss.induct) simp_all

lemma encs_append [simp]: "encs (rs @ rs') = encs rs @ encs rs'"
  by (induction rs) simp_all

lemma toks_not_empty [simp]: "toks off r \<noteq> []" "enc r \<noteq> []"
  by (cases r; simp)+

lemma ntoks_le: "ntoks r \<le> length (enc r)" "ntokss rs \<le> length (encs rs)"
  by (induction r and rs rule: ntoks_ntokss.induct) auto

lemma heights_pos: "0 < height r" "0 < heights rs"
  by (induction r and rs rule: height_heights.induct) auto

section \<open>Numbers\<close>

lemma numeric_not: "numeric c \<Longrightarrow> c \<notin> {45, 58, 100, 101, 105, 108}" "\<not> numeric 58" "\<not> numeric 101" "\<not> numeric 45"
  by (auto simp: numeric_def)

lemma numeric_digit: "numeric c \<Longrightarrow> 0 \<le> uint c - 48 \<and> uint c - 48 \<le> 9"
  by (simp add: numeric_def word_less_eq_iff_unsigned [where ?'a = int])

lemma digits_val_ge: "list_all numeric ds \<Longrightarrow> 0 \<le> v \<Longrightarrow> v \<le> digits_val v ds"
proof (induction ds arbitrary: v)
  case (Cons c ds)
  have "v \<le> v * 10 + (uint c - 48)" using Cons.prems numeric_digit [of c] by simp
  also have "\<dots> \<le> digits_val (v * 10 + (uint c - 48)) ds" using Cons numeric_digit [of c] by simp
  finally show ?case by (simp add: digits_val_def)
qed (simp add: digits_val_def)

lemma parse_int_digits:
  assumes "list_all numeric ds" "0 \<le> v" "digits_val v ds \<le> int64_max" "\<not> numeric d"
  shows "parse_int (ds @ d # rest) d v = (d # rest, digits_val v ds, no_error)"
  using assms(1-3)
proof (induction ds arbitrary: v)
  case (Cons c ds)
  let ?v = "v * 10 + (uint c - 48)"
  have c: "numeric c" "c \<noteq> d" "0 \<le> uint c - 48" using Cons.prems(1) assms(4) numeric_digit by auto
  have "?v \<le> digits_val ?v ds" using Cons.prems(1,2) c by (intro digits_val_ge) simp_all
  then have "?v \<le> int64_max" using Cons.prems(3) by (simp add: digits_val_def)
  moreover from this have "\<not> int64_max div 10 < v" using c(3) by (simp add: int64_max_def)
  ultimately show ?case using Cons.IH [of ?v] Cons.prems c by (simp add: Let_def digits_val_def)
qed (simp add: digits_val_def)

lemma parse_int_Done:
  assumes "parse_int cs d v = (rest, len, no_error)" "0 \<le> v" "v \<le> int64_max"
  shows "\<exists>ds. cs = ds @ rest \<and> list_all numeric ds \<and> len = digits_val v ds \<and> 0 \<le> len \<and> len \<le> int64_max \<and> (rest = [] \<or> hd rest = d)"
  using assms
proof (induction cs d v rule: parse_int.induct)
  case (2 c cs d v)
  show ?case
  proof (cases "c = d")
    case True
    with 2 show ?thesis by (intro exI [of _ "[]"]) (auto simp: digits_val_def)
  next
    case False
    let ?v = "v * 10 + (uint c - 48)"
    have c: "numeric c" "\<not> int64_max div 10 < v" "\<not> int64_max - (uint c - 48) < v * 10" "parse_int cs d ?v = (rest, len, no_error)"
      using 2(2) False by (auto simp: Let_def split: if_splits)
    have v: "0 \<le> ?v" "?v \<le> int64_max" using 2(3) c(3) numeric_digit [OF c(1)] by simp_all
    from 2(1) [OF False _ c(2) refl refl c(3,4) v] c(1)
    obtain ds where "cs = ds @ rest" "list_all numeric ds" "len = digits_val ?v ds" "0 \<le> len" "len \<le> int64_max" "rest = [] \<or> hd rest = d"
      by auto
    with c(1) show ?thesis by (intro exI [of _ "c # ds"]) (simp add: digits_val_def)
  qed
qed (simp add: digits_val_def)

lemma check_digits_eq:
  "digits_ok ds \<Longrightarrow> check_digits (ds @ 101 # post) k = (101 # post, k + length ds, no_error)"
proof (induction ds arbitrary: k)
  case (Cons c ds)
  show ?case
  proof (cases ds)
    case Nil
    then show ?thesis using Cons.prems by (simp add: digits_ok_def)
  next
    case (Cons c' ds')
    then have "digits_ok ds" "hd (ds @ 101 # post) \<noteq> 101" using \<open>digits_ok (c # ds)\<close> numeric_not by (auto simp: digits_ok_def)
    then show ?thesis using Cons.IH Cons \<open>digits_ok (c # ds)\<close> by (simp add: digits_ok_def)
  qed
qed (simp add: digits_ok_def)

lemma check_digits_Done:
  "check_digits cs k = (rest, k', no_error) \<Longrightarrow> \<exists>ds post. cs = ds @ rest \<and> rest = 101 # post \<and> digits_ok ds \<and> k' = k + length ds"
proof (induction cs arbitrary: k)
  case (Cons c cs)
  have c: "numeric c" "cs \<noteq> []" using Cons.prems by (auto split: if_splits)
  show ?case
  proof (cases "hd cs = 101")
    case True
    then have "rest = cs" "k' = k + 1" using Cons.prems c by auto
    then show ?thesis using c True by (intro exI [of _ "[c]"] exI [of _ "tl cs"]) (cases cs; simp add: digits_ok_def)
  next
    case False
    then have "check_digits cs (k + 1) = (rest, k', no_error)" using Cons.prems c by simp
    from Cons.IH [OF this] obtain ds post where "cs = ds @ rest" "rest = 101 # post" "digits_ok ds" "k' = k + 1 + length ds" by blast
    then show ?thesis using c by (intro exI [of _ "c # ds"] exI [of _ post]) (simp add: digits_ok_def)
  qed
qed simp

lemma check_integer_ok: "int_ok ds \<Longrightarrow> check_integer (ds @ 101 # post) = (101 # post, no_error)"
proof -
  assume ok: "int_ok ds"
  then obtain c ds' where ds: "ds = c # ds'" by (cases ds) (auto simp: int_ok_def digits_ok_def)
  show ?thesis
  proof (cases "c = 45")
    case True
    then have "digits_ok ds'" "length ds' \<le> 20" using ok by (simp_all add: ds int_ok_def)
    then show ?thesis using True check_digits_eq [of ds' post 0] by (simp add: ds check_integer_def)
  next
    case False
    then have "digits_ok ds" "length ds \<le> 20" using ok by (simp_all add: ds int_ok_def)
    then show ?thesis using False check_digits_eq [of ds post 0] by (simp add: ds check_integer_def)
  qed
qed

lemma check_integer_Done:
  assumes "check_integer cs = (rest, no_error)"
  shows "\<exists>ds post. cs = ds @ 101 # post \<and> rest = 101 # post \<and> int_ok ds"
proof -
  obtain c cs' where c: "cs = c # cs'" using assms by (cases cs) (auto simp: check_integer_def)
  let ?ds = "if c = 45 then cs' else cs"
  obtain k where k: "check_digits ?ds 0 = (rest, k, no_error)" "k \<le> 20"
    using assms c by (auto simp: check_integer_def Let_def split: if_splits prod.splits)
  from check_digits_Done [OF k(1)] obtain ds post where d: "?ds = ds @ rest" "rest = 101 # post" "digits_ok ds" "k = length ds" by auto
  show ?thesis
  proof (cases "c = 45")
    case True
    then have "cs = (45 # ds) @ 101 # post" "int_ok (45 # ds)" using c d k(2) by (simp_all add: int_ok_def)
    then show ?thesis using d(2) by blast
  next
    case False
    then have "hd ds \<noteq> 45" using c d by (cases ds) (auto simp: digits_ok_def)
    then have "cs = ds @ 101 # post" "int_ok ds" using False c d k(2) by (simp_all add: int_ok_def)
    then show ?thesis using d(2) by blast
  qed
qed

lemma digits_val_less: "list_all numeric ds \<Longrightarrow> digits_val v ds < (v + 1) * 10 ^ length ds"
proof (induction ds arbitrary: v)
  case (Cons c ds)
  let ?v = "v * 10 + (uint c - 48)"
  have "digits_val ?v ds < (?v + 1) * 10 ^ length ds" by (rule Cons.IH) (use Cons.prems in simp)
  also have "\<dots> \<le> (v * 10 + 10) * 10 ^ length ds" using Cons.prems numeric_digit [of c] by (intro mult_right_mono) simp_all
  finally show ?case by (simp add: digits_val_def algebra_simps)
qed (simp add: digits_val_def)

section \<open>Items without parts\<close>

lemmas item_defs = decode_item_def decode_integer_def decode_string_def Let_def

definition shifted :: "nat \<Rightarrow> raw \<Rightarrow> byte list \<Rightarrow> decoder \<Rightarrow> decoder" where
  "shifted n r post s = s\<lparr>d_tokens := d_tokens s @ toks (n - length (d_start s)) r, d_start := post\<rparr>"

lemma string_leaf:
  assumes "raw_ok (RStr ls str)" "d_start s = enc (RStr ls str) @ post"
  shows "decode_item n s = Done (shifted n (RStr ls str) post s)"
proof -
  obtain c cs where ls: "ls = c # cs" using assms(1) by (cases ls) (auto simp: digits_ok_def)
  have c: "numeric c" "list_all numeric cs" "c \<noteq> 100" "c \<noteq> 108" "c \<noteq> 105" "c \<noteq> 101"
    using assms(1) numeric_not(1) by (auto simp: ls digits_ok_def)
  have v: "digits_val (uint c - 48) cs = int (length str)" using assms(1) by (simp add: ls digits_val_def)
  have "digits_val 0 ls < 1 * 10 ^ length ls" using digits_val_less [of ls 0] assms(1) by (simp add: digits_ok_def)
  also have "\<dots> \<le> 1 * 10 ^ 8" using assms(1) by (intro mult_left_mono power_increasing) simp_all
  finally have "digits_val (uint c - 48) cs \<le> int64_max" using v by (simp add: ls digits_val_def int64_max_def)
  then have p: "parse_int (cs @ 58 # str @ post) 58 (uint c - 48) = (58 # str @ post, int (length str), no_error)"
    using parse_int_digits [of cs "uint c - 48" 58 "str @ post"] c numeric_digit [OF c(1)] numeric_not(2) v by simp
  have "length cs \<le> 7" using assms(1) by (simp add: ls)
  then show ?thesis using assms(2) c p by (simp add: ls item_defs shifted_def max_header_def)
qed

lemma integer_leaf:
  "raw_ok (RInt ds) \<Longrightarrow> d_start s = enc (RInt ds) @ post \<Longrightarrow> decode_item n s = Done (shifted n (RInt ds) post s)"
  by (simp add: item_defs shifted_def check_integer_ok)

lemma string_Done:
  assumes "decode_string n s = Done s'" "d_start s \<noteq> []"
  shows "\<exists>ls str post. raw_ok (RStr ls str) \<and> d_start s = enc (RStr ls str) @ post \<and> s' = shifted n (RStr ls str) post s"
proof -
  obtain c cs where s: "d_start s = c # cs" using assms(2) by (cases "d_start s") auto
  obtain rest len where p: "parse_int cs 58 (uint c - 48) = (rest, len, no_error)" "numeric c" "rest \<noteq> []"
    "len \<le> int (length rest) - 1" "0 \<le> len" "length cs + 1 - (length rest - 1) - 2 \<le> 7"
    and s': "s' = s\<lparr>d_tokens := d_tokens s @ [mk_token (n - length (d_start s)) 1 Tk_string ((length cs + 1 - (length rest - 1)) mod 2 ^ 8)],
                d_start := drop (nat len) (tl rest)\<rparr>"
    using assms(1) s by (auto simp: decode_string_def Let_def max_header_def split: if_splits prod.splits)
  have "uint c - 48 \<le> int64_max" using numeric_digit [OF p(2)] by (simp add: int64_max_def)
  from parse_int_Done [OF p(1) _ this] numeric_digit [OF p(2)] p(3)
  obtain ds where d: "cs = ds @ rest" "list_all numeric ds" "len = digits_val (uint c - 48) ds" "hd rest = 58" by auto
  obtain r where r: "rest = 58 # r" using p(3) d(4) by (cases rest) auto
  let ?str = "take (nat len) r" and ?post = "drop (nat len) r"
  have l: "length ?str = nat len" using p(4) r by simp
  have h: "length cs + 1 - (length rest - 1) = length (c # ds) + 1" "length ds \<le> 7" using d(1) r p(6) by simp_all
  have "raw_ok (RStr (c # ds) ?str)" using p(2,5) d(2,3) h(2) l by (simp add: digits_ok_def digits_val_def)
  moreover have "d_start s = enc (RStr (c # ds) ?str) @ ?post" by (simp add: s d(1) r)
  moreover have "s' = shifted n (RStr (c # ds) ?str) ?post s"
    using h by (simp add: s' shifted_def r)
  ultimately show ?thesis by blast
qed

lemma integer_Done:
  assumes "decode_integer n s = Done s'" "d_start s = 105 # cs"
  shows "\<exists>ds post. raw_ok (RInt ds) \<and> d_start s = enc (RInt ds) @ post \<and> s' = shifted n (RInt ds) post s"
proof -
  obtain rest where p: "check_integer cs = (rest, no_error)"
    and s': "s' = s\<lparr>d_tokens := d_tokens s @ [mk_token (n - length (d_start s)) 1 Tk_integer 1], d_start := tl rest\<rparr>"
    using assms by (auto simp: decode_integer_def split: if_splits prod.splits)
  from check_integer_Done [OF p] obtain ds post where "cs = ds @ 101 # post" "rest = 101 # post" "int_ok ds" by blast
  then have "raw_ok (RInt ds) \<and> d_start s = enc (RInt ds) @ post \<and> s' = shifted n (RInt ds) post s"
    using assms(2) s' by (simp add: shifted_def)
  then show ?thesis by blast
qed

section \<open>The loop\<close>

text \<open>The loop ends when the stack is empty.\<close>

definition continue :: "nat \<Rightarrow> int \<Rightarrow> int \<Rightarrow> decoder \<Rightarrow> decoded" where
  "continue n d l s = (if d_stack s = [] then Done s else decode_loop n d l s)"

definition may_read :: "int \<Rightarrow> int \<Rightarrow> decoder \<Rightarrow> bool" where
  "may_read d l s \<longleftrightarrow> d_start s \<noteq> [] \<and> int (length (d_stack s)) < d \<and> 0 < l \<and>
     (key_expected s \<longrightarrow> numeric (hd (d_start s)) \<or> hd (d_start s) = 101)"

lemma loop_step:
  "may_read d l s \<Longrightarrow> decode_loop n d l s =
     (case decode_item n s of
        Fail e pos s' \<Rightarrow> Fail e pos s'
      | Done s' \<Rightarrow> continue n d (l - 1) (flip_state (length (d_stack s)) s'))"
  by (subst decode_loop.simps) (auto simp: may_read_def continue_def Let_def split: decoded.split)

lemma loop_Done:
  assumes "decode_loop n d l s = Done t"
  shows "may_read d l s" "\<exists>s'. decode_item n s = Done s' \<and> decode_loop n d l s = continue n d (l - 1) (flip_state (length (d_stack s)) s')"
proof -
  show "may_read d l s" using assms by (subst (asm) decode_loop.simps) (auto simp: may_read_def Let_def split: if_splits)
  then show "\<exists>s'. decode_item n s = Done s' \<and> decode_loop n d l s = continue n d (l - 1) (flip_state (length (d_stack s)) s')"
    using assms by (auto simp: loop_step split: decoded.splits)
qed

text \<open>Frames point to tokens that are there.\<close>

definition stack_ok :: "decoder \<Rightarrow> bool" where
  "stack_ok s \<longleftrightarrow> (\<forall>f \<in> set (d_stack s). fr_token f < length (d_tokens s))"

definition turned :: "bdecode_token list \<Rightarrow> stack_frame \<Rightarrow> stack_frame" where
  "turned ts f = (if is_dict ts f then f\<lparr>fr_state := \<not> fr_state f\<rparr> else f)"

definition turn_top :: "decoder \<Rightarrow> decoder" where
  "turn_top s = s\<lparr>d_stack := (case d_stack s of [] \<Rightarrow> [] | f # fs \<Rightarrow> turned (d_tokens s) f # fs)\<rparr>"

lemma is_dict_append [simp]: "fr_token f < length ts \<Longrightarrow> is_dict (ts @ us) f = is_dict ts f"
  by (simp add: is_dict_def nth_append)

lemma is_dict_state [simp]: "is_dict ts (f\<lparr>fr_state := b\<rparr>) = is_dict ts f"
  by (simp add: is_dict_def)

lemma is_dict_turned [simp]: "is_dict ts (turned us f) = is_dict ts f" "fr_token (turned us f) = fr_token f"
  by (simp_all add: is_dict_def turned_def)

text \<open>An item that was read: its tokens are appended and the container around it takes turns.\<close>

definition after :: "nat \<Rightarrow> raw \<Rightarrow> byte list \<Rightarrow> decoder \<Rightarrow> decoder" where
  "after n r post s = shifted n r post (turn_top s)"

lemma after_simps [simp]:
  "d_start (after n r post s) = post" "d_tokens (after n r post s) = d_tokens s @ toks (n - length (d_start s)) r"
  "length (d_stack (after n r post s)) = length (d_stack s)" "d_stack (after n r post s) = [] \<longleftrightarrow> d_stack s = []"
  by (simp_all add: after_def shifted_def turn_top_def split: list.split)

lemma flip_shifted:
  "stack_ok s \<Longrightarrow> flip_state (length (d_stack s)) (shifted n r post s) = after n r post s"
  by (cases "d_stack s") (auto simp: flip_state_def shifted_def after_def turn_top_def turned_def stack_ok_def Let_def)

lemma stack_ok_after [simp]: "stack_ok s \<Longrightarrow> stack_ok (after n r post s)"
  by (cases "d_stack s") (auto simp: stack_ok_def after_def shifted_def turn_top_def)

text \<open>There is at most one token for every byte that was read.\<close>

definition dec_ok :: "nat \<Rightarrow> decoder \<Rightarrow> bool" where
  "dec_ok n s \<longleftrightarrow> stack_ok s \<and> length (d_tokens s) + length (d_start s) \<le> n \<and> n \<le> max_offset"

lemma dec_ok_after: "dec_ok n s \<Longrightarrow> d_start s = enc r @ post \<Longrightarrow> dec_ok n (after n r post s)"
  using ntoks_le(1) [of r] by (simp add: dec_ok_def)

section \<open>Containers\<close>

definition opened :: "nat \<Rightarrow> bool \<Rightarrow> decoder \<Rightarrow> decoder" where
  "opened n d s = open_container n (if d then Tk_dict else Tk_list) (turn_top s)"

lemma opened_simps [simp]:
  "d_start (opened n d s) = tl (d_start s)"
  "d_tokens (opened n d s) = d_tokens s @ [mk_token (n - length (d_start s)) 0 (if d then Tk_dict else Tk_list) 0]"
  "d_stack (opened n d s) = \<lparr>fr_token = length (d_tokens s) mod 2 ^ 31, fr_state = False\<rparr> # d_stack (turn_top s)"
  "length (d_stack (turn_top s)) = length (d_stack s)" "d_tokens (turn_top s) = d_tokens s" "d_start (turn_top s) = d_start s"
  by (simp_all add: opened_def open_container_def turn_top_def split: list.split)

lemma stack_ok_turn_top [simp]: "stack_ok (turn_top s) = stack_ok s"
  by (cases "d_stack s") (auto simp: stack_ok_def turn_top_def)

lemma dec_ok_small: "dec_ok n s \<Longrightarrow> length (d_tokens s) mod 2 ^ 31 = length (d_tokens s)"
  by (simp add: dec_ok_def max_offset_def)

lemma dec_ok_opened: "dec_ok n s \<Longrightarrow> d_start s \<noteq> [] \<Longrightarrow> dec_ok n (opened n d s)"
proof -
  assume ok: "dec_ok n s" "d_start s \<noteq> []"
  then have "stack_ok (turn_top s)" by (simp add: dec_ok_def)
  then show ?thesis
    using ok dec_ok_small [OF ok(1)] by (cases "d_start s") (auto simp: dec_ok_def stack_ok_def less_Suc_eq)
qed

lemma open_step:
  assumes "dec_ok n s" "d_start s = (if d then 100 else 108) # cs"
  shows "decode_item n s = Done (open_container n (if d then Tk_dict else Tk_list) s)"
    "flip_state (length (d_stack s)) (open_container n (if d then Tk_dict else Tk_list) s) = opened n d s"
proof -
  show "decode_item n s = Done (open_container n (if d then Tk_dict else Tk_list) s)"
    using assms(2) by (simp add: decode_item_def)
  show "flip_state (length (d_stack s)) (open_container n (if d then Tk_dict else Tk_list) s) = opened n d s"
    using assms(1)
    by (cases "d_stack s") (auto simp: flip_state_def open_container_def opened_def turn_top_def turned_def dec_ok_def
        stack_ok_def Let_def)
qed

text \<open>The items of a container, read one after the other.\<close>

fun afters :: "nat \<Rightarrow> raw list \<Rightarrow> decoder \<Rightarrow> decoder" where
  "afters n [] s = s"
| "afters n (r # rs) s = afters n rs (after n r (drop (length (enc r)) (d_start s)) s)"

lemma afters_start [simp]: "d_start (afters n rs s) = drop (length (encs rs)) (d_start s)"
  by (induction rs arbitrary: s) (simp_all add: add.commute)

lemma afters_tokens:
  "length (encs rs) \<le> length (d_start s) \<Longrightarrow> length (d_start s) \<le> n \<Longrightarrow>
   d_tokens (afters n rs s) = d_tokens s @ tokss (n - length (d_start s)) rs"
proof (induction rs arbitrary: s)
  case (Cons r rs)
  have "n - (length (d_start s) - length (enc r)) = n - length (d_start s) + length (enc r)" using Cons.prems by simp
  then show ?case using Cons.IH [of "after n r (drop (length (enc r)) (d_start s)) s"] Cons.prems by simp
qed simp

lemma after_stack: "d_stack (after n r post s) = d_stack (turn_top s)"
  by (simp add: after_def shifted_def)

lemma afters_stack:
  assumes "stack_ok s" "d_stack s = f # fs"
  shows "d_stack (afters n rs s) = (if is_dict (d_tokens s) f \<and> odd (length rs) then f\<lparr>fr_state := \<not> fr_state f\<rparr> else f) # fs"
  using assms
proof (induction rs arbitrary: s f)
  case (Cons r rs)
  let ?s = "after n r (drop (length (enc r)) (d_start s)) s"
  have st: "d_stack ?s = turned (d_tokens s) f # fs" "is_dict (d_tokens ?s) (turned (d_tokens s) f) = is_dict (d_tokens s) f"
    using Cons.prems by (simp_all add: after_stack turn_top_def stack_ok_def)
  show ?case using Cons.IH [OF _ st(1)] Cons.prems st(2) by (auto simp: turned_def)
qed simp

lemma opened_dict [simp]: "dec_ok n s \<Longrightarrow> is_dict (d_tokens (opened n d s)) (hd (d_stack (opened n d s))) = d"
  using dec_ok_small [of n s] by (simp add: is_dict_def mk_token_def)

lemma close_step:
  assumes ok: "dec_ok n s" and st: "d_start s = (if d then 100 else 108) # encs rs @ 101 # post" and ev: "d \<longrightarrow> even (length rs)"
  shows "decode_item n (afters n rs (opened n d s)) = Done (after n (RCont d rs) post s)"
proof -
  let ?s = "opened n d s" and ?T = "d_tokens s" and ?off = "n - length (d_start s)"
  let ?f = "\<lparr>fr_token = length ?T, fr_state = False\<rparr>" and ?k = "if d then Tk_dict else Tk_list"
  have len: "length (d_start s) \<le> n" "n \<le> max_offset" using ok by (simp_all add: dec_ok_def)
  have o: "stack_ok ?s" using dec_ok_opened [OF ok] st by (simp add: dec_ok_def)
  have f: "d_stack ?s = ?f # d_stack (turn_top s)" using dec_ok_small [OF ok] by simp
  have "is_dict (d_tokens ?s) ?f = d" using opened_dict [OF ok, of d] f by simp
  then have stack: "d_stack (afters n rs ?s) = ?f # d_stack (turn_top s)" using afters_stack [OF o f, of n rs] ev by auto
  have "n - length (d_start ?s) = ?off + 1" using len st by simp
  then have T: "d_tokens (afters n rs ?s) = ?T @ mk_token ?off 0 ?k 0 # tokss (?off + 1) rs"
    using afters_tokens [of rs ?s n] len st by simp
  have e: "d_start (afters n rs ?s) = 101 # post" "n - length (101 # post) = ?off + 1 + length (encs rs)"
    using len st by simp_all
  have "ntokss rs + 2 \<le> max_next_item" using ntoks_le(2) [of rs] len st by (simp add: max_offset_def max_next_item_def)
  moreover have "(mk_token ?off 0 ?k 0)\<lparr>tk_next := (ntokss rs + 2) mod 2 ^ 29\<rparr> = mk_token ?off (ntokss rs + 2) ?k 0"
    by (simp add: mk_token_def)
  ultimately have "close_container n (afters n rs ?s) = Done (after n (RCont d rs) post s)"
    using e by (simp add: close_container_def stack T Let_def after_def shifted_def nth_append list_update_append Suc_diff_le turn_top_def)
  then show ?thesis by (simp add: decode_item_def st)
qed

lemma close_flip: "flip_state (Suc (length (d_stack s))) (after n r post s) = after n r post s"
  by (simp add: flip_state_def)

lemma key_expected_after:
  "stack_ok s \<Longrightarrow> d_stack s \<noteq> [] \<Longrightarrow>
   key_expected (after n r post s) \<longleftrightarrow> is_dict (d_tokens s) (hd (d_stack s)) \<and> fr_state (hd (d_stack s))"
  by (cases "d_stack s") (auto simp: key_expected_def after_stack turn_top_def stack_ok_def turned_def is_dict_def nth_append)

section \<open>Texts of trees are accepted\<close>

lemma enc_head: "raw_ok r \<Longrightarrow> is_str r \<Longrightarrow> numeric (hd (enc r @ post))"
  by (auto simp: digits_ok_def neq_Nil_conv)

lemma loop_item:
  "raw_ok r \<Longrightarrow> dec_ok n s \<Longrightarrow> d_start s = enc r @ post \<Longrightarrow> int (length (d_stack s) + height r) \<le> d \<Longrightarrow>
   int (ntoks r) \<le> l \<Longrightarrow> key_expected s \<longrightarrow> is_str r \<Longrightarrow>
   decode_loop n d l s = continue n d (l - int (ntoks r)) (after n r post s)"
  "raws_ok rs \<Longrightarrow> dec_ok n s \<Longrightarrow> d_start s = encs rs @ post \<Longrightarrow> int (length (d_stack s) + heights rs) \<le> d \<Longrightarrow>
   int (ntokss rs) \<le> l \<Longrightarrow> d_stack s \<noteq> [] \<Longrightarrow>
   is_dict (d_tokens s) (hd (d_stack s)) \<longrightarrow> keys_ok (fr_state (hd (d_stack s))) rs \<Longrightarrow>
   decode_loop n d l s = decode_loop n d (l - int (ntokss rs)) (afters n rs s)"
proof (induction r and rs arbitrary: s post l and s post l rule: enc_encs.induct)
  case (1 ds)
  then have "decode_item n s = Done (shifted n (RInt ds) post s)" by (intro integer_leaf) simp_all
  moreover have "may_read d l s" using 1 by (simp add: may_read_def)
  ultimately show ?case using 1 by (simp add: loop_step flip_shifted dec_ok_def)
next
  case (2 ls str)
  then have "decode_item n s = Done (shifted n (RStr ls str) post s)" by (intro string_leaf) simp_all
  moreover have "may_read d l s" using 2 enc_head [of "RStr ls str" post] by (simp add: may_read_def)
  ultimately show ?case using 2 by (simp add: loop_step flip_shifted dec_ok_def)
next
  case (3 k rs)
  let ?s = "opened n k s" and ?l = "l - 1"
  have st: "d_start s = (if k then 100 else 108) # encs rs @ 101 # post" using 3(4) by simp
  have "may_read d l s" using 3 by (auto simp: may_read_def)
  then have "decode_loop n d l s = decode_loop n d ?l ?s"
    using open_step [OF 3(3) st] by (simp add: loop_step) (simp add: continue_def)
  also have "\<dots> = decode_loop n d (?l - int (ntokss rs)) (afters n rs ?s)"
    using 3 dec_ok_opened [OF 3(3), of k] opened_dict [OF 3(3), of k] st
    by (intro 3(1) [of _ "101 # post"]) (simp_all del: opened_simps(2,3), simp_all)
  also have "\<dots> = continue n d (l - int (ntoks (RCont k rs))) (after n (RCont k rs) post s)"
  proof -
    let ?t = "afters n rs ?s"
    have o: "stack_ok ?s" using dec_ok_opened [OF 3(3)] st by (simp add: dec_ok_def)
    have len: "length (d_stack ?t) = Suc (length (d_stack s))" using afters_stack [OF o, of _ _ n rs] by auto
    have "may_read d (?l - int (ntokss rs)) ?t" using 3 heights_pos(2) [of rs] st len by (auto simp: may_read_def)
    moreover have "decode_item n ?t = Done (after n (RCont k rs) post s)" using close_step [OF 3(3) st] 3(2) by simp
    ultimately show ?thesis using loop_step [of d _ ?t n] close_flip [of s n "RCont k rs" post] by (simp add: len algebra_simps)
  qed
  finally show ?case .
next
  case (5 r rs)
  let ?s = "after n r (encs rs @ post) s"
  have "decode_loop n d l s = continue n d (l - int (ntoks r)) ?s"
    using 5 by (intro 5(1)) (auto simp: key_expected_def)
  also have "\<dots> = decode_loop n d (l - int (ntoks r)) ?s" using 5 by (simp add: continue_def)
  also have "\<dots> = decode_loop n d (l - int (ntoks r) - int (ntokss rs)) (afters n rs ?s)"
  proof -
    obtain f fs where f: "d_stack s = f # fs" using 5(8) by (cases "d_stack s") auto
    have st: "d_stack ?s = turned (d_tokens s) f # fs" by (simp add: after_stack turn_top_def f)
    have "dec_ok n ?s" using 5(4,5) by (intro dec_ok_after) simp_all
    moreover have "fr_token f < length (d_tokens s)" using 5(4) f by (simp add: dec_ok_def stack_ok_def)
    then have "is_dict (d_tokens ?s) (hd (d_stack ?s)) \<longrightarrow> keys_ok (fr_state (hd (d_stack ?s))) rs"
      using 5(9) f by (simp add: st) (auto simp: turned_def)
    ultimately show ?thesis using 5(3,6,7,8) by (intro 5(2)) simp_all
  qed
  finally show ?case using 5(5) by (simp add: diff_diff_eq)
qed simp

section \<open>Only texts of trees are accepted\<close>

definition item_read :: "nat \<Rightarrow> int \<Rightarrow> int \<Rightarrow> decoder \<Rightarrow> bool" where
  "item_read n d l s \<longleftrightarrow> (\<exists>r post. raw_ok r \<and> d_start s = enc r @ post \<and> (key_expected s \<longrightarrow> is_str r) \<and>
     decode_loop n d l s = continue n d (l - int (ntoks r)) (after n r post s))"

definition items_read :: "nat \<Rightarrow> int \<Rightarrow> int \<Rightarrow> decoder \<Rightarrow> bool" where
  "items_read n d l s \<longleftrightarrow> (\<exists>rs post. raws_ok rs \<and> d_start s = encs rs @ 101 # post \<and>
     (is_dict (d_tokens s) (hd (d_stack s)) \<longrightarrow> keys_ok (fr_state (hd (d_stack s))) rs) \<and>
     decode_loop n d l s = decode_loop n d (l - int (ntokss rs)) (afters n rs s))"

lemma items_sound:
  assumes item: "\<And>l s. length (d_start s) < N \<Longrightarrow> decode_loop n d l s = Done t \<Longrightarrow> dec_ok n s \<Longrightarrow>
      d_stack s \<noteq> [] \<and> hd (d_start s) = 101 \<or> item_read n d l s"
  shows "length (d_start s) < N \<Longrightarrow> decode_loop n d l s = Done t \<Longrightarrow> dec_ok n s \<Longrightarrow> d_stack s \<noteq> [] \<Longrightarrow> items_read n d l s"
proof (induction "length (d_start s)" arbitrary: s l rule: less_induct)
  case less
  have ne: "d_start s \<noteq> []" using loop_Done(1) [OF less(3)] by (simp add: may_read_def)
  show ?case
  proof (cases "hd (d_start s) = 101")
    case True
    then have "d_start s = 101 # tl (d_start s)" using ne by (cases "d_start s") auto
    then show ?thesis unfolding items_read_def by (intro exI [of _ "[]"] exI [of _ "tl (d_start s)"]) simp
  next
    case False
    then obtain r post where r: "raw_ok r" "d_start s = enc r @ post" "key_expected s \<longrightarrow> is_str r"
      "decode_loop n d l s = continue n d (l - int (ntoks r)) (after n r post s)"
      using item [OF less(2-4)] by (auto simp: item_read_def)
    let ?s = "after n r post s" and ?l = "l - int (ntoks r)"
    have l: "decode_loop n d l s = decode_loop n d ?l ?s" using r(4) less(5) by (simp add: continue_def)
    have "length (d_start ?s) < length (d_start s)" using r(2) by simp
    moreover have "dec_ok n ?s" by (rule dec_ok_after [OF less(4) r(2)])
    ultimately have "items_read n d ?l ?s" using less(1) [of ?s ?l] less(2,3,5) l by simp
    then obtain rs post' where rs: "raws_ok rs" "post = encs rs @ 101 # post'"
      "is_dict (d_tokens ?s) (hd (d_stack ?s)) \<longrightarrow> keys_ok (fr_state (hd (d_stack ?s))) rs"
      "decode_loop n d ?l ?s = decode_loop n d (?l - int (ntokss rs)) (afters n rs ?s)" by (auto simp: items_read_def)
    obtain f fs where f: "d_stack s = f # fs" using less(5) by (cases "d_stack s") auto
    have "fr_token f < length (d_tokens s)" using less(4) f by (simp add: dec_ok_def stack_ok_def)
    then have "is_dict (d_tokens s) f \<longrightarrow> keys_ok (fr_state f) (r # rs)"
      using rs(3) r(3) by (auto simp: after_stack turn_top_def f turned_def key_expected_def)
    moreover have "decode_loop n d l s = decode_loop n d (l - int (ntokss (r # rs))) (afters n (r # rs) s)"
      using l rs(4) r(2) by (simp add: algebra_simps)
    ultimately have "raws_ok (r # rs) \<and> d_start s = encs (r # rs) @ 101 # post' \<and>
        (is_dict (d_tokens s) (hd (d_stack s)) \<longrightarrow> keys_ok (fr_state (hd (d_stack s))) (r # rs)) \<and>
        decode_loop n d l s = decode_loop n d (l - int (ntokss (r # rs))) (afters n (r # rs) s)"
      using r(1,2) rs(1,2) f by simp
    then show ?thesis unfolding items_read_def by blast
  qed
qed

lemma container_sound:
  assumes items: "\<And>l s. length (d_start s) < length cs + 1 \<Longrightarrow> decode_loop n d l s = Done t \<Longrightarrow> dec_ok n s \<Longrightarrow>
      d_stack s \<noteq> [] \<Longrightarrow> items_read n d l s"
    and loop: "decode_loop n d l s = Done t" and ok: "dec_ok n s" and st: "d_start s = (if k then 100 else 108) # cs"
  shows "item_read n d l s"
proof -
  let ?s = "opened n k s"
  have ne: "d_start s \<noteq> []" using st by simp
  have l1: "decode_loop n d l s = decode_loop n d (l - 1) ?s"
    using loop_Done [OF loop] open_step [OF ok st] by (simp add: continue_def)
  note ok' = dec_ok_opened [OF ok ne, of k]
  have "items_read n d (l - 1) ?s" using loop l1 ok' st by (intro items) simp_all
  then obtain rs post where rs: "raws_ok rs" "cs = encs rs @ 101 # post" "k \<longrightarrow> keys_ok False rs"
    "decode_loop n d (l - 1) ?s = decode_loop n d (l - 1 - int (ntokss rs)) (afters n rs ?s)"
    using opened_dict [OF ok, of k] st by (auto simp: items_read_def)
  let ?t = "afters n rs ?s"
  have o: "stack_ok ?s" using ok' by (simp add: dec_ok_def)
  have stack: "d_stack ?t = (if k \<and> odd (length rs) then (hd (d_stack ?s))\<lparr>fr_state := True\<rparr> else hd (d_stack ?s)) # d_stack (turn_top s)"
    using afters_stack [OF o, of "hd (d_stack ?s)" "d_stack (turn_top s)" n rs] opened_dict [OF ok, of k] by simp
  have t: "d_start ?t = 101 # post" using st rs(2) by simp
  have "decode_loop n d (l - 1 - int (ntokss rs)) ?t = Done t" using loop l1 rs(4) by simp
  note lt = loop_Done(2) [OF this]
  then obtain s' where s': "decode_item n ?t = Done s'"
    "decode_loop n d (l - 1 - int (ntokss rs)) ?t = continue n d (l - 1 - int (ntokss rs) - 1) (flip_state (length (d_stack ?t)) s')"
    by blast
  have ev: "k \<longrightarrow> even (length rs)"
  proof (rule ccontr)
    assume "\<not> (k \<longrightarrow> even (length rs))"
    moreover have "is_dict (d_tokens ?t) (hd (d_stack ?s)) = k"
    proof -
      have "d_tokens ?t = d_tokens ?s @ tokss (n - length (d_start ?s)) rs"
        using ok st rs(2) by (intro afters_tokens) (simp_all add: dec_ok_def)
      moreover have "fr_token (hd (d_stack ?s)) < length (d_tokens ?s)" using o by (simp add: stack_ok_def)
      ultimately show ?thesis using opened_dict [OF ok, of k] by (simp only: is_dict_append)
    qed
    ultimately show False using s'(1) t stack by (simp add: decode_item_def close_container_def is_dict_def)
  qed
  have "s' = after n (RCont k rs) post s" using close_step [OF ok _ ev, of post] s'(1) st rs(2) by simp
  then have "decode_loop n d l s = continue n d (l - int (ntoks (RCont k rs))) (after n (RCont k rs) post s)"
    using l1 rs(4) s'(2) close_flip [of s n "RCont k rs" post] stack by (simp add: algebra_simps)
  moreover have "\<not> key_expected s" using loop_Done(1) [OF loop] st by (cases k) (auto simp: may_read_def numeric_def)
  moreover have "raw_ok (RCont k rs)" "d_start s = enc (RCont k rs) @ post" using rs(1-3) ev st by simp_all
  ultimately show ?thesis unfolding item_read_def by blast
qed

lemma loop_sound:
  "decode_loop n d l s = Done t \<Longrightarrow> dec_ok n s \<Longrightarrow> d_stack s \<noteq> [] \<and> hd (d_start s) = 101 \<or> item_read n d l s"
proof (induction "length (d_start s)" arbitrary: s l rule: less_induct)
  case less
  note r = loop_Done [OF less(2)]
  obtain c cs where s: "d_start s = c # cs" using r(1) by (cases "d_start s") (auto simp: may_read_def)
  obtain s' where s': "decode_item n s = Done s'" "decode_loop n d l s = continue n d (l - 1) (flip_state (length (d_stack s)) s')"
    using r(2) by blast
  have flip: "stack_ok s" using less(3) by (simp add: dec_ok_def)
  consider "c = 100 \<or> c = 108" | "c = 105" | "c = 101" | "c \<notin> {100, 108, 105, 101}" by blast
  then show ?case
  proof cases
    case 1
    then obtain k where k: "c = (if k then 100 else 108)" by metis
    have "item_read n d l s"
    proof (rule container_sound [OF _ less(2,3)])
      show "d_start s = (if k then 100 else 108) # cs" using s k by simp
      show "items_read n d l' s'" if "length (d_start s') < length cs + 1" "decode_loop n d l' s' = Done t" "dec_ok n s'" "d_stack s' \<noteq> []" for l' s'
        using that less(1) s by (intro items_sound [of "length cs + 1" n d t]) simp_all
    qed
    then show ?thesis ..
  next
    case 2
    then obtain ds post where d: "raw_ok (RInt ds)" "d_start s = enc (RInt ds) @ post" "s' = shifted n (RInt ds) post s"
      using integer_Done [of n s s' cs] s'(1) s by (auto simp: decode_item_def)
    moreover have "\<not> key_expected s" using r(1) s 2 by (auto simp: may_read_def numeric_def)
    moreover have "decode_loop n d l s = continue n d (l - int (ntoks (RInt ds))) (after n (RInt ds) post s)"
      using s'(2) d(3) flip_shifted [OF flip] by simp
    ultimately have "item_read n d l s" unfolding item_read_def by blast
    then show ?thesis ..
  next
    case 3
    then show ?thesis using s'(1) s by (cases "d_stack s") (auto simp: decode_item_def close_container_def)
  next
    case 4
    then have "decode_string n s = Done s'" using s'(1) s by (simp add: decode_item_def)
    then obtain ls str post where d: "raw_ok (RStr ls str)" "d_start s = enc (RStr ls str) @ post" "s' = shifted n (RStr ls str) post s"
      using string_Done [of n s s'] s by auto
    moreover have "decode_loop n d l s = continue n d (l - int (ntoks (RStr ls str))) (after n (RStr ls str) post s)"
      using s'(2) d(3) flip_shifted [OF flip] by simp
    ultimately have "item_read n d l s" unfolding item_read_def by blast
    then show ?thesis ..
  qed
qed

section \<open>The decoder\<close>

definition root_node :: "raw \<Rightarrow> byte list \<Rightarrow> bdecode_node" where
  "root_node r post = node_at (toks 0 r @ [mk_token (length (enc r)) 0 Tk_end 0]) (enc r @ post) (length (enc r)) 0"

lemma after_start:
  "after (length buf) r post \<lparr>d_start = buf, d_tokens = [], d_stack = []\<rparr> = \<lparr>d_start = post, d_tokens = toks 0 r, d_stack = []\<rparr>"
  by (simp add: after_def shifted_def turn_top_def)

lemma bdecode_Done:
  assumes "decode_loop (length buf) d l \<lparr>d_start = buf, d_tokens = [], d_stack = []\<rparr> = Done \<lparr>d_start = post, d_tokens = toks 0 r, d_stack = []\<rparr>"
    and "buf = enc r @ post" "length buf \<le> max_offset"
  shows "bdecode buf d l = (root_node r post, no_error, 0)"
  using assms by (simp add: bdecode_def Let_def root_node_def)

lemma bdecode_accepts:
  assumes "raw_ok r" "length (enc r @ post) \<le> max_offset" "int (height r) \<le> d" "int (ntoks r) \<le> l"
  shows "bdecode (enc r @ post) d l = (root_node r post, no_error, 0)"
proof -
  let ?buf = "enc r @ post"
  let ?s = "\<lparr>d_start = ?buf, d_tokens = [], d_stack = []\<rparr>"
  have "dec_ok (length ?buf) ?s" using assms(2) by (simp add: dec_ok_def stack_ok_def)
  then have "decode_loop (length ?buf) d l ?s = continue (length ?buf) d (l - int (ntoks r)) (after (length ?buf) r post ?s)"
    using assms by (intro loop_item(1)) (simp_all add: key_expected_def)
  then show ?thesis using assms(2) by (intro bdecode_Done) (simp_all only: after_start continue_def, simp_all)
qed

lemma item_fails: "decode_item n s = Fail e pos s' \<Longrightarrow> e \<noteq> no_error"
  by (auto simp: decode_item_def decode_integer_def close_container_def decode_string_def Let_def
      split: if_splits prod.splits list.splits)

lemma loop_fails: "decode_loop n d l s = Fail e pos s' \<Longrightarrow> e \<noteq> no_error"
proof (induction n d l s rule: decode_loop.induct)
  case (1 n d l s)
  show ?case
  proof (cases "may_read d l s")
    case True
    show ?thesis
    proof (cases "decode_item n s")
      case (Fail e' pos' t)
      then show ?thesis using 1(2) True item_fails [OF Fail] by (simp add: loop_step)
    next
      case (Done t)
      let ?t = "flip_state (length (d_stack s)) t"
      have "decode_loop n d (l - 1) ?t = Fail e pos s'" "d_stack ?t \<noteq> []"
        using 1(2) True Done by (auto simp: loop_step continue_def split: if_splits)
      then show ?thesis using True Done by (intro 1(1)) (auto simp: may_read_def)
    qed
  next
    case False
    then show ?thesis using 1(2) by (subst (asm) decode_loop.simps) (auto simp: may_read_def Let_def split: if_splits)
  qed
qed

lemma bdecode_sound:
  assumes "bdecode buf d l = (nd, no_error, p)"
  shows "\<exists>r post. raw_ok r \<and> buf = enc r @ post \<and> length buf \<le> max_offset \<and> nd = root_node r post"
proof -
  let ?s = "\<lparr>d_start = buf, d_tokens = [], d_stack = []\<rparr>"
  have len: "length buf \<le> max_offset" and "buf \<noteq> []" using assms by (auto simp: bdecode_def Let_def split: if_splits)
  then obtain t where t: "decode_loop (length buf) d l ?s = Done t"
    using assms loop_fails [of "length buf" d l ?s]
    by (cases "decode_loop (length buf) d l ?s") (auto simp: bdecode_def Let_def)
  have "dec_ok (length buf) ?s" using len by (simp add: dec_ok_def stack_ok_def)
  from loop_sound [OF t this] have "item_read (length buf) d l ?s" by simp
  then obtain r post where r: "raw_ok r" "d_start ?s = enc r @ post"
    "decode_loop (length buf) d l ?s = continue (length buf) d (l - int (ntoks r)) (after (length buf) r post ?s)"
    unfolding item_read_def by blast
  have buf: "buf = enc r @ post" using r(2) by simp
  have "decode_loop (length buf) d l ?s = Done \<lparr>d_start = post, d_tokens = toks 0 r, d_stack = []\<rparr>"
    using r(3) by (simp add: after_start continue_def)
  then have "nd = root_node r post" using bdecode_Done [OF _ buf len] assms by simp
  then show ?thesis using r(1) buf len by blast
qed

end
