(* ===== verification/Bdecode_Query.thy ===== *)
theory Bdecode_Query
  imports Bdecode_Tree
begin

text \<open>
  The queries on decoded trees: a node of a decoded buffer answers as the tree it stands for, no query
  reads outside of the tokens or the buffer, and the cache of a container does not change its answers.
\<close>

section \<open>Nodes and the trees they stand for\<close>

text \<open>At index \<open>i\<close> of the tokens and offset \<open>off\<close> of the buffer is a tree; the token after it starts where it ends.\<close>

definition holds_at :: "bdecode_token list \<Rightarrow> byte list \<Rightarrow> nat \<Rightarrow> nat \<Rightarrow> raw \<Rightarrow> bool" where
  "holds_at ts buf i off r \<longleftrightarrow> raw_ok r \<and> length buf \<le> max_offset \<and>
     (\<exists>pre u rest bpre bpost. ts = pre @ toks off r @ u # rest \<and> length pre = i \<and>
        buf = bpre @ enc r @ bpost \<and> length bpre = off \<and> tk_offset u = off + length (enc r))"

definition holds_seq :: "bdecode_token list \<Rightarrow> byte list \<Rightarrow> nat \<Rightarrow> nat \<Rightarrow> raw list \<Rightarrow> bool" where
  "holds_seq ts buf i off rs \<longleftrightarrow> raws_ok rs \<and> length buf \<le> max_offset \<and>
     (\<exists>pre u rest bpre bpost. ts = pre @ tokss off rs @ u # rest \<and> length pre = i \<and>
        buf = bpre @ encs rs @ bpost \<and> length bpre = off \<and> tk_offset u = off + length (encs rs) \<and> tk_type u = Tk_end)"

definition represents :: "bdecode_node \<Rightarrow> raw \<Rightarrow> bool" where
  "represents nd r \<longleftrightarrow> (\<exists>i off. m_token_idx nd = int i \<and> holds_at (m_tokens nd) (m_buffer nd) i off r)"

fun raw_type :: "raw \<Rightarrow> token_type" where
  "raw_type (RInt ds) = Tk_integer"
| "raw_type (RStr ls s) = Tk_string"
| "raw_type (RCont d rs) = (if d then Tk_dict else Tk_list)"

lemma mk_token_simps [simp]:
  "off \<le> max_offset \<Longrightarrow> tk_offset (mk_token off nx t h) = off" "tk_type (mk_token off nx t h) = t"
  "nx \<le> max_offset \<Longrightarrow> tk_next (mk_token off nx t h) = nx"
  by (simp_all add: mk_token_def max_offset_def)

lemma hd_toks: "off + length (enc r) \<le> max_offset \<Longrightarrow>
   tk_offset (hd (toks off r)) = off \<and> tk_type (hd (toks off r)) = raw_type r \<and> tk_next (hd (toks off r)) = ntoks r"
  using ntoks_le(1) [of r] by (cases r) (auto simp: max_offset_def)

lemma holds_at_token:
  assumes "holds_at ts buf i off r"
  shows "i < length ts" "tk_offset (ts ! i) = off" "tk_type (ts ! i) = raw_type r" "tk_next (ts ! i) = ntoks r"
    "i + ntoks r < length ts" "tk_offset (ts ! (i + ntoks r)) = off + length (enc r)" "off + length (enc r) \<le> length buf"
proof -
  obtain pre u rest bpre bpost where d: "ts = pre @ toks off r @ u # rest" "length pre = i" "buf = bpre @ enc r @ bpost"
    "length bpre = off" "tk_offset u = off + length (enc r)" "length buf \<le> max_offset"
    using assms unfolding holds_at_def by blast
  have "off + length (enc r) \<le> max_offset" using d(3,4,6) by simp
  note h = hd_toks [OF this]
  have n: "0 < ntoks r" using length_greater_0_conv [of "toks off r"] by simp
  have i: "ts ! i = hd (toks off r)" using d(1,2) by (simp add: nth_append hd_conv_nth n)
  show "i < length ts" "i + ntoks r < length ts" using d(1,2) by simp_all
  show "tk_offset (ts ! i) = off" "tk_type (ts ! i) = raw_type r" "tk_next (ts ! i) = ntoks r" using h i by simp_all
  show "tk_offset (ts ! (i + ntoks r)) = off + length (enc r)" using d(1,2,5) by (simp add: nth_append)
  show "off + length (enc r) \<le> length buf" using d(3,4) by simp
qed

lemma holds_at_buffer: "holds_at ts buf i off r \<Longrightarrow> \<exists>bpost. drop off buf = enc r @ bpost"
  unfolding holds_at_def by force

lemma holds_at_parts:
  assumes "holds_at ts buf i off (RCont d rs)"
  shows "holds_seq ts buf (i + 1) (off + 1) rs"
proof -
  obtain pre u rest bpre bpost where d: "ts = pre @ toks off (RCont d rs) @ u # rest" "length pre = i"
    "buf = bpre @ enc (RCont d rs) @ bpost" "length bpre = off" "length buf \<le> max_offset" "raws_ok rs"
    using assms unfolding holds_at_def by auto
  let ?c = "if d then 100 else 108 :: byte" and ?e = "mk_token (off + 1 + length (encs rs)) 1 Tk_end 0"
  have "ts = (pre @ [hd (toks off (RCont d rs))]) @ tokss (off + 1) rs @ ?e # u # rest" using d(1) by simp
  moreover have "buf = (bpre @ [?c]) @ encs rs @ 101 # bpost" using d(3) by simp
  moreover have "tk_offset ?e = off + 1 + length (encs rs)" using d(3-5) by simp
  moreover have "length (pre @ [hd (toks off (RCont d rs))]) = i + 1" "length (bpre @ [?c]) = off + 1" using d(2,4) by simp_all
  ultimately show ?thesis using d(5,6) unfolding holds_seq_def by (metis mk_token_simps(2))
qed

lemma holds_seq_Cons:
  assumes "holds_seq ts buf i off (r # rs)"
  shows "holds_at ts buf i off r" "holds_seq ts buf (i + ntoks r) (off + length (enc r)) rs"
proof -
  obtain pre u rest bpre bpost where d: "ts = pre @ toks off r @ tokss (off + length (enc r)) rs @ u # rest" "length pre = i"
    "buf = bpre @ enc r @ encs rs @ bpost" "length bpre = off" "length buf \<le> max_offset" "raw_ok r" "raws_ok rs"
    "tk_offset u = off + length (enc r) + length (encs rs)" "tk_type u = Tk_end"
    using assms unfolding holds_seq_def by auto
  obtain v vs where v: "tokss (off + length (enc r)) rs @ u # rest = v # vs" by (cases "tokss (off + length (enc r)) rs") auto
  have "tk_offset v = off + length (enc r)"
  proof (cases rs)
    case Nil
    then show ?thesis using v d(8) by simp
  next
    case (Cons r' rs')
    then have "v = hd (toks (off + length (enc r)) r')" using v by (cases "toks (off + length (enc r)) r'") auto
    then show ?thesis using hd_toks [of "off + length (enc r)" r'] d(3-5) Cons by simp
  qed
  moreover have "ts = pre @ toks off r @ v # vs" using d(1) v by simp
  ultimately show "holds_at ts buf i off r" using d(2-6) unfolding holds_at_def by blast
  have "ts = (pre @ toks off r) @ tokss (off + length (enc r)) rs @ u # rest" "buf = (bpre @ enc r) @ encs rs @ bpost"
    "length (pre @ toks off r) = i + ntoks r" "length (bpre @ enc r) = off + length (enc r)" using d(1-4) by simp_all
  then show "holds_seq ts buf (i + ntoks r) (off + length (enc r)) rs" using d(5,7-9) unfolding holds_seq_def by blast
qed

lemma holds_seq_Nil: "holds_seq ts buf i off [] \<Longrightarrow> i < length ts \<and> tk_type (ts ! i) = Tk_end"
  unfolding holds_seq_def by auto

lemma holds_seq_drop:
  "holds_seq ts buf i off rs \<Longrightarrow> k \<le> length rs \<Longrightarrow>
   holds_seq ts buf (i + ntokss (take k rs)) (off + length (encs (take k rs))) (drop k rs)"
proof (induction k arbitrary: rs i off)
  case (Suc k)
  then obtain r rs' where rs: "rs = r # rs'" by (cases rs) auto
  show ?case using Suc.IH [OF holds_seq_Cons(2) [OF Suc.prems(1) [unfolded rs]]] Suc.prems(2) by (simp add: rs add.assoc)
qed simp

lemma root_node_represents: "raw_ok r \<Longrightarrow> length (enc r @ post) \<le> max_offset \<Longrightarrow> represents (root_node r post) r"
  unfolding represents_def root_node_def node_at_def holds_at_def
  by (intro exI [of _ 0] conjI) (auto intro!: exI [of _ "[]"] exI [of _ "mk_token (length (enc r)) 0 Tk_end 0"])

section \<open>Values\<close>

lemma node_type_eq: "represents nd r \<Longrightarrow> node_type nd = Some (raw_type r)"
  by (auto simp: represents_def node_type_def tok_def dest: holds_at_token)

lemma span_eq:
  assumes "holds_at ts buf i off r" "ntoks r = 1"
  shows "token_source_span ts i = Some (int (length (enc r)))"
  using holds_at_token [OF assms(1)] assms(2) by (simp add: token_source_span_def tok_def)

lemma string_at_eq:
  assumes "holds_at ts buf i off (RStr ls s)"
  shows "string_at ts buf i = Some s"
proof -
  note t = holds_at_token [OF assms] and sp = span_eq [OF assms]
  obtain bpost where b: "drop off buf = ls @ 58 # s @ bpost" using holds_at_buffer [OF assms] by auto
  have "length ls \<le> 8" "ls \<noteq> []" using assms by (auto simp: holds_at_def digits_ok_def)
  then have h: "start_offset (ts ! i) = length ls + 1"
  proof -
    obtain pre u rest where "ts = pre @ mk_token off 1 Tk_string (length ls + 1) # u # rest" "length pre = i"
      using assms unfolding holds_at_def by auto
    then have "ts ! i = mk_token off 1 Tk_string (length ls + 1)" by (simp add: nth_append)
    moreover have "length ls + 1 - 2 < 8" "2 \<le> length ls + 1" using \<open>length ls \<le> 8\<close> \<open>ls \<noteq> []\<close> by (cases ls; simp)+
    ultimately show ?thesis by (simp add: start_offset_def mk_token_def)
  qed
  have "drop (off + (length ls + 1)) buf = drop (length ls + 1) (drop off buf)" by (simp add: add.commute)
  then have "drop (off + (length ls + 1)) buf = s @ bpost" by (simp add: b)
  moreover have "length (enc (RStr ls s)) = length ls + 1 + length s" by simp
  ultimately show ?thesis using t(1,2,7) sp h by (simp add: string_at_def tok_def Let_def)
qed

text \<open>What an integer of the grammar stands for: values that do not fit are read as 0.\<close>

definition raw_int :: "byte list \<Rightarrow> int" where
  "raw_int ds =
     (let neg = (hd ds = 45); v = digits_val 0 (if neg then tl ds else ds)
      in if int64_max < v then 0 else if neg then - v else v)"

lemma parse_int_overflow:
  assumes "list_all numeric ds" "0 \<le> v" "v \<le> int64_max" "int64_max < digits_val v ds" "\<not> numeric d"
  shows "\<exists>rest val. parse_int (ds @ d # post) d v = (rest, val, overflow)"
  using assms(1-4)
proof (induction ds arbitrary: v)
  case (Cons c ds)
  let ?v = "v * 10 + (uint c - 48)"
  have c: "numeric c" "c \<noteq> d" "0 \<le> uint c - 48" using Cons.prems(1) assms(5) numeric_digit by auto
  show ?case
  proof (cases "?v \<le> int64_max")
    case True
    then have "\<exists>rest val. parse_int (ds @ d # post) d ?v = (rest, val, overflow)"
      using Cons c by (intro Cons.IH) (simp_all add: digits_val_def)
    then show ?thesis using c True by (auto simp: Let_def)
  next
    case False
    then show ?thesis using c by (auto simp: Let_def)
  qed
qed (simp add: digits_val_def)

lemma int_value_eq:
  assumes "represents nd (RInt ds)"
  shows "int_value nd = Some (raw_int ds)"
proof -
  obtain i off where i: "m_token_idx nd = int i" and h: "holds_at (m_tokens nd) (m_buffer nd) i off (RInt ds)"
    using assms by (auto simp: represents_def)
  note t = holds_at_token [OF h] and sp = span_eq [OF h]
  obtain bpost where "drop off (m_buffer nd) = 105 # ds @ 101 # bpost" using holds_at_buffer [OF h] by auto
  then have b: "drop (off + 1) (m_buffer nd) = ds @ 101 # bpost" by (metis drop_drop drop_Suc_Cons drop0 One_nat_def add.commute)
  let ?ds = "if hd ds = 45 then tl ds else ds"
  have ok: "digits_ok ?ds" "ds \<noteq> []" using h by (auto simp: holds_at_def int_ok_def Let_def digits_ok_def split: if_splits)
  have hd: "hd (ds @ 101 # bpost) = hd ds" using ok(2) by simp
  have "length ?ds + (if hd ds = 45 then 1 else 0) = length ds" using ok(2) by (cases ds) auto
  then have r: "take (length ds + 2 - (if hd ds = 45 then 1 else 0)) (if hd ds = 45 then tl (ds @ 101 # bpost) else ds @ 101 # bpost) = ?ds @ 101 # take 1 bpost"
    using ok(2) by (cases ds) auto
  have num: "list_all numeric ?ds" using ok(1) by (simp add: digits_ok_def)
  have "int_value nd =
      (case parse_int (?ds @ 101 # take 1 bpost) 101 0 of (rest, val, ec) \<Rightarrow>
         if ec \<noteq> no_error then Some 0 else if rest = [] then None else Some (if hd ds = 45 then - val else val))"
  proof -
    have sp': "token_source_span (m_tokens nd) i = Some (int (length ds + 2))" using sp by simp
    have ne: "(ds @ 101 # bpost = []) = False" by simp
    show ?thesis by (simp only: int_value_def Let_def i nat_int tok_def t(1,2) if_True if_False sp' b hd r ne option.case prod.case)
  qed
  also have "\<dots> = Some (raw_int ds)"
  proof (cases "digits_val 0 ?ds \<le> int64_max")
    case True
    then show ?thesis using parse_int_digits [OF num _ True numeric_not(3), of "take 1 bpost"] by (simp add: raw_int_def Let_def)
  next
    case False
    then obtain rest val where "parse_int (?ds @ 101 # take 1 bpost) 101 0 = (rest, val, overflow)"
      using parse_int_overflow [OF num, of 0 101 "take 1 bpost"] numeric_not(3) by (auto simp: int64_max_def)
    then show ?thesis using False by (simp add: raw_int_def Let_def)
  qed
  finally show ?thesis .
qed

section \<open>Containers\<close>

lemma skip_items_eq:
  "holds_seq ts buf i off rs \<Longrightarrow> k \<le> length rs \<Longrightarrow> skip_items ts k i = Some (i + ntokss (take k rs))"
proof (induction k arbitrary: rs i off)
  case (Suc k)
  then obtain r rs' where rs: "rs = r # rs'" by (cases rs) auto
  note h = holds_seq_Cons [OF Suc.prems(1) [unfolded rs]]
  show ?case using Suc.IH [OF h(2)] Suc.prems(2) holds_at_token [OF h(1)] by (simp add: rs tok_def add.assoc)
qed simp

lemma ntoks_pos: "0 < ntoks r"
  by (cases r) simp_all

lemma raw_type_not_end [simp]: "raw_type r \<noteq> Tk_end" "raw_type r \<noteq> Tk_none"
  by (cases r; simp)+

lemma count_items_eq: "holds_seq ts buf i off rs \<Longrightarrow> count_items ts i = Some (length rs)"
proof (induction rs arbitrary: i off)
  case Nil
  then show ?case using holds_seq_Nil [OF Nil] by (subst count_items.simps) auto
next
  case (Cons r rs)
  note h = holds_seq_Cons [OF Cons.prems]
  show ?case using Cons.IH [OF h(2)] holds_at_token [OF h(1)] ntoks_pos [of r] by (subst count_items.simps) auto
qed

fun raw_find :: "byte list \<Rightarrow> raw list \<Rightarrow> raw option" where
  "raw_find key (RStr ls s # v # rs) = (if s = key then Some v else raw_find key rs)"
| "raw_find key _ = None"

lemma find_key_eq:
  assumes "holds_seq ts buf i off rs" "keys_ok False rs" "even (length rs)"
  shows "case raw_find key rs of
      None \<Rightarrow> find_key ts buf key i = Some None
    | Some v \<Rightarrow> \<exists>j off'. find_key ts buf key i = Some (Some j) \<and> holds_at ts buf j off' v"
  using assms
proof (induction "length rs" arbitrary: rs i off rule: less_induct)
  case less
  show ?case
  proof (cases rs)
    case Nil
    then show ?thesis using holds_seq_Nil [OF less(2) [unfolded Nil]] by (subst find_key.simps) auto
  next
    case (Cons k rs')
    then obtain v rs'' ls s where rs: "rs = RStr ls s # v # rs''" using less(3,4) by (cases rs') auto
    note h = holds_seq_Cons [OF less(2) [unfolded rs]]
    note h' = holds_seq_Cons [OF h(2)]
    note t = holds_at_token [OF h(1)] and t' = holds_at_token [OF h'(1)]
    have find: "find_key ts buf key i = (if s = key then Some (Some (i + 1)) else find_key ts buf key (i + 1 + ntoks v))"
      using t t' string_at_eq [OF h(1)] ntoks_pos [of v] by (subst find_key.simps) (auto simp: Let_def)
    show ?thesis
    proof (cases "s = key")
      case True
      then show ?thesis using find h'(1) by (auto simp: rs)
    next
      case False
      have "case raw_find key rs'' of
          None \<Rightarrow> find_key ts buf key (i + 1 + ntoks v) = Some None
        | Some w \<Rightarrow> \<exists>j off'. find_key ts buf key (i + 1 + ntoks v) = Some (Some j) \<and> holds_at ts buf j off' w"
        using h'(2) less(3,4) by (intro less(1)) (auto simp: rs)
      then show ?thesis using False find by (cases "raw_find key rs''") (simp_all add: rs)
    qed
  qed
qed

text \<open>The answers of \<open>dict_find\<close> on a dictionary, and of the methods that use it.\<close>

lemma represents_parts:
  assumes "represents nd (RCont d rs)"
  shows "\<exists>off. holds_seq (m_tokens nd) (m_buffer nd) (nat (m_token_idx nd + 1)) off rs" "d \<Longrightarrow> keys_ok False rs \<and> even (length rs)"
proof -
  obtain i off where i: "m_token_idx nd = int i" "holds_at (m_tokens nd) (m_buffer nd) i off (RCont d rs)"
    using assms by (auto simp: represents_def)
  then show "\<exists>off. holds_seq (m_tokens nd) (m_buffer nd) (nat (m_token_idx nd + 1)) off rs"
    using holds_at_parts [OF i(2)] by (auto simp: nat_add_distrib)
  show "d \<Longrightarrow> keys_ok False rs \<and> even (length rs)" using i(2) by (simp add: holds_at_def)
qed

lemma node_at_represents:
  "holds_at (m_tokens nd) (m_buffer nd) i off r \<Longrightarrow> represents (node_at (m_tokens nd) (m_buffer nd) n i) r"
  by (auto simp: represents_def node_at_def)

lemma dict_find_eq:
  assumes "represents nd (RCont True rs)"
  shows "case raw_find key rs of
      None \<Rightarrow> dict_find nd key = Some no_node
    | Some v \<Rightarrow> \<exists>nd'. dict_find nd key = Some nd' \<and> represents nd' v"
proof -
  obtain off where h: "holds_seq (m_tokens nd) (m_buffer nd) (nat (m_token_idx nd + 1)) off rs"
    using represents_parts(1) [OF assms] by blast
  show ?thesis
    using find_key_eq [OF h, of key] represents_parts(2) [OF assms]
    by (auto simp: dict_find_def node_at_represents split: option.splits)
qed

lemma node_type_no_node [simp]: "node_type no_node = Some Tk_none"
  by (simp add: node_type_def no_node_def)

lemma dict_find_dict_eq:
  assumes "represents nd (RCont True rs)"
  shows "\<exists>nd'. dict_find_dict nd key = Some nd' \<and>
    (case raw_find key rs of Some (RCont True rs') \<Rightarrow> represents nd' (RCont True rs') | _ \<Rightarrow> nd' = no_node)"
proof (cases "raw_find key rs")
  case None
  then show ?thesis using dict_find_eq [OF assms, of key] by (simp add: dict_find_dict_def)
next
  case (Some v)
  then obtain nd' where nd: "dict_find nd key = Some nd'" "represents nd' v" using dict_find_eq [OF assms, of key] by auto
  have "(raw_type v = Tk_dict) = (\<exists>rs'. v = RCont True rs')" by (cases v) auto
  then show ?thesis using Some nd node_type_eq [OF nd(2)] by (cases v) (auto simp: dict_find_dict_def)
qed

definition raw_find_int :: "byte list \<Rightarrow> int \<Rightarrow> raw list \<Rightarrow> int" where
  "raw_find_int key def rs = (case raw_find key rs of Some (RInt ds) \<Rightarrow> raw_int ds | _ \<Rightarrow> def)"

lemma dict_find_int_value_eq:
  assumes "represents nd (RCont True rs)"
  shows "dict_find_int_value nd key def = Some (raw_find_int key def rs)"
proof (cases "raw_find key rs")
  case None
  then show ?thesis using dict_find_eq [OF assms, of key] by (simp add: dict_find_int_value_def raw_find_int_def)
next
  case (Some v)
  then obtain nd' where nd: "dict_find nd key = Some nd'" "represents nd' v" using dict_find_eq [OF assms, of key] by auto
  show ?thesis
    using Some nd node_type_eq [OF nd(2)] int_value_eq [of nd']
    by (cases v) (auto simp: dict_find_int_value_def raw_find_int_def)
qed

section \<open>The cache of a container\<close>

text \<open>The cache holds the token of an item; \<open>w\<close> tokens make an item of the container.\<close>

definition cache_ok :: "nat \<Rightarrow> bdecode_node \<Rightarrow> raw list \<Rightarrow> bool" where
  "cache_ok w nd rs \<longleftrightarrow>
     (m_last_index nd = - 1 \<or>
        (\<exists>k. m_last_index nd = int k \<and> w * k < length rs \<and> m_last_token nd = m_token_idx nd + 1 + int (ntokss (take (w * k) rs)))) \<and>
     (m_size nd = - 1 \<or> m_size nd = int (length rs div w))"

definition fresh :: "bdecode_node \<Rightarrow> bool" where
  "fresh nd \<longleftrightarrow> m_last_index nd = - 1 \<and> m_size nd = - 1"

lemma fresh_cache_ok: "fresh nd \<Longrightarrow> cache_ok w nd rs"
  by (simp add: fresh_def cache_ok_def)

lemma fresh_node_at [simp]: "fresh (node_at ts buf n i)"
  by (simp add: fresh_def node_at_def)

lemma cached_skip:
  assumes rep: "represents nd (RCont d rs)" and c: "cache_ok w nd rs" and i: "w * i < length rs" "0 < w"
  shows "case cached_item nd (int i) of (item, token) \<Rightarrow>
    skip_items (m_tokens nd) (w * (i - nat item)) (nat token) = Some (nat (m_token_idx nd + 1) + ntokss (take (w * i) rs))"
proof -
  let ?t = "nat (m_token_idx nd + 1)"
  obtain off where h: "holds_seq (m_tokens nd) (m_buffer nd) ?t off rs" using represents_parts(1) [OF rep] by blast
  have idx: "0 \<le> m_token_idx nd" using rep by (auto simp: represents_def)
  show ?thesis
  proof (cases "m_last_index nd \<le> int i \<and> m_last_index nd \<noteq> - 1")
    case True
    then obtain k where k: "m_last_index nd = int k" "k \<le> i" "w * k < length rs" "m_last_token nd = m_token_idx nd + 1 + int (ntokss (take (w * k) rs))"
      using c by (auto simp: cache_ok_def)
    note s = holds_seq_drop [OF h, of "w * k"]
    have "take (w * (i - k)) (drop (w * k) rs) = drop (w * k) (take (w * i) rs)" by (simp add: drop_take diff_mult_distrib2)
    moreover have "ntokss (take (w * i) rs) = ntokss (take (w * k) (take (w * i) rs)) + ntokss (drop (w * k) (take (w * i) rs))"
    proof -
      have "ntokss (xs @ ys) = ntokss xs + ntokss ys" for xs ys by (induction xs) simp_all
      then show ?thesis by (metis append_take_drop_id)
    qed
    moreover have "take (w * k) (take (w * i) rs) = take (w * k) rs" using k(2) by (simp add: min_absorb1)
    moreover have "w * (i - k) \<le> length (drop (w * k) rs)" using i(1) by (simp add: diff_mult_distrib2)
    ultimately have "skip_items (m_tokens nd) (w * (i - k)) (?t + ntokss (take (w * k) rs)) = Some (?t + ntokss (take (w * i) rs))"
      using skip_items_eq [OF s] k(3) by simp
    moreover have "nat (m_last_token nd) = ?t + ntokss (take (w * k) rs)" using k(4) idx by (simp add: nat_add_distrib)
    ultimately show ?thesis using True k(1) by (simp add: cached_item_def)
  next
    case False
    then show ?thesis using skip_items_eq [OF h, of "w * i"] i by (auto simp: cached_item_def)
  qed
qed

lemma item_represented:
  assumes "represents nd (RCont d rs)" "j < length rs"
  shows "\<exists>off. holds_at (m_tokens nd) (m_buffer nd) (nat (m_token_idx nd + 1) + ntokss (take j rs)) off (rs ! j)"
proof -
  obtain off where h: "holds_seq (m_tokens nd) (m_buffer nd) (nat (m_token_idx nd + 1)) off rs"
    using represents_parts(1) [OF assms(1)] by blast
  from holds_seq_drop [OF h, of j] assms(2) show ?thesis
    by (metis Cons_nth_drop_Suc holds_seq_Cons(1) order_less_imp_le)
qed

lemma represents_cache [simp]:
  "represents (nd\<lparr>m_last_token := a, m_last_index := b\<rparr>) r = represents nd r" "represents (nd\<lparr>m_size := c\<rparr>) r = represents nd r"
  by (simp_all add: represents_def)

lemma cache_ok_item:
  assumes "cache_ok w nd rs" "w * i < length rs" "represents nd r"
  shows "cache_ok w (nd\<lparr>m_last_token := int (nat (m_token_idx nd + 1) + ntokss (take (w * i) rs)), m_last_index := int i\<rparr>) rs"
proof -
  have "0 \<le> m_token_idx nd" using assms(3) by (auto simp: represents_def)
  then show ?thesis using assms(1,2) by (auto simp: cache_ok_def nat_add_distrib)
qed

lemma list_at_eq:
  assumes rep: "represents nd (RCont False rs)" and c: "cache_ok 1 nd rs" and i: "i < length rs"
  shows "\<exists>item nd'. list_at nd i = Some (item, nd') \<and> fresh item \<and> represents item (rs ! i) \<and> represents nd' (RCont False rs) \<and> cache_ok 1 nd' rs"
proof -
  let ?t = "nat (m_token_idx nd + 1) + ntokss (take i rs)"
  obtain off where "holds_at (m_tokens nd) (m_buffer nd) ?t off (rs ! i)" using item_represented [OF rep i] by blast
  then have r: "represents (node_at (m_tokens nd) (m_buffer nd) (m_buffer_size nd) ?t) (rs ! i)" by (rule node_at_represents)
  have "list_at nd i = Some (node_at (m_tokens nd) (m_buffer nd) (m_buffer_size nd) ?t, nd\<lparr>m_last_token := int ?t, m_last_index := int i\<rparr>)"
    using cached_skip [OF rep c, of i] i by (simp add: list_at_def split: prod.splits)
  then show ?thesis using r rep cache_ok_item [OF c, of i] i by auto
qed

text \<open>From the cached item on, the loop counts the items that are left.\<close>

lemma cached_count:
  assumes rep: "represents nd (RCont d rs)" and c: "cache_ok w nd rs"
  shows "m_last_index nd = - 1 \<and> count_items (m_tokens nd) (nat (m_token_idx nd + 1)) = Some (length rs) \<or>
    (\<exists>k. m_last_index nd = int k \<and> w * k < length rs \<and> count_items (m_tokens nd) (nat (m_last_token nd)) = Some (length rs - w * k))"
proof -
  obtain off where h: "holds_seq (m_tokens nd) (m_buffer nd) (nat (m_token_idx nd + 1)) off rs"
    using represents_parts(1) [OF rep] by blast
  have idx: "0 \<le> m_token_idx nd" using rep by (auto simp: represents_def)
  show ?thesis
  proof (cases "m_last_index nd = - 1")
    case True
    then show ?thesis using count_items_eq [OF h] by simp
  next
    case False
    then obtain k where k: "m_last_index nd = int k" "w * k < length rs" "m_last_token nd = m_token_idx nd + 1 + int (ntokss (take (w * k) rs))"
      using c by (auto simp: cache_ok_def)
    then have "nat (m_last_token nd) = nat (m_token_idx nd + 1) + ntokss (take (w * k) rs)" using idx by (simp add: nat_add_distrib)
    then show ?thesis using count_items_eq [OF holds_seq_drop [OF h, of "w * k"]] k(1,2) by simp
  qed
qed

lemma list_size_eq:
  assumes "represents nd (RCont False rs)" "cache_ok 1 nd rs"
  shows "\<exists>nd'. list_size nd = Some (int (length rs), nd') \<and> represents nd' (RCont False rs) \<and> cache_ok 1 nd' rs"
  using cached_count [OF assms] assms by (auto simp: list_size_def cache_ok_def)

lemma dict_size_eq:
  assumes "represents nd (RCont True rs)" "cache_ok 2 nd rs"
  shows "\<exists>nd'. dict_size nd = Some (int (length rs div 2), nd') \<and> represents nd' (RCont True rs) \<and> cache_ok 2 nd' rs"
proof -
  have d: "(int k * 2 + int (length rs - 2 * k)) div 2 = int (length rs div 2)" if "2 * k < length rs" for k
    using that by (simp add: of_nat_diff zdiv_int)
  show ?thesis using cached_count [OF assms] assms d by (auto simp: dict_size_def cache_ok_def zdiv_int)
qed

text \<open>The keys of a dictionary are the strings at the even places.\<close>

lemma keys_at_even: "keys_ok False rs \<Longrightarrow> 2 * i < length rs \<Longrightarrow> is_str (rs ! (2 * i))"
proof (induction i arbitrary: rs)
  case 0
  then show ?case by (cases rs) auto
next
  case (Suc i)
  then obtain a b rs' where rs: "rs = a # b # rs'" by (cases rs; cases "tl rs") auto
  show ?case using Suc.IH [of rs'] Suc.prems by (simp add: rs)
qed

lemma dict_at_eq:
  assumes rep: "represents nd (RCont True rs)" and c: "cache_ok 2 nd rs" and i: "2 * i < length rs"
  shows "\<exists>ls key v nd'. dict_at nd i = Some ((key, v), nd') \<and> rs ! (2 * i) = RStr ls key \<and> fresh v \<and> represents v (rs ! (2 * i + 1)) \<and>
    represents nd' (RCont True rs) \<and> cache_ok 2 nd' rs"
proof -
  let ?t = "nat (m_token_idx nd + 1) + ntokss (take (2 * i) rs)"
  note k = represents_parts(2) [OF rep]
  obtain ls key where key: "rs ! (2 * i) = RStr ls key" using keys_at_even [of rs i] k i by auto
  obtain off where h: "holds_at (m_tokens nd) (m_buffer nd) ?t off (RStr ls key)" using item_represented [OF rep i] key by auto
  have i1: "2 * i + 1 < length rs" using i k by (metis TrueI Suc_eq_plus1 even_Suc even_mult_iff even_numeral linorder_neqE_nat not_less_eq)
  have "take (2 * i + 1) rs = take (2 * i) rs @ [RStr ls key]" using i key by (simp add: take_Suc_conv_app_nth)
  moreover have "ntokss (xs @ [RStr ls key]) = ntokss xs + 1" for xs by (induction xs) simp_all
  ultimately have n: "ntokss (take (2 * i + 1) rs) = ntokss (take (2 * i) rs) + 1" by simp
  obtain off' where "holds_at (m_tokens nd) (m_buffer nd) (?t + 1) off' (rs ! (2 * i + 1))"
    using item_represented [OF rep i1] n by (auto simp: add.assoc)
  then have v: "represents (node_at (m_tokens nd) (m_buffer nd) (m_buffer_size nd) (?t + 1)) (rs ! (2 * i + 1))" by (rule node_at_represents)
  define t where "t = ?t"
  obtain item tk where item: "cached_item nd (int i) = (item, tk)" by (cases "cached_item nd (int i)")
  then have "skip_items (m_tokens nd) (2 * (i - nat item)) (nat tk) = Some t" using cached_skip [OF rep c i] by (simp add: t_def)
  moreover have "string_at (m_tokens nd) (m_buffer nd) t = Some key" using string_at_eq [OF h] by (simp add: t_def)
  moreover have "t < length (m_tokens nd)" "tk_next (m_tokens nd ! t) = 1" using holds_at_token [OF h] by (simp_all add: t_def)
  ultimately have "dict_at nd i = Some ((key, node_at (m_tokens nd) (m_buffer nd) (m_buffer_size nd) (t + 1)),
      if 0 < i then nd\<lparr>m_last_token := int t, m_last_index := int i\<rparr> else nd)"
    by (simp add: dict_at_def tok_def item)
  then show ?thesis using key v rep c cache_ok_item [OF c i rep] unfolding t_def [symmetric] by auto
qed

end
