(* ===== verification/Bencode.thy ===== *)
theory Bencode
  imports Bdecode_Query Std_Map
begin

text \<open>
  The values that libtorrent writes (src/dep/libtorrent-rasterbar-1.2.2_extended/src/entry.cpp) and their
  encoding (include/libtorrent/bencode.hpp); decoding what was encoded gives the value back.
\<close>

section \<open>Definitions\<close>

datatype entry =
    EUndefined | EInt int | EString "byte list" | EList "entry list" | EDict "(byte list \<times> entry) list" | EPreformatted "byte list"

text \<open>
  The digits are written into 21 characters from the end, a zero byte first; a minus sign keeps one
  character free. \<open>room\<close> is the number of characters that are left for digits. The negation of the
  least number of 64 bits is undefined; no statement is about that number.
\<close>

fun write_digits :: "nat \<Rightarrow> nat \<Rightarrow> byte list \<Rightarrow> byte list" where
  "write_digits 0 val str = str"
| "write_digits (Suc room) val str =
     (if val \<noteq> 0 then write_digits room (val div 10) ((48 + of_nat (val mod 10)) # str) else str)"

definition integer_to_str :: "nat \<Rightarrow> int \<Rightarrow> byte list" where
  "integer_to_str buf_size val =
     (let sign = (if val < 0 then 1 else 0); val' = nat \<bar>val\<bar>
      in if val' = 0 then [48]
         else (if sign = 1 then [45] else []) @ write_digits (buf_size - 2 - sign) val' [])"

definition write_integer :: "int \<Rightarrow> byte list" where
  "write_integer val = integer_to_str 21 val"

definition write_string :: "byte list \<Rightarrow> byte list" where
  "write_string s = write_integer (int (length s)) @ 58 # s"

primrec bencode :: "entry \<Rightarrow> byte list" where
  "bencode EUndefined = [48, 58]"
| "bencode (EInt i) = 105 # write_integer i @ [101]"
| "bencode (EString s) = write_string s"
| "bencode (EList es) = 108 # concat (map bencode es) @ [101]"
| "bencode (EDict d) = 100 # concat (map (\<lambda>(k, b). write_string k @ b) (map (map_prod id bencode) d)) @ [101]"
| "bencode (EPreformatted s) = s"

text \<open>\<open>dict()\<close> makes an undefined entry a dictionary and throws for other types; \<open>e[key] = ...\<close> assigns there.\<close>

definition entry_dict :: "entry \<Rightarrow> (byte list \<times> entry) list option" where
  "entry_dict e = (case e of EUndefined \<Rightarrow> Some [] | EDict d \<Rightarrow> Some d | _ \<Rightarrow> None)"

definition entry_at :: "byte list \<Rightarrow> (entry \<Rightarrow> entry option) \<Rightarrow> entry \<Rightarrow> entry option" where
  "entry_at key f e =
     (case entry_dict e of
        None \<Rightarrow> None
      | Some d \<Rightarrow> (case map_index key EUndefined d of (v, d) \<Rightarrow> map_option (\<lambda>v. EDict (map_put key v d)) (f v)))"

text \<open>
  The assignment of a node to an entry: the loops over the items of a container, which call the
  assignment \<open>f\<close> for each of them, and the assignment itself, which does not return for a node that
  contains itself.
\<close>

fun assign_dict :: "(bdecode_node \<Rightarrow> entry option) \<Rightarrow> nat \<Rightarrow> nat \<Rightarrow> bdecode_node \<Rightarrow> (byte list \<times> entry) list \<Rightarrow> (byte list \<times> entry) list option" where
  "assign_dict f 0 i nd d = Some d"
| "assign_dict f (Suc m) i nd d =
     Option.bind (dict_at nd i) (\<lambda>((key, v), nd). Option.bind (f v) (\<lambda>e. assign_dict f m (Suc i) nd (map_put key e d)))"

fun assign_list :: "(bdecode_node \<Rightarrow> entry option) \<Rightarrow> nat \<Rightarrow> nat \<Rightarrow> bdecode_node \<Rightarrow> entry list \<Rightarrow> entry list option" where
  "assign_list f 0 i nd l = Some l"
| "assign_list f (Suc m) i nd l =
     Option.bind (list_at nd i) (\<lambda>(item, nd). Option.bind (f item) (\<lambda>e. assign_list f m (Suc i) nd (l @ [e])))"

lemma assign_dict_mono [partial_function_mono]:
  assumes "\<And>nd. mono_option (\<lambda>f. F f nd)"
  shows "mono_option (\<lambda>f. assign_dict (F f) m i nd d)"
proof (induction m arbitrary: i nd d)
  case 0
  show ?case by (simp add: option.const_mono)
next
  case (Suc m)
  show ?case
    by (cases "dict_at nd i") (auto simp: option.const_mono intro!: bind_mono assms Suc split: prod.split)
qed

lemma assign_list_mono [partial_function_mono]:
  assumes "\<And>nd. mono_option (\<lambda>f. F f nd)"
  shows "mono_option (\<lambda>f. assign_list (F f) m i nd l)"
proof (induction m arbitrary: i nd l)
  case 0
  show ?case by (simp add: option.const_mono)
next
  case (Suc m)
  show ?case
    by (cases "list_at nd i") (auto simp: option.const_mono intro!: bind_mono assms Suc split: prod.split)
qed

partial_function (option) assign :: "bdecode_node \<Rightarrow> entry option" where
  "assign nd =
     (case node_type nd of
        None \<Rightarrow> None
      | Some t \<Rightarrow>
          if t = Tk_string then map_option EString (string_value nd)
          else if t = Tk_integer then map_option EInt (int_value nd)
          else if t = Tk_dict then
            Option.bind (dict_size nd) (\<lambda>(n, nd). Option.bind (assign_dict assign (nat n) 0 nd []) (\<lambda>d. Some (EDict d)))
          else if t = Tk_list then
            Option.bind (list_size nd) (\<lambda>(n, nd). Option.bind (assign_list assign (nat n) 0 nd []) (\<lambda>l. Some (EList l)))
          else Some EUndefined)"

section \<open>Numbers\<close>

text \<open>The values that are written as they are: below \<open>- 10 ^ 18\<close> the first digit has no room.\<close>

definition writable :: "int \<Rightarrow> bool" where
  "writable v \<longleftrightarrow> - (10 ^ 18) < v \<and> v < 2 ^ 63"

lemma digit_byte: "d < 10 \<Longrightarrow> numeric (48 + of_nat d) \<and> uint (48 + of_nat d :: byte) = 48 + int d"
proof -
  assume "d < 10"
  then have "d \<in> set [0..<10]" by simp
  moreover have "\<forall>d \<in> set [0..<10]. numeric (48 + of_nat d) \<and> uint (48 + of_nat d :: byte) = 48 + int d"
    by (simp add: upt_rec numeric_def)
  ultimately show ?thesis by blast
qed

lemma write_digits_append: "write_digits room v str = write_digits room v [] @ str"
proof (induction room arbitrary: v str)
  case (Suc room)
  show ?case
    using Suc [of "v div 10" "(48 + of_nat (v mod 10)) # str"] Suc [of "v div 10" "[48 + of_nat (v mod 10)]"] by simp
qed simp

lemma digits_val_append: "digits_val v (ds @ [c]) = digits_val v ds * 10 + (uint c - 48)"
  by (simp add: digits_val_def)

lemma write_digits_facts:
  "v < 10 ^ room \<Longrightarrow> list_all numeric (write_digits room v []) \<and> digits_val 0 (write_digits room v []) = int v \<and>
     length (write_digits room v []) \<le> room \<and> (0 < v \<longrightarrow> write_digits room v [] \<noteq> [])"
proof (induction room arbitrary: v)
  case (Suc room)
  have "v div 10 < 10 ^ room" using Suc.prems by (simp add: less_mult_imp_div_less mult.commute)
  note IH = Suc.IH [OF this]
  have d: "numeric (48 + of_nat (v mod 10))" "uint (48 + of_nat (v mod 10) :: byte) = 48 + int (v mod 10)"
    using digit_byte [of "v mod 10"] by simp_all
  have "int v = int (v div 10) * 10 + int (v mod 10)" by (metis mult.commute mult_div_mod_eq of_nat_add of_nat_mult of_nat_numeral)
  then show ?case
    using IH d by (cases "v = 0") (auto simp: write_digits_append [of room _ "[_]"] digits_val_append digits_val_def)
qed (simp add: digits_val_def)

lemma write_digits_short:
  "v < 10 ^ k \<Longrightarrow> length (write_digits room v []) \<le> k"
proof (induction room arbitrary: v k)
  case (Suc room)
  show ?case
  proof (cases "v = 0")
    case False
    then obtain k' where k: "k = Suc k'" using Suc.prems by (cases k) auto
    then have "v div 10 < 10 ^ k'" using Suc.prems by (simp add: less_mult_imp_div_less mult.commute)
    from Suc.IH [OF this] False show ?thesis by (simp add: k write_digits_append [of room _ "[_]"])
  qed simp
qed simp

declare write_digits.simps [simp del]

lemma write_integer_nat:
  "write_integer (int n) = (if n = 0 then [48] else write_digits 19 n [])"
  "0 < n \<Longrightarrow> write_integer (- int n) = 45 # write_digits 18 n []"
  by (simp_all add: write_integer_def integer_to_str_def)

lemma write_integer_pos:
  assumes "n < 2 ^ 63"
  shows "digits_ok (write_integer (int n))" "digits_val 0 (write_integer (int n)) = int n" "length (write_integer (int n)) \<le> 19"
    "n < 10 ^ k \<Longrightarrow> 0 < k \<Longrightarrow> length (write_integer (int n)) \<le> k"
proof -
  have "n < 10 ^ 19" using assms by simp
  note f = write_digits_facts [OF this]
  show "digits_ok (write_integer (int n))" "digits_val 0 (write_integer (int n)) = int n" "length (write_integer (int n)) \<le> 19"
    using f by (simp_all add: write_integer_nat digits_ok_def digits_val_def numeric_def)
  show "length (write_integer (int n)) \<le> k" if "n < 10 ^ k" "0 < k"
    using write_digits_short [OF that(1), of 19] that(2) by (simp add: write_integer_nat)
qed

lemma write_integer_ok:
  assumes "writable v"
  shows "int_ok (write_integer v)" "raw_int (write_integer v) = v"
proof -
  have "int_ok (write_integer v) \<and> raw_int (write_integer v) = v"
  proof (cases "v < 0")
    case False
    then obtain n where v: "v = int n" by (metis nonneg_int_cases not_less)
    then have n: "n < 2 ^ 63" using assms by (simp add: writable_def)
    have "hd (write_integer v) \<noteq> 45" using write_integer_pos(1) [OF n] by (cases "write_integer v") (auto simp: v digits_ok_def numeric_def)
    then show ?thesis using write_integer_pos(1-3) [OF n] n by (simp add: v int_ok_def raw_int_def int64_max_def)
  next
    case True
    then obtain n where v: "v = - int n" "0 < n" by (metis add.inverse_inverse neg_int_cases)
    then have n: "n < 10 ^ 18" using assms by (simp add: writable_def)
    show ?thesis using write_digits_facts [OF n] v n by (simp add: write_integer_nat int_ok_def raw_int_def digits_ok_def int64_max_def)
  qed
  then show "int_ok (write_integer v)" "raw_int (write_integer v) = v" by simp_all
qed

text \<open>
  The bounds are needed: \<open>- 10 ^ 18\<close> is written without its first digit, as \<open>-000000000000000000\<close>, and the
  digits of \<open>- 2 ^ 63\<close>, which are within the grammar, are read as 0.
\<close>

lemma write_digits_power: "room \<le> k \<Longrightarrow> write_digits room (10 ^ k) [] = replicate room 48"
proof (induction room arbitrary: k)
  case (Suc room)
  then obtain k' where "k = Suc k'" by (cases k) auto
  then show ?case using Suc
    by (simp add: write_digits.simps write_digits_append [of room _ "[_]"] replicate_append_same)
qed (simp add: write_digits.simps)

lemma least_written_number: "write_integer (- (10 ^ 18)) = 45 # replicate 18 48"
proof -
  have "write_integer (- (10 ^ 18)) = 45 # write_digits 18 (10 ^ 18) []"
    using write_integer_nat(2) [of "10 ^ 18"] by simp
  also have "write_digits 18 (10 ^ 18) [] = replicate 18 48" by (rule write_digits_power) simp
  finally show ?thesis .
qed

lemma least_read_number:
  "raw_int [45, 57, 50, 50, 51, 51, 55, 50, 48, 51, 54, 56, 53, 52, 55, 55, 53, 56, 48, 56] = 0 \<and>
   int_ok [45, 57, 50, 50, 51, 51, 55, 50, 48, 51, 54, 56, 53, 52, 55, 55, 53, 56, 48, 56]"
  by (simp add: raw_int_def digits_val_def int64_max_def int_ok_def digits_ok_def numeric_def)

section \<open>The tree of an entry\<close>

definition raw_str :: "byte list \<Rightarrow> raw" where
  "raw_str s = RStr (write_integer (int (length s))) s"

primrec raw_of :: "entry \<Rightarrow> raw" where
  "raw_of EUndefined = raw_str []"
| "raw_of (EInt i) = RInt (write_integer i)"
| "raw_of (EString s) = raw_str s"
| "raw_of (EList es) = RCont False (map raw_of es)"
| "raw_of (EDict d) = RCont True (concat (map (\<lambda>(k, r). [raw_str k, r]) (map (map_prod id raw_of) d)))"
| "raw_of (EPreformatted s) = raw_str []"

fun raw_items :: "(byte list \<times> entry) list \<Rightarrow> raw list" where
  "raw_items [] = []"
| "raw_items ((k, e) # d) = raw_str k # raw_of e # raw_items d"

text \<open>
  The entries that are written and read back as they are: defined values, strings whose length has at
  most eight digits, numbers that are written with all their digits, dictionaries with ascending keys.
\<close>

definition str_ok :: "byte list \<Rightarrow> bool" where
  "str_ok s \<longleftrightarrow> length s < 10 ^ 8"

primrec entry_ok :: "entry \<Rightarrow> bool" where
  "entry_ok EUndefined = False"
| "entry_ok (EInt i) = writable i"
| "entry_ok (EString s) = str_ok s"
| "entry_ok (EList es) = list_all id (map entry_ok es)"
| "entry_ok (EDict d) = (map_wf d \<and> list_all (\<lambda>(k, b). str_ok k \<and> b) (map (map_prod id entry_ok) d))"
| "entry_ok (EPreformatted s) = False"

lemma raw_of_EDict: "raw_of (EDict d) = RCont True (raw_items d)"
  by (induction d) auto

lemma entry_ok_EList: "entry_ok (EList es) \<longleftrightarrow> (\<forall>e \<in> set es. entry_ok e)"
  by (simp add: list_all_iff)

lemma entry_ok_EDict: "entry_ok (EDict d) \<longleftrightarrow> map_wf d \<and> (\<forall>(k, e) \<in> set d. str_ok k \<and> entry_ok e)"
  by (auto simp: list_all_iff)

declare raw_of.simps(5) [simp del] entry_ok.simps(4,5) [simp del]
declare raw_of_EDict [simp] entry_ok_EList [simp] entry_ok_EDict [simp]

lemma enc_raw_str: "enc (raw_str s) = write_string s"
  by (simp add: raw_str_def write_string_def)

lemma raw_ok_str: "str_ok s \<Longrightarrow> raw_ok (raw_str s)"
  using write_integer_pos [of "length s"] by (simp add: raw_str_def str_ok_def)

lemma raws_ok_iff: "raws_ok rs \<longleftrightarrow> (\<forall>r \<in> set rs. raw_ok r)"
  by (induction rs) simp_all

lemma bencode_enc: "entry_ok e \<Longrightarrow> bencode e = enc (raw_of e)"
proof (induction e)
  case (EList es)
  then have "concat (map bencode es) = encs (map raw_of es)" by (induction es) auto
  then show ?case by simp
next
  case (EDict d)
  have "\<forall>(k, e) \<in> set d. bencode e = enc (raw_of e)" using EDict.IH EDict.prems by auto
  then have "concat (map (\<lambda>(k, b). write_string k @ b) (map (map_prod id bencode) d)) = encs (raw_items d)"
    by (induction d rule: raw_items.induct) (auto simp: enc_raw_str)
  then show ?case by simp
qed (simp_all add: enc_raw_str)

lemma keys_ok_items: "keys_ok False (raw_items d)" "even (length (raw_items d))"
  by (induction d rule: raw_items.induct) (auto simp: raw_str_def)

lemma raw_ok_of: "entry_ok e \<Longrightarrow> raw_ok (raw_of e)"
proof (induction e)
  case (EList es)
  then show ?case by (simp add: entry_ok_EList raws_ok_iff)
next
  case (EDict d)
  have "\<forall>(k, e) \<in> set d. str_ok k \<and> raw_ok (raw_of e)" using EDict.IH EDict.prems by auto
  then have "raws_ok (raw_items d)"
    by (induction d rule: raw_items.induct) (auto simp: raw_ok_str)
  then show ?case using keys_ok_items [of d] by simp
qed (simp_all add: raw_ok_str write_integer_ok)

section \<open>The entry of a node\<close>

lemma string_value_eq: "represents nd (RStr ls s) \<Longrightarrow> string_value nd = Some s"
  by (auto simp: represents_def string_value_def string_at_eq)

lemma assign_list_eq:
  assumes "represents nd (RCont False (map raw_of es))" "cache_ok 1 nd (map raw_of es)" "i + m = length es"
    and f: "\<And>nd e. represents nd (raw_of e) \<Longrightarrow> fresh nd \<Longrightarrow> e \<in> set es \<Longrightarrow> f nd = Some e"
  shows "assign_list f m i nd l = Some (l @ drop i es)"
  using assms(1-3)
proof (induction m arbitrary: i nd l)
  case (Suc m)
  then have i: "i < length es" by simp
  then obtain item nd' where "list_at nd i = Some (item, nd')" "f item = Some (es ! i)"
    "represents nd' (RCont False (map raw_of es))" "cache_ok 1 nd' (map raw_of es)"
    using list_at_eq [OF Suc.prems(1,2), of i] f [of _ "es ! i"] by auto
  then show ?case using Suc.IH [of nd' "Suc i" "l @ [es ! i]"] Suc.prems(3) i by (simp add: Cons_nth_drop_Suc)
qed simp

lemma map_put_last: "\<forall>k \<in> fst ` set d. k < key \<Longrightarrow> map_put key v d = d @ [(key, v)]"
  by (induction d) auto

lemma nth_raw_items:
  "i < length d \<Longrightarrow> raw_items d ! (2 * i) = raw_str (fst (d ! i)) \<and> raw_items d ! (2 * i + 1) = raw_of (snd (d ! i))"
proof (induction d arbitrary: i rule: raw_items.induct)
  case (2 k e d)
  then show ?case by (cases i) auto
qed simp

lemma length_raw_items: "length (raw_items d) = 2 * length d"
  by (induction d rule: raw_items.induct) auto

lemma map_wf_take_less:
  assumes "map_wf d" "i < length d"
  shows "\<forall>k \<in> fst ` set (take i d). k < fst (d ! i)"
  using assms by (fastforce simp: map_wf_def sorted_wrt_iff_nth_less in_set_conv_nth)

lemma assign_dict_eq:
  assumes "represents nd (RCont True (raw_items d))" "cache_ok 2 nd (raw_items d)" "i + m = length d" "map_wf d"
    and f: "\<And>nd k e. represents nd (raw_of e) \<Longrightarrow> fresh nd \<Longrightarrow> (k, e) \<in> set d \<Longrightarrow> f nd = Some e"
  shows "assign_dict f m i nd (take i d) = Some d"
  using assms(1-3)
proof (induction m arbitrary: i nd)
  case (Suc m)
  then have i: "i < length d" by simp
  obtain k e where ke: "d ! i = (k, e)" by fastforce
  then have mem: "(k, e) \<in> set d" using i nth_mem by metis
  note n = nth_raw_items [OF i, unfolded ke fst_conv snd_conv]
  obtain v nd' where v: "dict_at nd i = Some ((k, v), nd')" "f v = Some e" "represents nd' (RCont True (raw_items d))" "cache_ok 2 nd' (raw_items d)"
    using dict_at_eq [OF Suc.prems(1,2), of i] f [of _ e k] mem n i by (auto simp: length_raw_items raw_str_def)
  have "map_put k e (take i d) = take (Suc i) d"
    using map_put_last [OF map_wf_take_less [OF assms(4) i], of e] i ke by (simp add: take_Suc_conv_app_nth)
  then show ?case using Suc.IH [of nd' "Suc i"] Suc.prems(3) v by simp
qed simp

lemma assign_eq: "represents nd (raw_of e) \<Longrightarrow> fresh nd \<Longrightarrow> entry_ok e \<Longrightarrow> assign nd = Some e"
proof (induction e arbitrary: nd)
  case (EInt i)
  then show ?case using node_type_eq [of nd] int_value_eq [of nd] by (subst assign.simps) (simp add: write_integer_ok)
next
  case (EString s)
  then show ?case using node_type_eq [of nd] string_value_eq [of nd] by (subst assign.simps) (simp add: raw_str_def)
next
  case (EList es)
  have rep: "represents nd (RCont False (map raw_of es))" using EList.prems by simp
  then obtain nd' where nd: "list_size nd = Some (int (length es), nd')" "represents nd' (RCont False (map raw_of es))" "cache_ok 1 nd' (map raw_of es)"
    using list_size_eq [OF rep fresh_cache_ok] EList.prems(2) by auto
  have "assign x = Some e" if "represents x (raw_of e)" "fresh x" "e \<in> set es" for x e
    using that EList.prems(3) by (intro EList.IH) auto
  with assign_list_eq [OF nd(2,3), of 0] have "assign_list assign (length es) 0 nd' [] = Some es" by simp
  then show ?case using nd node_type_eq [OF rep] by (subst assign.simps) simp
next
  case (EDict d)
  note prems = EDict.prems [simplified raw_of_EDict]
  obtain nd' where nd: "dict_size nd = Some (int (length d), nd')" "represents nd' (RCont True (raw_items d))" "cache_ok 2 nd' (raw_items d)"
    using dict_size_eq [OF prems(1) fresh_cache_ok] prems(2) by (auto simp: length_raw_items)
  have "assign x = Some e" if "represents x (raw_of e)" "fresh x" "(key, e) \<in> set d" for x key e
    using that prems(3) by (intro EDict.IH) auto
  with assign_dict_eq [OF nd(2,3), of 0 "length d"] prems(3) have "assign_dict assign (length d) 0 nd' [] = Some d" by simp
  then show ?case using nd node_type_eq [OF prems(1)] by (subst assign.simps) simp
qed simp_all

section \<open>Writing and reading\<close>

text \<open>
  C12: what \<open>bencode\<close> writes for an entry is read back. The entry holds no undefined or preformatted part
  (the first is written as an empty string), its dictionaries are in the order of their keys, its strings
  and keys have less than \<open>10 ^ 8\<close> bytes, and its numbers lie above \<open>- 10 ^ 18\<close> (below, a digit is lost) and
  below \<open>2 ^ 63\<close>. Then \<open>bdecode\<close> reads its text without an error, whatever bytes follow, if its limits allow
  the size, the nesting and the number of tokens, and the assignment of the root node to an entry returns the
  same entry, with all the levels of its lists and dictionaries.
\<close>

theorem bencode_bdecode:
  assumes "entry_ok e" "length (bencode e @ post) \<le> max_offset"
    and "int (height (raw_of e)) \<le> depth_limit" "int (ntoks (raw_of e)) \<le> token_limit"
  shows "\<exists>root. bdecode (bencode e @ post) depth_limit token_limit = (root, no_error, 0) \<and> assign root = Some e"
proof -
  have "bdecode (bencode e @ post) depth_limit token_limit = (root_node (raw_of e) post, no_error, 0)"
    using assms bdecode_accepts [of "raw_of e"] by (simp add: bencode_enc raw_ok_of)
  moreover have "represents (root_node (raw_of e) post) (raw_of e)"
    using assms by (intro root_node_represents) (simp_all add: bencode_enc raw_ok_of)
  moreover have "fresh (root_node (raw_of e) post)" by (simp add: root_node_def)
  ultimately show ?thesis using assign_eq assms(1) by blast
qed

text \<open>A dictionary with a number and a list of a string and an empty dictionary.\<close>

definition sample_entry :: entry where
  "sample_entry = EDict [([97], EInt (- 25)), ([98], EList [EString [104, 105], EDict []])]"

theorem bencode_bdecode_witness:
  "bencode sample_entry = [100, 49, 58, 97, 105, 45, 50, 53, 101, 49, 58, 98, 108, 50, 58, 104, 105, 100, 101, 101, 101] \<and>
   (\<exists>root. bdecode (bencode sample_entry @ [7]) 100 2000000 = (root, no_error, 0) \<and> assign root = Some sample_entry)"
proof -
  have b: "bencode sample_entry = [100, 49, 58, 97, 105, 45, 50, 53, 101, 49, 58, 98, 108, 50, 58, 104, 105, 100, 101, 101, 101]"
    by code_simp
  have ok: "entry_ok sample_entry" by (simp add: sample_entry_def writable_def str_ok_def)
  have "height (raw_of sample_entry) = 4" "ntoks (raw_of sample_entry) = 10" by code_simp+
  with ok show ?thesis
    using bencode_bdecode [of sample_entry "[7]" 100 2000000] by (simp add: b max_offset_def)
qed

end
