(* ===== verification/Extension_Handshake.thy ===== *)
theory Extension_Handshake
  imports Bencode Cereal_Archive Peer_Plugin
begin

text \<open>
  The extension handshake of a connection, by which two nodes find out that both speak the protocol of
  the program: \<open>write_extensions\<close>, \<open>on_extended\<close> and \<open>on_extended_handshake\<close> of
  src/dep/libtorrent-rasterbar-1.2.2_extended/src/bt_peer_connection.cpp with the part that the plugins
  have in it (LibTorrentFcoinPlugin.cpp, and ut_pex.cpp, ut_metadata.cpp and smart_ban.cpp, which every
  session loads). What the functions read from the session, the torrent and its settings is a record of
  parameters; the calls they make there are listed as actions, in their order.
\<close>

section \<open>Definitions\<close>

subsection \<open>The plugins of a connection\<close>

text \<open>
  The plugins for metadata and peer exchange keep the message number of the other side. A word of the
  parameters stands for an \<open>int\<close>.
\<close>

datatype plugin = Ut_pex int | Ut_metadata int | Smart_ban | Fcoin

record handshake_params =
  hp_outgoing :: bool
  hp_listen_port :: u32
  hp_anonymous_mode :: bool
  hp_handshake_client_version :: "byte list"
  hp_user_agent :: "byte list"
  hp_i2p :: bool
  hp_remote_address :: "byte list"
  hp_request_queue :: u32
  hp_support_share_mode :: bool
  hp_last_seen_complete :: int
  hp_time_since_complete :: u32
  hp_upload_only :: bool
  hp_share_mode :: bool
  hp_valid_metadata :: bool
  hp_super_seeding :: bool
  hp_metadata_size :: u32

text \<open>\<open>e[key] = v\<close> and \<open>h["m"][key] = i\<close>.\<close>

definition put_entry :: "byte list \<Rightarrow> entry \<Rightarrow> entry \<Rightarrow> entry option" where
  "put_entry key v e = entry_at key (\<lambda>_. Some v) e"

definition put_message :: "byte list \<Rightarrow> int \<Rightarrow> entry \<Rightarrow> entry option" where
  "put_message key i h = entry_at (string_bytes ''m'') (put_entry key (EInt i)) h"

definition fcoin_add_handshake :: "entry \<Rightarrow> entry option" where
  "fcoin_add_handshake h = put_message (string_bytes ''fcoin_plugin'') (uint fcoin_extension_id) h"

definition ut_pex_add_handshake :: "entry \<Rightarrow> entry option" where
  "ut_pex_add_handshake h = put_message (string_bytes ''ut_pex'') 1 h"

definition ut_metadata_add_handshake :: "handshake_params \<Rightarrow> entry \<Rightarrow> entry option" where
  "ut_metadata_add_handshake p h =
     Option.bind (put_message (string_bytes ''ut_metadata'') 2 h)
       (\<lambda>h. if hp_valid_metadata p then put_entry (string_bytes ''metadata_size'') (EInt (sint (hp_metadata_size p))) h else Some h)"

definition add_handshake :: "handshake_params \<Rightarrow> plugin \<Rightarrow> entry \<Rightarrow> entry option" where
  "add_handshake p x h =
     (case x of
        Ut_pex _ \<Rightarrow> ut_pex_add_handshake h
      | Ut_metadata _ \<Rightarrow> ut_metadata_add_handshake p h
      | Smart_ban \<Rightarrow> Some h
      | Fcoin \<Rightarrow> fcoin_add_handshake h)"

subsection \<open>The message that is sent\<close>

fun run_steps :: "(entry \<Rightarrow> entry option) list \<Rightarrow> entry \<Rightarrow> entry option" where
  "run_steps [] h = Some h"
| "run_steps (f # fs) h = Option.bind (f h) (run_steps fs)"

text \<open>The statements of \<open>write_extensions\<close> that fill the dictionary, up to the loop over the plugins.\<close>

definition handshake_steps :: "handshake_params \<Rightarrow> (entry \<Rightarrow> entry option) list" where
  "handshake_steps p =
     (let set_int = (\<lambda>key i. put_entry (string_bytes key) (EInt i));
          set_str = (\<lambda>key s. put_entry (string_bytes key) (EString s));
          set_msg = (\<lambda>key i. put_message (string_bytes key) i)
      in [entry_at (string_bytes ''m'') (\<lambda>e. map_option EDict (entry_dict e))] @
         (if hp_outgoing p \<and> hp_listen_port p \<noteq> 0 then [set_int ''p'' (sint (hp_listen_port p))] else []) @
         (if \<not> hp_anonymous_mode p
          then [set_str ''v'' (if hp_handshake_client_version p = [] then hp_user_agent p else hp_handshake_client_version p)]
          else []) @
         (if \<not> hp_i2p p then [set_str ''yourip'' (hp_remote_address p)] else []) @
         [set_int ''reqq'' (sint (hp_request_queue p)), set_msg ''upload_only'' 3, set_msg ''ut_holepunch'' 4] @
         (if hp_support_share_mode p then [set_msg ''share_mode'' 8] else []) @
         [set_msg ''lt_donthave'' 7,
          set_int ''complete_ago'' (if 0 < hp_last_seen_complete p then sint (hp_time_since_complete p) else - 1)] @
         (if hp_upload_only p \<and> \<not> hp_share_mode p \<and> hp_valid_metadata p \<and> \<not> hp_super_seeding p
          then [set_int ''upload_only'' 1] else []) @
         (if hp_support_share_mode p \<and> hp_share_mode p then [set_int ''share_mode'' 1] else []))"

definition handshake_entry :: "handshake_params \<Rightarrow> plugin list \<Rightarrow> entry option" where
  "handshake_entry p exts = run_steps (handshake_steps p @ map (add_handshake p) exts) EUndefined"

definition write_extensions :: "handshake_params \<Rightarrow> plugin list \<Rightarrow> byte list option" where
  "write_extensions p exts =
     map_option (\<lambda>h. let dict_msg = bencode h
                     in write_uint32 (of_nat (length dict_msg + 2)) @ [msg_extended, 0] @ dict_msg)
       (handshake_entry p exts)"

subsection \<open>The message that is received\<close>

text \<open>A conversion of 64 bits to \<open>int\<close>.\<close>

definition to_int :: "int \<Rightarrow> int" where
  "to_int v = sint (word_of_int v :: 32 word)"

datatype hs_action =
    Metadata_size int | No_metadata | Maybe_send_request | Update_peer_port int | Received_listen_port
  | Last_seen_complete int
  | Client_version "byte list" | Max_out_request_queue int | Upload_only bool | Share_mode bool
  | External_address "byte list" | Disconnect_upload_upload | Holepunch | Dont_have int
  | Disconnect_invalid_extended | Disconnect_invalid_message | Disconnect_if_redundant
  | Unregister_peer | Received_message "byte list" | Other_plugin int

text \<open>The number that the other side uses for the messages of a plugin; -1 if it does not name one.\<close>

definition peer_message_index :: "byte list \<Rightarrow> bdecode_node \<Rightarrow> int option" where
  "peer_message_index name h =
     (case node_type h of
        None \<Rightarrow> None
      | Some t \<Rightarrow>
          if t \<noteq> Tk_dict then Some (- 1)
          else
            (case dict_find_dict h (string_bytes ''m'') of
               None \<Rightarrow> None
             | Some messages \<Rightarrow>
                 if m_token_idx messages = - 1 then Some (- 1) else map_option to_int (dict_find_int_value messages name (- 1))))"

definition fcoin_on_extension_handshake :: "bdecode_node \<Rightarrow> bool option" where
  "fcoin_on_extension_handshake h =
     map_option (\<lambda>index. index \<noteq> - 1) (peer_message_index (string_bytes ''fcoin_plugin'') h)"

text \<open>
  The plugin with its new state, or \<open>None\<close> when it is removed, and what it calls; the destructor of the
  program's plugin takes the peer out of the connector.
\<close>

definition on_extension_handshake :: "bdecode_node \<Rightarrow> plugin \<Rightarrow> (plugin option \<times> hs_action list) option" where
  "on_extension_handshake h x =
     (case x of
        Fcoin \<Rightarrow> map_option (\<lambda>ok. if ok then (Some Fcoin, []) else (None, [Unregister_peer])) (fcoin_on_extension_handshake h)
      | Smart_ban \<Rightarrow> Some (Some Smart_ban, [])
      | Ut_pex _ \<Rightarrow>
          map_option (\<lambda>index. (if index = - 1 then None else Some (Ut_pex index), []))
            (peer_message_index (string_bytes ''ut_pex'') h)
      | Ut_metadata _ \<Rightarrow>
          (case peer_message_index (string_bytes ''ut_metadata'') h of
             None \<Rightarrow> None
           | Some index \<Rightarrow>
               if index = - 1 then Some (None, [])
               else
                 map_option (\<lambda>v. (Some (Ut_metadata index),
                     [if 0 < to_int v then Metadata_size (to_int v) else No_metadata, Maybe_send_request]))
                   (dict_find_int_value h (string_bytes ''metadata_size'') 0)))"

fun filter_extensions :: "bdecode_node \<Rightarrow> plugin list \<Rightarrow> (plugin list \<times> hs_action list) option" where
  "filter_extensions h [] = Some ([], [])"
| "filter_extensions h (x # xs) =
     (case on_extension_handshake h x of
        None \<Rightarrow> None
      | Some (y, acts) \<Rightarrow>
          map_option (\<lambda>(ys, acts'). (case y of None \<Rightarrow> ys | Some y \<Rightarrow> y # ys, acts @ acts')) (filter_extensions h xs))"

text \<open>What the handler reads of the connection and its torrent, some of it after the calls made so far.\<close>

record receive_params =
  rp_disconnecting :: "hs_action list \<Rightarrow> bool"
  rp_upload_only :: "hs_action list \<Rightarrow> bool"
  rp_peer_info :: bool
  rp_support_share_mode :: bool
  rp_finished :: bool
  rp_close_redundant :: bool
  rp_share_mode :: bool

record extension_state =
  m_extensions :: "plugin list"
  m_upload_only_id :: byte
  m_holepunch_id :: byte
  m_dont_have_id :: byte

definition dict_find_string_value :: "bdecode_node \<Rightarrow> byte list \<Rightarrow> byte list \<Rightarrow> byte list option" where
  "dict_find_string_value nd key default_value =
     (case dict_find nd key of
        None \<Rightarrow> None
      | Some n \<Rightarrow>
          (case node_type n of
             None \<Rightarrow> None
           | Some t \<Rightarrow> if t \<noteq> Tk_string then Some default_value else string_value n))"

text \<open>An IPv4 address, or an IPv6 address, which may stand for an IPv4 address.\<close>

definition external_address :: "byte list \<Rightarrow> hs_action list" where
  "external_address myip =
     (if length myip = 4 then [External_address myip]
      else if length myip = 16
      then [External_address (if take 12 myip = replicate 10 0 @ [255, 255] then drop 12 myip else myip)]
      else [])"

definition read_message_ids :: "bdecode_node \<Rightarrow> extension_state \<Rightarrow> extension_state option" where
  "read_message_ids root s =
     (case dict_find_dict root (string_bytes ''m'') of
        None \<Rightarrow> None
      | Some m \<Rightarrow>
          if m_token_idx m = - 1 then Some s
          else
            (case (dict_find_int_value m (string_bytes ''upload_only'') 0,
                   dict_find_int_value m (string_bytes ''ut_holepunch'') 0,
                   dict_find_int_value m (string_bytes ''lt_donthave'') 0) of
               (Some u, Some h, Some d) \<Rightarrow>
                 Some (s\<lparr>m_upload_only_id := word_of_int u, m_holepunch_id := word_of_int h, m_dont_have_id := word_of_int d\<rparr>)
             | _ \<Rightarrow> None))"

text \<open>The rest of the handler, after the listen port: \<open>acts\<close> are the calls made before.\<close>

definition read_peer_status :: "receive_params \<Rightarrow> bdecode_node \<Rightarrow> hs_action list \<Rightarrow> hs_action list option" where
  "read_peer_status p root acts =
     (case (dict_find_int_value root (string_bytes ''complete_ago'') (- 1), dict_find_string_value root (string_bytes ''v'') [],
            dict_find_int_value root (string_bytes ''reqq'') 0, dict_find_int_value root (string_bytes ''upload_only'') 0,
            dict_find_int_value root (string_bytes ''share_mode'') 0, dict_find_string_value root (string_bytes ''yourip'') []) of
        (Some ago, Some client_info, Some reqq, Some upload, Some share, Some myip) \<Rightarrow>
          (let acts = acts @ (if 0 \<le> to_int ago then [Last_seen_complete (to_int ago)] else []) @
                 (if client_info \<noteq> [] then [Client_version client_info] else []) @
                 (if 0 < to_int reqq then [Max_out_request_queue (to_int reqq)] else []) @
                 (if upload \<noteq> 0 then [Upload_only True] else []) @
                 (if rp_support_share_mode p \<and> share \<noteq> 0 then [Share_mode True] else []) @
                 (if myip \<noteq> [] then external_address myip else [])
           in Some (acts @ (if rp_finished p \<and> rp_upload_only p acts \<and> rp_close_redundant p \<and> \<not> rp_share_mode p
                            then [Disconnect_upload_upload] else [])))
      | _ \<Rightarrow> None)"

definition on_extended_handshake ::
    "receive_params \<Rightarrow> bool \<Rightarrow> byte list \<Rightarrow> extension_state \<Rightarrow> (extension_state \<times> hs_action list) option" where
  "on_extended_handshake p packet_finished recv_buffer s =
     (if \<not> packet_finished then Some (s, [])
      else
        (case bdecode (drop 2 recv_buffer) 100 2000000 of (root, ec, pos) \<Rightarrow>
           if ec \<noteq> no_error then Some (s, [])
           else
             (case node_type root of
                None \<Rightarrow> None
              | Some t \<Rightarrow>
                  if t \<noteq> Tk_dict then Some (s, [])
                  else
                    (case filter_extensions root (m_extensions s) of
                       None \<Rightarrow> None
                     | Some (exts, acts) \<Rightarrow>
                         (let s = s\<lparr>m_extensions := exts\<rparr>
                          in if rp_disconnecting p acts then Some (s, acts)
                             else
                               (case (read_message_ids root s, dict_find_int_value root (string_bytes ''p'') 0) of
                                  (Some s, Some port) \<Rightarrow>
                                    (let listen_port = to_int port; update = 0 < listen_port \<and> rp_peer_info p;
                                         acts = acts @ (if update then [Update_peer_port listen_port, Received_listen_port] else [])
                                     in if update \<and> rp_disconnecting p acts then Some (s, acts)
                                        else map_option (Pair s) (read_peer_status p root acts))
                                | _ \<Rightarrow> None))))))"

text \<open>
  \<open>on_extended\<close> for a packet of \<open>packet_size\<close> bytes of which \<open>recv_buffer\<close> has arrived. The plugins are asked
  one after the other; the plugin of the program takes every message that reaches it, and passes on
  its own. What the plugins for metadata and peer exchange do with theirs is not followed.
\<close>

fun plugins_on_extended :: "bool \<Rightarrow> plugin list \<Rightarrow> nat \<Rightarrow> byte \<Rightarrow> byte list \<Rightarrow> hs_action list" where
  "plugins_on_extended connector_set [] len extended_id body = [Disconnect_invalid_message]"
| "plugins_on_extended connector_set (x # xs) len extended_id body =
     (case x of
        Ut_pex i \<Rightarrow>
          if extended_id = 1 \<and> i \<noteq> 0 then [Other_plugin 1] else plugins_on_extended connector_set xs len extended_id body
      | Ut_metadata i \<Rightarrow>
          if extended_id = 2 \<and> i \<noteq> 0 then [Other_plugin 2] else plugins_on_extended connector_set xs len extended_id body
      | Smart_ban \<Rightarrow> plugins_on_extended connector_set xs len extended_id body
      | Fcoin \<Rightarrow>
          (case on_extended connector_set len extended_id body of None \<Rightarrow> [] | Some m \<Rightarrow> [Received_message m]))"

definition bt_on_extended ::
    "receive_params \<Rightarrow> bool \<Rightarrow> bool \<Rightarrow> nat \<Rightarrow> byte list \<Rightarrow> extension_state \<Rightarrow> (extension_state \<times> hs_action list) option" where
  "bt_on_extended p torrent_expired connector_set packet_size recv_buffer s =
     (let packet_finished = (packet_size \<le> length recv_buffer); extended_id = recv_buffer ! 1; body = drop 2 recv_buffer;
          flag = (\<lambda>f. if \<not> packet_finished \<or> packet_size \<noteq> 3 then Some []
                      else if body = [] then None else Some [f (hd body \<noteq> 0)])
      in if packet_size < 2 \<or> torrent_expired then Some (s, [Disconnect_invalid_extended])
         else if length recv_buffer < 2 then Some (s, [])
         else if extended_id = 0
         then map_option (map_prod id (\<lambda>acts. acts @ [Disconnect_if_redundant])) (on_extended_handshake p packet_finished recv_buffer s)
         else
           map_option (Pair s)
             (if extended_id = 3 then flag Upload_only
              else if extended_id = 8 then flag Share_mode
              else if extended_id = 4 then (if \<not> packet_finished then Some [] else Some [Holepunch])
              else if extended_id = 7
              then (if \<not> packet_finished \<or> packet_size \<noteq> 6 then Some []
                    else if length body < 4 then None else Some [Dont_have (sint (word_le (rev (take 4 body)) :: u32))])
              else Some (plugins_on_extended connector_set (m_extensions s) (packet_size - 2) extended_id body)))"

section \<open>What a handshake may hold\<close>

text \<open>A dictionary of numbers and strings, with a dictionary of message numbers under \<open>m\<close>.\<close>

definition flat_entry :: "entry \<Rightarrow> bool" where
  "flat_entry e \<longleftrightarrow> entry_ok e \<and> height (raw_of e) = 1"

definition handshake_ok :: "(byte list \<times> entry) list \<Rightarrow> (byte list \<times> entry) list \<Rightarrow> bool" where
  "handshake_ok d m \<longleftrightarrow> map_wf d \<and> map_find d (string_bytes ''m'') = Some (EDict m) \<and> map_wf m \<and>
     (\<forall>(k, e) \<in> set m. str_ok k \<and> flat_entry e) \<and> (\<forall>(k, e) \<in> set d. str_ok k \<and> (k \<noteq> string_bytes ''m'' \<longrightarrow> flat_entry e))"

lemma flat_entry_simps [simp]: "flat_entry (EInt i) = writable i" "flat_entry (EString s) = str_ok s"
  by (simp_all add: flat_entry_def raw_str_def)

lemma writable_sint [simp]: "writable (sint (w :: u32))"
  using sint_ge [of w] sint_lt [of w] by (simp add: writable_def)

lemma string_bytes_eq [simp]: "string_bytes a = string_bytes b \<longleftrightarrow> a = b"
proof -
  have "inj byte_of_char" by (rule inj_on_inverseI [of _ char_of_byte]) simp
  then show ?thesis by (simp add: string_bytes_def inj_map_eq_map)
qed

lemma map_put_put [simp]: "map_put k v (map_put k w d) = map_put k v d"
  by (induction k w d rule: map_put.induct) auto

lemma entry_at_EDict:
  "entry_at key f (EDict d) =
     map_option (\<lambda>v. EDict (map_put key v d)) (f (case map_find d key of None \<Rightarrow> EUndefined | Some v \<Rightarrow> v))"
  by (simp add: entry_at_def entry_dict_def map_index_def split: option.split)

lemma put_entry_EDict: "put_entry key v (EDict d) = Some (EDict (map_put key v d))"
  by (simp add: put_entry_def entry_at_EDict)

lemma handshake_ok_put:
  "handshake_ok d m \<Longrightarrow> str_ok key \<Longrightarrow> flat_entry v \<Longrightarrow> key \<noteq> string_bytes ''m'' \<Longrightarrow> handshake_ok (map_put key v d) m"
  unfolding handshake_ok_def by (auto simp: map_wf_put map_find_put dest!: subsetD [OF set_map_put_subset])

lemma handshake_ok_message:
  assumes "handshake_ok d m" "str_ok key" "writable i"
  shows "put_message key i (EDict d) = Some (EDict (map_put (string_bytes ''m'') (EDict (map_put key (EInt i) m)) d))"
    "handshake_ok (map_put (string_bytes ''m'') (EDict (map_put key (EInt i) m)) d) (map_put key (EInt i) m)"
proof -
  show "put_message key i (EDict d) = Some (EDict (map_put (string_bytes ''m'') (EDict (map_put key (EInt i) m)) d))"
    using assms(1) by (simp add: put_message_def entry_at_EDict put_entry_EDict handshake_ok_def)
  have "str_ok (string_bytes ''m'')" by (simp add: str_ok_def string_bytes_def)
  then show "handshake_ok (map_put (string_bytes ''m'') (EDict (map_put key (EInt i) m)) d) (map_put key (EInt i) m)"
    using assms unfolding handshake_ok_def by (auto simp: map_wf_put map_find_put dest!: subsetD [OF set_map_put_subset])
qed

lemma str_ok_string_bytes: "length s < 100 \<Longrightarrow> str_ok (string_bytes s)"
  by (simp add: str_ok_def string_bytes_def)

text \<open>A statement keeps the shape of the handshake and gives numbers to some messages.\<close>

definition adds_messages :: "(entry \<Rightarrow> entry option) \<Rightarrow> (byte list \<Rightarrow> entry option) \<Rightarrow> bool" where
  "adds_messages f names \<longleftrightarrow> (\<forall>d m. handshake_ok d m \<longrightarrow>
     (\<exists>d' m'. f (EDict d) = Some (EDict d') \<and> handshake_ok d' m' \<and> map_find m' = map_find m ++ names))"

lemma adds_put_entry: "str_ok key \<Longrightarrow> flat_entry v \<Longrightarrow> key \<noteq> string_bytes ''m'' \<Longrightarrow> adds_messages (put_entry key v) Map.empty"
  unfolding adds_messages_def by (auto simp: put_entry_EDict intro: handshake_ok_put)

lemma adds_put_message: "str_ok key \<Longrightarrow> writable i \<Longrightarrow> adds_messages (put_message key i) [key \<mapsto> EInt i]"
  unfolding adds_messages_def using handshake_ok_message by (fastforce simp: map_find_put)

lemma adds_nothing: "adds_messages Some Map.empty"
  unfolding adds_messages_def by auto

lemma adds_bind:
  "adds_messages f names \<Longrightarrow> adds_messages g names' \<Longrightarrow> adds_messages (\<lambda>h. Option.bind (f h) g) (names ++ names')"
  unfolding adds_messages_def by (metis Option.bind.bind_lunit map_add_assoc)

text \<open>The interface of the plugins: each says which messages it names, and the loop over them names them all.\<close>

locale handshake_plugins =
  fixes add :: "'p \<Rightarrow> entry \<Rightarrow> entry option"
    and names :: "'p \<Rightarrow> byte list \<Rightarrow> entry option"
  assumes add_names: "adds_messages (add x) (names x)"
begin

lemma run_add: "adds_messages (run_steps (map add xs)) (foldr (\<lambda>x m. names x ++ m) xs Map.empty)"
proof (induction xs)
  case Nil
  have "run_steps [] = Some" by (rule ext) simp
  then show ?case using adds_nothing by simp
next
  case (Cons x xs)
  have "run_steps (map add (x # xs)) = (\<lambda>h. Option.bind (add x h) (run_steps (map add xs)))" by (rule ext) simp
  then show ?case using adds_bind [OF add_names Cons.IH] by simp
qed

end

definition plugin_names :: "plugin \<Rightarrow> byte list \<Rightarrow> entry option" where
  "plugin_names x =
     (case x of
        Ut_pex _ \<Rightarrow> [string_bytes ''ut_pex'' \<mapsto> EInt 1]
      | Ut_metadata _ \<Rightarrow> [string_bytes ''ut_metadata'' \<mapsto> EInt 2]
      | Smart_ban \<Rightarrow> Map.empty
      | Fcoin \<Rightarrow> [string_bytes ''fcoin_plugin'' \<mapsto> EInt 117])"

lemma writable_small [simp]: "0 \<le> i \<Longrightarrow> i < 1000 \<Longrightarrow> writable i" "writable (- 1)"
  by (simp_all add: writable_def)

lemma adds_fcoin: "adds_messages fcoin_add_handshake [string_bytes ''fcoin_plugin'' \<mapsto> EInt 117]"
proof -
  have f: "fcoin_add_handshake = put_message (string_bytes ''fcoin_plugin'') 117"
    by (rule ext) (simp add: fcoin_add_handshake_def fcoin_extension_id_def)
  show ?thesis unfolding f by (intro adds_put_message str_ok_string_bytes) simp_all
qed

lemma adds_ut_metadata: "adds_messages (ut_metadata_add_handshake p) [string_bytes ''ut_metadata'' \<mapsto> EInt 2]"
proof -
  let ?size = "\<lambda>h. if hp_valid_metadata p then put_entry (string_bytes ''metadata_size'') (EInt (sint (hp_metadata_size p))) h else Some h"
  have "adds_messages ?size Map.empty"
    using adds_nothing by (cases "hp_valid_metadata p") (simp_all add: adds_put_entry str_ok_string_bytes)
  with adds_put_message have "adds_messages (\<lambda>h. Option.bind (put_message (string_bytes ''ut_metadata'') 2 h) ?size)
      ([string_bytes ''ut_metadata'' \<mapsto> EInt 2] ++ Map.empty)"
    by (intro adds_bind) (simp_all add: str_ok_string_bytes)
  moreover have "ut_metadata_add_handshake p = (\<lambda>h. Option.bind (put_message (string_bytes ''ut_metadata'') 2 h) ?size)"
    by (rule ext) (simp add: ut_metadata_add_handshake_def)
  ultimately show ?thesis by simp
qed

interpretation session_plugins: handshake_plugins "add_handshake p" plugin_names for p
proof
  fix x
  have "add_handshake p x = (case x of Ut_pex _ \<Rightarrow> put_message (string_bytes ''ut_pex'') 1
      | Ut_metadata _ \<Rightarrow> ut_metadata_add_handshake p | Smart_ban \<Rightarrow> Some | Fcoin \<Rightarrow> fcoin_add_handshake)"
    by (rule ext) (simp add: add_handshake_def ut_pex_add_handshake_def split: plugin.split)
  then show "adds_messages (add_handshake p x) (plugin_names x)"
    by (simp add: plugin_names_def adds_fcoin adds_ut_metadata adds_nothing adds_put_message str_ok_string_bytes split: plugin.split)
qed

section \<open>The handshake that is written\<close>

definition hp_ok :: "handshake_params \<Rightarrow> bool" where
  "hp_ok p \<longleftrightarrow> str_ok (hp_handshake_client_version p) \<and> str_ok (hp_user_agent p) \<and> str_ok (hp_remote_address p)"

text \<open>The statements before the loop do not name the message of the program.\<close>

definition keeps_fcoin :: "(entry \<Rightarrow> entry option) \<Rightarrow> bool" where
  "keeps_fcoin f \<longleftrightarrow> (\<exists>names. adds_messages f names \<and> names (string_bytes ''fcoin_plugin'') = None)"

lemma keeps_put_entry: "str_ok key \<Longrightarrow> flat_entry v \<Longrightarrow> key \<noteq> string_bytes ''m'' \<Longrightarrow> keeps_fcoin (put_entry key v)"
  unfolding keeps_fcoin_def by (metis adds_put_entry)

lemma keeps_put_message:
  "str_ok key \<Longrightarrow> writable i \<Longrightarrow> key \<noteq> string_bytes ''fcoin_plugin'' \<Longrightarrow> keeps_fcoin (put_message key i)"
  unfolding keeps_fcoin_def using adds_put_message by fastforce

lemma keeps_run: "\<forall>f \<in> set fs. keeps_fcoin f \<Longrightarrow> keeps_fcoin (run_steps fs)"
proof (induction fs)
  case Nil
  have "run_steps [] = Some" by (rule ext) simp
  then show ?case unfolding keeps_fcoin_def using adds_nothing by (intro exI [of _ Map.empty]) simp
next
  case (Cons f fs)
  have r: "run_steps (f # fs) = (\<lambda>h. Option.bind (f h) (run_steps fs))" by (rule ext) simp
  obtain names names' where n: "adds_messages f names" "names (string_bytes ''fcoin_plugin'') = None"
    "adds_messages (run_steps fs) names'" "names' (string_bytes ''fcoin_plugin'') = None"
    using Cons by (auto simp: keeps_fcoin_def)
  show ?case unfolding keeps_fcoin_def r using adds_bind [OF n(1,3)] n(2,4) by (intro exI [of _ "names ++ names'"]) simp
qed

lemma steps_keep_fcoin: "hp_ok p \<Longrightarrow> f \<in> set (tl (handshake_steps p)) \<Longrightarrow> keeps_fcoin f"
  by (auto simp: handshake_steps_def hp_ok_def Let_def split: if_splits
      intro!: keeps_put_entry keeps_put_message str_ok_string_bytes)

lemma run_steps_append: "run_steps (fs @ gs) h = Option.bind (run_steps fs h) (run_steps gs)"
  by (induction fs arbitrary: h) (simp_all split: Option.bind_split)

lemma plugin_names_fcoin:
  "foldr (\<lambda>x m. plugin_names x ++ m) xs Map.empty (string_bytes ''fcoin_plugin'') =
     (if Fcoin \<in> set xs then Some (EInt 117) else None)"
  by (induction xs) (auto simp: plugin_names_def map_add_def split: plugin.splits option.splits if_splits)

lemma handshake_entry_ok:
  assumes "hp_ok p"
  shows "\<exists>d m. handshake_entry p exts = Some (EDict d) \<and> handshake_ok d m \<and>
    map_find m (string_bytes ''fcoin_plugin'') = (if Fcoin \<in> set exts then Some (EInt 117) else None)"
proof -
  let ?d = "[(string_bytes ''m'', EDict [])]" and ?k = "string_bytes ''fcoin_plugin''"
  have d: "handshake_ok ?d []" by (simp add: handshake_ok_def str_ok_string_bytes)
  have hd: "handshake_steps p = entry_at (string_bytes ''m'') (\<lambda>e. map_option EDict (entry_dict e)) # tl (handshake_steps p)"
    by (simp add: handshake_steps_def Let_def)
  have "entry_at (string_bytes ''m'') (\<lambda>e. map_option EDict (entry_dict e)) EUndefined = Some (EDict ?d)"
    by (simp add: entry_at_def entry_dict_def map_index_def)
  then have e: "handshake_entry p exts = Option.bind (run_steps (tl (handshake_steps p)) (EDict ?d)) (run_steps (map (add_handshake p) exts))"
    unfolding handshake_entry_def by (subst hd) (simp add: run_steps_append)
  obtain d1 m1 where 1: "run_steps (tl (handshake_steps p)) (EDict ?d) = Some (EDict d1)" "handshake_ok d1 m1" "map_find m1 ?k = None"
    using keeps_run [of "tl (handshake_steps p)"] steps_keep_fcoin [OF assms] d
    unfolding keeps_fcoin_def adds_messages_def by (fastforce simp: map_add_def)
  obtain d2 m2 where 2: "run_steps (map (add_handshake p) exts) (EDict d1) = Some (EDict d2)" "handshake_ok d2 m2"
    "map_find m2 = map_find m1 ++ foldr (\<lambda>x m. plugin_names x ++ m) exts Map.empty"
    using session_plugins.run_add [of p exts] 1(2) unfolding adds_messages_def by blast
  then show ?thesis using e 1(1,3) plugin_names_fcoin [of exts] by (auto simp: map_add_def)
qed

section \<open>The handshake that is received\<close>

text \<open>What the dictionary of a received handshake says about a message.\<close>

definition raw_index :: "byte list \<Rightarrow> raw list \<Rightarrow> int" where
  "raw_index name rs =
     (case raw_find (string_bytes ''m'') rs of
        Some (RCont True ms) \<Rightarrow> to_int (raw_find_int name (- 1) ms)
      | _ \<Rightarrow> - 1)"

lemma represents_idx: "represents nd r \<Longrightarrow> m_token_idx nd \<noteq> - 1"
  by (auto simp: represents_def)

lemma no_node_idx [simp]: "m_token_idx no_node = - 1"
  by (simp add: no_node_def)

lemma peer_message_index_eq:
  assumes "represents h (RCont True rs)"
  shows "peer_message_index name h = Some (raw_index name rs)"
proof -
  obtain nd where nd: "dict_find_dict h (string_bytes ''m'') = Some nd"
    "case raw_find (string_bytes ''m'') rs of Some (RCont True ms) \<Rightarrow> represents nd (RCont True ms) | _ \<Rightarrow> nd = no_node"
    using dict_find_dict_eq [OF assms] by blast
  show ?thesis
    using nd node_type_eq [OF assms] represents_idx [of nd] dict_find_int_value_eq [of nd]
    by (auto simp: peer_message_index_def raw_index_def split: option.splits raw.splits bool.splits)
qed

lemma dict_find_string_value_eq:
  assumes "represents nd (RCont True rs)"
  shows "\<exists>s. dict_find_string_value nd key def = Some s"
proof (cases "raw_find key rs")
  case None
  then show ?thesis using dict_find_eq [OF assms, of key] by (simp add: dict_find_string_value_def)
next
  case (Some v)
  then obtain nd' where nd: "dict_find nd key = Some nd'" "represents nd' v" using dict_find_eq [OF assms, of key] by auto
  show ?thesis
    using nd node_type_eq [OF nd(2)] string_value_eq [of nd'] by (cases v) (auto simp: dict_find_string_value_def)
qed

text \<open>The plugins that stay, and the peers that are taken out of the connector.\<close>

lemma on_extension_handshake_eq:
  assumes "represents h (RCont True rs)"
  shows "\<exists>y acts. on_extension_handshake h x = Some (y, acts) \<and>
    (y = Some Fcoin \<longleftrightarrow> x = Fcoin \<and> raw_index (string_bytes ''fcoin_plugin'') rs \<noteq> - 1) \<and>
    count_list acts Unregister_peer = (if x = Fcoin \<and> y = None then 1 else 0)"
  using peer_message_index_eq [OF assms] dict_find_int_value_eq [OF assms]
  by (cases x) (simp_all add: on_extension_handshake_def fcoin_on_extension_handshake_def)

lemma filter_extensions_eq:
  assumes "represents h (RCont True rs)"
  shows "\<exists>ys acts. filter_extensions h xs = Some (ys, acts) \<and>
    (Fcoin \<in> set ys \<longleftrightarrow> Fcoin \<in> set xs \<and> raw_index (string_bytes ''fcoin_plugin'') rs \<noteq> - 1) \<and>
    count_list ys Fcoin + count_list acts Unregister_peer = count_list xs Fcoin"
proof (induction xs)
  case (Cons x xs)
  then obtain ys acts where 1: "filter_extensions h xs = Some (ys, acts)"
    "Fcoin \<in> set ys \<longleftrightarrow> Fcoin \<in> set xs \<and> raw_index (string_bytes ''fcoin_plugin'') rs \<noteq> - 1"
    "count_list ys Fcoin + count_list acts Unregister_peer = count_list xs Fcoin" by blast
  obtain y acts' where 2: "on_extension_handshake h x = Some (y, acts')"
    "y = Some Fcoin \<longleftrightarrow> x = Fcoin \<and> raw_index (string_bytes ''fcoin_plugin'') rs \<noteq> - 1"
    "count_list acts' Unregister_peer = (if x = Fcoin \<and> y = None then 1 else 0)"
    using on_extension_handshake_eq [OF assms] by blast
  have "y = None \<or> y = Some Fcoin" if "x = Fcoin"
    using that 2(1) by (auto simp: on_extension_handshake_def split: if_splits)
  then show ?case using 1 2 by (cases y) (auto simp: count_list_append)
qed simp

lemma read_message_ids_ok:
  assumes "represents root (RCont True rs)"
  shows "\<exists>s'. read_message_ids root s = Some s' \<and> m_extensions s' = m_extensions s"
proof -
  obtain nd where nd: "dict_find_dict root (string_bytes ''m'') = Some nd"
    "case raw_find (string_bytes ''m'') rs of Some (RCont True ms) \<Rightarrow> represents nd (RCont True ms) | _ \<Rightarrow> nd = no_node"
    using dict_find_dict_eq [OF assms] by blast
  show ?thesis
    using nd dict_find_int_value_eq [of nd]
    by (auto simp: read_message_ids_def split: option.splits raw.splits bool.splits)
qed

lemma no_unregister: "Unregister_peer \<notin> set (external_address ip)"
  by (simp add: external_address_def)

lemma read_peer_status_ok:
  assumes "represents root (RCont True rs)"
  shows "\<exists>acts'. read_peer_status p root acts = Some (acts @ acts') \<and> count_list acts' Unregister_peer = 0"
proof -
  obtain v ip where v: "dict_find_string_value root (string_bytes ''v'') [] = Some v"
    "dict_find_string_value root (string_bytes ''yourip'') [] = Some ip"
    using dict_find_string_value_eq [OF assms] by metis
  show ?thesis
    using v no_unregister [of ip]
    by (simp add: read_peer_status_def dict_find_int_value_eq [OF assms] Let_def count_list_0_iff)
qed

lemma handshake_dict:
  assumes dec: "bdecode (drop 2 buf) 100 2000000 = (root, no_error, pos)" and rep: "represents root (RCont True rs)"
  shows "\<exists>s' acts. on_extended_handshake p True buf s = Some (s', acts) \<and>
    (Fcoin \<in> set (m_extensions s') \<longleftrightarrow> Fcoin \<in> set (m_extensions s) \<and> raw_index (string_bytes ''fcoin_plugin'') rs \<noteq> - 1) \<and>
    count_list (m_extensions s') Fcoin + count_list acts Unregister_peer = count_list (m_extensions s) Fcoin"
proof -
  obtain ys acts where f: "filter_extensions root (m_extensions s) = Some (ys, acts)"
    "Fcoin \<in> set ys \<longleftrightarrow> Fcoin \<in> set (m_extensions s) \<and> raw_index (string_bytes ''fcoin_plugin'') rs \<noteq> - 1"
    "count_list ys Fcoin + count_list acts Unregister_peer = count_list (m_extensions s) Fcoin"
    using filter_extensions_eq [OF rep] by blast
  obtain s' where s': "read_message_ids root (s\<lparr>m_extensions := ys\<rparr>) = Some s'" "m_extensions s' = ys"
    using read_message_ids_ok [OF rep, of "s\<lparr>m_extensions := ys\<rparr>"] by auto
  let ?port = "to_int (raw_find_int (string_bytes ''p'') 0 rs)"
  let ?acts = "acts @ (if 0 < ?port \<and> rp_peer_info p then [Update_peer_port ?port, Received_listen_port] else [])"
  obtain acts' where r: "read_peer_status p root ?acts = Some (?acts @ acts')" "count_list acts' Unregister_peer = 0"
    using read_peer_status_ok [OF rep, of p ?acts] by blast
  have c: "count_list ?acts Unregister_peer = count_list acts Unregister_peer" by (simp add: count_list_append)
  show ?thesis
    using f s' r c node_type_eq [OF rep]
    by (auto simp: on_extended_handshake_def dec dict_find_int_value_eq [OF rep] Let_def count_list_append)
qed

text \<open>Every buffer that is decoded without an error is a tree, and its root is that tree.\<close>

lemma handshake_total:
  "\<exists>s' acts. on_extended_handshake p fin buf s = Some (s', acts) \<and>
     count_list (m_extensions s') Fcoin + count_list acts Unregister_peer = count_list (m_extensions s) Fcoin"
proof -
  obtain root ec pos where dec: "bdecode (drop 2 buf) 100 2000000 = (root, ec, pos)" by (metis prod_cases3)
  show ?thesis
  proof (cases "fin \<and> ec = no_error")
    case False
    then show ?thesis by (auto simp: on_extended_handshake_def dec)
  next
    case True
    with dec obtain r post where r: "raw_ok r" "drop 2 buf = enc r @ post" "length (drop 2 buf) \<le> max_offset" "root = root_node r post"
      using bdecode_sound by blast
    then have rep: "represents root r" using root_node_represents by metis
    show ?thesis
    proof (cases "raw_type r = Tk_dict")
      case True
      then obtain rs where "r = RCont True rs" by (cases r) (auto split: if_splits)
      then show ?thesis using handshake_dict [of buf root pos rs p s] dec rep \<open>fin \<and> ec = no_error\<close> by auto
    next
      case False
      then show ?thesis using node_type_eq [OF rep] by (auto simp: on_extended_handshake_def dec)
    qed
  qed
qed

text \<open>
  C11: no packet of a peer makes the connection read outside of the packet or of the decoder's tokens.
  For all bytes, complete or not, \<open>on_extended\<close> returns; and a peer is taken out of the connector exactly
  when its plugin is removed from the connection. What the hole punching and the plugins for peer exchange
  and metadata read from their own messages is not covered: they are named as actions.
\<close>

theorem extended_message_safe:
  "\<exists>s' acts. bt_on_extended p torrent_expired connector_set packet_size recv_buffer s = Some (s', acts) \<and>
     count_list (m_extensions s') Fcoin + count_list acts Unregister_peer = count_list (m_extensions s) Fcoin"
proof -
  have plugins: "Unregister_peer \<notin> set (plugins_on_extended c xs len i body)" for c xs len i body
    by (induction c xs len i body rule: plugins_on_extended.induct) (auto split: plugin.splits option.splits)
  obtain s' acts where "on_extended_handshake p (packet_size \<le> length recv_buffer) recv_buffer s = Some (s', acts)"
    "count_list (m_extensions s') Fcoin + count_list acts Unregister_peer = count_list (m_extensions s) Fcoin"
    using handshake_total by blast
  then show ?thesis using plugins by (simp add: bt_on_extended_def Let_def count_list_append count_list_0_iff) auto
qed

section \<open>Two nodes\<close>

lemma raw_find_items: "raw_find k (raw_items d) = map_option raw_of (map_find d k)"
  by (induction d rule: raw_items.induct) (auto simp: raw_str_def)

lemma handshake_ok_entry:
  assumes "handshake_ok d m"
  shows "entry_ok (EDict d)" "height (raw_of (EDict d)) \<le> 3"
    "raw_index name (raw_items d) = (case map_find m name of Some (EInt i) \<Rightarrow> to_int i | _ \<Rightarrow> - 1)"
proof -
  have m: "\<forall>(k, e) \<in> set m. str_ok k \<and> entry_ok e \<and> height (raw_of e) = 1"
    using assms by (auto simp: handshake_ok_def flat_entry_def)
  then have "heights (raw_items m) = 1" by (induction m rule: raw_items.induct) (auto simp: raw_str_def)
  moreover have "e = EDict m" if "(string_bytes ''m'', e) \<in> set d" for e
    using that assms map_find_eq_Some [of d "string_bytes ''m''" e] by (simp add: handshake_ok_def)
  ultimately have d: "\<forall>(k, e) \<in> set d. str_ok k \<and> (k \<noteq> string_bytes ''m'' \<longrightarrow> entry_ok e) \<and> (k = string_bytes ''m'' \<longrightarrow> e = EDict m) \<and> height (raw_of e) \<le> 2"
    using assms by (fastforce simp: handshake_ok_def flat_entry_def)
  show "entry_ok (EDict d)" using d m assms by (fastforce simp: handshake_ok_def)
  have "heights (raw_items d) \<le> 2" using d by (induction d rule: raw_items.induct) (auto simp: raw_str_def)
  then show "height (raw_of (EDict d)) \<le> 3" by simp
  have "writable i" if "map_find m name = Some (EInt i)" for i
    using map_find_in_set [OF that] assms by (auto simp: handshake_ok_def)
  then show "raw_index name (raw_items d) = (case map_find m name of Some (EInt i) \<Rightarrow> to_int i | _ \<Rightarrow> - 1)"
    using assms
    by (auto simp: raw_index_def raw_find_items raw_find_int_def handshake_ok_def write_integer_ok raw_str_def to_int_def
        split: option.split entry.split)
qed

text \<open>
  C10: two nodes recognise each other. Whatever the settings of the sender and whichever plugins both
  sides have loaded (strings of less than \<open>10 ^ 8\<close> bytes), \<open>write_extensions\<close> sends a message; if it has
  up to 2000000 bytes, the other side reads it as one packet with the length in its header, and the plugin
  of the program stays on that connection exactly when the sender has it too.
\<close>

theorem handshake_recognised:
  assumes "hp_ok p"
  shows "\<exists>msg. write_extensions p exts = Some msg \<and>
    (length msg \<le> 2000000 \<longrightarrow>
      (\<exists>s' acts. read_packet_size msg = Packet_of (length msg - 4) \<and>
         bt_on_extended rp False connector_set (length msg - 4) (drop 4 msg) s = Some (s', acts) \<and>
         (Fcoin \<in> set (m_extensions s') \<longleftrightarrow> Fcoin \<in> set (m_extensions s) \<and> Fcoin \<in> set exts)))"
proof -
  obtain d m where d: "handshake_entry p exts = Some (EDict d)" "handshake_ok d m"
    "map_find m (string_bytes ''fcoin_plugin'') = (if Fcoin \<in> set exts then Some (EInt 117) else None)"
    using handshake_entry_ok [OF assms] by blast
  note ok = handshake_ok_entry [OF d(2)]
  let ?b = "bencode (EDict d)"
  let ?msg = "write_uint32 (of_nat (length ?b + 2)) @ [msg_extended, 0] @ ?b"
  have idx: "raw_index (string_bytes ''fcoin_plugin'') (raw_items d) \<noteq> - 1 \<longleftrightarrow> Fcoin \<in> set exts"
    using ok(3) d(3) by (simp add: to_int_def)
  have recv: "\<exists>s' acts. read_packet_size ?msg = Packet_of (length ?msg - 4) \<and>
      bt_on_extended rp False connector_set (length ?msg - 4) (drop 4 ?msg) s = Some (s', acts) \<and>
      (Fcoin \<in> set (m_extensions s') \<longleftrightarrow> Fcoin \<in> set (m_extensions s) \<and> Fcoin \<in> set exts)" if len: "length ?msg \<le> 2000000"
  proof -
    have l: "length ?b \<le> 2000000" using len by simp
    have enc: "?b = enc (RCont True (raw_items d))" "raw_ok (RCont True (raw_items d))"
      using bencode_enc [OF ok(1)] raw_ok_of [OF ok(1)] by simp_all
    have "bdecode (?b @ []) 100 2000000 = (root_node (RCont True (raw_items d)) [], no_error, 0)"
      unfolding enc(1) using enc l ok(2) ntoks_le(1) [of "RCont True (raw_items d)"]
      by (intro bdecode_accepts) (simp_all add: max_offset_def)
    then have dec: "bdecode (drop 2 ([msg_extended, 0] @ ?b)) 100 2000000 = (root_node (RCont True (raw_items d)) [], no_error, 0)" by simp
    have rep: "represents (root_node (RCont True (raw_items d)) []) (RCont True (raw_items d))"
      using enc l by (intro root_node_represents) (simp_all add: max_offset_def)
    have p: "read_packet_size ?msg = Packet_of (length ?b + 2)" "drop 4 ?msg = [msg_extended, 0] @ ?b" "length ?msg - 4 = length ?b + 2"
      using read_packet_size_frame [of "[msg_extended, 0] @ ?b" "[]"] l by simp_all
    show ?thesis
      using handshake_dict [OF dec rep, of rp s] idx unfolding p by (auto simp: bt_on_extended_def)
  qed
  show ?thesis using d(1) recv by (auto simp: write_extensions_def Let_def)
qed

text \<open>
  C13: a message of the program of less than \<open>2 ^ 31 - 2\<close> bytes that a peer has framed with \<open>sendMessage\<close>
  is read as one packet and reaches \<open>receivedMessage\<close> of the connector as it was sent, on every connection
  that has kept the plugin, whatever other plugins are before it; nothing else happens to the connection.
  A longer one, of up to \<open>2 ^ 32 - 3\<close> bytes, has a negative length for the other side, which ends the connection.
\<close>

theorem message_delivered:
  assumes "Fcoin \<in> set (m_extensions s)"
  shows "(length m + 2 < 2 ^ 31 \<longrightarrow> read_packet_size (frame m) = Packet_of (length m + 2) \<and>
      bt_on_extended rp False True (length m + 2) (drop 4 (frame m)) s = Some (s, [Received_message m])) \<and>
    (2 ^ 31 \<le> length m + 2 \<and> length m + 2 < 2 ^ 32 \<longrightarrow> read_packet_size (frame m) = Packet_too_large)"
proof -
  let ?packet = "msg_extended # fcoin_extension_id # m"
  have "plugins_on_extended True xs (length m) 117 m = [Received_message m]" if "Fcoin \<in> set xs" for xs
    using that by (induction xs) (auto simp: on_extended_def fcoin_extension_id_def split: plugin.split)
  moreover have "drop 4 (frame m) = ?packet" by (simp add: frame_packet)
  ultimately have "bt_on_extended rp False True (length m + 2) (drop 4 (frame m)) s = Some (s, [Received_message m])"
    using assms by (simp add: bt_on_extended_def fcoin_extension_id_def)
  moreover have "read_packet_size (frame m) = Packet_of (length m + 2)" if "length m + 2 < 2 ^ 31"
    using read_packet_size_frame(1) [of ?packet "[]"] that by (simp add: frame_packet)
  moreover have "read_packet_size (frame m) = Packet_too_large" if "2 ^ 31 \<le> length m + 2" "length m + 2 < 2 ^ 32"
    using read_packet_size_large [of ?packet "[]"] that by (simp add: frame_packet)
  ultimately show ?thesis by blast
qed

text \<open>A node with the plugins of every session, and a connection of another such node.\<close>

definition sample_params :: handshake_params where
  "sample_params =
     \<lparr>hp_outgoing = True, hp_listen_port = 80, hp_anonymous_mode = False, hp_handshake_client_version = [],
      hp_user_agent = string_bytes ''libtorrent/1.2.2.0'', hp_i2p = False, hp_remote_address = [127, 0, 0, 1],
      hp_request_queue = 50, hp_support_share_mode = True, hp_last_seen_complete = 0, hp_time_since_complete = 0,
      hp_upload_only = False, hp_share_mode = False, hp_valid_metadata = True, hp_super_seeding = False, hp_metadata_size = 64\<rparr>"

definition sample_connection :: extension_state where
  "sample_connection =
     \<lparr>m_extensions = [Ut_pex 0, Ut_metadata 0, Smart_ban, Fcoin], m_upload_only_id = 0, m_holepunch_id = 0, m_dont_have_id = 0\<rparr>"

definition sample_receiver :: receive_params where
  "sample_receiver =
     \<lparr>rp_disconnecting = (\<lambda>_. False), rp_upload_only = (\<lambda>_. False), rp_peer_info = True, rp_support_share_mode = True,
      rp_finished = False, rp_close_redundant = True, rp_share_mode = False\<rparr>"

theorem handshake_recognised_witness:
  "\<exists>msg s' acts. write_extensions sample_params (m_extensions sample_connection) = Some msg \<and> length msg = 223 \<and>
     read_packet_size msg = Packet_of 219 \<and>
     bt_on_extended sample_receiver False True 219 (drop 4 msg) sample_connection = Some (s', acts) \<and>
     Fcoin \<in> set (m_extensions s')"
proof -
  have "hp_ok sample_params" by (simp add: sample_params_def hp_ok_def str_ok_def string_bytes_def)
  moreover have "map_option length (write_extensions sample_params (m_extensions sample_connection)) = Some 223" by code_simp
  moreover have "Fcoin \<in> set (m_extensions sample_connection)" by (simp add: sample_connection_def)
  ultimately show ?thesis
    using handshake_recognised [of sample_params "m_extensions sample_connection" sample_receiver True sample_connection] by auto
qed

theorem message_delivered_witness:
  "read_packet_size (frame [1, 2]) = Packet_of 4 \<and>
   bt_on_extended sample_receiver False True 4 (drop 4 (frame [1, 2])) sample_connection =
     Some (sample_connection, [Received_message [1, 2]])"
proof -
  have l: "length [1, 2 :: byte] + 2 = 4" by simp
  show ?thesis using message_delivered [of sample_connection "[1, 2]" sample_receiver] unfolding l by (simp add: sample_connection_def)
qed

end
