(* ===== verification/Spec2Isabelle.thy ===== *)
theory Spec2Isabelle
  imports Hash_Helper Bloom_Filter Crypto_Properties Cache_Properties Chain_Properties Block_Printing P2P_Connector Agreement
    Fetch_Properties Node_Properties Network Message_Safety Double_Spend Main_Program Peer_Estimation System_Services Extension_Handshake
begin

text \<open>
  SwabianCoin: a full node of a crypto currency, verified in Isabelle/HOL.

  \<^bold>\<open>The program.\<close> A node (src/src/scn) keeps a chain of blocks. A block is either a baseline, which
  holds all balances and all mined hashes, or a collection of signed transactions and coin creations.
  Every two minutes the nodes agree on the next collection block, without a vote: each propagates its
  candidate and merges the sub blocks it receives; after 720 blocks the chain is replaced by a new
  baseline. Mining is the search for texts whose SHA-256 hash lies in the interval of the current
  epoch. The parts are the class \<open>Blockchain\<close> with its \<open>Cache\<close> on disk, \<open>CryptoHelper\<close>, the
  \<open>BlockchainManager\<close> with its four cycle states, \<open>MinerLocal\<close>, and \<open>P2PConnector\<close> on top of a libtorrent
  extension. The manager's thread switches the states by the clock; the connector and the miner call back
  into it; the cache writes blocks to disk in a thread of its own.

  \<^bold>\<open>How it is modelled.\<close> Classes are records, enums datatypes, machine integers words of their width,
  \<open>std::map\<close> a sorted association list. An operation takes and returns the state; what may abort (a failed
  \<open>assert\<close>, a null pointer, an index out of range, a bad cast, an uncaught exception, a division by zero, an
  uninitialised variable, a conversion out of range) returns the sum type \<open>res\<close>. A thread is a step function or a step relation, one loop iteration or less at
  a time; the step relations of a node interleave them. The clock, random numbers, the number of peers and
  measured durations are inputs. OpenSSL and boost's base64 iterators are fields of the record \<open>env\<close>, with
  the build's \<open>NDEBUG\<close> and the byte order of the host; the laws they are assumed to satisfy
  (\<open>sha_stream\<close>, \<open>base64_ok\<close>, \<open>key_pair_ok\<close>) are named hypotheses, which \<open>Sample_Environment\<close> shows to be
  satisfiable.

  \<^bold>\<open>Theories.\<close>
  \<^item> \<open>Scn_Prelude\<close>, \<open>Std_Map\<close>: the typedefs of Common.h, the result type, word lemmas, and \<open>std::map\<close> with the
    locale \<open>ordered_map\<close> of its laws.
  \<^item> \<open>Hash_Helper\<close> (Common/Common.cpp), \<open>Public_Key_PEM\<close> (Common/PublicKeyPEM.cpp), \<open>Bloom_Filter\<close>
    (Common/BloomFilter.cpp): conversions of hashes, keys and their PEM form, the filter without false
    negatives.
  \<^item> \<open>Cereal_Archive\<close>, \<open>Block_Definitions\<close> (dep/cereal-1.3.0, Blockchain/BlockDefinitions.h): writers and
    readers of the portable archive; the locale \<open>codec\<close> states the round trip across byte orders, and is
    interpreted for every type up to the two block classes.
  \<^item> \<open>Crypto_Helper\<close>, \<open>Crypto_Properties\<close> (CryptoHelper/): hashing through the stream buffer, signatures,
    base64 framing; the locales \<open>hashed_block\<close> and \<open>signed_block\<close> are what the four block classes share.
  \<^item> \<open>Block_Cache\<close>, \<open>Cache_Properties\<close> (Blockchain/Cache.cpp): the cache and its thread in three parts;
    nothing a client reads depends on how far the thread is. The locale \<open>block_store\<close> is the interface the
    chain uses.
  \<^item> \<open>Hash_Area\<close>, \<open>Baseline_State\<close>, \<open>Blockchain\<close>, \<open>Block_Validation\<close> (Blockchain/Blockchain.cpp): hash
    areas, the running baseline, adding and importing blocks, all validations.
  \<^item> \<open>Chain_Refinement\<close>, \<open>Chain_Properties\<close>: the object as a list of blocks (\<open>chain_rep\<close>), the invariant
    \<open>chain_inv\<close> of all reachable chains but those on a root without epochs (\<open>stored_inv\<close>), exact balances, what an accepted block guarantees; and the inputs
    on which validation accepts what it should not.
  \<^item> \<open>Block_Printing\<close> (Blockchain/BlockDefinitions.cpp, the output functions of Blockchain.cpp): the text of
    blocks; the locales \<open>printer\<close> and \<open>tagged_printer\<close> say that a text determines what it shows and where it
    ends, and so the text of a block its content.
  \<^item> \<open>Block_Schedule\<close>, \<open>Peers_Monitor\<close>, \<open>Out_Of_Sync_Detector\<close>, \<open>Active_Peers_Collector\<close>,
    \<open>Block_Fetch_Agent\<close>, \<open>Miner_Local\<close>: the manager's helpers (BlockchainManager/) and the miner
    (Miner/MinerLocal.cpp).
  \<^item> \<open>Manager_State\<close>, \<open>Cycle_Collect\<close>, \<open>Cycle_Introduce_Block\<close>, \<open>Cycle_Fetch\<close>, \<open>Blockchain_Manager\<close>: the
    manager, its states (CycleStateCollect.cpp, CycleStateIntroduceBlock.cpp, CycleStateIntroduceBaseline.cpp,
    CycleStateFetchBlockchain.cpp) and its thread.
  \<^item> \<open>Agreement\<close>: the merge of two candidates is their union; and how a peer gets a forged transaction merged.
  \<^item> \<open>Fetch_Sync\<close>, \<open>Fetch_Properties\<close>: a fetching node catches up with honest peers in a bounded number of
    rounds, its loops end, its percentage is exact; one invalid reply stops it.
  \<^item> \<open>Node_Steps\<close>, \<open>Node_Properties\<close>: a whole node, all threads interleaved; the locale \<open>cycle_state\<close> is the
    interface \<open>ICycleState\<close>. The chain keeps in step with the clock, the states follow each other in order,
    and a stopped thread ends.
  \<^item> \<open>Peer_Plugin\<close>, \<open>P2P_Definitions\<close>, \<open>P2P_Connector\<close> (LibTorrentFcoinPlugin.cpp, P2PConnector/): frames
    and the reader of the connection that takes them apart (a signed length, negative ones end the connection),
    messages and their handling; what is sent arrives.
  \<^item> \<open>Bdecode\<close>, \<open>Bdecode_Tree\<close>, \<open>Bdecode_Query\<close> (src/bdecode.cpp of the libtorrent copy): the decoder of bencoded
    data, a loop with a stack that writes a flat array of tokens, and the queries on its nodes. The decoder
    accepts exactly the texts of trees and writes the tokens of the tree; a node answers as its tree does.
  \<^item> \<open>Bencode\<close> (entry.cpp, bencode.hpp): entries, their encoding and the conversion of a node to an entry; what is
    written is read back.
  \<^item> \<open>Extension_Handshake\<close> (bt_peer_connection.cpp, LibTorrentFcoinPlugin.cpp, ut_pex.cpp, ut_metadata.cpp): the
    handshake by which two nodes find out that both have the plugin, and the dispatch of extension messages.
    The locale \<open>handshake_plugins\<close> is what the loop over the plugins relies on. Nodes recognise each other, no
    bytes of a peer lead to a read out of range, and a message reaches the connector.
  \<^item> \<open>Network\<close>: a manager with its connector, two of them on a connection. Nodes that introduce different
    candidates end with the same block, and a fetching node gets the blocks it asks for, over the bytes that
    are sent.
  \<^item> \<open>Message_Safety\<close>: a received message with the callbacks it leads to. The files of every reachable chain are
    readable, and no bytes of a peer stop a node, but for a block with an empty signature.
  \<^item> \<open>Double_Spend\<close>: what leaving the introduce state books, and two payments out of one balance that the
    merge puts into one block.
  \<^item> \<open>Entry_Point_Fetcher\<close> (P2PConnector/EntryPointFetcher.cpp): the list of entry points and its parsing.
  \<^item> \<open>Double\<close>, \<open>Main_Program\<close> (src/main.cpp): the rounding of IEEE 754 doubles on rationals, the start of the
    program and its loop over the typed commands; what amount is transferred, what the status shows, and what
    a number that cannot be read does.
  \<^item> \<open>Peer_Estimation\<close> (BloomFilter.h, ActivePeersCollector.cpp): the estimate of the number of peers, each
    operation of it rounded to a float; the logarithm of the C library is a parameter that is exact up to the
    last place. The estimate is accurate while a bit is zero, and its conversion undefined when none is.
  \<^item> \<open>System_Services\<close> (SynchronizedTimer.cpp, SystemMonitor.cpp): the clock in milliseconds and the thread that
    logs the free memory.
  \<^item> \<open>Sample_Environment\<close>, \<open>Sample_Chain\<close>: the concrete inputs of the witnesses.

  \<^bold>\<open>Bounds.\<close> There is no fuel: every loop of the model is a function with a termination proof, a loop that
  waits for its surroundings is a step. Two functions are partial functions into \<open>option\<close>: the loop that prints
  a chain, which may not end, and the conversion of a decoded node to an entry, which recurses over the
  decoder's tokens; that they return is proved for the chains that occur and for all encoded entries. Hypotheses on sizes are those of the machine (containers below
  \<open>2 ^ 64\<close>, ids and epochs not at the end of their 64 bits, amounts below \<open>2 ^ 63\<close> where a signed sum is
  formed) or of the protocol (10000 transactions and 1000 creations, chains of up to 40 million blocks for
  the 32-bit percentage). SHA-256 is injective only where a hypothesis says so.

  The decoder is called with its default limits, 100 levels and 2000000 tokens; a handshake has three levels and
  at most one token for each of its bytes.

  \<^bold>\<open>Not modelled.\<close> The rest of libtorrent: sockets, the session with its alert thread, the torrent, the piece
  picker, the DHT, the encryption of connections, and what the plugins for peer exchange and metadata do with
  their messages. The program uses none of them for its own messages; where the handshake reads from them, their
  answers are arguments, and calls into them are listed as actions. The layout and colours of what the command
  line prints (its values are modelled), the system calls behind the clock and the memory statistics (arguments),
  the download of the entry points, mutexes (a step is what runs under a lock), and logging.
\<close>

end
